(* ===== verification/Prelude.thy ===== *)
theory Prelude
  imports Complex_Main "HOL-Library.Char_ord" "HOL-Library.List_Lexorder"
begin

text \<open>
  The shared vocabulary of the development: the Go values every component handles (errors,
  instants, durations, 64-bit integers), and the generic lemmas on lists, options and folds the
  component proofs share.

  Go strings are byte strings, so the type \<^typ>\<open>string\<close> (a list of 8-bit characters) models
  them exactly: \<open>len\<close> is \<^const>\<open>length\<close> and \<open><\<close> is the byte-wise lexicographic order of
  \<open>HOL-Library.List_Lexorder\<close>.
\<close>

named_theorems go_defs "definitions of small Go helpers, unfolded by the component proofs"

section \<open>Errors\<close>

text \<open>
  An error is a contract rejection (\<open>contract.PermanentError\<close>), a plain \<open>errors.New\<close> or
  dependency error, or an error wrapped by \<open>fmt.Errorf\<close> with \<open>%w\<close>.
\<close>

datatype go_error =
    PermanentError string
  | PlainError string
  | Wrapped string go_error

type_synonym 'a result = "go_error + 'a"

section \<open>Instants and durations\<close>

text \<open>
  A \<open>time.Time\<close> is its distance from the Unix epoch in nanoseconds (always UTC in this program),
  a \<open>time.Duration\<close> a number of nanoseconds. \<open>Time.Sub\<close> saturates at the 64-bit bounds;
  \<open>Time.UnixMilli\<close> computes in 64-bit arithmetic, written out by \<open>wrap64\<close>.
\<close>

type_synonym time = int
type_synonym duration = int

definition min_int64 :: int where
  "min_int64 = - (2 ^ 63)"

definition max_int64 :: int where
  "max_int64 = 2 ^ 63 - 1"

definition wrap64 :: "int \<Rightarrow> int" where
  "wrap64 v = (v + 2 ^ 63) mod 2 ^ 64 - 2 ^ 63"

definition second_ns :: duration where
  "second_ns = 1000000000"

definition time_Sub :: "time \<Rightarrow> time \<Rightarrow> duration" where
  "time_Sub t u = max min_int64 (min max_int64 (t - u))"

definition UnixMilli :: "int \<Rightarrow> time" where
  "UnixMilli ms = ms * 1000000"

definition to_UnixMilli :: "time \<Rightarrow> int" where
  "to_UnixMilli t = wrap64 (t div 1000000)"

lemma wrap64_id: "min_int64 \<le> v \<Longrightarrow> v \<le> max_int64 \<Longrightarrow> wrap64 v = v"
  by (simp add: wrap64_def min_int64_def max_int64_def)

lemma wrap64_range: "min_int64 \<le> wrap64 v" "wrap64 v \<le> max_int64"
  using pos_mod_bound [of "2 ^ 64" "v + 2 ^ 63"]
  by (simp_all add: wrap64_def min_int64_def max_int64_def)

lemma UnixMilli_roundtrip:
  "min_int64 \<le> ms \<Longrightarrow> ms \<le> max_int64 \<Longrightarrow> to_UnixMilli (UnixMilli ms) = ms"
  by (simp add: to_UnixMilli_def UnixMilli_def wrap64_id)

lemma UnixMilli_inject [simp]: "UnixMilli a = UnixMilli b \<longleftrightarrow> a = b"
  by (simp add: UnixMilli_def)

section \<open>Generic lemmas\<close>

lemma sum_list_map_le:
  "(\<And>x. x \<in> set xs \<Longrightarrow> f x \<le> (c :: rat)) \<Longrightarrow> (\<Sum>x\<leftarrow>xs. f x) \<le> of_nat (length xs) * c"
proof (induction xs)
  case (Cons a xs)
  then have "f a \<le> c" and "(\<Sum>x\<leftarrow>xs. f x) \<le> of_nat (length xs) * c" by auto
  then show ?case by (simp add: algebra_simps)
qed simp

lemma Inl_split_iff: "(case r of Inl e \<Rightarrow> Inl e | Inr x \<Rightarrow> f x) = Inr y \<longleftrightarrow> (\<exists>x. r = Inr x \<and> f x = Inr y)"
  by (cases r) auto

end
