(* ===== verification/Float64.thy ===== *)
theory Float64
  imports Prelude "HOL-Library.Log_Nat" "HOL-Library.Signed_Division"
begin

text \<open>
  Go's \<open>float64\<close>: IEEE 754 binary64 with round-to-nearest, ties-to-even, signed zeros, infinities
  and NaN, written so that every operation evaluates. A finite non-zero number is its exact
  rational value; each arithmetic operation rounds the exact rational result once
  (\<open>round64\<close>), which is what the standard prescribes and what Go's operators do.

  The theory also holds the part of package \<open>math\<close> the program calls (\<open>IsNaN\<close>, \<open>IsInf\<close>,
  \<open>Max\<close>, \<open>Floor\<close>) and the facts the power-budget proofs rest on: rounding is monotone,
  idempotent, and its error is at most half a unit in the last place.
\<close>

section \<open>Rounding a rational to binary64\<close>

text \<open>
  \<open>ilog2 x\<close> is the exponent of the binade of a positive \<open>x\<close>; \<open>ulp64 x\<close> the spacing of binary64
  numbers there (53 significant bits, gradual underflow below \<open>2\<^sup>-\<^sup>1\<^sup>0\<^sup>2\<^sup>2\<close>).
\<close>

definition ilog2 :: "rat \<Rightarrow> int" where
  "ilog2 x = (let (n, d) = quotient_of x; k = bitlen n - bitlen d
              in if 2 powi k \<le> x then k else k - 1)"

definition round_half_even :: "rat \<Rightarrow> int" where
  "round_half_even y =
     (let f = \<lfloor>y\<rfloor>; r = y - of_int f
      in if r < 1 / 2 then f else if 1 / 2 < r then f + 1 else if even f then f else f + 1)"

definition ulp64 :: "rat \<Rightarrow> rat" where
  "ulp64 x = 2 powi (max (ilog2 \<bar>x\<bar> - 52) (- 1074))"

definition round64 :: "rat \<Rightarrow> rat" where
  "round64 x = (if x = 0 then 0 else of_int (round_half_even (x / ulp64 x)) * ulp64 x)"

definition representable :: "rat \<Rightarrow> bool" where
  "representable x \<longleftrightarrow> round64 x = x"

lemma powi_two_pos [simp]: "0 < (2 :: rat) powi k"
  by (simp add: zero_less_power_int)

lemma powi_two_mono: "i \<le> j \<Longrightarrow> (2 :: rat) powi i \<le> 2 powi j"
  by (simp add: power_int_increasing)

lemma powi_two_less: "(2 :: rat) powi i < 2 powi j \<longleftrightarrow> i < j"
  by (metis linorder_not_less powi_two_mono power_int_strict_increasing one_less_numeral_iff semiring_norm(76))

lemma powi_two_add: "(2 :: rat) powi (i + j) = 2 powi i * 2 powi j"
  by (simp add: power_int_add)

lemma powi_two_split: "i \<le> j \<Longrightarrow> (2 :: rat) powi j = of_int (2 ^ nat (j - i)) * 2 powi i"
  using powi_two_add [of "j - i" i] by (simp add: power_int_def [of _ "j - i"])

lemma bitlen_bounds_powi:
  assumes "0 < n"
  shows "2 powi (bitlen n - 1) \<le> (of_int n :: rat)" and "(of_int n :: rat) < 2 powi (bitlen n)"
proof -
  have b: "2 ^ nat (bitlen n - 1) \<le> n" "n < 2 ^ nat (bitlen n)" "0 \<le> bitlen n - 1"
    using bitlen_bounds [OF assms] bitlen_nonneg [of n] bitlen_eq_zero_iff [of n] assms
    by linarith+
  have "(2 :: rat) powi (bitlen n - 1) = of_int (2 ^ nat (bitlen n - 1))"
    using b(3) by (simp add: power_int_def)
  then show "2 powi (bitlen n - 1) \<le> (of_int n :: rat)" using b(1) by (metis of_int_le_iff)
  have "(2 :: rat) powi (bitlen n) = of_int (2 ^ nat (bitlen n))"
    using b(3) by (simp add: power_int_def)
  then show "(of_int n :: rat) < 2 powi (bitlen n)" using b(2) by (metis of_int_less_iff)
qed

lemma ilog2_bounds:
  assumes "0 < x"
  shows "2 powi (ilog2 x) \<le> x" and "x < 2 powi (ilog2 x + 1)"
proof -
  obtain n d where q: "quotient_of x = (n, d)" by fastforce
  have d: "0 < d" and xnd: "x = of_int n / of_int d"
    using q quotient_of_denom_pos quotient_of_div by blast+
  have n: "0 < n" using assms d by (simp add: xnd zero_less_divide_iff)
  let ?k = "bitlen n - bitlen d"
  have hi: "x < 2 powi (?k + 1)"
  proof -
    have "of_int n < 2 powi (?k + 1) * (2 powi (bitlen d - 1) :: rat)"
      using bitlen_bounds_powi(2) [OF n] by (simp flip: powi_two_add)
    also have "\<dots> \<le> 2 powi (?k + 1) * of_int d"
      using bitlen_bounds_powi(1) [OF d] by (simp add: mult_left_mono)
    finally show ?thesis using d by (simp add: xnd divide_less_eq)
  qed
  have lo: "2 powi (?k - 1) \<le> x"
  proof -
    have "2 powi (?k - 1) * of_int d \<le> 2 powi (?k - 1) * (2 powi (bitlen d) :: rat)"
      using bitlen_bounds_powi(2) [OF d] by (simp add: mult_left_mono less_imp_le)
    also have "\<dots> \<le> of_int n"
      using bitlen_bounds_powi(1) [OF n] by (simp flip: powi_two_add)
    finally show ?thesis using d by (simp add: xnd le_divide_eq)
  qed
  show "2 powi (ilog2 x) \<le> x" "x < 2 powi (ilog2 x + 1)"
    using lo hi by (auto simp: ilog2_def q Let_def)
qed

lemma ilog2_unique:
  assumes "2 powi k \<le> x" and "x < 2 powi (k + 1)"
  shows "ilog2 x = k"
proof -
  have "0 < x" using assms(1) powi_two_pos [of k] by linarith
  note b = ilog2_bounds [OF this]
  have "ilog2 x < k + 1" using b(1) assms(2) by (meson le_less_trans powi_two_less)
  moreover have "k < ilog2 x + 1" using b(2) assms(1) by (meson le_less_trans powi_two_less)
  ultimately show ?thesis by simp
qed

lemma ilog2_mono: "0 < x \<Longrightarrow> x \<le> y \<Longrightarrow> ilog2 x \<le> ilog2 y"
  using ilog2_bounds(1) [of x] ilog2_bounds(2) [of y] powi_two_less [of "ilog2 x" "ilog2 y + 1"]
  by linarith

lemma round_half_even_err: "\<bar>of_int (round_half_even y) - y\<bar> \<le> 1 / 2"
proof -
  have "of_int \<lfloor>y\<rfloor> \<le> y" and "y < of_int \<lfloor>y\<rfloor> + 1"
    using floor_correct [of y] by auto
  then show ?thesis by (auto simp: round_half_even_def Let_def abs_le_iff)
qed

lemma round_half_even_of_int [simp]: "round_half_even (of_int k) = k"
  by (simp add: round_half_even_def)

lemma round_half_even_near:
  "of_int k - 1 / 2 < y \<Longrightarrow> y < of_int k + 1 / 2 \<Longrightarrow> round_half_even y = k"
  using round_half_even_err [of y] by linarith

lemma round_half_even_mono: "x \<le> y \<Longrightarrow> round_half_even x \<le> round_half_even y"
proof -
  assume le: "x \<le> y"
  then have fl: "\<lfloor>x\<rfloor> \<le> \<lfloor>y\<rfloor>" by (rule floor_mono)
  show ?thesis
  proof (cases "\<lfloor>x\<rfloor> = \<lfloor>y\<rfloor>")
    case True
    with le show ?thesis by (simp add: round_half_even_def Let_def)
  next
    case False
    with fl have "\<lfloor>x\<rfloor> + 1 \<le> \<lfloor>y\<rfloor>" by simp
    moreover have "round_half_even x \<le> \<lfloor>x\<rfloor> + 1" "\<lfloor>y\<rfloor> \<le> round_half_even y"
      by (simp_all add: round_half_even_def Let_def)
    ultimately show ?thesis by simp
  qed
qed

lemma round_half_even_minus: "round_half_even (- y) = - round_half_even y"
proof (cases "y = of_int \<lfloor>y\<rfloor>")
  case True
  then show ?thesis by (metis of_int_minus round_half_even_of_int)
next
  case False
  then have f: "\<lfloor>- y\<rfloor> = - \<lfloor>y\<rfloor> - 1" by linarith
  have "of_int \<lfloor>y\<rfloor> < y" using False of_int_floor_le [of y] by linarith
  with False show ?thesis
    by (auto simp: round_half_even_def Let_def f)
qed

lemma ulp64_pos [simp]: "0 < ulp64 x"
  by (simp add: ulp64_def)

lemma ulp64_abs [simp]: "\<bar>ulp64 x\<bar> = ulp64 x"
  using ulp64_pos [of x] by (simp only: abs_of_pos)

lemma ulp64_nonzero [simp]: "ulp64 x \<noteq> 0"
  using ulp64_pos [of x] by linarith

lemma round64_zero [simp]: "round64 0 = 0"
  by (simp add: round64_def)

lemma ulp64_minus [simp]: "ulp64 (- x) = ulp64 x"
  by (simp add: ulp64_def)

lemma round64_minus: "round64 (- x) = - round64 x"
  by (simp add: round64_def round_half_even_minus)

lemma round64_err: "\<bar>round64 x - x\<bar> \<le> ulp64 x / 2"
proof (cases "x = 0")
  case False
  let ?y = "x / ulp64 x"
  have "round64 x - x = (of_int (round_half_even ?y) - ?y) * ulp64 x"
    using False by (simp add: round64_def left_diff_distrib)
  then have "\<bar>round64 x - x\<bar> = \<bar>of_int (round_half_even ?y) - ?y\<bar> * ulp64 x"
    by (simp add: abs_mult)
  also have "\<dots> \<le> 1 / 2 * ulp64 x"
    by (intro mult_right_mono round_half_even_err) (simp add: less_imp_le)
  finally show ?thesis by simp
qed (simp add: less_imp_le)

lemma ulp64_bound:
  assumes "x \<noteq> 0"
  shows "ulp64 x \<le> \<bar>x\<bar> / 2 ^ 52 + 2 powi (- 1074)"
proof (cases "ilog2 \<bar>x\<bar> - 52 \<ge> - 1074")
  case True
  have "2 powi (ilog2 \<bar>x\<bar> - 52) = 2 powi (ilog2 \<bar>x\<bar>) / (2 :: rat) ^ 52"
    by (simp add: power_int_diff)
  also have "\<dots> \<le> \<bar>x\<bar> / 2 ^ 52"
    using ilog2_bounds(1) [of "\<bar>x\<bar>"] assms by (simp add: divide_right_mono)
  finally show ?thesis
    using True powi_two_pos [of "- 1074"] by (simp add: ulp64_def max_def)
next
  case False
  then have "ulp64 x = 2 powi (- 1074)" by (simp add: ulp64_def max_def)
  then show ?thesis by simp
qed

text \<open>The largest absolute error in the subnormal range.\<close>

definition eta64 :: rat where
  "eta64 = 2 powi (- 1075)"

lemma eta64_nonneg: "0 \<le> eta64"
  by (simp add: eta64_def less_imp_le)

lemma eta64_small: "eta64 \<le> 1 / 2 ^ 53"
  using powi_two_mono [of "- 1075" "- 53"] by (simp add: eta64_def power_int_minus)

lemma round64_error: "\<bar>round64 x - x\<bar> \<le> \<bar>x\<bar> / 2 ^ 53 + eta64"
proof (cases "x = 0")
  case False
  have "eta64 = 2 powi (- 1074) / 2"
    using powi_two_add [of "- 1074" "- 1"] by (simp add: eta64_def)
  with round64_err [of x] ulp64_bound [OF False] show ?thesis by simp
qed (simp add: eta64_nonneg)

lemma representable_grid:
  assumes m: "\<bar>m\<bar> \<le> 2 ^ 53" and e: "- 1074 \<le> e" and x: "x = of_int m * 2 powi e"
  shows "round64 x = x"
proof (cases "m = 0")
  case True
  with x show ?thesis by simp
next
  case False
  let ?E = "max (ilog2 \<bar>x\<bar> - 52) (- 1074)"
  have x0: "0 < \<bar>x\<bar>" using False x by simp
  have ax: "\<bar>x\<bar> = of_int \<bar>m\<bar> * 2 powi e" using x by (simp add: abs_mult)
  have "\<bar>x\<bar> \<le> 2 ^ 53 * 2 powi e" 
    using m unfolding ax by (intro mult_right_mono) (metis of_int_le_iff of_int_numeral of_int_power, simp add: less_imp_le)
  also have "\<dots> = 2 powi (53 + e)" by (simp add: power_int_add)
  finally have le: "\<bar>x\<bar> \<le> 2 powi (53 + e)" .
  have grid: "\<exists>k. x = of_int k * 2 powi ?E"
  proof (cases "?E \<le> e")
    case True
    then have "(2 :: rat) powi e = of_int (2 ^ nat (e - ?E)) * 2 powi ?E"
      by (rule powi_two_split)
    with x have "x = of_int m * (of_int (2 ^ nat (e - ?E)) * 2 powi ?E)"
      by (simp only:)
    then have "x = of_int (m * 2 ^ nat (e - ?E)) * 2 powi ?E"
      by (simp only: of_int_mult mult.assoc)
    then show ?thesis by blast
  next
    case F: False
    with e have "e < ilog2 \<bar>x\<bar> - 52" by simp
    then have "53 + e \<le> ilog2 \<bar>x\<bar>" by simp
    then have "2 powi (53 + e) \<le> (2 :: rat) powi (ilog2 \<bar>x\<bar>)" by (rule powi_two_mono)
    with le ilog2_bounds(1) [OF x0] have eq: "\<bar>x\<bar> = 2 powi (ilog2 \<bar>x\<bar>)" by linarith
    have "2 powi (ilog2 \<bar>x\<bar>) = of_int (2 ^ 52) * (2 :: rat) powi (ilog2 \<bar>x\<bar> - 52)"
      by (simp add: power_int_diff)
    moreover have "?E = ilog2 \<bar>x\<bar> - 52" using F e by simp
    ultimately have "\<bar>x\<bar> = of_int (2 ^ 52) * 2 powi ?E" using eq by simp
    then have "x = of_int (2 ^ 52) * 2 powi ?E \<or> x = of_int (- (2 ^ 52)) * 2 powi ?E" by (auto simp: abs_if split: if_splits)
    then show ?thesis by blast
  qed
  then obtain k where k: "x = of_int k * ulp64 x" by (auto simp: ulp64_def)
  then have "x / ulp64 x = of_int k" by (metis less_irrefl nonzero_mult_div_cancel_right ulp64_pos)
  then show ?thesis using k x0 by (simp add: round64_def)
qed

lemma round64_grid_upper:
  assumes "x \<noteq> 0" and "z = of_int k * ulp64 x" and "x \<le> z"
  shows "round64 x \<le> z"
proof -
  have "x / ulp64 x \<le> of_int k"
    using assms(2,3) by (simp add: divide_le_eq)
  then have "round_half_even (x / ulp64 x) \<le> k"
    using round_half_even_mono [of "x / ulp64 x" "of_int k"] by simp
  then show ?thesis
    using assms(1,2) by (simp add: round64_def mult_right_mono less_imp_le)
qed

lemma round64_grid_lower:
  assumes "x \<noteq> 0" and "z = of_int k * ulp64 x" and "z \<le> x"
  shows "z \<le> round64 x"
  using round64_grid_upper [of "- x" "- z" "- k"] assms by (simp add: round64_minus)

lemma ulp64_scale: "x \<noteq> 0 \<Longrightarrow> \<bar>x\<bar> < 2 ^ 53 * ulp64 x"
proof -
  assume "x \<noteq> 0"
  then have "\<bar>x\<bar> < 2 powi (ilog2 \<bar>x\<bar> + 1)"
    using ilog2_bounds(2) [of "\<bar>x\<bar>"] by simp
  also have "\<dots> = 2 ^ 53 * 2 powi (ilog2 \<bar>x\<bar> - 52)"
    using powi_two_add [of 53 "ilog2 \<bar>x\<bar> - 52"] by (simp add: algebra_simps)
  also have "\<dots> \<le> 2 ^ 53 * ulp64 x"
    unfolding ulp64_def by (intro mult_left_mono powi_two_mono) auto
  finally show ?thesis .
qed

lemma representable_round64 [simp]: "representable (round64 x)"
proof (cases "x = 0")
  case True
  then show ?thesis by (simp add: representable_def)
next
  case False
  let ?m = "round_half_even (x / ulp64 x)"
  have "\<bar>x / ulp64 x\<bar> \<le> 2 ^ 53"
    using ulp64_scale [OF False] by (simp add: abs_divide divide_le_eq)
  then have b: "- of_int (2 ^ 53) \<le> x / ulp64 x" "x / ulp64 x \<le> of_int (2 ^ 53)"
    unfolding abs_le_iff by auto
  have "?m \<le> 2 ^ 53"
    using round_half_even_mono [OF b(2)] by (simp only: round_half_even_of_int)
  moreover have "- (2 ^ 53) \<le> ?m"
    using round_half_even_mono [OF b(1)] by (simp only: round_half_even_of_int round_half_even_minus)
  ultimately have "\<bar>?m\<bar> \<le> 2 ^ 53" by (simp add: abs_le_iff)
  moreover have "round64 x = of_int ?m * 2 powi (max (ilog2 \<bar>x\<bar> - 52) (- 1074))"
    using False by (simp add: round64_def ulp64_def)
  ultimately show ?thesis
    unfolding representable_def by (intro representable_grid) auto
qed

lemma round64_idem [simp]: "round64 (round64 x) = round64 x"
  using representable_round64 [of x] by (simp add: representable_def)

lemma round64_pos_mono:
  assumes "0 < x" and "x \<le> y"
  shows "round64 x \<le> round64 y"
proof (cases "ulp64 x = ulp64 y")
  case True
  then have "round_half_even (x / ulp64 x) \<le> round_half_even (y / ulp64 y)"
    using assms by (intro round_half_even_mono) (simp add: divide_right_mono less_imp_le)
  with True assms show ?thesis
    by (simp add: round64_def mult_right_mono less_imp_le)
next
  case False
  let ?k = "ilog2 y"
  have "ilog2 x \<noteq> ?k" using False assms by (auto simp: ulp64_def)
  then have lt: "ilog2 x < ?k" using ilog2_mono [OF assms] by simp
  then have k: "- 1074 < ?k - 52"
    using False assms by (auto simp: ulp64_def max_def split: if_splits)
  have "x < 2 powi (ilog2 x + 1)" using ilog2_bounds(2) assms(1) by simp
  also have "\<dots> \<le> 2 powi ?k" using lt by (intro powi_two_mono) simp
  finally have x_le: "x \<le> 2 powi ?k" by simp
  have y_ge: "2 powi ?k \<le> y" using ilog2_bounds(1) assms by simp
  define e where "e = max (ilog2 x - 52) (- 1074)"
  have "e \<le> ?k" using lt k by (simp add: e_def)
  then have "(2 :: rat) powi ?k = of_int (2 ^ nat (?k - e)) * ulp64 x"
    using powi_two_split [of e ?k] assms(1) by (simp add: ulp64_def e_def)
  from round64_grid_upper [OF _ this x_le] assms(1) have "round64 x \<le> 2 powi ?k" by simp
  also have "2 powi ?k \<le> round64 y"
  proof (rule round64_grid_lower [OF _ _ y_ge])
    show "y \<noteq> 0" using assms by simp
    show "2 powi ?k = of_int (2 ^ 52) * ulp64 y"
      using k assms by (simp add: ulp64_def max_def power_int_diff)
  qed
  finally show ?thesis .
qed

lemma round64_nonneg [simp]: "0 \<le> x \<Longrightarrow> 0 \<le> round64 x"
  using round64_grid_lower [of x 0 0] by (cases "x = 0") auto

lemma round64_nonpos: "x \<le> 0 \<Longrightarrow> round64 x \<le> 0"
  using round64_nonneg [of "- x"] by (simp add: round64_minus)

lemma round64_mono: "x \<le> y \<Longrightarrow> round64 x \<le> round64 y"
proof -
  assume le: "x \<le> y"
  consider "0 < x" | "x \<le> 0" "0 \<le> y" | "y < 0" using le by linarith
  then show ?thesis
  proof cases
    case 1
    then show ?thesis using le by (rule round64_pos_mono)
  next
    case 2
    then show ?thesis using round64_nonpos round64_nonneg order_trans by blast
  next
    case 3
    then have "round64 (- y) \<le> round64 (- x)" using le by (intro round64_pos_mono) auto
    then show ?thesis by (simp add: round64_minus)
  qed
qed


section \<open>Values and operations\<close>

datatype float64 = NaN | PosInf | NegInf | NegZero | Fin rat

fun fval :: "float64 \<Rightarrow> rat" where
  "fval (Fin q) = q"
| "fval _ = 0"

fun IsNaN :: "float64 \<Rightarrow> bool" where
  "IsNaN NaN = True"
| "IsNaN _ = False"

fun IsInf :: "float64 \<Rightarrow> bool" where
  "IsInf PosInf = True"
| "IsInf NegInf = True"
| "IsInf _ = False"

fun Signbit :: "float64 \<Rightarrow> bool" where
  "Signbit NegInf = True"
| "Signbit NegZero = True"
| "Signbit (Fin q) = (q < 0)"
| "Signbit _ = False"

definition max_finite64 :: rat where
  "max_finite64 = (2 ^ 53 - 1) * 2 ^ 971"

definition pack64 :: "bool \<Rightarrow> rat \<Rightarrow> float64" where
  "pack64 neg q =
     (let r = round64 q
      in if max_finite64 < r then PosInf
         else if r < - max_finite64 then NegInf
         else if r = 0 \<and> neg then NegZero
         else Fin r)"

fun fneg :: "float64 \<Rightarrow> float64" where
  "fneg NaN = NaN"
| "fneg PosInf = NegInf"
| "fneg NegInf = PosInf"
| "fneg NegZero = Fin 0"
| "fneg (Fin q) = (if q = 0 then NegZero else Fin (- q))"

definition fadd :: "float64 \<Rightarrow> float64 \<Rightarrow> float64" where
  "fadd a b =
     (if IsNaN a \<or> IsNaN b then NaN
      else if a = PosInf then (if b = NegInf then NaN else PosInf)
      else if a = NegInf then (if b = PosInf then NaN else NegInf)
      else if IsInf b then b
      else pack64 (Signbit a \<and> Signbit b) (fval a + fval b))"

definition fsub :: "float64 \<Rightarrow> float64 \<Rightarrow> float64" where
  "fsub a b = fadd a (fneg b)"

definition finf :: "bool \<Rightarrow> float64" where
  "finf neg = (if neg then NegInf else PosInf)"

definition fmul :: "float64 \<Rightarrow> float64 \<Rightarrow> float64" where
  "fmul a b =
     (if IsNaN a \<or> IsNaN b then NaN
      else if IsInf a \<or> IsInf b
      then (if fval a = 0 \<and> \<not> IsInf a \<or> fval b = 0 \<and> \<not> IsInf b then NaN
            else finf (Signbit a \<noteq> Signbit b))
      else pack64 (Signbit a \<noteq> Signbit b) (fval a * fval b))"

definition fdiv :: "float64 \<Rightarrow> float64 \<Rightarrow> float64" where
  "fdiv a b =
     (if IsNaN a \<or> IsNaN b then NaN
      else if IsInf a then (if IsInf b then NaN else finf (Signbit a \<noteq> Signbit b))
      else if IsInf b then (if Signbit a \<noteq> Signbit b then NegZero else Fin 0)
      else if fval b = 0
      then (if fval a = 0 then NaN else finf (Signbit a \<noteq> Signbit b))
      else pack64 (Signbit a \<noteq> Signbit b) (fval a / fval b))"

text \<open>\<open>math.Floor\<close>.\<close>

fun Floor :: "float64 \<Rightarrow> float64" where
  "Floor (Fin q) = Fin (of_int \<lfloor>q\<rfloor>)"
| "Floor x = x"

text \<open>The comparison operators: every comparison with NaN is false, and zeros compare equal.\<close>

definition flt :: "float64 \<Rightarrow> float64 \<Rightarrow> bool" where
  "flt a b =
     (if IsNaN a \<or> IsNaN b \<or> a = PosInf \<or> b = NegInf then False
      else if a = NegInf \<or> b = PosInf then True
      else fval a < fval b)"

definition feq :: "float64 \<Rightarrow> float64 \<Rightarrow> bool" where
  "feq a b =
     (if IsNaN a \<or> IsNaN b then False
      else if IsInf a \<or> IsInf b then a = b
      else fval a = fval b)"

definition fle :: "float64 \<Rightarrow> float64 \<Rightarrow> bool" where
  "fle a b \<longleftrightarrow> flt a b \<or> feq a b"

text \<open>\<open>math.Max\<close>, with its special cases in the order Go documents them.\<close>

definition math_Max :: "float64 \<Rightarrow> float64 \<Rightarrow> float64" where
  "math_Max x y =
     (if x = PosInf \<or> y = PosInf then PosInf
      else if IsNaN x \<or> IsNaN y then NaN
      else if feq x (Fin 0) \<and> feq x y then (if Signbit x then y else x)
      else if flt y x then x else y)"

text \<open>The conversion \<open>float64(n)\<close> of an integer.\<close>

definition float_of_int :: "int \<Rightarrow> float64" where
  "float_of_int n = pack64 False (of_int n)"

text \<open>
  \<open>is_fin\<close>: neither NaN nor an infinity. \<open>wf64\<close>: the value is one a 64-bit float can hold; every
  operation returns such a value.
\<close>

definition is_fin :: "float64 \<Rightarrow> bool" where
  "is_fin x \<longleftrightarrow> \<not> IsNaN x \<and> \<not> IsInf x"

definition wf64 :: "float64 \<Rightarrow> bool" where
  "wf64 x = (case x of Fin q \<Rightarrow> representable q \<and> \<bar>q\<bar> \<le> max_finite64 | _ \<Rightarrow> True)"

section \<open>The operations on finite numbers\<close>

lemma is_fin_simps [simp]:
  "is_fin (Fin q)" "is_fin NegZero" "\<not> is_fin NaN" "\<not> is_fin PosInf" "\<not> is_fin NegInf"
  by (simp_all add: is_fin_def)

lemma is_fin_cases [consumes 1, case_names neg_zero fin]:
  assumes "is_fin x"
  obtains "x = NegZero" | q where "x = Fin q"
  using assms by (cases x) auto

lemma max_finite64_pos [simp]: "0 < max_finite64"
  by (simp add: max_finite64_def)

lemma wf64_pack64 [simp]: "wf64 (pack64 neg q)"
  by (auto simp: wf64_def pack64_def Let_def abs_le_iff)

lemma fval_pack64: "is_fin (pack64 neg q) \<Longrightarrow> fval (pack64 neg q) = round64 q"
  by (auto simp: pack64_def Let_def split: if_splits)

lemma is_fin_pack64: "is_fin (pack64 neg q) \<longleftrightarrow> \<bar>round64 q\<bar> \<le> max_finite64"
  by (auto simp: pack64_def Let_def abs_le_iff split: if_splits)

lemma pack64_not_nan [simp]: "\<not> IsNaN (pack64 neg q)"
  by (simp add: pack64_def Let_def)

lemma fneg_simps [simp]:
  "is_fin (fneg x) = is_fin x" "fval (fneg x) = - fval x" "IsNaN (fneg x) = IsNaN x"
  "IsInf (fneg x) = IsInf x"
  by (cases x; simp)+

lemma fadd_fin: "is_fin a \<Longrightarrow> is_fin b \<Longrightarrow>
    fadd a b = pack64 (Signbit a \<and> Signbit b) (fval a + fval b)"
  by (auto simp: fadd_def elim!: is_fin_cases)

lemma fsub_fin: "is_fin a \<Longrightarrow> is_fin b \<Longrightarrow>
    fsub a b = pack64 (Signbit a \<and> Signbit (fneg b)) (fval a - fval b)"
  by (simp add: fsub_def fadd_fin)

lemma fmul_fin: "is_fin a \<Longrightarrow> is_fin b \<Longrightarrow>
    fmul a b = pack64 (Signbit a \<noteq> Signbit b) (fval a * fval b)"
  by (auto simp: fmul_def is_fin_def)

lemma fdiv_fin: "is_fin a \<Longrightarrow> is_fin b \<Longrightarrow> fval b \<noteq> 0 \<Longrightarrow>
    fdiv a b = pack64 (Signbit a \<noteq> Signbit b) (fval a / fval b)"
  by (auto simp: fdiv_def is_fin_def)

lemma fle_fin: "is_fin a \<Longrightarrow> is_fin b \<Longrightarrow> fle a b \<longleftrightarrow> fval a \<le> fval b"
  by (auto simp: fle_def flt_def feq_def is_fin_def)

lemma flt_fin: "is_fin a \<Longrightarrow> is_fin b \<Longrightarrow> flt a b \<longleftrightarrow> fval a < fval b"
  by (auto simp: flt_def is_fin_def)

lemma feq_fin: "is_fin a \<Longrightarrow> is_fin b \<Longrightarrow> feq a b \<longleftrightarrow> fval a = fval b"
  by (auto simp: feq_def is_fin_def)

lemma math_Max_fin:
  assumes "is_fin a" and "is_fin b"
  shows "is_fin (math_Max a b)" and "fval (math_Max a b) = max (fval a) (fval b)"
  using assms by (auto simp: math_Max_def feq_fin flt_fin is_fin_def max_def)

section \<open>Evaluation\<close>

text \<open>
  Code equations that keep evaluation of closed terms cheap: powers of two as normalised fractions,
  and the overflow test only where the magnitude can reach it.
\<close>

definition pow2 :: "int \<Rightarrow> rat" where
  "pow2 k = 2 powi k"

lemma quotient_of_pow2 [code abstract]:
  "quotient_of (pow2 k) = (if 0 \<le> k then (2 ^ nat k, 1) else (1, 2 ^ nat (- k)))"
proof (cases "0 \<le> k")
  case True
  then have "pow2 k = Fract (2 ^ nat k) 1" by (simp add: pow2_def power_int_def Fract_of_int_quotient)
  with True show ?thesis by (simp add: quotient_of_Fract normalize_stable)
next
  case False
  have "pow2 k = Fract 1 (2 ^ nat (- k))"
    using False by (simp add: pow2_def power_int_def Fract_of_int_quotient inverse_eq_divide power_one_over)
  with False show ?thesis by (simp add: quotient_of_Fract normalize_stable)
qed

lemma ulp64_code [code]: "ulp64 x = pow2 (max (ilog2 \<bar>x\<bar> - 52) (- 1074))"
  by (simp add: ulp64_def pow2_def)

lemma ilog2_code [code]:
  "ilog2 x = (let (n, d) = quotient_of x; k = bitlen n - bitlen d
              in if pow2 k \<le> x then k else k - 1)"
  by (simp add: ilog2_def pow2_def)

lemma max_finite64_ge: "2 ^ 64 \<le> max_finite64"
  by (simp add: max_finite64_def)

lemma pack64_code [code]:
  "pack64 neg q =
     (let r = round64 q
      in if \<bar>r\<bar> \<le> 2 ^ 64 then (if r = 0 \<and> neg then NegZero else Fin r)
         else if max_finite64 < r then PosInf
         else if r < - max_finite64 then NegInf
         else Fin r)"
  using max_finite64_ge by (auto simp: pack64_def Let_def abs_le_iff)

lemma wf64_code [code]:
  "wf64 x = (case x of Fin q \<Rightarrow> representable q \<and> (\<bar>q\<bar> \<le> 2 ^ 64 \<or> \<bar>q\<bar> \<le> max_finite64) | _ \<Rightarrow> True)"
  using max_finite64_ge by (auto simp: wf64_def split: float64.splits)

section \<open>Durations in seconds\<close>

text \<open>\<open>Duration.Seconds\<close>: whole seconds plus the remaining nanoseconds over \<open>1e9\<close>, both truncated.\<close>

definition Seconds :: "duration \<Rightarrow> float64" where
  "Seconds d = fadd (float_of_int (d sdiv second_ns))
                    (fdiv (float_of_int (d smod second_ns)) (Fin 1000000000))"

section \<open>Error bounds of rounding\<close>

lemma representable_grid_1074: "representable x \<Longrightarrow> \<exists>k. x = of_int k * 2 powi (- 1074)"
proof (cases "x = 0")
  case False
  assume r: "representable x"
  let ?E = "max (ilog2 \<bar>x\<bar> - 52) (- 1074)"
  have "ulp64 x = of_int (2 ^ nat (?E + 1074)) * 2 powi (- 1074)"
    using powi_two_split [of "- 1074" ?E] by (simp add: ulp64_def)
  moreover have "x = of_int (round_half_even (x / ulp64 x)) * ulp64 x"
    using r False by (simp add: representable_def round64_def)
  ultimately have "x = of_int (round_half_even (x / ulp64 x) * 2 ^ nat (?E + 1074)) * 2 powi (- 1074)"
    by (simp only: of_int_mult mult.assoc)
  then show ?thesis by blast
qed (auto intro: exI [of _ 0])

text \<open>On the subnormal grid rounding is exact below the normal range, so only the relative error remains.\<close>

lemma round64_grid_error:
  assumes "x = of_int k * 2 powi (- 1074)"
  shows "\<bar>round64 x - x\<bar> \<le> \<bar>x\<bar> / 2 ^ 53"
proof (cases "x = 0 \<or> ilog2 \<bar>x\<bar> - 52 < - 1074")
  case True
  then show ?thesis
  proof
    assume "ilog2 \<bar>x\<bar> - 52 < - 1074"
    then have "ulp64 x = 2 powi (- 1074)" by (simp add: ulp64_def max_def)
    with assms have k: "x = of_int k * ulp64 x" by (simp only:)
    then have "x / ulp64 x = of_int k" by (metis nonzero_mult_div_cancel_right ulp64_nonzero)
    then have "round64 x = x" using k by (cases "x = 0") (simp_all add: round64_def)
    then show ?thesis by simp
  qed simp
next
  case False
  then have "max (ilog2 \<bar>x\<bar> - 52) (- 1074) = ilog2 \<bar>x\<bar> - 52" by linarith
  then have u: "ulp64 x = 2 powi (ilog2 \<bar>x\<bar> - 52)" by (simp only: ulp64_def)
  have "2 powi (ilog2 \<bar>x\<bar> - 52) = 2 powi (ilog2 \<bar>x\<bar>) / (2 :: rat) ^ 52"
    by (simp add: power_int_diff)
  also have "\<dots> \<le> \<bar>x\<bar> / 2 ^ 52"
    using ilog2_bounds(1) [of "\<bar>x\<bar>"] False by (simp add: divide_right_mono)
  finally show ?thesis using round64_err [of x] u by simp
qed

lemma round64_diff_error:
  assumes "representable x" and "representable y"
  shows "\<bar>round64 (x - y) - (x - y)\<bar> \<le> \<bar>x - y\<bar> / 2 ^ 53"
proof -
  obtain k l where "x = of_int k * 2 powi (- 1074)" "y = of_int l * 2 powi (- 1074)"
    using assms representable_grid_1074 by blast
  then have "x - y = of_int (k - l) * 2 powi (- 1074)" by (simp add: left_diff_distrib)
  then show ?thesis by (rule round64_grid_error)
qed

lemma round64_le_double: "0 \<le> x \<Longrightarrow> round64 x \<le> 2 * x"
proof (cases "x = 0")
  case False
  assume "0 \<le> x"
  let ?y = "x / ulp64 x"
  have y: "0 \<le> ?y" using \<open>0 \<le> x\<close> by (simp add: less_imp_le)
  have "of_int (round_half_even ?y) \<le> 2 * ?y"
  proof (cases "?y < 1 / 2")
    case True
    with y have "round_half_even ?y = 0" by (intro round_half_even_near) auto
    then show ?thesis using y by simp
  next
    case F: False
    then show ?thesis using round_half_even_err [of ?y] by linarith
  qed
  then have "of_int (round_half_even ?y) * ulp64 x \<le> 2 * ?y * ulp64 x"
    by (intro mult_right_mono) (simp_all add: less_imp_le)
  with False show ?thesis by (simp add: round64_def)
qed simp

lemma round64_of_int: "\<bar>k\<bar> \<le> 2 ^ 53 \<Longrightarrow> round64 (of_int k) = of_int k"
  by (rule representable_grid [of k 0]) auto

lemma max_finite64_representable: "round64 max_finite64 = max_finite64"
  by (rule representable_grid [of "2 ^ 53 - 1" 971]) (auto simp: max_finite64_def)

lemma is_fin_pack64_le: "\<bar>q\<bar> \<le> max_finite64 \<Longrightarrow> is_fin (pack64 s q)"
  using round64_mono [of q max_finite64] round64_mono [of "- q" max_finite64]
  by (simp add: is_fin_pack64 max_finite64_representable round64_minus abs_le_iff)

lemma float_of_nat: "n \<le> 2 ^ 53 \<Longrightarrow> float_of_int (int n) = Fin (of_nat n)"
  using round64_of_int [of "int n"] max_finite64_ge
  by (simp add: float_of_int_def pack64_def)

text \<open>
  What the budget proof needs of a rounding function: a set \<open>R\<close> of representable numbers it maps
  into and fixes, monotonicity, and error bounds (relative \<open>u\<close>, absolute \<open>\<eta>\<close>; differences of
  representable numbers have no absolute error).
\<close>

locale budget_rounding =
  fixes rnd :: "rat \<Rightarrow> rat" and R :: "rat \<Rightarrow> bool" and u \<eta> :: rat
  assumes rnd_R: "R (rnd x)"
    and rnd_fix: "R x \<Longrightarrow> rnd x = x"
    and rnd_mono: "x \<le> y \<Longrightarrow> rnd x \<le> rnd y"
    and rnd_err: "\<bar>rnd x - x\<bar> \<le> u * \<bar>x\<bar> + \<eta>"
    and rnd_diff_err: "R x \<Longrightarrow> R y \<Longrightarrow> \<bar>rnd (x - y) - (x - y)\<bar> \<le> u * \<bar>x - y\<bar>"
    and rnd_double: "0 \<le> x \<Longrightarrow> rnd x \<le> 2 * x"
    and u_nonneg: "0 \<le> u" and eta_nonneg: "0 \<le> \<eta>"
begin

text \<open>
  One pass over at most \<open>m\<close> requests, each between 0 and the share \<open>rnd (\<rho> / m)\<close>: the budget after
  \<open>j\<close> of them.
\<close>

definition pass_inv :: "nat \<Rightarrow> rat \<Rightarrow> nat \<Rightarrow> rat \<Rightarrow> bool" where
  "pass_inv m \<rho> j x \<longleftrightarrow> R x \<and> x \<le> \<rho> \<and> \<rho> - of_nat j * (rnd (\<rho> / of_nat m) + 2 * u * \<rho>) \<le> x"

lemma share_le_double: "0 \<le> \<rho> \<Longrightarrow> 0 < m \<Longrightarrow> of_nat m * rnd (\<rho> / of_nat m) \<le> 2 * \<rho>"
proof -
  assume "0 \<le> \<rho>" "0 < m"
  then have "rnd (\<rho> / of_nat m) \<le> 2 * (\<rho> / of_nat m)" by (intro rnd_double) simp
  then have "of_nat m * rnd (\<rho> / of_nat m) \<le> of_nat m * (2 * (\<rho> / of_nat m))"
    by (intro mult_left_mono) auto
  also have "\<dots> = 2 * \<rho>" using \<open>0 < m\<close> by simp
  finally show ?thesis .
qed

lemma share_le: "0 \<le> \<rho> \<Longrightarrow> 0 < m \<Longrightarrow> of_nat m * rnd (\<rho> / of_nat m) \<le> \<rho> + u * \<rho> + of_nat m * \<eta>"
proof -
  assume "0 \<le> \<rho>" "0 < m"
  then have "rnd (\<rho> / of_nat m) \<le> \<rho> / of_nat m + u * (\<rho> / of_nat m) + \<eta>"
    using rnd_err [of "\<rho> / of_nat m"] by (simp add: abs_le_iff)
  then have "of_nat m * rnd (\<rho> / of_nat m) \<le> of_nat m * (\<rho> / of_nat m + u * (\<rho> / of_nat m) + \<eta>)"
    by (intro mult_left_mono) auto
  also have "\<dots> = \<rho> + u * \<rho> + of_nat m * \<eta>" using \<open>0 < m\<close> by (simp add: field_simps)
  finally show ?thesis .
qed

lemma share_ge: "0 \<le> \<rho> \<Longrightarrow> 0 < m \<Longrightarrow> \<rho> - u * \<rho> - of_nat m * \<eta> \<le> of_nat m * rnd (\<rho> / of_nat m)"
proof -
  assume "0 \<le> \<rho>" "0 < m"
  then have "\<rho> / of_nat m - u * (\<rho> / of_nat m) - \<eta> \<le> rnd (\<rho> / of_nat m)"
    using rnd_err [of "\<rho> / of_nat m"] by (simp add: abs_le_iff)
  then have "of_nat m * (\<rho> / of_nat m - u * (\<rho> / of_nat m) - \<eta>) \<le> of_nat m * rnd (\<rho> / of_nat m)"
    by (intro mult_left_mono) auto
  then show ?thesis using \<open>0 < m\<close> by (simp add: right_diff_distrib)
qed

lemma share_nonneg: "0 \<le> \<rho> \<Longrightarrow> R 0 \<Longrightarrow> 0 \<le> rnd (\<rho> / of_nat m)"
  using rnd_mono [of 0 "\<rho> / of_nat m"] rnd_fix [of 0] by simp

lemma pass_step:
  assumes inv: "pass_inv m \<rho> j x" and j: "j < m" and small: "2 * of_nat m * u \<le> 1"
    and rho: "0 \<le> \<rho>" and q: "0 \<le> q" "q \<le> rnd (\<rho> / of_nat m)" "R q" and R0: "R 0"
  shows "\<bar>x - q\<bar> \<le> 2 * \<rho>" and "pass_inv m \<rho> (Suc j) (rnd (x - q))"
    and "\<bar>rnd (x - q) + q - x\<bar> \<le> 2 * u * \<rho>"
proof -
  let ?s = "rnd (\<rho> / of_nat m)" and ?e = "2 * u * \<rho>"
  have x: "R x" "x \<le> \<rho>" "\<rho> - of_nat j * (?s + ?e) \<le> x" using inv by (auto simp: pass_inv_def)
  have e: "0 \<le> ?e" using rho u_nonneg by simp
  have s: "0 \<le> ?s" using share_nonneg rho R0 by blast
  have m0: "0 < m" using j by simp
  have "of_nat (Suc j) * (?s + ?e) \<le> of_nat m * (?s + ?e)"
    using j s e by (intro mult_right_mono) auto
  also have "\<dots> \<le> 2 * \<rho> + \<rho>"
  proof -
    have "of_nat m * ?e = (2 * of_nat m * u) * \<rho>" by simp
    also have "\<dots> \<le> 1 * \<rho>" using small rho by (intro mult_right_mono)
    finally show ?thesis using share_le_double [OF rho m0] by (simp add: distrib_left)
  qed
  finally have "of_nat (Suc j) * (?s + ?e) \<le> 3 * \<rho>" by simp
  moreover have "\<rho> - of_nat (Suc j) * (?s + ?e) + ?e \<le> x - q"
    using x(3) q(2) by (simp add: algebra_simps)
  ultimately have lo: "- (2 * \<rho>) \<le> x - q" using e by linarith
  then show abs: "\<bar>x - q\<bar> \<le> 2 * \<rho>" using x(2) q(1) rho by (simp add: abs_le_iff)
  have "\<bar>rnd (x - q) - (x - q)\<bar> \<le> u * \<bar>x - q\<bar>" using x(1) q(3) by (rule rnd_diff_err)
  also have "\<dots> \<le> u * (2 * \<rho>)" using abs u_nonneg by (rule mult_left_mono)
  finally have err: "\<bar>rnd (x - q) - (x - q)\<bar> \<le> ?e" by simp
  then show "\<bar>rnd (x - q) + q - x\<bar> \<le> ?e" by (simp add: abs_le_iff)
  have "rnd (x - q) \<le> rnd x" using q(1) by (intro rnd_mono) simp
  then have "rnd (x - q) \<le> \<rho>" using rnd_fix [OF x(1)] x(2) by simp
  moreover have "\<rho> - of_nat (Suc j) * (?s + ?e) \<le> rnd (x - q)"
    using \<open>\<rho> - of_nat (Suc j) * (?s + ?e) + ?e \<le> x - q\<close> err by (simp add: abs_le_iff)
  ultimately show "pass_inv m \<rho> (Suc j) (rnd (x - q))" by (simp add: pass_inv_def rnd_R)
qed

lemma pass_lower:
  assumes "pass_inv m \<rho> j x" and "j \<le> m" "0 < m" and "0 \<le> \<rho>" "R 0"
  shows "- ((2 * of_nat m + 1) * u * \<rho> + of_nat m * \<eta>) \<le> x"
proof -
  let ?s = "rnd (\<rho> / of_nat m)" and ?e = "2 * u * \<rho>"
  have "0 \<le> ?s + ?e" using share_nonneg assms u_nonneg by simp
  then have "of_nat j * (?s + ?e) \<le> of_nat m * (?s + ?e)"
    using assms(2) by (intro mult_right_mono) auto
  also have "\<dots> \<le> \<rho> + u * \<rho> + of_nat m * \<eta> + of_nat m * ?e"
    using share_le [of \<rho> m] assms by (simp add: distrib_left)
  finally show ?thesis using assms(1) by (simp add: pass_inv_def algebra_simps)
qed

end

interpretation binary64: budget_rounding round64 representable "1 / 2 ^ 53" eta64
proof unfold_locales
  show "\<bar>round64 x - x\<bar> \<le> 1 / 2 ^ 53 * \<bar>x\<bar> + eta64" for x
    using round64_error [of x] by simp
  show "\<bar>round64 (x - y) - (x - y)\<bar> \<le> 1 / 2 ^ 53 * \<bar>x - y\<bar>"
    if "representable x" "representable y" for x y
    using round64_diff_error [OF that] by simp
qed (auto simp: representable_def intro: round64_mono round64_le_double eta64_nonneg)

end
