(* ===== verification/Domain.thy ===== *)
theory Domain
  imports Float64 "HOL-Library.Word"
begin

text \<open>
  Package \<open>domain\<close> of the control plane: the records the components exchange, with one record
  per Go struct (field names carry a two-letter prefix, since HOL record fields share one name
  space) and the page clamp. A pointer field that may be nil is an \<open>option\<close>.
\<close>

type_synonym u64 = "64 word"

section \<open>Telemetry, energy observations, stations\<close>

definition ClockSyncUnspecified :: string where
  [simp]: "ClockSyncUnspecified = ''UNSPECIFIED''"

definition ClockSyncSynchronized :: string where
  [simp]: "ClockSyncSynchronized = ''SYNCHRONIZED''"

definition ClockSyncUnsynchronized :: string where
  [simp]: "ClockSyncUnsynchronized = ''UNSYNCHRONIZED''"

record Telemetry =
  tm_StationID :: string
  tm_ConnectorID :: string
  tm_Timestamp :: time
  tm_Voltage :: float64
  tm_Current :: float64
  tm_PowerKW :: float64
  tm_EnergyKWh :: float64
  tm_SOC :: float64
  tm_TemperatureC :: float64
  tm_State :: string
  tm_EdgeID :: string
  tm_SiteID :: string
  tm_ReceivedAt :: time
  tm_EdgeSequence :: u64
  tm_ClockSync :: string
  tm_IngestedAt :: time

record EnergyObservation =
  eo_SiteID :: string
  eo_Provider :: string
  eo_ProviderSiteID :: string
  eo_ProviderAssetID :: string
  eo_ConsentScope :: string
  eo_ObservedAt :: time
  eo_RetrievedAt :: time
  eo_SolarGenerationKW :: "float64 option"
  eo_SiteLoadKW :: "float64 option"
  eo_GridImportKW :: "float64 option"
  eo_GridExportKW :: "float64 option"
  eo_BatteryChargeKW :: "float64 option"
  eo_BatteryDischargeKW :: "float64 option"
  eo_BatterySOC :: "float64 option"
  eo_TariffImportPerKWh :: "float64 option"
  eo_DataQuality :: string
  eo_IngestedAt :: time

record Connector =
  cn_ConnectorID :: string
  cn_State :: string
  cn_LastSeenAt :: time

record Station =
  st_StationID :: string
  st_LastSeenAt :: time
  st_LastDeviceTime :: "time option"
  st_Connectors :: "Connector list"

record StationHealth =
  sh_StationID :: string
  sh_LastSeenAt :: time
  sh_SilentFor :: duration
  sh_SilentForS :: float64

record ConnectorDemand =
  cd_StationID :: string
  cd_ConnectorID :: string
  cd_PowerKW :: float64
  cd_State :: string
  cd_ObservedAt :: time

section \<open>Charging sessions\<close>

definition SessionStarted :: string where
  [simp]: "SessionStarted = ''STARTED''"

definition SessionUpdated :: string where
  [simp]: "SessionUpdated = ''UPDATED''"

definition SessionStopped :: string where
  [simp]: "SessionStopped = ''STOPPED''"

record SessionEvent =
  se_SessionID :: string
  se_StationID :: string
  se_ConnectorID :: string
  se_SiteID :: string
  se_Type :: string
  se_OccurredAt :: time
  se_IngestedAt :: time
  se_TokenType :: string
  se_TokenHash :: string
  se_AuthorizationRef :: string
  se_EnergyRegisterWh :: "int option"
  se_StopReason :: string
  se_SourceProtocol :: string
  se_TransactionReference :: string

record Session =
  ss_SessionID :: string
  ss_StationID :: string
  ss_ConnectorID :: string
  ss_SiteID :: string
  ss_SourceProtocol :: string
  ss_TransactionReference :: string
  ss_TokenType :: string
  ss_TokenHash :: string
  ss_AuthorizationRef :: string
  ss_StartedAt :: "time option"
  ss_StoppedAt :: "time option"
  ss_MeterStartWh :: "int option"
  ss_MeterStopWh :: "int option"
  ss_EnergyDeliveredWh :: "int option"
  ss_StopReason :: string
  ss_Open :: bool
  ss_UpdatedAt :: time

section \<open>Pages\<close>

record Page =
  pg_Limit :: int
  pg_After :: string

record SessionQuery =
  sq_StationID :: string
  sq_OpenOnly :: bool
  sq_Page :: Page

definition DefaultPageLimit :: int where
  "DefaultPageLimit = 100"

definition MaxPageLimit :: int where
  "MaxPageLimit = 1000"

definition Normalize :: "Page \<Rightarrow> Page" where
  "Normalize page =
     (let page = (if pg_Limit page \<le> 0 then page\<lparr>pg_Limit := DefaultPageLimit\<rparr> else page)
      in if MaxPageLimit < pg_Limit page then page\<lparr>pg_Limit := MaxPageLimit\<rparr> else page)"

lemma Normalize_limit: "1 \<le> pg_Limit (Normalize p)" "pg_Limit (Normalize p) \<le> MaxPageLimit"
  by (simp_all add: Normalize_def Let_def DefaultPageLimit_def MaxPageLimit_def)

lemma Normalize_after [simp]: "pg_After (Normalize p) = pg_After p"
  by (simp add: Normalize_def Let_def)

lemma Normalize_idem [simp]: "Normalize (Normalize p) = Normalize p"
  by (simp add: Normalize_def Let_def DefaultPageLimit_def MaxPageLimit_def)

section \<open>The repository interface\<close>

text \<open>
  What the ingest runner relies on when it calls one of the \<open>Persist\<close> methods of
  \<open>domain.Repository\<close>: a successful call stores the batch, a failed one leaves the store as it was or
  has stored the whole batch all the same, and no call breaks the store's invariant.
\<close>

locale persister =
  fixes persist :: "'a list \<Rightarrow> 'db \<Rightarrow> go_error option \<times> 'db"
    and store :: "'a list \<Rightarrow> 'db \<Rightarrow> 'db"
    and inv :: "'db \<Rightarrow> bool"
  assumes persist_stores: "persist xs db = (None, db') \<Longrightarrow> db' = store xs db"
    and persist_atomic: "persist xs db = (Some err, db') \<Longrightarrow> db' = db \<or> db' = store xs db"
    and persist_empty: "persist [] db = (None, db)"
    and persist_inv: "persist xs db = (r, db') \<Longrightarrow> inv db \<Longrightarrow> inv db'"
begin

lemma persist_all_inv: "inv db \<Longrightarrow> inv (fold (\<lambda>xs db. snd (persist xs db)) batches db)"
  using persist_inv by (induction batches arbitrary: db) (auto, metis prod.collapse)

lemma persist_whole: "snd (persist xs db) = db \<or> snd (persist xs db) = store xs db"
  using persist_atomic persist_stores by (metis option.exhaust prod.collapse)

end

end
