(* ===== verification/GoSort.thy ===== *)
theory GoSort
  imports Main "HOL-Library.Multiset"
begin

text \<open>
  Sorting with a comparison function: \<open>sort.Slice\<close> of the Go library and, with the same function,
  the \<open>ORDER BY\<close> of the queries. The locale states what the comparison must satisfy and what the
  sort then promises.
\<close>

section \<open>The sort\<close>

text \<open>
  \<open>sort.Slice\<close> as the insertion sort the Go library runs on short slices: each element moves left
  past the elements it is less than. The accumulator is the sorted prefix, last element first.
  Where \<open>lt\<close> is a strict weak order every sorting algorithm returns this list up to the order
  of equivalent elements, and when no two distinct elements are equivalent exactly this list.
\<close>

fun sink :: "('a \<Rightarrow> 'a \<Rightarrow> bool) \<Rightarrow> 'a \<Rightarrow> 'a list \<Rightarrow> 'a list" where
  "sink lt x [] = [x]"
| "sink lt x (y # ys) = (if lt x y then y # sink lt x ys else x # y # ys)"

definition sort_Slice :: "('a \<Rightarrow> 'a \<Rightarrow> bool) \<Rightarrow> 'a list \<Rightarrow> 'a list" where
  "sort_Slice lt xs = rev (fold (sink lt) xs [])"

section \<open>The result is an ordered permutation\<close>

lemma mset_sink [simp]: "mset (sink lt x ys) = add_mset x (mset ys)"
  by (induction ys) auto

lemma mset_fold_sink: "mset (fold (sink lt) xs acc) = mset xs + mset acc"
  by (induction xs arbitrary: acc) auto

lemma mset_sort_Slice [simp]: "mset (sort_Slice lt xs) = mset xs"
  by (simp add: sort_Slice_def mset_fold_sink)

lemma set_sort_Slice [simp]: "set (sort_Slice lt xs) = set xs"
  by (metis mset_sort_Slice set_mset_mset)

lemma distinct_map_sort_Slice: "distinct (map f (sort_Slice lt xs)) = distinct (map f xs)"
proof -
  have "mset (map f (sort_Slice lt xs)) = mset (map f xs)" by simp
  then show ?thesis by (rule mset_eq_imp_distinct_iff)
qed

lemma length_sort_Slice [simp]: "length (sort_Slice lt xs) = length xs"
  by (metis mset_sort_Slice size_mset)

text \<open>
  The contract \<open>sort.Slice\<close> asks of its comparison on the elements it sorts, and what it then
  promises: an ordered permutation, the same one for every permutation of the input when no two
  distinct elements are equivalent.
\<close>

locale strict_weak_order =
  fixes lt :: "'a \<Rightarrow> 'a \<Rightarrow> bool" and S :: "'a set"
  assumes asym: "x \<in> S \<Longrightarrow> y \<in> S \<Longrightarrow> lt x y \<Longrightarrow> \<not> lt y x"
    and negtrans: "x \<in> S \<Longrightarrow> y \<in> S \<Longrightarrow> z \<in> S \<Longrightarrow> \<not> lt y x \<Longrightarrow> \<not> lt z y \<Longrightarrow> \<not> lt z x"
begin

abbreviation below :: "'a \<Rightarrow> 'a \<Rightarrow> bool" where
  "below x y \<equiv> \<not> lt y x"

lemma sorted_sink:
  "x \<in> S \<Longrightarrow> set ys \<subseteq> S \<Longrightarrow> sorted_wrt (\<lambda>a b. below b a) ys \<Longrightarrow>
   sorted_wrt (\<lambda>a b. below b a) (sink lt x ys)"
proof (induction ys)
  case (Cons y ys)
  show ?case
  proof (cases "lt x y")
    case True
    with Cons have "sorted_wrt (\<lambda>a b. below b a) (sink lt x ys)" by simp
    moreover have "set (sink lt x ys) = insert x (set ys)"
      by (metis mset_sink set_mset_add_mset_insert set_mset_mset)
    ultimately show ?thesis using True Cons.prems asym by auto
  next
    case False
    have "below z x" if "z \<in> set ys" for z
      using that Cons.prems False negtrans [of z y x] by auto
    with False Cons.prems show ?thesis by auto
  qed
qed simp

lemma sorted_fold_sink:
  "set xs \<subseteq> S \<Longrightarrow> set acc \<subseteq> S \<Longrightarrow> sorted_wrt (\<lambda>a b. below b a) acc \<Longrightarrow>
   sorted_wrt (\<lambda>a b. below b a) (fold (sink lt) xs acc)"
proof (induction xs arbitrary: acc)
  case (Cons x xs)
  have "set (sink lt x acc) = insert x (set acc)"
    by (metis mset_sink set_mset_add_mset_insert set_mset_mset)
  with Cons show ?case by (simp add: sorted_sink)
qed simp

lemma sort_sorted: "set xs \<subseteq> S \<Longrightarrow> sorted_wrt below (sort_Slice lt xs)"
  using sorted_fold_sink [of xs "[]"] by (simp add: sort_Slice_def sorted_wrt_rev)

lemma sorted_unique:
  "mset xs = mset ys \<Longrightarrow> sorted_wrt below xs \<Longrightarrow> sorted_wrt below ys \<Longrightarrow>
   (\<And>x y. x \<in> set xs \<Longrightarrow> y \<in> set xs \<Longrightarrow> below x y \<Longrightarrow> below y x \<Longrightarrow> x = y) \<Longrightarrow> xs = ys"
proof (induction xs arbitrary: ys)
  case (Cons x xs)
  then obtain y ys' where ys: "ys = y # ys'" by (cases ys) auto
  have sets: "set (x # xs) = set (y # ys')" using Cons.prems(1) ys by (metis set_mset_mset)
  have "x = y"
  proof (rule ccontr)
    assume "x \<noteq> y"
    then have "x \<in> set ys'" "y \<in> set xs" using sets by auto
    then show False using Cons.prems(2-4) ys \<open>x \<noteq> y\<close> by auto
  qed
  then show ?case using Cons ys by auto
qed simp

lemma sort_unique:
  assumes "set xs \<subseteq> S" and "mset xs = mset ys"
    and "\<And>x y. x \<in> set xs \<Longrightarrow> y \<in> set xs \<Longrightarrow> below x y \<Longrightarrow> below y x \<Longrightarrow> x = y"
  shows "sort_Slice lt xs = sort_Slice lt ys"
proof -
  have "set ys \<subseteq> S" using assms(1,2) by (metis set_mset_mset)
  then show ?thesis using assms by (intro sorted_unique sort_sorted) auto
qed

lemma hd_least:
  assumes "set xs \<subseteq> S" "x \<in> set xs" "\<And>y. y \<in> set xs \<Longrightarrow> y \<noteq> x \<Longrightarrow> lt x y"
  shows "take 1 (sort_Slice lt xs) = [x]"
proof -
  obtain y ys where s: "sort_Slice lt xs = y # ys"
    using assms(2) by (metis empty_iff empty_set list.exhaust set_sort_Slice)
  have "y = x"
  proof (rule ccontr)
    assume "y \<noteq> x"
    moreover have "set (y # ys) = set xs" using set_sort_Slice [of lt xs] by (simp only: s)
    ultimately have "x \<in> set ys" "lt x y" using assms(2) assms(3) [of y] by force+
    moreover have "sorted_wrt below (y # ys)" using sort_sorted [OF assms(1)] by (simp only: s)
    ultimately show False by auto
  qed
  then show ?thesis by (simp add: s)
qed

end

end
