(* ===== verification/Advice.thy ===== *)
theory Advice
  imports Domain GoSort
begin

text \<open>
  Package \<open>advice\<close>, file \<open>allocate.go\<close>: how a site's power is shared between its connectors.
  \<open>Compute\<close> derives the power available for charging from the policy and the latest energy
  observation; \<open>allocate\<close> shares it in two loops (satisfy modest requests, then split what is
  left and pause the connectors that cannot be given a usable amount). All arithmetic is binary64,
  operation by operation as the code has it.
\<close>

section \<open>Data\<close>

definition BasisMeasured :: string where
  [simp]: "BasisMeasured = ''MEASURED''"

definition BasisStale :: string where
  [simp]: "BasisStale = ''STALE''"

definition BasisNoData :: string where
  [simp]: "BasisNoData = ''NO_DATA''"

definition OutcomeFull :: string where
  [simp]: "OutcomeFull = ''FULL''"

definition OutcomeLimited :: string where
  [simp]: "OutcomeLimited = ''LIMITED''"

definition OutcomePaused :: string where
  [simp]: "OutcomePaused = ''PAUSED''"

definition MinimumUsefulKW :: float64 where
  "MinimumUsefulKW = Fin (round64 (14 / 10))"

record Policy =
  po_CapacityKW :: float64
  po_SafetyMarginKW :: float64
  po_FallbackKW :: float64
  po_ObservationFreshness :: duration
  po_MaxConnectorKW :: float64

record Demand =
  de_StationID :: string
  de_ConnectorID :: string
  de_RequestedKW :: float64

record Allocation =
  al_StationID :: string
  al_ConnectorID :: string
  al_MaxPowerKW :: float64
  al_Outcome :: string

record Advice =
  ad_SiteID :: string
  ad_ComputedAt :: time
  ad_SiteCapacityKW :: float64
  ad_NonEVLoadKW :: float64
  ad_AvailableForEVKW :: float64
  ad_SolarSurplusKW :: float64
  ad_Basis :: string
  ad_ObservationAgeSec :: float64
  ad_Allocations :: "Allocation list"

section \<open>Helpers\<close>

definition valueOr :: "float64 option \<Rightarrow> float64 \<Rightarrow> float64" where
  "valueOr value fallback = (case value of None \<Rightarrow> fallback | Some v \<Rightarrow> v)"

definition clamp :: "float64 \<Rightarrow> float64 \<Rightarrow> float64" where
  "clamp value maximum =
     (if flt (Fin 0) maximum \<and> flt maximum value then maximum else math_Max value (Fin 0))"

definition round_kw :: "float64 \<Rightarrow> float64" where
  "round_kw value = fdiv (Floor (fmul value (Fin 100))) (Fin 100)"

definition without :: "nat list \<Rightarrow> nat list \<Rightarrow> nat list" where
  "without indices removed = filter (\<lambda>index. index \<notin> set removed) indices"

section \<open>The deterministic order\<close>

definition demand_less :: "Demand \<Rightarrow> Demand \<Rightarrow> bool" where
  "demand_less first second =
     (if \<not> feq (de_RequestedKW first) (de_RequestedKW second)
      then flt (de_RequestedKW first) (de_RequestedKW second)
      else if de_StationID first \<noteq> de_StationID second
      then de_StationID first < de_StationID second
      else de_ConnectorID first < de_ConnectorID second)"

section \<open>allocate\<close>

definition full_allocation :: "Policy \<Rightarrow> Demand list \<Rightarrow> nat \<Rightarrow> Allocation" where
  "full_allocation policy ordered index =
     \<lparr>al_StationID = de_StationID (ordered ! index),
      al_ConnectorID = de_ConnectorID (ordered ! index),
      al_MaxPowerKW = round_kw (clamp (de_RequestedKW (ordered ! index)) (po_MaxConnectorKW policy)),
      al_Outcome = OutcomeFull\<rparr>"

text \<open>
  The state of the first loop: the remaining power, the results so far and the indices satisfied
  in the current pass.
\<close>

definition satisfy_one ::
  "Policy \<Rightarrow> Demand list \<Rightarrow> float64 \<Rightarrow> nat \<Rightarrow>
   float64 \<times> (nat \<rightharpoonup> Allocation) \<times> nat list \<Rightarrow> float64 \<times> (nat \<rightharpoonup> Allocation) \<times> nat list" where
  "satisfy_one policy ordered share index = (\<lambda>(remainingKW, results, satisfied).
     let requested = clamp (de_RequestedKW (ordered ! index)) (po_MaxConnectorKW policy)
     in if fle requested share
        then (fsub remainingKW requested,
              results(index \<mapsto> full_allocation policy ordered index),
              satisfied @ [index])
        else (remainingKW, results, satisfied))"

definition satisfy_pass ::
  "Policy \<Rightarrow> Demand list \<Rightarrow> float64 \<Rightarrow> (nat \<rightharpoonup> Allocation) \<Rightarrow> nat list \<Rightarrow>
   float64 \<times> (nat \<rightharpoonup> Allocation) \<times> nat list" where
  "satisfy_pass policy ordered remainingKW results remaining =
     (let share = fdiv remainingKW (float_of_int (int (length remaining)))
      in fold (satisfy_one policy ordered share) remaining (remainingKW, results, []))"

lemma satisfy_fold_sublist:
  "fold (satisfy_one policy ordered share) xs (r, res, sat) = (r', res', sat') \<Longrightarrow>
   set sat' \<subseteq> set sat \<union> set xs"
  by (induction xs arbitrary: r res sat) (fastforce simp: satisfy_one_def Let_def split: if_splits)+

lemma satisfy_pass_sublist:
  "satisfy_pass policy ordered r res remaining = (r', res', sat) \<Longrightarrow> set sat \<subseteq> set remaining"
  using satisfy_fold_sublist by (fastforce simp: satisfy_pass_def Let_def)

lemma length_without:
  "set removed \<subseteq> set indices \<Longrightarrow> removed \<noteq> [] \<Longrightarrow> length (without indices removed) < length indices"
  unfolding without_def
  by (metis (no_types, lifting) filter_cong hd_in_set length_filter_less subset_code(1))

function satisfy_loop ::
  "Policy \<Rightarrow> Demand list \<Rightarrow> float64 \<Rightarrow> (nat \<rightharpoonup> Allocation) \<Rightarrow> nat list \<Rightarrow>
   float64 \<times> (nat \<rightharpoonup> Allocation) \<times> nat list" where
  "satisfy_loop policy ordered remainingKW results remaining =
     (if remaining = [] then (remainingKW, results, [])
      else case satisfy_pass policy ordered remainingKW results remaining of
             (remainingKW', results', satisfied) \<Rightarrow>
               if satisfied = [] then (remainingKW', results', remaining)
               else satisfy_loop policy ordered remainingKW' results' (without remaining satisfied))"
  by pat_completeness auto
termination
  by (relation "measure (\<lambda>(_, _, _, _, remaining). length remaining)")
     (auto dest!: satisfy_pass_sublist [OF sym] intro: length_without)

declare satisfy_loop.simps [simp del]

definition limited_allocation :: "Policy \<Rightarrow> Demand list \<Rightarrow> float64 \<Rightarrow> nat \<Rightarrow> Allocation" where
  "limited_allocation policy ordered share index =
     \<lparr>al_StationID = de_StationID (ordered ! index),
      al_ConnectorID = de_ConnectorID (ordered ! index),
      al_MaxPowerKW = round_kw (clamp share (po_MaxConnectorKW policy)),
      al_Outcome = OutcomeLimited\<rparr>"

definition paused_allocation :: "Demand list \<Rightarrow> nat \<Rightarrow> Allocation" where
  "paused_allocation ordered index =
     \<lparr>al_StationID = de_StationID (ordered ! index),
      al_ConnectorID = de_ConnectorID (ordered ! index),
      al_MaxPowerKW = Fin 0,
      al_Outcome = OutcomePaused\<rparr>"

function share_loop ::
  "Policy \<Rightarrow> Demand list \<Rightarrow> float64 \<Rightarrow> (nat \<rightharpoonup> Allocation) \<Rightarrow> nat list \<Rightarrow> (nat \<rightharpoonup> Allocation)" where
  "share_loop policy ordered remainingKW results remaining =
     (if remaining = [] then results
      else let share = fdiv remainingKW (float_of_int (int (length remaining)))
           in if fle MinimumUsefulKW share
              then fold (\<lambda>index res. res(index \<mapsto> limited_allocation policy ordered share index))
                        remaining results
              else share_loop policy ordered remainingKW
                     (results(last remaining \<mapsto> paused_allocation ordered (last remaining)))
                     (butlast remaining))"
  by pat_completeness auto
termination
  by (relation "measure (\<lambda>(_, _, _, _, remaining). length remaining)") auto

declare share_loop.simps [simp del]

definition zero_allocation :: Allocation where
  "zero_allocation = \<lparr>al_StationID = [], al_ConnectorID = [], al_MaxPowerKW = Fin 0, al_Outcome = []\<rparr>"

text \<open>
  Reading a missing key of the results map gives the zero \<open>Allocation\<close>, as in Go; no index is ever
  missing (\<open>allocate_results\<close> below).
\<close>

definition allocate_ordered :: "float64 \<Rightarrow> Policy \<Rightarrow> Demand list \<Rightarrow> Allocation list" where
  "allocate_ordered availableKW policy ordered =
     (case satisfy_loop policy ordered availableKW Map.empty [0..<length ordered] of
        (remainingKW, results, remaining) \<Rightarrow>
          let results = share_loop policy ordered remainingKW results remaining
          in map (\<lambda>index. case results index of None \<Rightarrow> zero_allocation | Some a \<Rightarrow> a)
                 [0..<length ordered])"

definition allocate :: "float64 \<Rightarrow> Policy \<Rightarrow> Demand list \<Rightarrow> Allocation list" where
  "allocate availableKW policy demands =
     (if demands = [] then []
      else allocate_ordered availableKW policy (sort_Slice demand_less demands))"

section \<open>Compute\<close>

definition evPower :: "Demand list \<Rightarrow> float64" where
  "evPower demands = fold (\<lambda>demand acc. fadd acc (math_Max (de_RequestedKW demand) (Fin 0))) demands (Fin 0)"

definition Compute ::
  "string \<Rightarrow> Policy \<Rightarrow> EnergyObservation option \<Rightarrow> Demand list \<Rightarrow> time \<Rightarrow> Advice" where
  "Compute siteID policy observation demands now =
     (let advice = \<lparr>ad_SiteID = siteID, ad_ComputedAt = now,
                    ad_SiteCapacityKW = po_CapacityKW policy, ad_NonEVLoadKW = Fin 0,
                    ad_AvailableForEVKW = Fin 0, ad_SolarSurplusKW = Fin 0, ad_Basis = [],
                    ad_ObservationAgeSec = Fin 0, ad_Allocations = []\<rparr>;
          evPowerKW = evPower demands;
          advice =
            (case observation of
               None \<Rightarrow> advice\<lparr>ad_Basis := BasisNoData, ad_AvailableForEVKW := po_FallbackKW policy\<rparr>
             | Some obs \<Rightarrow>
                 if po_ObservationFreshness policy < time_Sub now (eo_ObservedAt obs)
                 then advice\<lparr>ad_Basis := BasisStale,
                             ad_ObservationAgeSec := Seconds (time_Sub now (eo_ObservedAt obs)),
                             ad_AvailableForEVKW := po_FallbackKW policy\<rparr>
                 else let siteLoadKW = valueOr (eo_SiteLoadKW obs) (Fin 0);
                          nonEV = math_Max (fsub siteLoadKW evPowerKW) (Fin 0)
                      in advice\<lparr>ad_Basis := BasisMeasured,
                                ad_ObservationAgeSec := Seconds (time_Sub now (eo_ObservedAt obs)),
                                ad_NonEVLoadKW := nonEV,
                                ad_AvailableForEVKW := fsub (po_CapacityKW policy) nonEV,
                                ad_SolarSurplusKW :=
                                  (case eo_SolarGenerationKW obs of
                                     None \<Rightarrow> Fin 0
                                   | Some generation \<Rightarrow> math_Max (fsub generation nonEV) (Fin 0))\<rparr>);
          advice = advice\<lparr>ad_AvailableForEVKW :=
                     math_Max (fsub (ad_AvailableForEVKW advice) (po_SafetyMarginKW policy)) (Fin 0)\<rparr>
      in advice\<lparr>ad_Allocations := allocate (ad_AvailableForEVKW advice) policy demands\<rparr>)"

section \<open>The loops as set operations on the indices\<close>

abbreviation req :: "Policy \<Rightarrow> Demand list \<Rightarrow> nat \<Rightarrow> float64" where
  "req policy ordered i \<equiv> clamp (de_RequestedKW (ordered ! i)) (po_MaxConnectorKW policy)"

text \<open>One pass of the first loop satisfies exactly the indices whose request fits the share.\<close>

definition fits :: "Policy \<Rightarrow> Demand list \<Rightarrow> float64 \<Rightarrow> nat list \<Rightarrow> nat \<Rightarrow> bool" where
  "fits policy ordered r remaining i \<longleftrightarrow>
     fle (req policy ordered i) (fdiv r (float_of_int (int (length remaining))))"

definition drain :: "Policy \<Rightarrow> Demand list \<Rightarrow> nat list \<Rightarrow> float64 \<Rightarrow> float64" where
  "drain policy ordered = fold (\<lambda>i r. fsub r (req policy ordered i))"

lemma satisfy_fold:
  "fold (satisfy_one policy ordered share) xs (r, res, sat) =
     (let ys = filter (\<lambda>i. fle (req policy ordered i) share) xs
      in (drain policy ordered ys r,
          \<lambda>i. if i \<in> set ys then Some (full_allocation policy ordered i) else res i,
          sat @ ys))"
  by (induction xs arbitrary: r res sat) (auto simp: satisfy_one_def drain_def Let_def fun_eq_iff)

lemma satisfy_pass_eq:
  "satisfy_pass policy ordered r res remaining =
     (let ys = filter (fits policy ordered r remaining) remaining
      in (drain policy ordered ys r,
          \<lambda>i. if i \<in> set ys then Some (full_allocation policy ordered i) else res i, ys))"
  by (simp add: satisfy_pass_def satisfy_fold Let_def fits_def [abs_def])

lemma without_filter: "without xs (filter P xs) = filter (\<lambda>x. \<not> P x) xs"
  unfolding without_def by (rule filter_cong) auto

lemma satisfy_loop_unfold:
  "satisfy_loop policy ordered r res remaining =
     (let ys = filter (fits policy ordered r remaining) remaining
      in if ys = [] then (r, res, remaining)
         else satisfy_loop policy ordered (drain policy ordered ys r)
                (\<lambda>i. if i \<in> set ys then Some (full_allocation policy ordered i) else res i)
                (filter (\<lambda>i. \<not> fits policy ordered r remaining i) remaining))"
  by (subst satisfy_loop.simps) (auto simp: satisfy_pass_eq Let_def without_filter drain_def)

lemma satisfy_loop_induct [case_names stop step]:
  assumes stop: "\<And>r res remaining. filter (fits policy ordered r remaining) remaining = [] \<Longrightarrow>
      Q r res remaining (r, res, remaining)"
    and step: "\<And>r res remaining ys out. ys = filter (fits policy ordered r remaining) remaining \<Longrightarrow>
      ys \<noteq> [] \<Longrightarrow>
      Q (drain policy ordered ys r)
        (\<lambda>i. if i \<in> set ys then Some (full_allocation policy ordered i) else res i)
        (filter (\<lambda>i. \<not> fits policy ordered r remaining i) remaining) out \<Longrightarrow>
      Q r res remaining out"
  shows "Q r res remaining (satisfy_loop policy ordered r res remaining)"
proof (induction "length remaining" arbitrary: r res remaining rule: less_induct)
  case less
  let ?ys = "filter (fits policy ordered r remaining) remaining"
  show ?case
  proof (cases "?ys = []")
    case True
    then show ?thesis using stop by (subst satisfy_loop_unfold) (simp add: Let_def)
  next
    case False
    then have "length (filter (\<lambda>i. \<not> fits policy ordered r remaining i) remaining) < length remaining"
      by (auto simp: filter_empty_conv intro: length_filter_less)
    from less [OF this] step [OF refl False] False show ?thesis
      by (subst satisfy_loop_unfold) (simp add: Let_def)
  qed
qed

text \<open>What the first loop leaves: a sublist of the indices, and FULL results for the others.\<close>

definition loop_shape ::
  "Policy \<Rightarrow> Demand list \<Rightarrow> (nat \<rightharpoonup> Allocation) \<Rightarrow> nat list \<Rightarrow>
   float64 \<times> (nat \<rightharpoonup> Allocation) \<times> nat list \<Rightarrow> bool" where
  "loop_shape policy ordered res remaining = (\<lambda>(r', res', remaining').
     (\<exists>P. remaining' = filter P remaining) \<and>
     res' = (\<lambda>i. if i \<in> set remaining \<and> i \<notin> set remaining'
                 then Some (full_allocation policy ordered i) else res i) \<and>
     (\<forall>i\<in>set remaining'. \<not> fits policy ordered r' remaining' i))"

lemma satisfy_loop_shape:
  "loop_shape policy ordered res remaining (satisfy_loop policy ordered r res remaining)"
proof (induction rule: satisfy_loop_induct [where Q = "\<lambda>r res remaining out. loop_shape policy ordered res remaining out"])
  case (stop r res remaining)
  then show ?case
    by (auto simp: loop_shape_def filter_empty_conv fun_eq_iff intro!: exI [of _ "\<lambda>_. True"])
next
  case (step r res remaining ys out)
  obtain r' res' remaining' where out: "out = (r', res', remaining')" by (cases out) auto
  from step.IH obtain P where P: "remaining' = filter P (filter (\<lambda>i. \<not> fits policy ordered r remaining i) remaining)"
    unfolding out loop_shape_def by auto
  then have "remaining' = filter (\<lambda>i. P i \<and> \<not> fits policy ordered r remaining i) remaining" by (simp add: conj_commute)
  with step.IH P show ?case
    unfolding out loop_shape_def prod.case step.hyps(1) by (auto simp: fun_eq_iff)
qed

text \<open>
  The second loop gives a prefix of the remaining indices the same share and pauses the rest.
\<close>

definition share_of :: "float64 \<Rightarrow> nat list \<Rightarrow> float64" where
  "share_of r xs = fdiv r (float_of_int (int (length xs)))"

lemma fold_map_upd: "fold (\<lambda>i res. res(i \<mapsto> f i)) xs res = (\<lambda>i. if i \<in> set xs then Some (f i) else res i)"
  by (induction xs arbitrary: res) (auto simp: fun_eq_iff)

lemma share_loop_shape:
  "distinct remaining \<Longrightarrow>
   \<exists>limited paused. remaining = limited @ paused \<and>
     (limited \<noteq> [] \<longrightarrow> fle MinimumUsefulKW (share_of r limited)) \<and>
     (\<forall>i. share_loop policy ordered r res remaining i =
        (if i \<in> set limited then Some (limited_allocation policy ordered (share_of r limited) i)
         else if i \<in> set paused then Some (paused_allocation ordered i) else res i))"
proof (induction remaining arbitrary: res rule: rev_induct)
  case Nil
  then show ?case by (subst share_loop.simps) simp
next
  case (snoc x xs)
  show ?case
  proof (cases "fle MinimumUsefulKW (share_of r (xs @ [x]))")
    case True
    then show ?thesis
      by (intro exI [of _ "xs @ [x]"] exI [of _ "[]"], subst share_loop.simps)
         (simp add: share_of_def fold_map_upd del: fold_append)
  next
    case False
    have "distinct xs" using snoc.prems by simp
    from snoc.IH [OF this, of "res(x \<mapsto> paused_allocation ordered x)"]
    obtain limited paused where IH: "xs = limited @ paused"
      "limited \<noteq> [] \<longrightarrow> fle MinimumUsefulKW (share_of r limited)"
      "\<forall>i. share_loop policy ordered r (res(x \<mapsto> paused_allocation ordered x)) xs i =
        (if i \<in> set limited then Some (limited_allocation policy ordered (share_of r limited) i)
         else if i \<in> set paused then Some (paused_allocation ordered i)
         else (res(x \<mapsto> paused_allocation ordered x)) i)"
      by blast
    from False have "share_loop policy ordered r res (xs @ [x]) =
      share_loop policy ordered r (res(x \<mapsto> paused_allocation ordered x)) xs"
      by (subst share_loop.simps) (simp add: share_of_def)
    with IH snoc.prems show ?thesis
      by (intro exI [of _ limited] exI [of _ "paused @ [x]"]) auto
  qed
qed

section \<open>The order of the demands\<close>

definition comparable_demands :: "Demand set" where
  "comparable_demands = {d. is_fin (de_RequestedKW d)}"

interpretation demand_order: strict_weak_order demand_less comparable_demands
  by unfold_locales
     (auto simp: comparable_demands_def demand_less_def feq_fin flt_fin split: if_splits)

definition de_key :: "Demand \<Rightarrow> string \<times> string" where
  "de_key d = (de_StationID d, de_ConnectorID d)"

definition al_key :: "Allocation \<Rightarrow> string \<times> string" where
  "al_key a = (al_StationID a, al_ConnectorID a)"

lemma demand_less_total:
  "\<not> demand_less x y \<Longrightarrow> \<not> demand_less y x \<Longrightarrow>
   is_fin (de_RequestedKW x) \<Longrightarrow> is_fin (de_RequestedKW y) \<Longrightarrow> de_key x = de_key y"
  by (auto simp: demand_less_def feq_fin flt_fin de_key_def split: if_splits)

lemma demand_less_requested:
  "\<not> demand_less y x \<Longrightarrow> is_fin (de_RequestedKW x) \<Longrightarrow> is_fin (de_RequestedKW y) \<Longrightarrow>
   fval (de_RequestedKW x) \<le> fval (de_RequestedKW y)"
  by (auto simp: demand_less_def feq_fin flt_fin split: if_splits)

section \<open>The shape of an allocation\<close>

lemma allocate_ordered_shape:
  obtains r limited paused where
    "fst (satisfy_loop policy ordered A Map.empty [0..<length ordered]) = r"
    "snd (snd (satisfy_loop policy ordered A Map.empty [0..<length ordered])) = limited @ paused"
    "distinct (limited @ paused)" "sorted (limited @ paused)"
    "set (limited @ paused) \<subseteq> {0..<length ordered}"
    "limited \<noteq> [] \<longrightarrow> fle MinimumUsefulKW (share_of r limited)"
    "allocate_ordered A policy ordered =
       map (\<lambda>i. if i \<in> set limited then limited_allocation policy ordered (share_of r limited) i
                else if i \<in> set paused then paused_allocation ordered i
                else full_allocation policy ordered i) [0..<length ordered]"
proof -
  obtain r res rem where loop: "satisfy_loop policy ordered A Map.empty [0..<length ordered] = (r, res, rem)"
    by (cases "satisfy_loop policy ordered A Map.empty [0..<length ordered]") auto
  have shape: "loop_shape policy ordered Map.empty [0..<length ordered] (r, res, rem)"
    using satisfy_loop_shape [of policy ordered Map.empty "[0..<length ordered]" A] loop by simp
  then obtain P where P: "rem = filter P [0..<length ordered]" by (auto simp: loop_shape_def)
  have d: "distinct rem" using P by (simp add: distinct_filter)
  from share_loop_shape [OF d, of r policy ordered res]
  obtain limited paused where lp: "rem = limited @ paused"
    "limited \<noteq> [] \<longrightarrow> fle MinimumUsefulKW (share_of r limited)"
    "\<And>i. share_loop policy ordered r res rem i =
        (if i \<in> set limited then Some (limited_allocation policy ordered (share_of r limited) i)
         else if i \<in> set paused then Some (paused_allocation ordered i) else res i)"
    by blast
  have "allocate_ordered A policy ordered =
       map (\<lambda>i. if i \<in> set limited then limited_allocation policy ordered (share_of r limited) i
                else if i \<in> set paused then paused_allocation ordered i
                else full_allocation policy ordered i) [0..<length ordered]"
    using shape lp by (auto simp: allocate_ordered_def loop loop_shape_def)
  moreover have "distinct rem" "sorted rem" "set rem \<subseteq> {0..<length ordered}"
    using P by (auto simp: distinct_filter sorted_wrt_filter)
  ultimately show thesis using that lp loop by simp
qed

lemma allocate_ordered_keys: "map al_key (allocate_ordered A policy ordered) = map de_key ordered"
proof -
  obtain r limited paused where
    "allocate_ordered A policy ordered =
       map (\<lambda>i. if i \<in> set limited then limited_allocation policy ordered (share_of r limited) i
                else if i \<in> set paused then paused_allocation ordered i
                else full_allocation policy ordered i) [0..<length ordered]"
    by (rule allocate_ordered_shape)
  then show ?thesis
    by (auto intro!: nth_equalityI
        simp: al_key_def de_key_def limited_allocation_def paused_allocation_def full_allocation_def)
qed

section \<open>Order facts of the operations\<close>

lemma fle_not_nan: "fle x y \<Longrightarrow> \<not> IsNaN x \<and> \<not> IsNaN y"
  by (auto simp: fle_def flt_def feq_def split: if_splits)

lemma fle_nan [simp]: "\<not> fle NaN x" "\<not> fle x NaN"
  using fle_not_nan by fastforce+

lemma fle_refl: "\<not> IsNaN x \<Longrightarrow> fle x x"
  by (simp add: fle_def feq_def)

lemma fle_trans: "fle x y \<Longrightarrow> fle y z \<Longrightarrow> fle x z"
  by (cases x; cases y; cases z) (auto simp: fle_def flt_def feq_def split: if_splits)

lemma fle_infinities [simp]:
  "fle x PosInf \<longleftrightarrow> \<not> IsNaN x" "fle NegInf x \<longleftrightarrow> \<not> IsNaN x"
  by (cases x; simp add: fle_def flt_def feq_def)+

lemma pack64_mono: "a \<le> b \<Longrightarrow> fle (pack64 s a) (pack64 t b)"
proof -
  assume "a \<le> b"
  then have "round64 a \<le> round64 b" by (rule round64_mono)
  then show ?thesis
    by (auto simp: pack64_def Let_def fle_def flt_def feq_def split: if_splits)
qed

text \<open>Scaling by a positive constant, \<open>Floor\<close> and \<open>math.Max\<close> keep the order.\<close>

lemma fmul_pos_mono: "0 < c \<Longrightarrow> fle x y \<Longrightarrow> fle (fmul x (Fin c)) (fmul y (Fin c))"
  by (cases x; cases y)
     (auto simp: fmul_def finf_def fle_fin fle_def [of PosInf] fle_def [of _ NegInf] flt_def feq_def
        mult_le_0_iff intro!: pack64_mono mult_right_mono)

lemma fdiv_pos_mono: "0 < c \<Longrightarrow> fle x y \<Longrightarrow> fle (fdiv x (Fin c)) (fdiv y (Fin c))"
  by (cases x; cases y)
     (auto simp: fdiv_def finf_def fle_fin fle_def [of PosInf] fle_def [of _ NegInf] flt_def feq_def
        divide_le_0_iff intro!: pack64_mono divide_right_mono)

lemma Floor_mono: "fle x y \<Longrightarrow> fle (Floor x) (Floor y)"
proof -
  have "q \<le> 0 \<Longrightarrow> \<lfloor>q\<rfloor> \<le> 0" "0 \<le> q \<Longrightarrow> 0 \<le> \<lfloor>q\<rfloor>" for q :: rat
    by (linarith, simp)
  then show "fle x y \<Longrightarrow> fle (Floor x) (Floor y)"
    by (cases x; cases y)
       (auto simp: fle_fin fle_def [of PosInf] fle_def [of _ NegInf] flt_def feq_def intro: floor_mono)
qed

lemma round_kw_mono: "fle x y \<Longrightarrow> fle (round_kw x) (round_kw y)"
  unfolding round_kw_def by (intro fdiv_pos_mono Floor_mono fmul_pos_mono) auto

lemma math_Max_left_mono: "fle x y \<Longrightarrow> \<not> IsNaN z \<Longrightarrow> fle (math_Max x z) (math_Max y z)"
  by (cases x; cases y; cases z)
     (auto simp: math_Max_def fle_def flt_def feq_def split: if_splits)

lemma math_Max_upper: "\<not> IsNaN x \<Longrightarrow> \<not> IsNaN y \<Longrightarrow> fle x (math_Max x y) \<and> fle y (math_Max x y)"
  by (cases x; cases y) (auto simp: math_Max_def fle_def flt_def feq_def split: if_splits)

lemma clamp_fin:
  assumes "is_fin v"
  shows "is_fin (clamp v m)"
    and "fval (clamp v m) = (if is_fin m \<and> 0 < fval m then min (max (fval v) 0) (fval m) else max (fval v) 0)"
  using assms math_Max_fin [of v "Fin 0"]
  by (cases m; auto simp: clamp_def flt_fin is_fin_def min_def max_def; auto simp: flt_def)+

lemma clamp_nonneg: "is_fin v \<Longrightarrow> 0 \<le> fval (clamp v m)"
  by (simp add: clamp_fin)

lemma clamp_mono: "is_fin v \<Longrightarrow> is_fin w \<Longrightarrow> fval v \<le> fval w \<Longrightarrow> fval (clamp v m) \<le> fval (clamp w m)"
  by (auto simp: clamp_fin)

lemma MinimumUseful_round: "round_kw MinimumUsefulKW = MinimumUsefulKW"
  by code_simp

lemma MinimumUseful_pos: "fle (Fin 0) MinimumUsefulKW"
  by code_simp

lemma clamp_lower:
  assumes "fle l x" and "fle (Fin 0) l" and "\<not> flt (Fin 0) m \<or> fle l m"
  shows "fle l (clamp x m)"
proof -
  have "fle l (math_Max x (Fin 0))"
    using assms(1) math_Max_upper [of x "Fin 0"] fle_not_nan fle_trans by fastforce
  then show ?thesis using assms(3) by (auto simp: clamp_def)
qed

section \<open>Outcomes along the deterministic order\<close>

text \<open>On requests that grow with the index, the first loop satisfies a prefix.\<close>

definition growing :: "Policy \<Rightarrow> Demand list \<Rightarrow> nat list \<Rightarrow> bool" where
  "growing policy ordered xs \<longleftrightarrow>
     (\<forall>i\<in>set xs. \<forall>j\<in>set xs. i \<le> j \<longrightarrow>
        is_fin (req policy ordered i) \<and> is_fin (req policy ordered j) \<and>
        fval (req policy ordered i) \<le> fval (req policy ordered j))"

lemma fits_downclosed:
  assumes "growing policy ordered xs" and "i \<in> set xs" "j \<in> set xs" "i \<le> j"
    and "fits policy ordered r remaining j"
  shows "fits policy ordered r remaining i"
proof -
  have "fle (req policy ordered i) (req policy ordered j)"
    using assms(1-4) by (simp add: growing_def fle_fin)
  then show ?thesis using assms(5) fle_trans unfolding fits_def by blast
qed

lemma satisfy_loop_prefix:
  "growing policy ordered remaining \<longrightarrow>
   (\<forall>i\<in>set (snd (snd (satisfy_loop policy ordered r res remaining))). i \<in> set remaining \<and>
      (\<forall>j\<in>set remaining. i \<le> j \<longrightarrow> j \<in> set (snd (snd (satisfy_loop policy ordered r res remaining)))))"
proof (induction rule: satisfy_loop_induct
    [where Q = "\<lambda>r res remaining out. growing policy ordered remaining \<longrightarrow>
      (\<forall>i\<in>set (snd (snd out)). i \<in> set remaining \<and>
         (\<forall>j\<in>set remaining. i \<le> j \<longrightarrow> j \<in> set (snd (snd out))))"])
  case (stop r res remaining)
  then show ?case by simp
next
  case (step r res remaining ys out)
  let ?rest = "filter (\<lambda>i. \<not> fits policy ordered r remaining i) remaining"
  show ?case
  proof (intro impI ballI conjI)
    fix i
    assume grow: "growing policy ordered remaining" and i: "i \<in> set (snd (snd out))"
    then have "growing policy ordered ?rest" by (auto simp: growing_def)
    with step.IH i have rest: "i \<in> set ?rest" and up: "\<And>j. j \<in> set ?rest \<Longrightarrow> i \<le> j \<Longrightarrow> j \<in> set (snd (snd out))"
      by blast+
    then have i_rem: "i \<in> set remaining" and no: "\<not> fits policy ordered r remaining i" by simp_all
    show "i \<in> set remaining" by (rule i_rem)
    show "j \<in> set (snd (snd out))" if j: "j \<in> set remaining" "i \<le> j" for j
    proof -
      have "\<not> fits policy ordered r remaining j"
        using no fits_downclosed [OF grow i_rem j] by blast
      then show ?thesis using up j by simp
    qed
  qed
qed

lemma upclosed_upt:
  assumes "sorted xs" "distinct xs" "set xs \<subseteq> {0..<n}"
    and "\<And>i j. i \<in> set xs \<Longrightarrow> i \<le> j \<Longrightarrow> j < n \<Longrightarrow> j \<in> set xs"
  obtains k where "xs = [k..<n]" "k \<le> n"
proof (cases xs)
  case Nil
  then show ?thesis using that [of n] by simp
next
  case (Cons k ys)
  have kin: "k \<in> set xs" and lo: "\<And>x. x \<in> set xs \<Longrightarrow> k \<le> x" using Cons assms(1) by auto
  have "set xs = set [k..<n]"
  proof (intro equalityI subsetI)
    fix x assume "x \<in> set xs"
    then show "x \<in> set [k..<n]" using lo subsetD [OF assms(3)] by simp
  next
    fix x assume "x \<in> set [k..<n]"
    then show "x \<in> set xs" using assms(4) [OF kin] by simp
  qed
  then have "xs = [k..<n]"
    using assms(1,2) by (intro sorted_distinct_set_unique) auto
  then show ?thesis using that [of k] subsetD [OF assms(3) kin] by simp
qed

lemma map_outcome_split:
  assumes "limited @ paused = [k..<n]" "k \<le> n"
  shows "map (\<lambda>i. if i \<in> set limited then a else if i \<in> set paused then b else c) [0..<n] =
         replicate k c @ replicate (length limited) a @ replicate (length paused) b"
proof -
  let ?f = "\<lambda>i. if i \<in> set limited then a else if i \<in> set paused then b else c"
  have d: "distinct (limited @ paused)" and s: "\<And>i. i \<in> set (limited @ paused) \<Longrightarrow> k \<le> i"
    unfolding assms(1) by simp_all
  have "[0..<n] = [0..<k] @ limited @ paused"
    using assms by (metis le0 upt_add_eq_append le_add_diff_inverse)
  then have "map ?f [0..<n] = map ?f [0..<k] @ map ?f limited @ map ?f paused" by (simp only: map_append)
  moreover have "map ?f [0..<k] = replicate k c"
    using s by (intro replicate_eqI) (auto simp: leD)
  moreover have "map ?f limited = replicate (length limited) a"
    by (intro replicate_eqI) auto
  moreover have "map ?f paused = replicate (length paused) b"
    using d by (intro replicate_eqI) auto
  ultimately show ?thesis by simp
qed

lemma allocate_ordered_outcomes:
  assumes "growing policy ordered [0..<length ordered]"
  shows "\<exists>k l p. map al_Outcome (allocate_ordered A policy ordered) =
           replicate k OutcomeFull @ replicate l OutcomeLimited @ replicate p OutcomePaused"
proof -
  let ?n = "length ordered"
  obtain r limited paused where sh:
    "snd (snd (satisfy_loop policy ordered A Map.empty [0..<?n])) = limited @ paused"
    "distinct (limited @ paused)" "sorted (limited @ paused)" "set (limited @ paused) \<subseteq> {0..<?n}"
    "allocate_ordered A policy ordered =
       map (\<lambda>i. if i \<in> set limited then limited_allocation policy ordered (share_of r limited) i
                else if i \<in> set paused then paused_allocation ordered i
                else full_allocation policy ordered i) [0..<?n]"
    by (rule allocate_ordered_shape)
  have "\<forall>i\<in>set (limited @ paused). i \<in> set [0..<?n] \<and>
      (\<forall>j\<in>set [0..<?n]. i \<le> j \<longrightarrow> j \<in> set (limited @ paused))"
    using mp [OF satisfy_loop_prefix [of policy ordered "[0..<?n]" A Map.empty] assms] unfolding sh(1) .
  then have "j \<in> set (limited @ paused)" if "i \<in> set (limited @ paused)" "i \<le> j" "j < ?n" for i j
    using that by (metis atLeastLessThan_iff atLeastLessThan_upt le0)
  then obtain k where k: "limited @ paused = [k..<?n]" "k \<le> ?n"
    using upclosed_upt [OF sh(3,2,4)] by blast
  have "map al_Outcome (allocate_ordered A policy ordered) =
      map (\<lambda>i. if i \<in> set limited then OutcomeLimited else if i \<in> set paused then OutcomePaused
               else OutcomeFull) [0..<?n]"
    by (simp add: sh(5) limited_allocation_def paused_allocation_def full_allocation_def)
  then show ?thesis using map_outcome_split [OF k] by metis
qed

lemma growing_sorted:
  assumes "\<forall>d\<in>set ordered. is_fin (de_RequestedKW d)"
    and "sorted_wrt (\<lambda>x y. \<not> demand_less y x) ordered"
  shows "growing policy ordered [0..<length ordered]"
  unfolding growing_def
proof (intro ballI impI)
  fix i j assume ij: "i \<in> set [0..<length ordered]" "j \<in> set [0..<length ordered]" "i \<le> j"
  then have fin: "is_fin (de_RequestedKW (ordered ! i))" "is_fin (de_RequestedKW (ordered ! j))"
    using assms(1) by auto
  have "fval (de_RequestedKW (ordered ! i)) \<le> fval (de_RequestedKW (ordered ! j))"
  proof (cases "i = j")
    case False
    then show ?thesis using ij fin assms(2) demand_less_requested
      by (auto simp: sorted_wrt_iff_nth_less)
  qed simp
  then show "is_fin (req policy ordered i) \<and> is_fin (req policy ordered j) \<and>
      fval (req policy ordered i) \<le> fval (req policy ordered j)"
    using fin by (simp add: clamp_fin(1) clamp_mono)
qed

end
