(* ===== verification/Advice_Budget.thy ===== *)
theory Advice_Budget
  imports Advice
begin

text \<open>
  The budget of an allocation: the figures handed out add up to the power available, up to the
  rounding of binary64. Both loops of \<open>allocate\<close> are followed operation by operation, through the
  error bounds of the locale \<open>budget_rounding\<close> and its interpretation \<open>binary64\<close>.
\<close>

abbreviation qv :: "Policy \<Rightarrow> Demand list \<Rightarrow> nat \<Rightarrow> rat" where
  "qv policy ordered i \<equiv> fval (req policy ordered i)"

lemma drain_pass:
  assumes "is_fin r" "binary64.pass_inv m \<rho> j (fval r)"
    and "\<forall>i\<in>set ys. is_fin (req policy ordered i) \<and> 0 \<le> qv policy ordered i \<and>
           qv policy ordered i \<le> round64 (\<rho> / of_nat m) \<and> representable (qv policy ordered i)"
    and "j + length ys \<le> m" and "2 * of_nat m * (1 / 2 ^ 53 :: rat) \<le> 1"
    and "0 \<le> \<rho>" and "2 * \<rho> \<le> max_finite64"
  shows "is_fin (drain policy ordered ys r) \<and>
    binary64.pass_inv m \<rho> (j + length ys) (fval (drain policy ordered ys r)) \<and>
    \<bar>(\<Sum>i\<leftarrow>ys. qv policy ordered i) + fval (drain policy ordered ys r) - fval r\<bar> \<le> of_nat (length ys) * (2 * (1 / 2 ^ 53) * \<rho>)"
  using assms(1-4)
proof (induction ys arbitrary: j r)
  case Nil
  then show ?case by (simp add: drain_def)
next
  case (Cons i ys)
  let ?q = "qv policy ordered i"
  have j: "j < m" using Cons.prems(4) by simp
  have q: "is_fin (req policy ordered i)" "0 \<le> ?q" "?q \<le> round64 (\<rho> / of_nat m)" "representable ?q"
    using Cons.prems(3) by auto
  note st = binary64.pass_step [OF Cons.prems(2) j assms(5,6) q(2-4)]
  let ?r = "fsub r (req policy ordered i)"
  have r0: "representable 0" by (simp add: representable_def)
  have "\<bar>fval r - ?q\<bar> \<le> max_finite64" using st(1) r0 assms(7) by simp
  then have fin: "is_fin ?r" and val: "fval ?r = round64 (fval r - ?q)"
    using Cons.prems(1) q(1) by (simp_all add: fsub_fin is_fin_pack64_le fval_pack64)
  have "binary64.pass_inv m \<rho> (Suc j) (fval ?r)" using st(2) r0 val by simp
  from Cons.IH [OF fin this] Cons.prems(3,4)
  have IH: "is_fin (drain policy ordered ys ?r) \<and>
    binary64.pass_inv m \<rho> (Suc j + length ys) (fval (drain policy ordered ys ?r)) \<and>
    \<bar>(\<Sum>i\<leftarrow>ys. qv policy ordered i) + fval (drain policy ordered ys ?r) - fval ?r\<bar> \<le> of_nat (length ys) * (2 * (1 / 2 ^ 53) * \<rho>)"
    by simp
  let ?e = "2 * (1 / 2 ^ 53) * \<rho>" and ?S = "\<Sum>i\<leftarrow>ys. qv policy ordered i" and ?D = "fval (drain policy ordered ys ?r)"
  have "\<bar>fval ?r + ?q - fval r\<bar> \<le> ?e" using st(3) r0 val by simp
  moreover have "\<bar>?S + ?D - fval ?r\<bar> \<le> of_nat (length ys) * ?e" using IH by blast
  ultimately have "\<bar>?q + ?S + ?D - fval r\<bar> \<le> of_nat (length ys) * ?e + ?e" by linarith
  also have "\<dots> = of_nat (length (i # ys)) * ?e" by (simp add: distrib_right add_divide_distrib)
  finally show ?case using IH by (simp add: drain_def)
qed

lemma drain_zero:
  assumes "is_fin r" "representable (fval r)" "\<bar>fval r\<bar> \<le> max_finite64"
    and "\<forall>i\<in>set ys. is_fin (req policy ordered i) \<and> qv policy ordered i = 0"
  shows "is_fin (drain policy ordered ys r) \<and> fval (drain policy ordered ys r) = fval r"
  using assms
proof (induction ys arbitrary: r)
  case (Cons i ys)
  let ?r = "fsub r (req policy ordered i)"
  have "is_fin ?r" "fval ?r = fval r"
    using Cons.prems by (simp_all add: fsub_fin is_fin_pack64_le fval_pack64 representable_def)
  with Cons show ?case by (simp add: drain_def)
qed (simp add: drain_def)

text \<open>The state of the budget between passes, for at most \<open>n\<close> connectors and \<open>a\<close> kW available.\<close>

definition slack :: "nat \<Rightarrow> rat \<Rightarrow> rat" where
  "slack n a = (2 * of_nat n + 1) * (1 / 2 ^ 53) * a + of_nat n * eta64"

definition budget_ok :: "nat \<Rightarrow> rat \<Rightarrow> float64 \<Rightarrow> bool" where
  "budget_ok n a r \<longleftrightarrow> is_fin r \<and> representable (fval r) \<and> fval r \<le> a \<and> - slack n a \<le> fval r"

definition requests_ok :: "Policy \<Rightarrow> Demand list \<Rightarrow> nat list \<Rightarrow> bool" where
  "requests_ok policy ordered xs \<longleftrightarrow>
     (\<forall>i\<in>set xs. is_fin (req policy ordered i) \<and> 0 \<le> qv policy ordered i \<and> representable (qv policy ordered i))"

lemmas eta_small = eta64_nonneg eta64_small

lemma slack_mono: "m \<le> n \<Longrightarrow> 0 \<le> \<rho> \<Longrightarrow> \<rho> \<le> a \<Longrightarrow> slack m \<rho> \<le> slack n a"
  unfolding slack_def using eta_small(1) by (intro add_mono mult_mono) auto

lemma slack_bound: "n \<le> 2 ^ 40 \<Longrightarrow> 0 \<le> a \<Longrightarrow> slack n a \<le> a + 1"
proof -
  assume n: "n \<le> 2 ^ 40" and a: "0 \<le> a"
  have n': "(of_nat n :: rat) \<le> 2 ^ 40" using n by (metis of_nat_le_iff of_nat_numeral of_nat_power)
  have "(2 * of_nat n + 1) * (1 / 2 ^ 53) * a \<le> 1 * a"
    using n' a by (intro mult_right_mono) auto
  moreover have "of_nat n * eta64 \<le> 2 ^ 40 * (1 / 2 ^ 53)"
    using n' eta_small by (intro mult_mono) auto
  ultimately show ?thesis by (simp add: slack_def)
qed

lemma share_value:
  assumes "is_fin r" "\<bar>fval r\<bar> \<le> max_finite64" "xs \<noteq> []" "length xs \<le> 2 ^ 40"
  shows "is_fin (share_of r xs)" and "fval (share_of r xs) = round64 (fval r / of_nat (length xs))"
proof -
  have l: "length xs \<noteq> 0" "length xs \<le> 2 ^ 53" using assms(3,4) by auto
  have "\<bar>fval r\<bar> / of_nat (length xs) \<le> \<bar>fval r\<bar>"
    using l(1) by (simp add: divide_le_eq mult_le_cancel_left1) (use l(1) in linarith)
  then have "is_fin (pack64 s (fval r / of_nat (length xs)))" for s
    using assms(2) by (intro is_fin_pack64_le) (simp add: abs_divide)
  then show "is_fin (share_of r xs)" "fval (share_of r xs) = round64 (fval r / of_nat (length xs))"
    using assms(1) l by (simp_all add: share_of_def float_of_nat fdiv_fin fval_pack64)
qed

text \<open>One pass of the first loop: the requests that fit, and the budget after them.\<close>

lemma budget_abs:
  assumes "budget_ok n a r" "n \<le> 2 ^ 40" "0 \<le> a" "2 * a + 2 \<le> max_finite64"
  shows "\<bar>fval r\<bar> \<le> a + 1" "\<bar>fval r\<bar> \<le> max_finite64"
  using assms slack_bound [of n a] by (simp_all add: budget_ok_def abs_le_iff)

lemma fitting_requests:
  assumes "budget_ok n a r" "requests_ok policy ordered remaining" "length remaining \<le> n" "n \<le> 2 ^ 40"
    and "0 \<le> a" "2 * a + 2 \<le> max_finite64" and "i \<in> set remaining" "fits policy ordered r remaining i"
  shows "is_fin (req policy ordered i) \<and> 0 \<le> qv policy ordered i \<and> representable (qv policy ordered i) \<and>
      qv policy ordered i \<le> round64 (fval r / of_nat (length remaining))"
proof -
  have r: "is_fin r" using assms(1) by (simp add: budget_ok_def)
  have ne: "remaining \<noteq> []" and m: "length remaining \<le> 2 ^ 40" using assms(3,4,7) by auto
  show ?thesis
    using assms(2,7,8) share_value [OF r budget_abs(2) [OF assms(1,4-6)] ne m]
    by (auto simp: requests_ok_def fits_def share_of_def fle_fin)
qed

lemma pass_drains:
  assumes ok: "budget_ok n a r" and reqs: "requests_ok policy ordered remaining"
    and len: "length remaining \<le> n" and n: "n \<le> 2 ^ 40" and a: "0 \<le> a" "2 * a + 2 \<le> max_finite64"
    and ys: "ys = filter (fits policy ordered r remaining) remaining" and pos: "0 \<le> fval r"
  shows "is_fin (drain policy ordered ys r) \<and>
    binary64.pass_inv (length remaining) (fval r) (length ys) (fval (drain policy ordered ys r)) \<and>
    \<bar>(\<Sum>i\<leftarrow>ys. qv policy ordered i) + fval (drain policy ordered ys r) - fval r\<bar> \<le> of_nat (length ys) * (2 * (1 / 2 ^ 53) * fval r)"
proof -
  let ?m = "length remaining"
  have r: "is_fin r" "representable (fval r)" "fval r \<le> a" using ok by (auto simp: budget_ok_def)
  have start: "binary64.pass_inv ?m (fval r) 0 (fval r)" unfolding binary64.pass_inv_def using r(2) by simp
  have len_ys: "0 + length ys \<le> ?m" using ys by simp
  have "?m \<le> 2 ^ 40" using len n by simp
  then have "(of_nat ?m :: rat) \<le> 2 ^ 40" by (metis of_nat_le_iff of_nat_numeral of_nat_power)
  then have small: "2 * of_nat ?m * (1 / 2 ^ 53 :: rat) \<le> 1" by simp
  have "\<forall>i\<in>set ys. is_fin (req policy ordered i) \<and> 0 \<le> qv policy ordered i \<and>
      qv policy ordered i \<le> round64 (fval r / of_nat ?m) \<and> representable (qv policy ordered i)"
    using fitting_requests [OF ok reqs len n a] by (auto simp: ys)
  from drain_pass [OF r(1) start this len_ys small pos] show ?thesis using r(3) a by simp
qed

lemma budget_pass:
  assumes ok: "budget_ok n a r" and reqs: "requests_ok policy ordered remaining"
    and len: "length remaining \<le> n" and n: "n \<le> 2 ^ 40" and a: "0 \<le> a" "2 * a + 2 \<le> max_finite64"
    and ys: "ys = filter (fits policy ordered r remaining) remaining" "ys \<noteq> []"
  shows "budget_ok n a (drain policy ordered ys r) \<and>
    \<bar>(\<Sum>i\<leftarrow>ys. qv policy ordered i) + fval (drain policy ordered ys r) - fval r\<bar> \<le> of_nat (length ys) * (2 * (1 / 2 ^ 53) * a)"
proof -
  let ?m = "length remaining" and ?r = "drain policy ordered ys r"
  have r: "is_fin r" "representable (fval r)" "fval r \<le> a" "- slack n a \<le> fval r"
    using ok by (auto simp: budget_ok_def)
  have m: "0 < ?m" using ys by auto
  show ?thesis
  proof (cases "0 \<le> fval r")
    case True
    note res = pass_drains [OF ok reqs len n a ys(1) True]
    have "- slack ?m (fval r) \<le> fval ?r"
      using binary64.pass_lower [of ?m "fval r" "length ys" "fval ?r"] res ys(1) m True
      by (simp add: slack_def representable_def)
    then have "- slack n a \<le> fval ?r" using slack_mono [OF len True r(3)] by simp
    moreover have "of_nat (length ys) * (2 * (1 / 2 ^ 53) * fval r) \<le>
        of_nat (length ys) * (2 * (1 / 2 ^ 53) * a)"
      using r(3) by (intro mult_left_mono) auto
    moreover have "representable (fval ?r)" "fval ?r \<le> fval r"
      using res unfolding binary64.pass_inv_def by blast+
    ultimately show ?thesis using res r(3) by (auto simp: budget_ok_def)
  next
    case False
    then have "round64 (fval r / of_nat ?m) \<le> 0"
      using m by (intro round64_nonpos) (simp add: divide_le_0_iff)
    then have z: "\<forall>i\<in>set ys. is_fin (req policy ordered i) \<and> qv policy ordered i = 0"
      using fitting_requests [OF ok reqs len n a] by (fastforce simp: ys(1))
    have "is_fin ?r \<and> fval ?r = fval r" by (rule drain_zero [OF r(1,2) budget_abs(2) [OF ok n a] z])
    moreover have "map (qv policy ordered) ys = replicate (length ys) 0"
      using z by (intro replicate_eqI) auto
    then have "(\<Sum>i\<leftarrow>ys. qv policy ordered i) = 0" by (simp add: sum_list_replicate)
    ultimately show ?thesis using r a by (auto simp: budget_ok_def)
  qed
qed

text \<open>The first loop: what it hands out plus what it leaves exceeds the budget by rounding only.\<close>

definition loop_budget :: "nat \<Rightarrow> rat \<Rightarrow> Policy \<Rightarrow> Demand list \<Rightarrow> float64 \<Rightarrow> nat list \<Rightarrow> float64 \<Rightarrow> nat list \<Rightarrow> bool" where
  "loop_budget n a policy ordered r remaining r' remaining' \<longleftrightarrow>
     budget_ok n a r' \<and> set remaining' \<subseteq> set remaining \<and>
     \<bar>(\<Sum>i\<in>set remaining - set remaining'. qv policy ordered i) + fval r' - fval r\<bar> \<le>
       of_nat (card (set remaining - set remaining')) * (2 * (1 / 2 ^ 53) * a)"

lemma loop_budget_step:
  assumes d: "distinct remaining" and ys: "ys = filter P remaining"
    and pass: "\<bar>(\<Sum>i\<leftarrow>ys. qv policy ordered i) + fval r1 - fval r\<bar> \<le> of_nat (length ys) * e"
    and sub: "set remaining' \<subseteq> set (filter (\<lambda>i. \<not> P i) remaining)"
    and rest: "\<bar>(\<Sum>i\<in>set (filter (\<lambda>i. \<not> P i) remaining) - set remaining'. qv policy ordered i) + fval r' - fval r1\<bar> \<le>
       of_nat (card (set (filter (\<lambda>i. \<not> P i) remaining) - set remaining')) * e"
  shows "\<bar>(\<Sum>i\<in>set remaining - set remaining'. qv policy ordered i) + fval r' - fval r\<bar> \<le>
       of_nat (card (set remaining - set remaining')) * e"
proof -
  let ?rest = "set (filter (\<lambda>i. \<not> P i) remaining) - set remaining'"
  have split: "set remaining - set remaining' = set ys \<union> ?rest" and disj: "set ys \<inter> ?rest = {}"
    using sub by (auto simp: ys)
  have dy: "distinct ys" using d by (simp add: ys)
  have "(\<Sum>i\<leftarrow>ys. qv policy ordered i) = (\<Sum>i\<in>set ys. qv policy ordered i)"
    using dy by (rule sum_list_distinct_conv_sum_set)
  moreover have "card (set ys) = length ys" using dy by (rule distinct_card)
  moreover have "(\<Sum>i\<in>set remaining - set remaining'. qv policy ordered i) =
      (\<Sum>i\<in>set ys. qv policy ordered i) + (\<Sum>i\<in>?rest. qv policy ordered i)"
    unfolding split by (rule sum.union_disjoint) (use disj in auto)
  moreover have "card (set remaining - set remaining') = card (set ys) + card ?rest"
    unfolding split by (rule card_Un_disjoint) (use disj in auto)
  ultimately show ?thesis using pass rest by (simp add: distrib_right)
qed

lemma satisfy_loop_budget:
  assumes n: "n \<le> 2 ^ 40" and a: "0 \<le> a" "2 * a + 2 \<le> max_finite64"
  shows "distinct remaining \<and> length remaining \<le> n \<and> requests_ok policy ordered remaining \<and> budget_ok n a r \<longrightarrow>
    loop_budget n a policy ordered r remaining
      (fst (satisfy_loop policy ordered r res remaining))
      (snd (snd (satisfy_loop policy ordered r res remaining)))"
proof (induction rule: satisfy_loop_induct
    [where Q = "\<lambda>r res remaining out. distinct remaining \<and> length remaining \<le> n \<and>
      requests_ok policy ordered remaining \<and> budget_ok n a r \<longrightarrow>
      loop_budget n a policy ordered r remaining (fst out) (snd (snd out))"])
  case (stop r res remaining)
  then show ?case by (simp add: loop_budget_def)
next
  case (step r res remaining ys out)
  let ?P = "fits policy ordered r remaining"
  let ?rest = "filter (\<lambda>i. \<not> ?P i) remaining"
  have ys1: "ys = filter ?P remaining" and ys2: "ys \<noteq> []" by (rule step)+
  show ?case
  proof (intro impI)
    assume "distinct remaining \<and> length remaining \<le> n \<and> requests_ok policy ordered remaining \<and> budget_ok n a r"
    then have h: "distinct remaining" "length remaining \<le> n" "requests_ok policy ordered remaining" "budget_ok n a r"
      by blast+
    have pass: "budget_ok n a (drain policy ordered ys r)"
      "\<bar>(\<Sum>i\<leftarrow>ys. qv policy ordered i) + fval (drain policy ordered ys r) - fval r\<bar> \<le> of_nat (length ys) * (2 * (1 / 2 ^ 53) * a)"
      using budget_pass [OF h(4,3,2) n a ys1 ys2] by blast+
    have "distinct ?rest" "length ?rest \<le> n" "requests_ok policy ordered ?rest"
      using h by (auto simp: requests_ok_def intro: le_trans [OF length_filter_le])
    with step.IH pass(1) have IH: "loop_budget n a policy ordered (drain policy ordered ys r) ?rest (fst out) (snd (snd out))"
      by blast
    then show "loop_budget n a policy ordered r remaining (fst out) (snd (snd out))"
      using loop_budget_step [OF h(1) ys1 pass(2)] unfolding loop_budget_def by auto
  qed
qed

text \<open>Rounding down to 10 W may, in binary64, still exceed the number by a few units in the last place.\<close>

lemma round_kw_bound:
  assumes "is_fin x" "0 \<le> fval x" "128 * fval x \<le> max_finite64"
  shows "is_fin (round_kw x)" "0 \<le> fval (round_kw x)"
    "fval (round_kw x) \<le> fval x * (1 + 3 / 2 ^ 53) + 2 * eta64"
proof -
  let ?u = "1 / 2 ^ 53 :: rat" and ?e = "eta64"
  have h: "is_fin (fmul x (Fin 100))" "fval (fmul x (Fin 100)) = round64 (fval x * 100)"
    using assms by (simp_all add: fmul_fin is_fin_pack64_le fval_pack64)
  let ?y = "round64 (fval x * 100)"
  have y: "0 \<le> ?y" using assms(2) by simp
  have y_le: "?y \<le> fval x * 100 + ?u * (fval x * 100) + ?e"
    using round64_error [of "fval x * 100"] assms(2) by (simp add: abs_le_iff)
  obtain f where f: "Floor (fmul x (Fin 100)) = Fin f \<or> Floor (fmul x (Fin 100)) = NegZero \<and> f = 0"
    and f_val: "f = of_int \<lfloor>?y\<rfloor>"
    using h by (cases "fmul x (Fin 100)") auto
  have f0: "0 \<le> f" and f_le: "f \<le> ?y" using y by (simp_all add: f_val)
  have ff: "is_fin (Floor (fmul x (Fin 100)))" "fval (Floor (fmul x (Fin 100))) = f"
    using f by auto
  have e1: "?e \<le> 1" using eta_small(2) by simp
  have fx: "f / 100 \<le> fval x + ?u * fval x + ?e / 100" using f_le y_le by simp
  then have "f / 100 \<le> 2 * fval x + 1"
    using assms(2) e1 by simp
  then have f_max: "f / 100 \<le> max_finite64" using assms(2,3) max_finite64_ge by simp
  show "is_fin (round_kw x)" "0 \<le> fval (round_kw x)"
    using ff f0 f_max by (simp_all add: round_kw_def fdiv_fin is_fin_pack64_le fval_pack64)
  have "fval (round_kw x) = round64 (f / 100)"
    using ff f0 f_max by (simp add: round_kw_def fdiv_fin is_fin_pack64_le fval_pack64)
  also have "\<dots> \<le> f / 100 + ?u * (f / 100) + ?e"
    using round64_error [of "f / 100"] f0 by (simp add: abs_le_iff)
  also have "\<dots> \<le> (1 + ?u) * (fval x + ?u * fval x + ?e / 100) + ?e"
    using fx mult_left_mono [OF fx, of "1 + ?u"] by (simp add: algebra_simps)
  also have "\<dots> \<le> fval x * (1 + 3 * ?u) + 2 * ?e"
    using assms(2) eta_small(1) by (simp add: algebra_simps)
  finally show "fval (round_kw x) \<le> fval x * (1 + 3 / 2 ^ 53) + 2 * ?e" by simp
qed

lemma final_rounding:
  fixes a T :: rat
  assumes "n \<le> 2 ^ 40" "0 \<le> a" "T \<le> a * (1 + (4 * of_nat n + 1) / 2 ^ 53) + of_nat n * \<eta>" "0 \<le> \<eta>"
  shows "T * (1 + 3 / 2 ^ 53) + of_nat n * (2 * \<eta>) \<le> a * (1 + (4 * of_nat n + 5) / 2 ^ 53) + 4 * of_nat n * \<eta>"
proof -
  have n: "(of_nat n :: rat) \<le> 2 ^ 40" using assms(1) by (metis of_nat_le_iff of_nat_numeral of_nat_power)
  let ?k = "of_nat n :: rat"
  have "T * (1 + 3 / 2 ^ 53) \<le> (a * (1 + (4 * ?k + 1) / 2 ^ 53) + ?k * \<eta>) * (1 + 3 / 2 ^ 53)"
    using assms(3) by (intro mult_right_mono) auto
  also have "\<dots> = a * ((1 + (4 * ?k + 1) / 2 ^ 53) * (1 + 3 / 2 ^ 53)) + ?k * \<eta> * (1 + 3 / 2 ^ 53)"
    by (simp add: algebra_simps)
  also have "\<dots> \<le> a * (1 + (4 * ?k + 5) / 2 ^ 53) + ?k * \<eta> * 2"
    using n assms(2,4) by (intro add_mono mult_left_mono) (auto simp: field_simps)
  finally show ?thesis by (simp add: algebra_simps)
qed

lemma requests_ok_all:
  assumes "\<forall>d\<in>set ordered. is_fin (de_RequestedKW d) \<and> wf64 (de_RequestedKW d)"
    and "wf64 (po_MaxConnectorKW policy)"
  shows "requests_ok policy ordered [0..<length ordered]"
  unfolding requests_ok_def
proof (intro ballI)
  fix i assume "i \<in> set [0..<length ordered]"
  then have d: "is_fin (de_RequestedKW (ordered ! i))" "wf64 (de_RequestedKW (ordered ! i))"
    using assms(1) by auto
  have r0: "representable 0" by (simp add: representable_def)
  have "representable (fval x)" if "is_fin x" "wf64 x" for x
    using that r0 by (cases x) (auto simp: wf64_def)
  then show "is_fin (req policy ordered i) \<and> 0 \<le> qv policy ordered i \<and> representable (qv policy ordered i)"
    using d assms(2) r0 clamp_fin [OF d(1), of "po_MaxConnectorKW policy"]
    by (auto simp: min_def max_def)
qed

text \<open>What the first loop leaves: a budget, and the indices that are limited or paused.\<close>

lemma first_loop_budget:
  assumes ordered: "\<forall>d\<in>set ordered. is_fin (de_RequestedKW d) \<and> wf64 (de_RequestedKW d)"
    and cap: "wf64 (po_MaxConnectorKW policy)"
    and A: "is_fin A" "wf64 A" "0 \<le> fval A" "2 * fval A + 2 \<le> max_finite64"
    and n: "length ordered \<le> 2 ^ 40"
    and loop: "satisfy_loop policy ordered A Map.empty [0..<length ordered] = (r, res, left)"
  shows "budget_ok (length ordered) (fval A) r" "length left \<le> length ordered"
    "\<bar>(\<Sum>i\<in>{0..<length ordered} - set left. qv policy ordered i) + fval r - fval A\<bar> \<le>
       of_nat (length ordered) * (2 * (1 / 2 ^ 53) * fval A)"
proof -
  let ?n = "length ordered" and ?a = "fval A" and ?u = "1 / 2 ^ 53 :: rat"
  let ?F = "{0..<?n} - set left"
  have rA: "representable ?a" using A(1,2) by (cases A) (auto simp: wf64_def representable_def)
  have "0 \<le> slack ?n ?a" unfolding slack_def using A(3) eta_small(1) by simp
  then have "budget_ok ?n ?a A" using A rA by (simp add: budget_ok_def)
  then have "loop_budget ?n ?a policy ordered A [0..<?n] r left"
    using satisfy_loop_budget [OF n A(3,4), of "[0..<?n]" policy ordered A Map.empty]
      requests_ok_all [OF ordered cap] loop by simp
  then have lb: "budget_ok ?n ?a r" "\<bar>(\<Sum>i\<in>?F. qv policy ordered i) + fval r - ?a\<bar> \<le> of_nat (card ?F) * (2 * ?u * ?a)"
    "set left \<subseteq> {0..<?n}"
    unfolding loop_budget_def atLeastLessThan_upt by blast+
  show "budget_ok ?n ?a r" by (rule lb(1))
  have "loop_shape policy ordered Map.empty [0..<?n] (r, res, left)"
    using satisfy_loop_shape [of policy ordered Map.empty "[0..<?n]" A] unfolding loop .
  then have "distinct left" unfolding loop_shape_def by auto
  then show "length left \<le> ?n"
    using lb(3) by (metis card_atLeastLessThan card_mono diff_zero distinct_card finite_atLeastLessThan)
  have "of_nat (card ?F) * (2 * ?u * ?a) \<le> of_nat ?n * (2 * ?u * ?a)"
    using A(3) card_mono [of "{0..<?n}" ?F] by (intro mult_right_mono) auto
  with lb(2) show "\<bar>(\<Sum>i\<in>?F. qv policy ordered i) + fval r - ?a\<bar> \<le> of_nat ?n * (2 * ?u * ?a)" by (rule order_trans)
qed

text \<open>A useful share hands out the whole remaining budget.\<close>

lemma limited_value:
  assumes ok: "budget_ok n a r" and n: "n \<le> 2 ^ 40" and a: "0 \<le> a" "2 * a + 2 \<le> max_finite64"
    and ne: "limited \<noteq> []" and len: "length limited \<le> n" and useful: "fle MinimumUsefulKW (share_of r limited)"
  shows "is_fin (share_of r limited)" "0 \<le> fval (share_of r limited)"
    "\<bar>of_nat (length limited) * fval (share_of r limited) - fval r\<bar> \<le> 1 / 2 ^ 53 * a + of_nat n * eta64"
proof -
  let ?u = "1 / 2 ^ 53 :: rat" and ?m = "length limited"
  have r: "is_fin r" "fval r \<le> a" using ok by (simp_all add: budget_ok_def)
  have len40: "?m \<le> 2 ^ 40" using len n by simp
  note sv = share_value [OF r(1) budget_abs(2) [OF ok n a] ne len40]
  show "is_fin (share_of r limited)" by (rule sv(1))
  have "fle (Fin 0) (share_of r limited)" using useful MinimumUseful_pos fle_trans by blast
  then show "0 \<le> fval (share_of r limited)" using sv(1) by (simp add: fle_fin)
  have mpos: "0 < fval MinimumUsefulKW" "is_fin MinimumUsefulKW" by code_simp+
  have pos: "0 \<le> fval r"
  proof (rule ccontr)
    assume "\<not> 0 \<le> fval r"
    then have "round64 (fval r / of_nat ?m) \<le> 0" by (intro round64_nonpos) (simp add: divide_le_0_iff)
    then show False using useful sv mpos by (simp add: fle_fin)
  qed
  have "of_nat ?m * eta64 \<le> of_nat n * eta64" using len eta_small(1) by (intro mult_right_mono) auto
  moreover have "?u * fval r \<le> ?u * a" using r(2) by simp
  moreover have "0 < ?m" using ne by simp
  ultimately show "\<bar>of_nat ?m * fval (share_of r limited) - fval r\<bar> \<le> ?u * a + of_nat n * eta64"
    using binary64.share_le [OF pos, of ?m] binary64.share_ge [OF pos, of ?m] unfolding sv(2) abs_le_iff by linarith
qed

text \<open>The power handed out by the two loops, before each figure is rounded down.\<close>

lemma budget_shares:
  assumes ordered: "\<forall>d\<in>set ordered. is_fin (de_RequestedKW d) \<and> wf64 (de_RequestedKW d)"
    and cap: "wf64 (po_MaxConnectorKW policy)"
    and A: "is_fin A" "wf64 A" "0 \<le> fval A" "2 * fval A + 2 \<le> max_finite64"
    and n: "length ordered \<le> 2 ^ 40"
    and loop: "satisfy_loop policy ordered A Map.empty [0..<length ordered] = (r, res, limited @ paused)"
    and useful: "limited \<noteq> [] \<longrightarrow> fle MinimumUsefulKW (share_of r limited)"
  shows "(\<Sum>i\<in>{0..<length ordered} - set (limited @ paused). qv policy ordered i) +
         of_nat (length limited) * fval (share_of r limited)
       \<le> fval A * (1 + (4 * of_nat (length ordered) + 1) / 2 ^ 53) + of_nat (length ordered) * eta64"
    and "is_fin r" "\<bar>fval r\<bar> \<le> fval A + 1" "limited \<noteq> [] \<longrightarrow> is_fin (share_of r limited) \<and> 0 \<le> fval (share_of r limited)"
    and "limited \<noteq> [] \<Longrightarrow> fval A * (1 - (4 * of_nat (length ordered) + 1) / 2 ^ 53) - of_nat (length ordered) * eta64 \<le>
      (\<Sum>i\<in>{0..<length ordered} - set (limited @ paused). qv policy ordered i) +
         of_nat (length limited) * fval (share_of r limited)"
proof -
  let ?n = "length ordered" and ?a = "fval A" and ?u = "1 / 2 ^ 53 :: rat" and ?e = "eta64"
  let ?T = "\<Sum>i\<in>{0..<?n} - set (limited @ paused). qv policy ordered i"
  let ?L = "of_nat (length limited) * fval (share_of r limited)"
  note first = first_loop_budget [OF ordered cap A n loop]
  show "is_fin r" using first(1) by (simp add: budget_ok_def)
  show "\<bar>fval r\<bar> \<le> ?a + 1" by (rule budget_abs(1) [OF first(1) n A(3,4)])
  have len: "length limited \<le> ?n" using first(2) by simp
  note lim = limited_value [OF first(1) n A(3,4) _ len]
  show "limited \<noteq> [] \<longrightarrow> is_fin (share_of r limited) \<and> 0 \<le> fval (share_of r limited)" using lim useful by blast
  have factor: "?a * (1 + (4 * of_nat ?n + 1) / 2 ^ 53) = ?a + of_nat ?n * (2 * ?u * ?a) + (2 * of_nat ?n + 1) * ?u * ?a"
    "?a * (1 - (4 * of_nat ?n + 1) / 2 ^ 53) = ?a - of_nat ?n * (2 * ?u * ?a) - (2 * of_nat ?n + 1) * ?u * ?a"
    by (simp_all add: field_simps)
  have "1 * (?u * ?a) \<le> (2 * of_nat ?n + 1) * (?u * ?a)" using A(3) by (intro mult_right_mono) auto
  then have grow: "?u * ?a \<le> (2 * of_nat ?n + 1) * ?u * ?a" by (simp only: mult.assoc mult_1_left)
  show "?T + ?L \<le> ?a * (1 + (4 * of_nat ?n + 1) / 2 ^ 53) + of_nat ?n * ?e"
  proof (cases "limited = []")
    case True
    have "- slack ?n ?a \<le> fval r" using first(1) by (simp add: budget_ok_def)
    then have "?T \<le> ?a + of_nat ?n * (2 * ?u * ?a) + slack ?n ?a" using first(3) unfolding abs_le_iff by linarith
    then show ?thesis unfolding factor slack_def using True by simp
  next
    case False
    then show ?thesis using first(3) lim(3) [OF False] useful grow unfolding factor abs_le_iff by linarith
  qed
  show "?a * (1 - (4 * of_nat ?n + 1) / 2 ^ 53) - of_nat ?n * ?e \<le> ?T + ?L" if "limited \<noteq> []"
    using first(3) lim(3) [OF that] useful that grow unfolding factor abs_le_iff by linarith
qed

lemma sum_list_cases_le:
  fixes v :: "nat \<Rightarrow> rat"
  assumes d: "distinct (limited @ paused)" "set (limited @ paused) \<subseteq> {0..<n}"
    and F: "\<And>i. i \<in> {0..<n} - set (limited @ paused) \<Longrightarrow> v i \<le> q i * c + e"
    and L: "\<And>i. i \<in> set limited \<Longrightarrow> v i \<le> s * c + e"
    and P: "\<And>i. i \<in> set paused \<Longrightarrow> v i \<le> e"
  shows "(\<Sum>i\<leftarrow>[0..<n]. v i) \<le>
    ((\<Sum>i\<in>{0..<n} - set (limited @ paused). q i) + of_nat (length limited) * s) * c + of_nat n * e"
proof -
  let ?F = "{0..<n} - set (limited @ paused)"
  have split: "{0..<n} = ?F \<union> (set limited \<union> set paused)" using d(2) by auto
  have dp: "distinct limited" "distinct paused" "set limited \<inter> set paused = {}" using d(1) by auto
  have card: "card ?F + (length limited + length paused) = n"
  proof -
    have "card {0..<n} = card ?F + card (set limited \<union> set paused)"
      by (subst split, rule card_Un_disjoint) auto
    then show ?thesis using dp by (simp add: card_Un_disjoint distinct_card)
  qed
  have "(\<Sum>i\<leftarrow>[0..<n]. v i) = (\<Sum>i\<in>{0..<n}. v i)"
    by (metis atLeastLessThan_upt distinct_upt sum_list_distinct_conv_sum_set)
  also have "\<dots> = (\<Sum>i\<in>?F. v i) + ((\<Sum>i\<in>set limited. v i) + (\<Sum>i\<in>set paused. v i))"
  proof -
    have "sum v {0..<n} = sum v (?F \<union> (set limited \<union> set paused))" using split by (rule arg_cong)
    also have "\<dots> = sum v ?F + sum v (set limited \<union> set paused)"
      by (rule sum.union_disjoint) auto
    also have "sum v (set limited \<union> set paused) = sum v (set limited) + sum v (set paused)"
      by (rule sum.union_disjoint) (use dp(3) in auto)
    finally show ?thesis .
  qed
  also have "\<dots> \<le> (\<Sum>i\<in>?F. q i * c + e) + ((\<Sum>i\<in>set limited. s * c + e) + (\<Sum>i\<in>set paused. e))"
    using F L P by (intro add_mono sum_mono) auto
  also have "\<dots> = (\<Sum>i\<in>?F. q i) * c + of_nat (card ?F) * e + (of_nat (length limited) * (s * c + e) + of_nat (length paused) * e)"
    using dp by (simp add: sum.distrib sum_distrib_right distinct_card)
  also have "\<dots> = ((\<Sum>i\<in>?F. q i) + of_nat (length limited) * s) * c + of_nat (card ?F + (length limited + length paused)) * e"
    by (simp add: algebra_simps)
  finally show ?thesis unfolding card .
qed

lemma clamp_le: "is_fin x \<Longrightarrow> 0 \<le> fval x \<Longrightarrow> fval (clamp x m) \<le> fval x"
  by (auto simp: clamp_fin)

text \<open>The figures are far from overflow, for fewer than \<open>2\<^sup>4\<^sup>0\<close> connectors and less than \<open>10\<^sup>3\<^sup>0\<^sup>0\<close> kW.\<close>

lemma shares_small:
  assumes ordered: "\<forall>d\<in>set ordered. is_fin (de_RequestedKW d) \<and> wf64 (de_RequestedKW d)"
    and cap: "wf64 (po_MaxConnectorKW policy)"
    and A: "is_fin A" "wf64 A" "0 \<le> fval A" "fval A \<le> 10 ^ 300"
    and n: "length ordered \<le> 2 ^ 40"
    and loop: "satisfy_loop policy ordered A Map.empty [0..<length ordered] = (r, res, limited @ paused)"
    and useful: "limited \<noteq> [] \<longrightarrow> fle MinimumUsefulKW (share_of r limited)"
  shows "i \<in> {0..<length ordered} - set (limited @ paused) \<Longrightarrow>
      is_fin (req policy ordered i) \<and> 0 \<le> qv policy ordered i \<and> 128 * qv policy ordered i \<le> max_finite64"
    and "limited \<noteq> [] \<Longrightarrow> is_fin (clamp (share_of r limited) m) \<and> 0 \<le> fval (clamp (share_of r limited) m) \<and>
      fval (clamp (share_of r limited) m) \<le> fval (share_of r limited) \<and>
      128 * fval (clamp (share_of r limited) m) \<le> max_finite64"
    and "limited \<noteq> [] \<Longrightarrow> fval (share_of r limited) \<le> 3 * fval A + 1"
proof -
  let ?n = "length ordered" and ?a = "fval A" and ?e = "eta64"
  let ?F = "{0..<?n} - set (limited @ paused)" and ?s = "share_of r limited"
  have "128 * (4 * 10 ^ 300 + 4) \<le> max_finite64" by (simp add: max_finite64_def)
  then have b3: "128 * (3 * ?a + 1) \<le> max_finite64" and A2: "2 * ?a + 2 \<le> max_finite64"
    using A(3,4) by simp_all
  note bs = budget_shares [OF ordered cap A(1-3) A2 n loop useful]
  have n': "(of_nat ?n :: rat) \<le> 2 ^ 40" using n by (metis of_nat_le_iff of_nat_numeral of_nat_power)
  have "?a * (1 + (4 * of_nat ?n + 1) / 2 ^ 53) \<le> ?a * 3" using n' A(3) by (intro mult_left_mono) auto
  moreover have "of_nat ?n * ?e \<le> 2 ^ 40 * (1 / 2 ^ 53)" using n' eta_small by (intro mult_mono) auto
  ultimately have B: "(\<Sum>i\<in>?F. qv policy ordered i) + of_nat (length limited) * fval ?s \<le> 3 * ?a + 1"
    using bs(1) by simp
  have small: "128 * x \<le> max_finite64" if "x \<le> 3 * ?a + 1" for x
    using order_trans [OF mult_left_mono [OF that, of 128] b3] by simp
  have reqs: "requests_ok policy ordered [0..<?n]" by (rule requests_ok_all [OF ordered cap])
  have s0: "0 \<le> of_nat (length limited) * fval ?s" using bs(4) by (cases "limited = []") auto
  have T0: "0 \<le> (\<Sum>i\<in>?F. qv policy ordered i)" using reqs by (intro sum_nonneg) (auto simp: requests_ok_def)
  show "is_fin (req policy ordered i) \<and> 0 \<le> qv policy ordered i \<and> 128 * qv policy ordered i \<le> max_finite64" if i: "i \<in> ?F"
  proof -
    have "qv policy ordered i \<le> (\<Sum>i\<in>?F. qv policy ordered i)"
      using i reqs by (intro member_le_sum) (auto simp: requests_ok_def)
    then show ?thesis using B s0 small i reqs by (auto simp: requests_ok_def)
  qed
  show sL: "fval ?s \<le> 3 * ?a + 1" if ne: "limited \<noteq> []"
  proof -
    have "fval ?s * 1 \<le> fval ?s * of_nat (length limited)"
      using bs(4) ne by (intro mult_left_mono) (auto simp: Suc_le_eq)
    then show ?thesis using B T0 by (simp add: mult.commute)
  qed
  show "is_fin (clamp ?s m) \<and> 0 \<le> fval (clamp ?s m) \<and> fval (clamp ?s m) \<le> fval ?s \<and> 128 * fval (clamp ?s m) \<le> max_finite64"
    if ne: "limited \<noteq> []"
  proof -
    have s: "is_fin ?s" "0 \<le> fval ?s" using bs(4) ne by auto
    then show ?thesis using clamp_le [OF s, of m] clamp_fin(1) [OF s(1)] clamp_nonneg [OF s(1)] sL [OF ne] small
      by (meson order_trans)
  qed
qed

lemma allocate_ordered_budget:
  assumes ordered: "\<forall>d\<in>set ordered. is_fin (de_RequestedKW d) \<and> wf64 (de_RequestedKW d)"
    and cap: "wf64 (po_MaxConnectorKW policy)"
    and A: "is_fin A" "wf64 A" "0 \<le> fval A" "fval A \<le> 10 ^ 300"
    and n: "length ordered \<le> 2 ^ 40"
  shows "(\<Sum>x\<leftarrow>allocate_ordered A policy ordered. fval (al_MaxPowerKW x)) \<le>
      fval A * (1 + (4 * of_nat (length ordered) + 5) / 2 ^ 53) + 4 * of_nat (length ordered) * eta64"
    and "\<forall>x\<in>set (allocate_ordered A policy ordered). is_fin (al_MaxPowerKW x) \<and> 0 \<le> fval (al_MaxPowerKW x)"
proof -
  let ?n = "length ordered" and ?a = "fval A" and ?e = "eta64"
  have "2 * 10 ^ 300 + 2 \<le> max_finite64" by (simp add: max_finite64_def)
  then have A2: "2 * ?a + 2 \<le> max_finite64" using A(4) by simp
  obtain r limited paused where sh:
    "fst (satisfy_loop policy ordered A Map.empty [0..<?n]) = r"
    "snd (snd (satisfy_loop policy ordered A Map.empty [0..<?n])) = limited @ paused"
    "distinct (limited @ paused)" "sorted (limited @ paused)" "set (limited @ paused) \<subseteq> {0..<?n}"
    "limited \<noteq> [] \<longrightarrow> fle MinimumUsefulKW (share_of r limited)"
    "allocate_ordered A policy ordered =
       map (\<lambda>i. if i \<in> set limited then limited_allocation policy ordered (share_of r limited) i
                else if i \<in> set paused then paused_allocation ordered i
                else full_allocation policy ordered i) [0..<?n]"
    by (rule allocate_ordered_shape)
  obtain res where loop: "satisfy_loop policy ordered A Map.empty [0..<?n] = (r, res, limited @ paused)"
    using sh(1,2) by (cases "satisfy_loop policy ordered A Map.empty [0..<?n]") auto
  note bs = budget_shares [OF ordered cap A(1-3) A2 n loop sh(6)]
  note qF = shares_small(1) [OF ordered cap A n loop sh(6)] and sL = shares_small(2) [OF ordered cap A n loop sh(6)]
  let ?F = "{0..<?n} - set (limited @ paused)" and ?s = "share_of r limited"
  note rb = round_kw_bound
  have vF: "is_fin (al_MaxPowerKW (full_allocation policy ordered i)) \<and>
      0 \<le> fval (al_MaxPowerKW (full_allocation policy ordered i)) \<and>
      fval (al_MaxPowerKW (full_allocation policy ordered i)) \<le> qv policy ordered i * (1 + 3 / 2 ^ 53) + 2 * ?e"
    if "i \<in> ?F" for i
    using qF [OF that] rb [of "req policy ordered i"] by (simp add: full_allocation_def)
  have vL: "is_fin (al_MaxPowerKW (limited_allocation policy ordered ?s i)) \<and>
      0 \<le> fval (al_MaxPowerKW (limited_allocation policy ordered ?s i)) \<and>
      fval (al_MaxPowerKW (limited_allocation policy ordered ?s i)) \<le> fval ?s * (1 + 3 / 2 ^ 53) + 2 * ?e"
    if "i \<in> set limited" for i
  proof -
    have ne: "limited \<noteq> []" using that by auto
    let ?c = "clamp ?s (po_MaxConnectorKW policy)"
    have "fval ?c * (1 + 3 / 2 ^ 53) \<le> fval ?s * (1 + 3 / 2 ^ 53)"
      using sL [OF ne] by (intro mult_right_mono) auto
    then show ?thesis using sL [OF ne, of "po_MaxConnectorKW policy"] rb [of ?c]
      by (simp add: limited_allocation_def)
  qed
  show "\<forall>x\<in>set (allocate_ordered A policy ordered). is_fin (al_MaxPowerKW x) \<and> 0 \<le> fval (al_MaxPowerKW x)"
    unfolding sh(7) using vF vL by (auto simp: paused_allocation_def)
  let ?v = "\<lambda>i. fval (al_MaxPowerKW (if i \<in> set limited then limited_allocation policy ordered ?s i
                else if i \<in> set paused then paused_allocation ordered i
                else full_allocation policy ordered i))"
  have "(\<Sum>x\<leftarrow>allocate_ordered A policy ordered. fval (al_MaxPowerKW x)) = (\<Sum>i\<leftarrow>[0..<?n]. ?v i)"
    unfolding sh(7) by (simp add: comp_def)
  also have "\<dots> \<le> ((\<Sum>i\<in>?F. qv policy ordered i) + of_nat (length limited) * fval ?s) * (1 + 3 / 2 ^ 53)
      + of_nat ?n * (2 * ?e)"
  proof (rule sum_list_cases_le [OF sh(3,5)])
    show "?v i \<le> qv policy ordered i * (1 + 3 / 2 ^ 53) + 2 * ?e" if "i \<in> ?F" for i
      using vF [OF that] that by auto
    show "?v i \<le> fval ?s * (1 + 3 / 2 ^ 53) + 2 * ?e" if "i \<in> set limited" for i
      using vL [OF that] that by auto
    show "?v i \<le> 2 * ?e" if "i \<in> set paused" for i
      using that sh(3) eta_small(1) by (auto simp: paused_allocation_def)
  qed
  also have "\<dots> \<le> ?a * (1 + (4 * of_nat ?n + 5) / 2 ^ 53) + 4 * of_nat ?n * ?e"
    by (rule final_rounding [OF n A(3) bs(1) eta_small(1)])
  finally show "(\<Sum>x\<leftarrow>allocate_ordered A policy ordered. fval (al_MaxPowerKW x)) \<le>
      ?a * (1 + (4 * of_nat ?n + 5) / 2 ^ 53) + 4 * of_nat ?n * ?e" .
qed

end
