(* ===== verification/Advice_Fairness.thy ===== *)
theory Advice_Fairness
  imports Advice_Budget
begin

text \<open>
  The fairness of an allocation. The share of the first loop of \<open>allocate\<close> never falls from one pass to
  the next, up to the rounding of binary64, so a connector satisfied early is never satisfied at the
  expense of one that is limited in the end.
\<close>

section \<open>The share does not fall\<close>

definition drift :: "nat \<Rightarrow> rat \<Rightarrow> rat" where
  "drift n a = slack n a + (1 / 2 ^ 53) * (a + 1) + eta64"

lemma drift_nonneg: "0 \<le> a \<Longrightarrow> 0 \<le> drift n a"
  unfolding drift_def slack_def using eta64_nonneg by simp

text \<open>Inside the rounding locale: what is left after a pass still gives everyone the old share.\<close>

context budget_rounding
begin

lemma pass_keeps_share:
  assumes inv: "pass_inv m \<rho> k x" and k: "k < m" and rho: "0 \<le> \<rho>"
  shows "rnd (\<rho> / of_nat m) - ((2 * of_nat m + 1) * u * \<rho> + of_nat m * \<eta>) \<le> x / of_nat (m - k)"
proof -
  let ?s = "rnd (\<rho> / of_nat m)" and ?l = "of_nat (m - k) :: rat" and ?w = "(2 * of_nat m + 1) * u * \<rho> + of_nat m * \<eta>"
  have "of_nat m * ?s \<le> \<rho> + u * \<rho> + of_nat m * \<eta>" using share_le [OF rho] k by simp
  moreover have "\<rho> - of_nat k * (?s + 2 * u * \<rho>) \<le> x" using inv by (simp add: pass_inv_def)
  moreover have "of_nat k * (2 * u * \<rho>) \<le> of_nat m * (2 * u * \<rho>)"
    using k rho u_nonneg by (intro mult_right_mono) auto
  moreover have "(of_nat m :: rat) * ?s = ?l * ?s + of_nat k * ?s" using k by (simp add: of_nat_diff algebra_simps)
  ultimately have "?l * ?s - ?w \<le> x" by (simp add: distrib_left distrib_right)
  moreover have l: "1 \<le> ?l" using k by (simp add: Suc_le_eq)
  moreover have "1 * ?w \<le> ?l * ?w" using l rho u_nonneg eta_nonneg by (intro mult_right_mono) simp_all
  ultimately have "?l * (?s - ?w) \<le> x" by (simp only: right_diff_distrib mult_1_left)
  then show ?thesis using l by (simp add: pos_le_divide_eq mult.commute)
qed

end

lemma share_step:
  assumes ok: "budget_ok n a r" and reqs: "requests_ok policy ordered remaining"
    and len: "length remaining \<le> n" and n: "n \<le> 2 ^ 40" and a: "0 \<le> a" "2 * a + 2 \<le> max_finite64"
    and ys: "ys = filter (fits policy ordered r remaining) remaining" "ys \<noteq> []"
    and rest: "rest = filter (\<lambda>i. \<not> fits policy ordered r remaining i) remaining" "rest \<noteq> []"
    and pos: "0 \<le> fval r"
  shows "fval (share_of r remaining) \<le> fval (share_of (drain policy ordered ys r) rest) + drift n a"
proof -
  let ?r = "drain policy ordered ys r" and ?m = "length remaining" and ?l = "length rest"
  have ok': "budget_ok n a ?r" using budget_pass [OF ok reqs len n a ys] by blast
  have "length ys + ?l = ?m" unfolding ys(1) rest(1) by (rule sum_length_filter_compl)
  moreover have "0 < ?l" unfolding length_greater_0_conv by (rule rest(2))
  ultimately have k: "?l = ?m - length ys" "length ys < ?m" by linarith+
  have l: "1 \<le> ?l" "?l \<le> 2 ^ 40" "remaining \<noteq> []" "?m \<le> 2 ^ 40" using rest k len n by (auto simp: Suc_le_eq)
  have fin: "is_fin r" "is_fin ?r" "fval r \<le> a" using ok ok' by (simp_all add: budget_ok_def)
  have "round64 (fval r / of_nat ?m) - ((2 * of_nat ?m + 1) * (1 / 2 ^ 53) * fval r + of_nat ?m * eta64) \<le> fval ?r / of_nat ?l"
    unfolding k(1) using pass_drains [OF ok reqs len n a ys(1) pos] binary64.pass_keeps_share k(2) pos by blast
  then have "round64 (fval r / of_nat ?m) - slack ?m (fval r) \<le> fval ?r / of_nat ?l" by (simp add: slack_def)
  moreover have "slack ?m (fval r) \<le> slack n a" by (rule slack_mono [OF len pos fin(3)])
  moreover have "\<bar>fval ?r / of_nat ?l\<bar> \<le> a + 1"
  proof -
    have "\<bar>fval ?r\<bar> / of_nat ?l \<le> \<bar>fval ?r\<bar> / 1" using l(1) by (intro divide_left_mono) auto
    then show ?thesis using budget_abs(1) [OF ok' n a] by (simp add: abs_divide)
  qed
  moreover have "\<bar>round64 (fval ?r / of_nat ?l) - fval ?r / of_nat ?l\<bar> \<le> 1 / 2 ^ 53 * \<bar>fval ?r / of_nat ?l\<bar> + eta64"
    by (rule binary64.rnd_err)
  ultimately have "round64 (fval r / of_nat ?m) \<le> round64 (fval ?r / of_nat ?l) + drift n a"
    unfolding drift_def by (simp add: abs_le_iff field_simps)
  then show ?thesis
    using share_value(2) [OF fin(1) budget_abs(2) [OF ok n a] l(3,4)] share_value(2) [OF fin(2) budget_abs(2) [OF ok' n a] rest(2) l(2)]
    by simp
qed

text \<open>What the first loop satisfied is not above the final share, and neither is any share before it.\<close>

definition share_kept ::
  "nat \<Rightarrow> rat \<Rightarrow> Policy \<Rightarrow> Demand list \<Rightarrow> float64 \<Rightarrow> nat list \<Rightarrow> float64 \<Rightarrow> nat list \<Rightarrow> bool" where
  "share_kept n a policy ordered r remaining r' remaining' \<longleftrightarrow>
     (let bound = max 0 (fval (share_of r' remaining')) + of_nat (length remaining) * drift n a
      in remaining' \<noteq> [] \<longrightarrow> fval (share_of r remaining) \<le> bound \<and>
           (\<forall>i\<in>set remaining - set remaining'. qv policy ordered i \<le> bound))"

lemma share_kept_step:
  assumes ok: "budget_ok n a r" "requests_ok policy ordered remaining" "length remaining \<le> n" "n \<le> 2 ^ 40"
      "0 \<le> a" "2 * a + 2 \<le> max_finite64"
    and ys: "ys = filter (fits policy ordered r remaining) remaining" "ys \<noteq> []"
    and rest: "rest = filter (\<lambda>i. \<not> fits policy ordered r remaining i) remaining"
    and sub: "set remaining' \<subseteq> set rest"
    and IH: "share_kept n a policy ordered (drain policy ordered ys r) rest r' remaining'"
  shows "share_kept n a policy ordered r remaining r' remaining'"
proof -
  let ?S = "max 0 (fval (share_of r' remaining'))" and ?d = "drift n a"
  have "remaining \<noteq> []" "length remaining \<le> 2 ^ 40" using ys ok(3,4) by auto
  then have share: "is_fin r" "fval (share_of r remaining) = round64 (fval r / of_nat (length remaining))"
    using share_value(2) [of r remaining] ok(1) budget_abs(2) [OF ok(1,4-6)] by (simp_all add: budget_ok_def)
  show ?thesis unfolding share_kept_def Let_def
  proof (intro impI)
    assume ne: "remaining' \<noteq> []"
    then have rest_ne: "rest \<noteq> []" using sub by auto
    have IH': "fval (share_of (drain policy ordered ys r) rest) \<le> ?S + of_nat (length rest) * ?d"
      "\<And>i. i \<in> set rest - set remaining' \<Longrightarrow> qv policy ordered i \<le> ?S + of_nat (length rest) * ?d"
      using IH ne by (simp_all add: share_kept_def Let_def)
    have "length ys + length rest = length remaining" unfolding ys(1) rest by (rule sum_length_filter_compl)
    then have "length rest + 1 \<le> length remaining" using ys(2) by (cases ys) auto
    then have "of_nat (length rest + 1) * ?d \<le> of_nat (length remaining) * ?d"
      using drift_nonneg [OF ok(5)] by (intro mult_right_mono) (simp_all only: of_nat_le_iff)
    then have grow: "of_nat (length rest) * ?d + ?d \<le> of_nat (length remaining) * ?d" by (simp add: distrib_right)
    have first: "fval (share_of r remaining) \<le> ?S + of_nat (length remaining) * ?d"
    proof (cases "0 \<le> fval r")
      case True
      from share_step [OF ok ys rest rest_ne True] IH'(1) grow show ?thesis by linarith
    next
      case False
      then have "round64 (fval r / of_nat (length remaining)) \<le> 0"
        by (intro round64_nonpos) (simp add: divide_le_0_iff)
      moreover have "0 \<le> of_nat (length remaining) * ?d" using drift_nonneg [OF ok(5)] by simp
      ultimately show ?thesis using share(2) by linarith
    qed
    moreover have "qv policy ordered i \<le> ?S + of_nat (length remaining) * ?d" if i: "i \<in> set remaining - set remaining'" for i
    proof (cases "fits policy ordered r remaining i")
      case True
      then have "qv policy ordered i \<le> fval (share_of r remaining)" using fitting_requests [OF ok] i share(2) by simp
      then show ?thesis using first by linarith
    next
      case False
      then have "qv policy ordered i \<le> ?S + of_nat (length rest) * ?d" using i by (intro IH'(2)) (simp add: rest)
      then show ?thesis using grow drift_nonneg [OF ok(5), of n] by linarith
    qed
    ultimately show "fval (share_of r remaining) \<le> ?S + of_nat (length remaining) * ?d \<and>
      (\<forall>i\<in>set remaining - set remaining'. qv policy ordered i \<le> ?S + of_nat (length remaining) * ?d)" by blast
  qed
qed

lemma satisfy_loop_share_kept:
  assumes n: "n \<le> 2 ^ 40" and a: "0 \<le> a" "2 * a + 2 \<le> max_finite64"
  shows "length remaining \<le> n \<and> requests_ok policy ordered remaining \<and> budget_ok n a r \<longrightarrow>
    set (snd (snd (satisfy_loop policy ordered r res remaining))) \<subseteq> set remaining \<and>
    share_kept n a policy ordered r remaining
      (fst (satisfy_loop policy ordered r res remaining)) (snd (snd (satisfy_loop policy ordered r res remaining)))"
proof (induction rule: satisfy_loop_induct
    [where Q = "\<lambda>r res remaining out. length remaining \<le> n \<and> requests_ok policy ordered remaining \<and> budget_ok n a r \<longrightarrow>
      set (snd (snd out)) \<subseteq> set remaining \<and> share_kept n a policy ordered r remaining (fst out) (snd (snd out))"])
  case (stop r res remaining)
  have "0 \<le> of_nat (length remaining) * drift n a" using drift_nonneg [OF a(1)] by simp
  then show ?case by (simp add: share_kept_def) linarith
next
  case (step r res remaining ys out)
  let ?rest = "filter (\<lambda>i. \<not> fits policy ordered r remaining i) remaining"
  have ys: "ys = filter (fits policy ordered r remaining) remaining" "ys \<noteq> []" by (rule step)+
  show ?case
  proof (intro impI)
    assume h: "length remaining \<le> n \<and> requests_ok policy ordered remaining \<and> budget_ok n a r"
    have "budget_ok n a (drain policy ordered ys r)"
      using budget_pass [OF _ _ _ n a ys] h by blast
    moreover have "length ?rest \<le> n" "requests_ok policy ordered ?rest"
      using h by (auto simp: requests_ok_def intro: le_trans [OF length_filter_le])
    ultimately have IH: "set (snd (snd out)) \<subseteq> set ?rest"
      "share_kept n a policy ordered (drain policy ordered ys r) ?rest (fst out) (snd (snd out))"
      using step.IH by blast+
    then show "set (snd (snd out)) \<subseteq> set remaining \<and> share_kept n a policy ordered r remaining (fst out) (snd (snd out))"
      using share_kept_step [OF _ _ _ n a ys refl IH] h by auto
  qed
qed

section \<open>Rounding down loses at most 10 W\<close>

lemma round_kw_lower:
  assumes "is_fin x" "0 \<le> fval x" "128 * fval x \<le> max_finite64"
  shows "fval x * (1 - 3 / 2 ^ 53) - 1 / 100 - 2 * eta64 \<le> fval (round_kw x)"
proof -
  let ?u = "1 / 2 ^ 53 :: rat" and ?y = "round64 (fval x * 100)"
  have h: "is_fin (fmul x (Fin 100))" "fval (fmul x (Fin 100)) = ?y"
    using assms by (simp_all add: fmul_fin is_fin_pack64_le fval_pack64)
  have y: "0 \<le> ?y" using assms(2) by simp
  define f where "f = (of_int \<lfloor>?y\<rfloor> :: rat)"
  have ff: "is_fin (Floor (fmul x (Fin 100)))" "fval (Floor (fmul x (Fin 100))) = f"
    using h by (cases "fmul x (Fin 100)"; auto simp: f_def)+
  have "\<bar>?y - fval x * 100\<bar> \<le> ?u * \<bar>fval x * 100\<bar> + eta64" by (rule binary64.rnd_err)
  then have y_ge: "fval x * 100 - ?u * (fval x * 100) - eta64 \<le> ?y" and y_le: "?y \<le> fval x * 100 + ?u * (fval x * 100) + eta64"
    using assms(2) by (simp_all add: abs_le_iff)
  have f: "0 \<le> f" "f \<le> ?y" "?y - 1 \<le> f" using y by (simp_all add: f_def) linarith
  have "\<bar>round64 (f / 100) - f / 100\<bar> \<le> ?u * \<bar>f / 100\<bar> + eta64" by (rule binary64.rnd_err)
  then have down: "(1 - ?u) * (f / 100) - eta64 \<le> round64 (f / 100)" using f(1) by (simp add: abs_le_iff left_diff_distrib)
  have "f / 100 \<le> max_finite64"
    using f(2) y_le eta_small assms(2,3) max_finite64_ge by simp
  then have val: "fval (round_kw x) = round64 (f / 100)"
    using ff f(1) by (simp add: round_kw_def fdiv_fin is_fin_pack64_le fval_pack64)
  have "fval x * (1 - 3 / 2 ^ 53) - 1 / 100 - eta64 \<le> (1 - ?u) * (fval x - ?u * fval x - eta64 / 100 - 1 / 100)"
    using assms(2) eta_small(1) by (simp add: algebra_simps)
  also have "\<dots> \<le> (1 - ?u) * (f / 100)"
    using f(3) y_ge by (intro mult_left_mono) auto
  also have "\<dots> \<le> round64 (f / 100) + eta64" using down by simp
  finally show ?thesis unfolding val by simp
qed

section \<open>A satisfied connector is not above a limited one\<close>

lemma shorter_share:
  assumes "is_fin r" "\<bar>fval r\<bar> \<le> max_finite64" "xs \<noteq> []" "length (xs @ ys) \<le> 2 ^ 40" "0 \<le> fval (share_of r xs)"
  shows "max 0 (fval (share_of r (xs @ ys))) \<le> fval (share_of r xs)"
proof -
  have ne: "xs @ ys \<noteq> []" "length xs \<le> 2 ^ 40" using assms(3,4) by auto
  note v = share_value(2) [OF assms(1,2) ne(1) assms(4)] share_value(2) [OF assms(1,2,3) ne(2)]
  show ?thesis
  proof (cases "0 \<le> fval r")
    case True
    have "fval r / of_nat (length (xs @ ys)) \<le> fval r / of_nat (length xs)"
      using True assms(3) by (intro divide_left_mono mult_pos_pos) (auto simp: add_pos_nonneg)
    then show ?thesis using round64_mono v assms(5) by simp
  next
    case False
    then have "round64 (fval r / of_nat (length (xs @ ys))) \<le> 0" by (intro round64_nonpos) (simp add: divide_le_0_iff)
    then show ?thesis using v assms(5) by simp
  qed
qed

lemma full_within_share:
  assumes ordered: "\<forall>d\<in>set ordered. is_fin (de_RequestedKW d) \<and> wf64 (de_RequestedKW d)"
    and cap: "wf64 (po_MaxConnectorKW policy)"
    and A: "is_fin A" "wf64 A" "0 \<le> fval A" "2 * fval A + 2 \<le> max_finite64"
    and n: "length ordered \<le> 2 ^ 40"
    and loop: "satisfy_loop policy ordered A Map.empty [0..<length ordered] = (r, res, limited @ paused)"
    and useful: "limited \<noteq> [] \<longrightarrow> fle MinimumUsefulKW (share_of r limited)"
    and d: "distinct (limited @ paused)" "set (limited @ paused) \<subseteq> {0..<length ordered}"
    and ne: "limited \<noteq> []" and i: "i \<in> {0..<length ordered} - set (limited @ paused)"
  shows "qv policy ordered i \<le> fval (share_of r limited) + of_nat (length ordered) * drift (length ordered) (fval A)"
proof -
  let ?n = "length ordered" and ?a = "fval A"
  have "representable ?a" using A(1,2) by (cases A) (auto simp: wf64_def representable_def)
  moreover have "0 \<le> slack ?n ?a" unfolding slack_def using A(3) eta64_nonneg by simp
  ultimately have "budget_ok ?n ?a A" using A by (simp add: budget_ok_def)
  then have "share_kept ?n ?a policy ordered A [0..<?n] r (limited @ paused)"
    using satisfy_loop_share_kept [OF n A(3,4), of "[0..<?n]" policy ordered A Map.empty] requests_ok_all [OF ordered cap] loop
    by simp
  then have "qv policy ordered i \<le> max 0 (fval (share_of r (limited @ paused))) + of_nat ?n * drift ?n ?a"
    using ne i by (simp add: share_kept_def Let_def)
  moreover have "length (limited @ paused) \<le> ?n"
    using d by (metis card_atLeastLessThan card_mono diff_zero distinct_card finite_atLeastLessThan)
  then have len: "length (limited @ paused) \<le> 2 ^ 40" using n by (rule le_trans)
  note bs = budget_shares [OF ordered cap A n loop useful]
  have "max 0 (fval (share_of r (limited @ paused))) \<le> fval (share_of r limited)"
    using bs(3) A(3,4) bs(4) ne by (intro shorter_share [OF bs(2) _ ne len]) auto
  ultimately show ?thesis by linarith
qed

lemma clamp_within:
  assumes "is_fin x" "is_fin y" "0 \<le> fval y" "0 \<le> t" "fval (clamp x m) \<le> fval y + t"
  shows "fval (clamp x m) \<le> fval (clamp y m) + t"
  using assms by (auto simp: clamp_fin min_def max_def split: if_splits)

text \<open>The tolerance of the fairness property, for \<open>n\<close> connectors and \<open>a\<close> kW.\<close>

definition unfairness :: "nat \<Rightarrow> rat \<Rightarrow> rat" where
  "unfairness n a = 1 / 100 + 24 * (of_nat n + 1) ^ 2 * (a + 1) / 2 ^ 53"

lemma unfairness_bound:
  fixes a q c :: rat
  assumes a: "0 \<le> a" and n: "n \<le> 2 ^ 40" and c: "0 \<le> c" "c \<le> 3 * a + 1" and q: "q \<le> c + of_nat n * drift n a"
  shows "q * (1 + 3 / 2 ^ 53) + 2 * eta64 \<le> c * (1 - 3 / 2 ^ 53) - 1 / 100 - 2 * eta64 + unfairness n a"
proof -
  let ?u = "1 / 2 ^ 53 :: rat" and ?k = "of_nat n :: rat"
  have e: "0 \<le> eta64" "eta64 \<le> ?u" using eta_small by simp_all
  define w where "w = ?u * (a + 1)"
  have w: "0 \<le> w" "?u * a \<le> w" "eta64 \<le> w" using a e by (simp_all add: w_def distrib_left)
  have "drift n a = (2 * ?k + 1) * (?u * a) + (?k + 1) * eta64 + w"
    unfolding drift_def slack_def w_def by (simp only: mult.assoc distrib_right mult_1_left add_ac)
  also have "\<dots> \<le> (2 * ?k + 1) * w + (?k + 1) * w + w" using w by (intro add_mono mult_left_mono) auto
  also have "\<dots> = 3 * (?k + 1) * w" by (simp add: algebra_simps)
  finally have "drift n a \<le> 3 * (?k + 1) * w" .
  then have "?k * drift n a \<le> ?k * (3 * (?k + 1) * w)" by (intro mult_left_mono) auto
  then have q': "q \<le> c + 3 * ?k * (?k + 1) * w" using q by (simp add: mult.assoc mult.left_commute)
  have "q * (1 + 3 / 2 ^ 53) \<le> (c + 3 * ?k * (?k + 1) * w) * (1 + 3 / 2 ^ 53)"
    using q' by (intro mult_right_mono) auto
  also have "\<dots> = c + 3 * ?u * c + (3 * ?k * (?k + 1) * w) * (1 + 3 / 2 ^ 53)" by (simp add: distrib_right distrib_left)
  also have "\<dots> \<le> c + 3 * ?u * c + (3 * ?k * (?k + 1) * w) * 2" using w(1) by (intro add_left_mono mult_left_mono) auto
  finally have "q * (1 + 3 / 2 ^ 53) \<le> c + 3 * (?u * c) + 6 * ?k * (?k + 1) * w" by (simp add: mult.commute mult.left_commute)
  moreover have "?u * c \<le> 3 * w" using c a by (simp add: w_def)
  moreover have "c * (1 - 3 / 2 ^ 53) = c - 3 * (?u * c)" by (simp add: right_diff_distrib)
  moreover have "(6 * ?k * (?k + 1) + 22) * w = 6 * ?k * (?k + 1) * w + 22 * w" by (rule distrib_right)
  ultimately have "q * (1 + 3 / 2 ^ 53) + 2 * eta64 \<le> c * (1 - 3 / 2 ^ 53) - 2 * eta64 + (6 * ?k * (?k + 1) + 22) * w"
    using w(3) by linarith
  also have "(6 * ?k * (?k + 1) + 22) * w \<le> (24 * (?k + 1) ^ 2) * w"
    using w(1) by (intro mult_right_mono) (auto simp: power2_eq_square algebra_simps)
  finally show ?thesis by (simp add: unfairness_def w_def)
qed

lemma full_below_limited:
  assumes ordered: "\<forall>d\<in>set ordered. is_fin (de_RequestedKW d) \<and> wf64 (de_RequestedKW d)"
    and cap: "wf64 (po_MaxConnectorKW policy)"
    and A: "is_fin A" "wf64 A" "0 \<le> fval A" "fval A \<le> 10 ^ 300" and n: "length ordered \<le> 2 ^ 40"
    and loop: "satisfy_loop policy ordered A Map.empty [0..<length ordered] = (r, res, limited @ paused)"
    and useful: "limited \<noteq> [] \<longrightarrow> fle MinimumUsefulKW (share_of r limited)"
    and d: "distinct (limited @ paused)" "set (limited @ paused) \<subseteq> {0..<length ordered}"
    and ne: "limited \<noteq> []" and i: "i \<in> {0..<length ordered} - set (limited @ paused)"
  shows "fval (round_kw (req policy ordered i)) \<le>
    fval (round_kw (clamp (share_of r limited) (po_MaxConnectorKW policy))) + unfairness (length ordered) (fval A)"
proof -
  let ?n = "length ordered" and ?a = "fval A" and ?s = "share_of r limited"
  let ?c = "clamp ?s (po_MaxConnectorKW policy)" and ?q = "req policy ordered i"
  have "2 * 10 ^ 300 + 2 \<le> max_finite64" by (simp add: max_finite64_def)
  then have A2: "2 * ?a + 2 \<le> max_finite64" using A(4) by simp
  note small = shares_small [OF ordered cap A n loop useful]
  have s: "is_fin ?s" "0 \<le> fval ?s" using budget_shares(4) [OF ordered cap A(1-3) A2 n loop useful] ne by auto
  have fin: "is_fin (de_RequestedKW (ordered ! i))" using ordered i by simp
  have drift: "0 \<le> of_nat ?n * drift ?n ?a" using drift_nonneg [OF A(3)] by simp
  have "fval ?q \<le> fval ?c + of_nat ?n * drift ?n ?a"
    by (rule clamp_within [OF fin s drift full_within_share [OF ordered cap A(1-3) A2 n loop useful d ne i]])
  moreover have c: "0 \<le> fval ?c" "fval ?c \<le> 3 * ?a + 1" "is_fin ?c" "128 * fval ?c \<le> max_finite64"
    using small(2) [OF ne, of "po_MaxConnectorKW policy"] small(3) [OF ne] by auto
  ultimately have "fval ?q * (1 + 3 / 2 ^ 53) + 2 * eta64 \<le> fval ?c * (1 - 3 / 2 ^ 53) - 1 / 100 - 2 * eta64 + unfairness ?n ?a"
    by (intro unfairness_bound [OF A(3) n])
  moreover have "fval (round_kw ?q) \<le> fval ?q * (1 + 3 / 2 ^ 53) + 2 * eta64"
    using small(1) [OF i] by (intro round_kw_bound(3)) auto
  moreover have "fval ?c * (1 - 3 / 2 ^ 53) - 1 / 100 - 2 * eta64 \<le> fval (round_kw ?c)"
    by (rule round_kw_lower [OF c(3,1,4)])
  ultimately show ?thesis by linarith
qed

lemma allocate_ordered_fair:
  assumes ordered: "\<forall>d\<in>set ordered. is_fin (de_RequestedKW d) \<and> wf64 (de_RequestedKW d)"
    and cap: "wf64 (po_MaxConnectorKW policy)"
    and A: "is_fin A" "wf64 A" "0 \<le> fval A" "fval A \<le> 10 ^ 300" and n: "length ordered \<le> 2 ^ 40"
    and x: "x \<in> set (allocate_ordered A policy ordered)" "al_Outcome x = OutcomeLimited"
    and y: "y \<in> set (allocate_ordered A policy ordered)"
  shows "fval (al_MaxPowerKW y) \<le> fval (al_MaxPowerKW x) + unfairness (length ordered) (fval A) \<and>
    (al_Outcome y = OutcomeLimited \<longrightarrow> al_MaxPowerKW y = al_MaxPowerKW x)"
proof -
  let ?n = "length ordered"
  obtain r limited paused where sh:
    "fst (satisfy_loop policy ordered A Map.empty [0..<?n]) = r"
    "snd (snd (satisfy_loop policy ordered A Map.empty [0..<?n])) = limited @ paused"
    "distinct (limited @ paused)" "sorted (limited @ paused)" "set (limited @ paused) \<subseteq> {0..<?n}"
    "limited \<noteq> [] \<longrightarrow> fle MinimumUsefulKW (share_of r limited)"
    "allocate_ordered A policy ordered =
       map (\<lambda>i. if i \<in> set limited then limited_allocation policy ordered (share_of r limited) i
                else if i \<in> set paused then paused_allocation ordered i
                else full_allocation policy ordered i) [0..<?n]"
    by (rule allocate_ordered_shape)
  obtain res where loop: "satisfy_loop policy ordered A Map.empty [0..<?n] = (r, res, limited @ paused)"
    using sh(1,2) by (cases "satisfy_loop policy ordered A Map.empty [0..<?n]") auto
  let ?l = "round_kw (clamp (share_of r limited) (po_MaxConnectorKW policy))"
  have x': "al_MaxPowerKW x = ?l" "limited \<noteq> []"
    using x unfolding sh(7) by (auto simp: limited_allocation_def paused_allocation_def full_allocation_def split: if_splits)
  have l0: "0 \<le> fval ?l" using allocate_ordered_budget(2) [OF ordered cap A n] x(1) x'(1) by auto
  have u0: "0 \<le> unfairness ?n (fval A)" using A(3) by (simp add: unfairness_def)
  obtain i where i: "i < ?n" "y = (if i \<in> set limited then limited_allocation policy ordered (share_of r limited) i
      else if i \<in> set paused then paused_allocation ordered i else full_allocation policy ordered i)"
    using y unfolding sh(7) by auto
  consider "i \<in> set limited" | "i \<notin> set limited" "i \<in> set paused" | "i \<in> {0..<?n} - set (limited @ paused)" using i(1) by auto
  then show ?thesis
  proof cases
    case 3
    then show ?thesis using full_below_limited [OF ordered cap A n loop sh(6,3,5) x'(2) 3] i(2) x'(1)
      by (simp add: full_allocation_def)
  qed (use i(2) x'(1) l0 u0 in \<open>simp_all add: limited_allocation_def paused_allocation_def\<close>)
qed

section \<open>Where somebody is limited, the budget is spent\<close>

lemma spent_rounding:
  fixes a T \<eta> :: rat
  assumes "0 \<le> a" "a * (1 - (4 * of_nat n + 1) / 2 ^ 53) - of_nat n * \<eta> \<le> T" "0 \<le> \<eta>"
  shows "a * (1 - (4 * of_nat n + 5) / 2 ^ 53) - of_nat n / 100 - 4 * of_nat n * \<eta> \<le>
    T * (1 - 3 / 2 ^ 53) - of_nat n * (1 / 100 + 2 * \<eta>)"
proof -
  let ?k = "of_nat n :: rat" and ?c = "1 - 3 / 2 ^ 53 :: rat"
  have "(a * (1 - (4 * ?k + 1) / 2 ^ 53) - ?k * \<eta>) * ?c \<le> T * ?c" using assms(2) by (intro mult_right_mono) auto
  moreover have "a * (1 - (4 * ?k + 5) / 2 ^ 53) \<le> a * ((1 - (4 * ?k + 1) / 2 ^ 53) * ?c)"
    using assms(1) by (intro mult_left_mono) (auto simp: field_simps)
  moreover have "?k * \<eta> * ?c \<le> ?k * \<eta> * 1" using assms(3) by (intro mult_left_mono) auto
  moreover have "0 \<le> ?k * \<eta>" using assms(3) by simp
  moreover have "(a * (1 - (4 * ?k + 1) / 2 ^ 53) - ?k * \<eta>) * ?c = a * ((1 - (4 * ?k + 1) / 2 ^ 53) * ?c) - ?k * \<eta> * ?c"
    by (simp only: left_diff_distrib mult.assoc)
  moreover have "?k * (1 / 100 + 2 * \<eta>) = ?k / 100 + 2 * (?k * \<eta>)" "4 * ?k * \<eta> = 4 * (?k * \<eta>)"
    by (simp_all add: distrib_left)
  ultimately show ?thesis by linarith
qed

lemma sum_list_neg: "(\<Sum>i\<leftarrow>xs. - v i) = - (\<Sum>i\<leftarrow>xs. v i :: rat)"
  by (induction xs) auto

lemma clamp_uncapped: "is_fin x \<Longrightarrow> 0 \<le> fval x \<Longrightarrow> \<not> flt (Fin 0) m \<Longrightarrow> fval (clamp x m) = fval x"
  by (auto simp: clamp_fin flt_fin)

lemma allocate_ordered_spent:
  assumes ordered: "\<forall>d\<in>set ordered. is_fin (de_RequestedKW d) \<and> wf64 (de_RequestedKW d)"
    and cap: "wf64 (po_MaxConnectorKW policy)" "\<not> flt (Fin 0) (po_MaxConnectorKW policy)"
    and A: "is_fin A" "wf64 A" "0 \<le> fval A" "fval A \<le> 10 ^ 300" and n: "length ordered \<le> 2 ^ 40"
    and limit: "x \<in> set (allocate_ordered A policy ordered)" "al_Outcome x = OutcomeLimited"
  shows "fval A * (1 - (4 * of_nat (length ordered) + 5) / 2 ^ 53) - of_nat (length ordered) / 100 - 4 * of_nat (length ordered) * eta64 \<le>
    (\<Sum>y\<leftarrow>allocate_ordered A policy ordered. fval (al_MaxPowerKW y))"
proof -
  let ?n = "length ordered" and ?a = "fval A" and ?e = "eta64" and ?c = "1 - 3 / 2 ^ 53 :: rat"
  have "2 * 10 ^ 300 + 2 \<le> max_finite64" by (simp add: max_finite64_def)
  then have A2: "2 * ?a + 2 \<le> max_finite64" using A(4) by simp
  obtain r limited paused where sh:
    "fst (satisfy_loop policy ordered A Map.empty [0..<?n]) = r"
    "snd (snd (satisfy_loop policy ordered A Map.empty [0..<?n])) = limited @ paused"
    "distinct (limited @ paused)" "sorted (limited @ paused)" "set (limited @ paused) \<subseteq> {0..<?n}"
    "limited \<noteq> [] \<longrightarrow> fle MinimumUsefulKW (share_of r limited)"
    "allocate_ordered A policy ordered =
       map (\<lambda>i. if i \<in> set limited then limited_allocation policy ordered (share_of r limited) i
                else if i \<in> set paused then paused_allocation ordered i
                else full_allocation policy ordered i) [0..<?n]"
    by (rule allocate_ordered_shape)
  obtain res where loop: "satisfy_loop policy ordered A Map.empty [0..<?n] = (r, res, limited @ paused)"
    using sh(1,2) by (cases "satisfy_loop policy ordered A Map.empty [0..<?n]") auto
  have ne: "limited \<noteq> []"
    using limit unfolding sh(7) by (auto simp: limited_allocation_def paused_allocation_def full_allocation_def split: if_splits)
  let ?s = "share_of r limited" and ?F = "{0..<?n} - set (limited @ paused)"
  note small = shares_small [OF ordered cap(1) A n loop sh(6)]
  note bs = budget_shares [OF ordered cap(1) A(1-3) A2 n loop sh(6)]
  let ?v = "\<lambda>i. fval (al_MaxPowerKW (if i \<in> set limited then limited_allocation policy ordered ?s i
                else if i \<in> set paused then paused_allocation ordered i
                else full_allocation policy ordered i))"
  have "(\<Sum>i\<leftarrow>[0..<?n]. - ?v i) \<le> ((\<Sum>i\<in>?F. - qv policy ordered i) + of_nat (length limited) * (- fval ?s)) * ?c + of_nat ?n * (1 / 100 + 2 * ?e)"
  proof (rule sum_list_cases_le [OF sh(3,5)])
    show "- ?v i \<le> - qv policy ordered i * ?c + (1 / 100 + 2 * ?e)" if "i \<in> ?F" for i
      using round_kw_lower [of "req policy ordered i"] small(1) [OF that] that by (simp add: full_allocation_def)
    show "- ?v i \<le> - fval ?s * ?c + (1 / 100 + 2 * ?e)" if "i \<in> set limited" for i
      using round_kw_lower [of "clamp ?s (po_MaxConnectorKW policy)"] small(2) [OF ne, of "po_MaxConnectorKW policy"] that
        clamp_uncapped [OF _ _ cap(2), of ?s] bs(4) ne by (simp add: limited_allocation_def)
    show "- ?v i \<le> 1 / 100 + 2 * ?e" if "i \<in> set paused" for i
      using that sh(3) eta_small(1) by (auto simp: paused_allocation_def)
  qed
  then have "((\<Sum>i\<in>?F. qv policy ordered i) + of_nat (length limited) * fval ?s) * ?c - of_nat ?n * (1 / 100 + 2 * ?e) \<le> (\<Sum>i\<leftarrow>[0..<?n]. ?v i)"
  proof -
    have "((\<Sum>i\<in>?F. - qv policy ordered i) + of_nat (length limited) * (- fval ?s)) * ?c =
        - (((\<Sum>i\<in>?F. qv policy ordered i) + of_nat (length limited) * fval ?s) * ?c)"
      by (simp only: sum_negf mult_minus_right minus_add_distrib [symmetric] mult_minus_left)
    moreover assume "(\<Sum>i\<leftarrow>[0..<?n]. - ?v i) \<le> ((\<Sum>i\<in>?F. - qv policy ordered i) + of_nat (length limited) * (- fval ?s)) * ?c + of_nat ?n * (1 / 100 + 2 * ?e)"
    ultimately show ?thesis unfolding sum_list_neg [of ?v] by linarith
  qed
  moreover have "(\<Sum>y\<leftarrow>allocate_ordered A policy ordered. fval (al_MaxPowerKW y)) = (\<Sum>i\<leftarrow>[0..<?n]. ?v i)"
    unfolding sh(7) by (simp add: o_def)
  ultimately show ?thesis using spent_rounding [OF A(3) bs(5) [OF ne] eta64_nonneg] by linarith
qed

end
