(* ===== verification/Advice_Theorems.thy ===== *)
theory Advice_Theorems
  imports Advice_Fairness
begin

text \<open>
  What a site proposal guarantees: every connector is answered, the order is deterministic and
  favours modest requests, the total stays within the power available, a limited connector can
  still charge, and missing or stale measurements never raise the proposal above the fallback.
\<close>

definition fresh :: "Policy \<Rightarrow> EnergyObservation \<Rightarrow> time \<Rightarrow> bool" where
  "fresh policy obs now \<longleftrightarrow> \<not> po_ObservationFreshness policy < time_Sub now (eo_ObservedAt obs)"

section \<open>An example site\<close>

text \<open>Three connectors of a 100 kW site; the witnesses evaluate the model on it.\<close>

definition example_policy :: Policy where
  "example_policy = \<lparr>po_CapacityKW = Fin 100, po_SafetyMarginKW = Fin 5, po_FallbackKW = Fin 20,
     po_ObservationFreshness = 120 * second_ns, po_MaxConnectorKW = Fin 22\<rparr>"

definition example_demands :: "Demand list" where
  "example_demands =
     [\<lparr>de_StationID = ''A'', de_ConnectorID = ''1'', de_RequestedKW = Fin 11\<rparr>,
      \<lparr>de_StationID = ''A'', de_ConnectorID = ''2'', de_RequestedKW = Fin 1\<rparr>,
      \<lparr>de_StationID = ''B'', de_ConnectorID = ''1'', de_RequestedKW = Fin 50\<rparr>]"

definition example_observation :: EnergyObservation where
  "example_observation = \<lparr>eo_SiteID = ''site'', eo_Provider = [], eo_ProviderSiteID = [],
     eo_ProviderAssetID = [], eo_ConsentScope = [], eo_ObservedAt = 0, eo_RetrievedAt = 0,
     eo_SolarGenerationKW = None, eo_SiteLoadKW = Some (Fin 80), eo_GridImportKW = None,
     eo_GridExportKW = None, eo_BatteryChargeKW = None, eo_BatteryDischargeKW = None,
     eo_BatterySOC = None, eo_TariffImportPerKWh = None, eo_DataQuality = [], eo_IngestedAt = 0\<rparr>"


section \<open>Helper lemmas\<close>


lemma clamp_upper:
  "flt (Fin 0) m \<Longrightarrow> \<not> IsNaN x \<Longrightarrow> fle (clamp x m) m"
  by (cases x; cases m) (auto simp: clamp_def math_Max_def fle_def flt_def feq_def split: if_splits)

lemma clamp_nan [simp]: "IsNaN (clamp x m) \<longleftrightarrow> IsNaN x"
  by (cases x; cases m) (auto simp: clamp_def math_Max_def flt_def)

lemma satisfied_not_nan:
  "\<forall>i\<in>set remaining. i \<notin> set (snd (snd (satisfy_loop policy ordered r res remaining))) \<longrightarrow>
     \<not> IsNaN (de_RequestedKW (ordered ! i))"
proof (induction rule: satisfy_loop_induct [where Q = "\<lambda>r res remaining out.
    \<forall>i\<in>set remaining. i \<notin> set (snd (snd out)) \<longrightarrow> \<not> IsNaN (de_RequestedKW (ordered ! i))"])
  case (step r res remaining ys out)
  have "\<not> IsNaN (de_RequestedKW (ordered ! i))" if "fits policy ordered r remaining i" for i
    using that fle_not_nan by (fastforce simp: fits_def)
  with step(1,3) show ?case by auto
qed simp

lemma fsub_mono: "is_fin c \<Longrightarrow> fle x y \<Longrightarrow> fle (fsub x c) (fsub y c)"
  by (cases x; cases y; cases c)
     (auto simp: fsub_def fadd_def fle_fin fle_def [of PosInf] fle_def [of _ NegInf] flt_def feq_def
        intro!: pack64_mono)

lemma fsub_antimono: "is_fin c \<Longrightarrow> fle x y \<Longrightarrow> fle (fsub c y) (fsub c x)"
  by (cases x; cases y; cases c)
     (auto simp: fsub_def fadd_def fle_fin fle_def [of PosInf] fle_def [of _ NegInf] flt_def feq_def
        intro!: pack64_mono)

lemma compute_measured:
  "fresh policy obs now \<Longrightarrow>
   ad_Basis (Compute siteID policy (Some obs) demands now) = BasisMeasured \<and>
   ad_AvailableForEVKW (Compute siteID policy (Some obs) demands now) =
     math_Max (fsub (fsub (po_CapacityKW policy)
       (math_Max (fsub (valueOr (eo_SiteLoadKW obs) (Fin 0)) (evPower demands)) (Fin 0)))
       (po_SafetyMarginKW policy)) (Fin 0)"
  by (simp add: Compute_def fresh_def Let_def)

lemma fsub_zero: "is_fin c \<Longrightarrow> wf64 c \<Longrightarrow> fle (fsub c (Fin 0)) c"
  by (cases c) (auto simp: fsub_def fadd_def pack64_def wf64_def representable_def Let_def fle_def flt_def feq_def
      intro: less_asym [OF max_finite64_pos])

lemma math_Max_not_nan: "\<not> IsNaN x \<Longrightarrow> \<not> IsNaN y \<Longrightarrow> \<not> IsNaN (math_Max x y)"
  by (cases x; cases y) (auto simp: math_Max_def)

section \<open>Properties\<close>

text \<open>
  C1. The advised powers never add up to more than the power available, up to the rounding of
  binary64 (a relative excess of less than \<open>5 (n + 1) / 2\<^sup>5\<^sup>3\<close> for
  \<open>n\<close> connectors), and every figure is finite and not negative. Nor is power held back while somebody is
  cut: with a limited connector and no per-connector cap, all of it is handed out but the 10 W per
  connector to which figures are rounded down.
\<close>

theorem allocate_within_budget:
  assumes "is_fin A" "wf64 A" "0 \<le> fval A" "fval A \<le> 10 ^ 300"
    and "\<forall>d\<in>set demands. is_fin (de_RequestedKW d) \<and> wf64 (de_RequestedKW d)"
    and "wf64 (po_MaxConnectorKW policy)" and "length demands \<le> 2 ^ 40"
  shows "(\<Sum>a\<leftarrow>allocate A policy demands. fval (al_MaxPowerKW a)) \<le>
      fval A * (1 + (4 * of_nat (length demands) + 5) / 2 ^ 53) + 4 * of_nat (length demands) * eta64 \<and>
    (\<forall>a\<in>set (allocate A policy demands). is_fin (al_MaxPowerKW a) \<and> 0 \<le> fval (al_MaxPowerKW a)) \<and>
    (\<not> flt (Fin 0) (po_MaxConnectorKW policy) \<and> OutcomeLimited \<in> set (map al_Outcome (allocate A policy demands)) \<longrightarrow>
      fval A * (1 - (4 * of_nat (length demands) + 5) / 2 ^ 53) - of_nat (length demands) / 100 - 4 * of_nat (length demands) * eta64
        \<le> (\<Sum>a\<leftarrow>allocate A policy demands. fval (al_MaxPowerKW a)))"
proof (cases "demands = []")
  case True
  then show ?thesis using assms(3) by (simp add: allocate_def)
next
  case False
  let ?o = "sort_Slice demand_less demands"
  have o: "\<forall>d\<in>set ?o. is_fin (de_RequestedKW d) \<and> wf64 (de_RequestedKW d)" and n: "length ?o \<le> 2 ^ 40"
    and len: "length ?o = length demands" using assms(5,7) by simp_all
  have all: "allocate A policy demands = allocate_ordered A policy ?o" using False by (simp add: allocate_def)
  show ?thesis unfolding all
  proof (intro conjI impI)
    assume "\<not> flt (Fin 0) (po_MaxConnectorKW policy) \<and> OutcomeLimited \<in> set (map al_Outcome (allocate_ordered A policy ?o))"
    then show "fval A * (1 - (4 * of_nat (length demands) + 5) / 2 ^ 53) - of_nat (length demands) / 100 - 4 * of_nat (length demands) * eta64
        \<le> (\<Sum>a\<leftarrow>allocate_ordered A policy ?o. fval (al_MaxPowerKW a))"
      using allocate_ordered_spent [OF o assms(6) _ assms(1-4) n] unfolding len by auto
  qed (use allocate_ordered_budget [OF o assms(6,1-4) n] len in simp_all)
qed

theorem allocate_within_budget_witness:
  "(\<Sum>a\<leftarrow>allocate (Fin 8) (example_policy\<lparr>po_MaxConnectorKW := Fin 0\<rparr>) (take 2 example_demands). fval (al_MaxPowerKW a)) \<le>
      8 * (1 + 13 / 2 ^ 53) + 8 * eta64 \<and>
   8 * (1 - 13 / 2 ^ 53) - 2 / 100 - 8 * eta64 \<le>
     (\<Sum>a\<leftarrow>allocate (Fin 8) (example_policy\<lparr>po_MaxConnectorKW := Fin 0\<rparr>) (take 2 example_demands). fval (al_MaxPowerKW a))"
proof -
  let ?policy = "example_policy\<lparr>po_MaxConnectorKW := Fin 0\<rparr>" and ?demands = "take 2 example_demands"
  have "\<forall>d\<in>set ?demands. is_fin (de_RequestedKW d) \<and> wf64 (de_RequestedKW d)"
    "wf64 (po_MaxConnectorKW ?policy)" "length ?demands = 2" "wf64 (Fin 8)"
    "OutcomeLimited \<in> set (map al_Outcome (allocate (Fin 8) ?policy ?demands))" "\<not> flt (Fin 0) (po_MaxConnectorKW ?policy)"
    by code_simp+
  then show ?thesis
    using allocate_within_budget [of "Fin 8" ?demands ?policy] by simp
qed

text \<open>
  C6. The allocation is fair to whoever is cut. All limited connectors are advised one and the same power, and no
  connector, whatever its request and its outcome, is advised more than a limited one, up to the 10 W to
  which figures are rounded down and the rounding of binary64: nobody is served in full at the expense of
  somebody who is cut.
\<close>

theorem allocation_is_fair:
  assumes "is_fin A" "wf64 A" "0 \<le> fval A" "fval A \<le> 10 ^ 300"
    and "\<forall>d\<in>set demands. is_fin (de_RequestedKW d) \<and> wf64 (de_RequestedKW d)"
    and "wf64 (po_MaxConnectorKW policy)" and "length demands \<le> 2 ^ 40"
    and "x \<in> set (allocate A policy demands)" "al_Outcome x = OutcomeLimited"
    and "y \<in> set (allocate A policy demands)"
  shows "fval (al_MaxPowerKW y) \<le> fval (al_MaxPowerKW x) + 1 / 100 +
      24 * (of_nat (length demands) + 1) ^ 2 * (fval A + 1) / 2 ^ 53 \<and>
    (al_Outcome y = OutcomeLimited \<longrightarrow> al_MaxPowerKW y = al_MaxPowerKW x)"
proof -
  let ?o = "sort_Slice demand_less demands"
  have o: "\<forall>d\<in>set ?o. is_fin (de_RequestedKW d) \<and> wf64 (de_RequestedKW d)" "length ?o \<le> 2 ^ 40" "length ?o = length demands"
    using assms(5,7) by simp_all
  have "demands \<noteq> []" using assms(8) by (auto simp: allocate_def)
  then show ?thesis
    using allocate_ordered_fair [OF o(1) assms(6,1-4) o(2), of x y] assms(8-10) o(3)
    by (simp add: allocate_def unfairness_def)
qed

theorem allocation_is_fair_witness:
  "fval (al_MaxPowerKW (allocate (Fin 8) example_policy (take 2 example_demands) ! 0)) \<le>
     fval (al_MaxPowerKW (allocate (Fin 8) example_policy (take 2 example_demands) ! 1)) + 1 / 100 + 1944 / 2 ^ 53"
proof -
  let ?xs = "allocate (Fin 8) example_policy (take 2 example_demands)"
  have "length ?xs = 2" "al_Outcome (?xs ! 1) = OutcomeLimited"
    "\<forall>d\<in>set (take 2 example_demands). is_fin (de_RequestedKW d) \<and> wf64 (de_RequestedKW d)"
    "wf64 (po_MaxConnectorKW example_policy)" "length (take 2 example_demands) = 2" "wf64 (Fin 8)"
    by code_simp+
  then show ?thesis
    using allocation_is_fair [of "Fin 8" "take 2 example_demands" example_policy "?xs ! 1" "?xs ! 0"] by simp
qed

text \<open>
  Every connector that asks gets exactly one allocation, with its own station and connector
  id, and every outcome is FULL, LIMITED or PAUSED.
\<close>

theorem allocate_covers:
  "mset (map al_key (allocate A policy demands)) = mset (map de_key demands) \<and>
   set (map al_Outcome (allocate A policy demands)) \<subseteq> {OutcomeFull, OutcomeLimited, OutcomePaused}"
proof (cases "demands = []")
  case False
  let ?o = "sort_Slice demand_less demands"
  obtain r limited paused where sh:
    "allocate_ordered A policy ?o =
       map (\<lambda>i. if i \<in> set limited then limited_allocation policy ?o (share_of r limited) i
                else if i \<in> set paused then paused_allocation ?o i
                else full_allocation policy ?o i) [0..<length ?o]"
    by (rule allocate_ordered_shape)
  have "mset (map al_key (allocate_ordered A policy ?o)) = mset (map de_key ?o)"
    by (simp only: allocate_ordered_keys)
  also have "\<dots> = mset (map de_key demands)" by simp
  finally have keys: "mset (map al_key (allocate_ordered A policy ?o)) = mset (map de_key demands)" .
  have "set (map al_Outcome (allocate_ordered A policy ?o)) \<subseteq> {OutcomeFull, OutcomeLimited, OutcomePaused}"
    unfolding sh by (auto simp: limited_allocation_def paused_allocation_def full_allocation_def split: if_splits)
  with keys False show ?thesis by (simp add: allocate_def del: mset_map)
qed (simp add: allocate_def)

text \<open>
  What the loops really do: with finite requests, the answers come sorted by requested power, and along
  that order the outcomes are first FULL, then LIMITED, then PAUSED. The largest requests are paused,
  where the comment on \<open>allocate\<close> speaks of the smallest.
\<close>

lemma allocate_order:
  assumes "\<forall>d\<in>set demands. is_fin (de_RequestedKW d)"
  shows "sorted (map (fval \<circ> de_RequestedKW) (sort_Slice demand_less demands)) \<and>
    map al_key (allocate A policy demands) = map de_key (sort_Slice demand_less demands) \<and>
    (\<exists>k l p. map al_Outcome (allocate A policy demands) =
       replicate k OutcomeFull @ replicate l OutcomeLimited @ replicate p OutcomePaused)"
proof -
  let ?o = "sort_Slice demand_less demands"
  have sw: "sorted_wrt (\<lambda>x y. \<not> demand_less y x) ?o"
    using assms by (intro demand_order.sort_sorted) (auto simp: comparable_demands_def)
  have fin: "\<forall>d\<in>set ?o. is_fin (de_RequestedKW d)" using assms by simp
  have "sorted_wrt (\<lambda>x y. fval (de_RequestedKW x) \<le> fval (de_RequestedKW y)) ?o"
    using sw fin by (auto intro: demand_less_requested elim!: sorted_wrt_mono_rel [rotated])
  then have "sorted (map (fval \<circ> de_RequestedKW) ?o)" by (simp add: sorted_map)
  moreover have "map al_key (allocate A policy demands) = map de_key ?o"
    by (simp add: allocate_def allocate_ordered_keys sort_Slice_def)
  moreover have "\<exists>k l p. map al_Outcome (allocate A policy demands) =
       replicate k OutcomeFull @ replicate l OutcomeLimited @ replicate p OutcomePaused"
  proof (cases "demands = []")
    case True
    then have "map al_Outcome (allocate A policy demands) =
       replicate 0 OutcomeFull @ replicate 0 OutcomeLimited @ replicate 0 OutcomePaused"
      by (simp add: allocate_def)
    then show ?thesis by blast
  next
    case False
    then show ?thesis
      using allocate_ordered_outcomes [OF growing_sorted [OF fin sw]] by (simp add: allocate_def)
  qed
  ultimately show ?thesis by blast
qed

text \<open>
  C7. The allocation does not depend on the order in which the demands were read, as long as no
  connector appears twice and the requests are finite.
\<close>

theorem allocate_deterministic:
  assumes "\<forall>d\<in>set demands. is_fin (de_RequestedKW d)" and "distinct (map de_key demands)"
    and "mset demands' = mset demands"
  shows "allocate A policy demands' = allocate A policy demands"
proof -
  have "x = y" if "x \<in> set demands" "y \<in> set demands" "\<not> demand_less x y" "\<not> demand_less y x" for x y
    using that assms(1,2) demand_less_total [of x y] by (auto simp: distinct_map dest: inj_onD)
  then have "sort_Slice demand_less demands = sort_Slice demand_less demands'"
    using assms by (intro demand_order.sort_unique) (auto simp: comparable_demands_def)
  moreover have "demands = [] \<longleftrightarrow> demands' = []" using assms(3) by auto
  ultimately show ?thesis by (simp add: allocate_def)
qed

theorem allocate_deterministic_witness:
  "rev example_demands \<noteq> example_demands \<and>
   allocate (Fin 8) example_policy (rev example_demands) = allocate (Fin 8) example_policy example_demands"
proof -
  have "\<forall>d\<in>set example_demands. is_fin (de_RequestedKW d)" "distinct (map de_key example_demands)"
    "rev example_demands \<noteq> example_demands"
    by code_simp+
  then show ?thesis using allocate_deterministic [of example_demands "rev example_demands"] by simp
qed

text \<open>
  C8. A connector that is limited is never advised a trickle: its figure is at least
  \<open>MinimumUsefulKW\<close>, unless the configured per-connector cap is itself lower.
\<close>

theorem limited_is_useful:
  assumes "\<not> flt (Fin 0) (po_MaxConnectorKW policy) \<or> fle MinimumUsefulKW (po_MaxConnectorKW policy)"
    and "a \<in> set (allocate A policy demands)" and "al_Outcome a = OutcomeLimited"
  shows "fle MinimumUsefulKW (al_MaxPowerKW a)"
proof -
  let ?o = "sort_Slice demand_less demands"
  obtain r limited paused where sh:
    "limited \<noteq> [] \<longrightarrow> fle MinimumUsefulKW (share_of r limited)"
    "allocate_ordered A policy ?o =
       map (\<lambda>i. if i \<in> set limited then limited_allocation policy ?o (share_of r limited) i
                else if i \<in> set paused then paused_allocation ?o i
                else full_allocation policy ?o i) [0..<length ?o]"
    by (rule allocate_ordered_shape)
  with assms(2,3) have a: "al_MaxPowerKW a = round_kw (clamp (share_of r limited) (po_MaxConnectorKW policy))"
    and "limited \<noteq> []"
    by (auto simp: allocate_def limited_allocation_def paused_allocation_def full_allocation_def
        split: if_splits)
  with sh(1) assms(1) have "fle MinimumUsefulKW (clamp (share_of r limited) (po_MaxConnectorKW policy))"
    by (intro clamp_lower MinimumUseful_pos) auto
  then show ?thesis unfolding a using round_kw_mono MinimumUseful_round by metis
qed

theorem limited_is_useful_witness:
  "fle MinimumUsefulKW (Fin 7) \<and>
   al_MaxPowerKW (allocate (Fin 8) example_policy (take 2 example_demands) ! 1) = Fin 7"
proof -
  let ?xs = "allocate (Fin 8) example_policy (take 2 example_demands)"
  have l: "length ?xs = 2" "al_Outcome (?xs ! 1) = OutcomeLimited" "al_MaxPowerKW (?xs ! 1) = Fin 7"
    "fle MinimumUsefulKW (po_MaxConnectorKW example_policy)" by code_simp+
  then have "fle MinimumUsefulKW (al_MaxPowerKW (?xs ! 1))"
    by (intro limited_is_useful [of example_policy _ "Fin 8" "take 2 example_demands"]) auto
  with l show ?thesis by simp
qed

text \<open>
  With a per-connector cap configured, no connector is advised more than the cap rounded to
  10 W, whatever it asked for (infinities and NaN included).
\<close>

theorem allocate_respects_cap:
  assumes "flt (Fin 0) (po_MaxConnectorKW policy)" and "a \<in> set (allocate A policy demands)"
  shows "fle (al_MaxPowerKW a) (round_kw (po_MaxConnectorKW policy))"
proof -
  let ?o = "sort_Slice demand_less demands" and ?c = "po_MaxConnectorKW policy"
  obtain r limited paused where sh:
    "snd (snd (satisfy_loop policy ?o A Map.empty [0..<length ?o])) = limited @ paused"
    "limited \<noteq> [] \<longrightarrow> fle MinimumUsefulKW (share_of r limited)"
    "allocate_ordered A policy ?o =
       map (\<lambda>i. if i \<in> set limited then limited_allocation policy ?o (share_of r limited) i
                else if i \<in> set paused then paused_allocation ?o i
                else full_allocation policy ?o i) [0..<length ?o]"
    by (rule allocate_ordered_shape)
  have "round_kw (Fin 0) = Fin 0" by code_simp
  then have zero: "fle (Fin 0) (round_kw ?c)"
    using assms(1) round_kw_mono [of "Fin 0" ?c] by (simp add: fle_def)
  have cap: "fle (round_kw (clamp x ?c)) (round_kw ?c)" if "\<not> IsNaN x" for x
    by (rule round_kw_mono) (rule clamp_upper [OF assms(1) that])
  have share: "\<not> IsNaN (share_of r limited)" if "i \<in> set limited" for i
    using that sh(2) fle_not_nan by fastforce
  obtain i where i: "i < length ?o"
    "a = (if i \<in> set limited then limited_allocation policy ?o (share_of r limited) i
          else if i \<in> set paused then paused_allocation ?o i else full_allocation policy ?o i)"
    using assms(2) sh(3) by (auto simp: allocate_def split: if_splits)
  have "\<not> IsNaN (de_RequestedKW (?o ! i))" if "i \<notin> set limited" "i \<notin> set paused"
    using that i(1) satisfied_not_nan [of "[0..<length ?o]" policy ?o A Map.empty] sh(1) by simp
  then show ?thesis using i(2) zero cap share
    by (auto simp: limited_allocation_def paused_allocation_def full_allocation_def)
qed

theorem allocate_respects_cap_witness:
  "fle (al_MaxPowerKW (last (allocate (Fin 90) example_policy example_demands))) (Fin 22)"
proof -
  have "round_kw (po_MaxConnectorKW example_policy) = Fin 22" "flt (Fin 0) (po_MaxConnectorKW example_policy)"
    "last (allocate (Fin 90) example_policy example_demands) \<in> set (allocate (Fin 90) example_policy example_demands)"
    by code_simp+
  then show ?thesis
    using allocate_respects_cap [of example_policy _ "Fin 90" example_demands] by metis
qed

text \<open>
  C9. Without an observation, or with one that is no longer fresh, the site is given exactly the
  fallback minus the safety margin: nothing the observation says has an influence, and the basis
  tells the two cases apart.
\<close>

theorem compute_without_measurement:
  assumes "case observation of None \<Rightarrow> True | Some obs \<Rightarrow> \<not> fresh policy obs now"
  shows "ad_AvailableForEVKW (Compute siteID policy observation demands now) =
      math_Max (fsub (po_FallbackKW policy) (po_SafetyMarginKW policy)) (Fin 0) \<and>
    ad_Allocations (Compute siteID policy observation demands now) =
      allocate (math_Max (fsub (po_FallbackKW policy) (po_SafetyMarginKW policy)) (Fin 0)) policy demands \<and>
    ad_Basis (Compute siteID policy observation demands now) =
      (if observation = None then BasisNoData else BasisStale)"
  using assms by (auto simp: Compute_def fresh_def Let_def split: option.splits)

theorem compute_without_measurement_witness:
  "ad_AvailableForEVKW (Compute ''site'' example_policy (Some example_observation) example_demands 500000000000) = Fin 15"
proof -
  have "\<not> fresh example_policy example_observation 500000000000"
    "math_Max (fsub (po_FallbackKW example_policy) (po_SafetyMarginKW example_policy)) (Fin 0) = Fin 15"
    by code_simp+
  then show ?thesis
    using compute_without_measurement [of example_policy 500000000000 "Some example_observation" "''site''" example_demands]
    by simp
qed

text \<open>
  C10. A fresh observation is reported as MEASURED and never offers the vehicles more than the
  capacity minus the safety margin.
\<close>

theorem compute_measured_bound:
  assumes "fresh policy obs now" and "is_fin (po_CapacityKW policy)" "wf64 (po_CapacityKW policy)"
    and "is_fin (po_SafetyMarginKW policy)" and "is_fin (evPower demands)"
    and "\<not> IsNaN (valueOr (eo_SiteLoadKW obs) (Fin 0))"
  shows "ad_Basis (Compute siteID policy (Some obs) demands now) = BasisMeasured \<and>
    fle (ad_AvailableForEVKW (Compute siteID policy (Some obs) demands now))
        (math_Max (fsub (po_CapacityKW policy) (po_SafetyMarginKW policy)) (Fin 0))"
proof -
  let ?n = "math_Max (fsub (valueOr (eo_SiteLoadKW obs) (Fin 0)) (evPower demands)) (Fin 0)"
  have "\<not> IsNaN (fsub (valueOr (eo_SiteLoadKW obs) (Fin 0)) (evPower demands))"
    using assms(5,6) fsub_mono fle_refl fle_not_nan by blast
  then have "fle (Fin 0) ?n" by (simp add: math_Max_upper)
  then have "fle (fsub (po_CapacityKW policy) ?n) (po_CapacityKW policy)"
    using assms(2,3) fsub_antimono fsub_zero fle_trans by blast
  then have "fle (fsub (fsub (po_CapacityKW policy) ?n) (po_SafetyMarginKW policy))
      (fsub (po_CapacityKW policy) (po_SafetyMarginKW policy))"
    using assms(4) by (intro fsub_mono)
  then show ?thesis using compute_measured [OF assms(1)] by (simp add: math_Max_left_mono)
qed

theorem compute_measured_bound_witness:
  "fle (ad_AvailableForEVKW (Compute ''site'' example_policy (Some example_observation) example_demands 0)) (Fin 95)"
proof -
  have "fresh example_policy example_observation 0" "is_fin (po_CapacityKW example_policy)"
    "wf64 (po_CapacityKW example_policy)" "is_fin (po_SafetyMarginKW example_policy)"
    "is_fin (evPower example_demands)" "\<not> IsNaN (valueOr (eo_SiteLoadKW example_observation) (Fin 0))"
    "math_Max (fsub (po_CapacityKW example_policy) (po_SafetyMarginKW example_policy)) (Fin 0) = Fin 95"
    by code_simp+
  then show ?thesis
    using compute_measured_bound [of example_policy example_observation 0 example_demands "''site''"] by simp
qed

text \<open>
  C11. A higher measured site load never raises the power offered to the vehicles.
\<close>

theorem compute_load_antimono:
  assumes "fresh policy obs now"
    and "is_fin (po_CapacityKW policy)" "is_fin (po_SafetyMarginKW policy)" "is_fin (evPower demands)"
    and "fle load load'"
  shows "fle (ad_AvailableForEVKW (Compute siteID policy (Some (obs\<lparr>eo_SiteLoadKW := Some load'\<rparr>)) demands now))
             (ad_AvailableForEVKW (Compute siteID policy (Some (obs\<lparr>eo_SiteLoadKW := Some load\<rparr>)) demands now))"
proof -
  have f: "fresh policy (obs\<lparr>eo_SiteLoadKW := v\<rparr>) now" for v using assms(1) by (simp add: fresh_def)
  show ?thesis
    unfolding compute_measured [OF f, THEN conjunct2]
    using assms(2-5)
    by (auto simp: valueOr_def intro!: math_Max_left_mono fsub_mono fsub_antimono)
qed

theorem compute_load_antimono_witness:
  "fle (ad_AvailableForEVKW (Compute ''site'' example_policy (Some (example_observation\<lparr>eo_SiteLoadKW := Some (Fin 90)\<rparr>)) example_demands 0))
       (ad_AvailableForEVKW (Compute ''site'' example_policy (Some (example_observation\<lparr>eo_SiteLoadKW := Some (Fin 40)\<rparr>)) example_demands 0))"
proof (rule compute_load_antimono)
qed code_simp+

text \<open>
  Two kilowatts for requests of 1.5 and 3 kW: the larger request is paused, and the smaller one is then
  limited to 2 kW, more than it asked for.
\<close>

definition tight_demands :: "Demand list" where
  "tight_demands =
     [\<lparr>de_StationID = ''A'', de_ConnectorID = ''1'', de_RequestedKW = Fin (3 / 2)\<rparr>,
      \<lparr>de_StationID = ''B'', de_ConnectorID = ''1'', de_RequestedKW = Fin 3\<rparr>]"

lemma tight_budget_pauses_the_larger:
  "map (\<lambda>a. (al_StationID a, al_Outcome a)) (allocate (Fin 2) example_policy tight_demands) =
     [(''A'', OutcomeLimited), (''B'', OutcomePaused)]"
  "map (\<lambda>a. feq (al_MaxPowerKW a) (Fin 2)) (allocate (Fin 2) example_policy tight_demands) = [True, False]"
  by code_simp+

end
