(* ===== verification/Store.thy ===== *)
theory Store
  imports Domain GoLib GoSort
begin

text \<open>
  Package \<open>store\<close>, the writing half: the tables of the migrations, the SQL statements as
  transformers of the tables, the statement batches the \<open>Persist\<close> functions queue and the
  transaction they run in. A table with a primary key is an association list without duplicate
  keys, an append-only table a list in the order of its serial id. The server (pgx and
  PostgreSQL) is a parameter: whether it begins, refuses a statement, closes a batch or commits.
\<close>

section \<open>SQL expressions\<close>

definition COALESCE :: "'a option \<Rightarrow> 'a option \<Rightarrow> 'a option" where
  "COALESCE a b = (case a of None \<Rightarrow> b | Some v \<Rightarrow> Some v)"

text \<open>\<open>COALESCE(NULLIF(x, ''), y)\<close> on text columns that are not null.\<close>

definition non_empty_or :: "string \<Rightarrow> string \<Rightarrow> string" where
  "non_empty_or x y = (if x = [] then y else x)"

text \<open>\<open>GREATEST\<close> ignores nulls.\<close>

definition greatest_of :: "int option \<Rightarrow> int option \<Rightarrow> int option" where
  "greatest_of a b = (case (a, b) of (None, _) \<Rightarrow> b | (_, None) \<Rightarrow> a | (Some x, Some y) \<Rightarrow> Some (max x y))"

text \<open>A \<open>timestamptz\<close> holds microseconds.\<close>

definition pg_time :: "time \<Rightarrow> time" where
  "pg_time t = t div 1000 * 1000"

section \<open>Tables\<close>

type_synonym ('k, 'v) table = "('k \<times> 'v) list"

text \<open>\<open>INSERT ... ON CONFLICT (key) DO UPDATE\<close>: insert the row or merge it into the present one.\<close>

fun upsert :: "'k \<Rightarrow> 'v \<Rightarrow> ('v \<Rightarrow> 'v) \<Rightarrow> ('k, 'v) table \<Rightarrow> ('k, 'v) table" where
  "upsert k new merge [] = [(k, new)]"
| "upsert k new merge ((k', v) # rows) =
     (if k' = k then (k', merge v) # rows else (k', v) # upsert k new merge rows)"

record StationRow =
  sr_last_seen_at :: time
  sr_last_device_time :: "time option"
  sr_updated_at :: time

record ConnectorRow =
  kr_last_state :: string
  kr_last_seen_at :: time
  kr_updated_at :: time

record TelemetryRow =
  tr_id :: nat
  tr_station_id :: string
  tr_connector_id :: string
  tr_timestamp :: time
  tr_voltage :: float64
  tr_current :: float64
  tr_power_kw :: float64
  tr_energy_kwh :: float64
  tr_soc :: float64
  tr_temperature_c :: float64
  tr_state :: string
  tr_edge_id :: string
  tr_site_id :: string
  tr_received_at :: time
  tr_ingested_at :: time
  tr_edge_sequence :: int
  tr_clock_sync :: string

record EnergySiteRow =
  er_last_observed_at :: time
  er_updated_at :: time

record ObservationRow =
  or_id :: nat
  or_site_id :: string
  or_provider :: string
  or_provider_site_id :: string
  or_provider_asset_id :: string
  or_consent_scope :: string
  or_observed_at :: time
  or_retrieved_at :: time
  or_solar_generation_kw :: "float64 option"
  or_site_load_kw :: "float64 option"
  or_grid_import_kw :: "float64 option"
  or_grid_export_kw :: "float64 option"
  or_battery_charge_kw :: "float64 option"
  or_battery_discharge_kw :: "float64 option"
  or_battery_soc :: "float64 option"
  or_tariff_import_per_kwh :: "float64 option"
  or_data_quality :: string
  or_ingested_at :: time

record SessionColumns =
  sw_station_id :: string
  sw_connector_id :: string
  sw_site_id :: string
  sw_source_protocol :: string
  sw_transaction_reference :: string
  sw_token_type :: string
  sw_token_hash :: string
  sw_authorization_reference :: string
  sw_started_at :: "time option"
  sw_stopped_at :: "time option"
  sw_meter_start_wh :: "int option"
  sw_meter_last_wh :: "int option"
  sw_meter_stop_wh :: "int option"
  sw_stop_reason :: string

record SessionRow = SessionColumns +
  sw_updated_at :: time

record SessionEventRow =
  vr_id :: nat
  vr_session_id :: string
  vr_event_type :: string
  vr_occurred_at :: time
  vr_ingested_at :: time
  vr_energy_register_wh :: "int option"
  vr_stop_reason :: string
  vr_source_protocol :: string

record Database =
  db_stations :: "(string, StationRow) table"
  db_connectors :: "(string \<times> string, ConnectorRow) table"
  db_telemetry :: "TelemetryRow list"
  db_energy_sites :: "(string, EnergySiteRow) table"
  db_observations :: "ObservationRow list"
  db_sessions :: "(string, SessionRow) table"
  db_session_events :: "SessionEventRow list"
  db_telemetry_serial :: nat
  db_observation_serial :: nat
  db_event_serial :: nat

section \<open>Statements\<close>

datatype SQL =
    UpsertStation string time time
  | UpsertConnector string string string time
  | InsertTelemetry TelemetryRow
  | UpsertEnergySite string time
  | InsertEnergyObservation ObservationRow
  | InsertSessionEvent SessionEventRow
  | UpsertSession string SessionColumns

text \<open>
  A foreign key that is not met refuses the statement. An insert that conflicts does nothing, but
  its serial number is used up. (A rolled-back transaction gives its serial numbers back here and
  not on the server, where they leave a gap; only their order is ever used.)
\<close>

definition fk_violation :: "string \<Rightarrow> go_error" where
  "fk_violation t = PlainError (''insert or update violates foreign key constraint on table '' @ t)"

definition upsertStationSQL :: "time \<Rightarrow> string \<Rightarrow> time \<Rightarrow> time \<Rightarrow> Database \<Rightarrow> Database result" where
  "upsertStationSQL now station_id last_seen_at last_device_time db =
     Inr (db\<lparr>db_stations := upsert station_id
       \<lparr>sr_last_seen_at = pg_time last_seen_at, sr_last_device_time = Some (pg_time last_device_time),
        sr_updated_at = now\<rparr>
       (\<lambda>row. \<lparr>sr_last_seen_at = max (sr_last_seen_at row) (pg_time last_seen_at),
               sr_last_device_time = Some (pg_time last_device_time),
               sr_updated_at = now\<rparr>)
       (db_stations db)\<rparr>)"

definition upsertConnectorSQL :: "time \<Rightarrow> string \<Rightarrow> string \<Rightarrow> string \<Rightarrow> time \<Rightarrow> Database \<Rightarrow> Database result" where
  "upsertConnectorSQL now station_id connector_id last_state last_seen_at db =
     (if map_of (db_stations db) station_id = None then Inl (fk_violation ''connectors'')
      else Inr (db\<lparr>db_connectors := upsert (station_id, connector_id)
        \<lparr>kr_last_state = last_state, kr_last_seen_at = pg_time last_seen_at, kr_updated_at = now\<rparr>
        (\<lambda>row. if kr_last_seen_at row \<le> pg_time last_seen_at
               then \<lparr>kr_last_state = last_state, kr_last_seen_at = pg_time last_seen_at, kr_updated_at = now\<rparr>
               else row)
        (db_connectors db)\<rparr>))"

definition telemetry_key :: "TelemetryRow \<Rightarrow> string \<times> string \<times> time \<times> string" where
  "telemetry_key row = (tr_station_id row, tr_connector_id row, tr_timestamp row, tr_edge_id row)"

definition insertTelemetrySQL :: "TelemetryRow \<Rightarrow> Database \<Rightarrow> Database result" where
  "insertTelemetrySQL row db =
     (let db' = db\<lparr>db_telemetry_serial := db_telemetry_serial db + 1\<rparr>
      in if telemetry_key row \<in> telemetry_key ` set (db_telemetry db) then Inr db'
         else if map_of (db_stations db) (tr_station_id row) = None then Inl (fk_violation ''telemetry'')
         else Inr (db'\<lparr>db_telemetry := db_telemetry db @ [row\<lparr>tr_id := db_telemetry_serial db\<rparr>]\<rparr>))"

definition upsertEnergySiteSQL :: "time \<Rightarrow> string \<Rightarrow> time \<Rightarrow> Database \<Rightarrow> Database result" where
  "upsertEnergySiteSQL now site_id last_observed_at db =
     Inr (db\<lparr>db_energy_sites := upsert site_id
       \<lparr>er_last_observed_at = pg_time last_observed_at, er_updated_at = now\<rparr>
       (\<lambda>row. \<lparr>er_last_observed_at = max (er_last_observed_at row) (pg_time last_observed_at), er_updated_at = now\<rparr>)
       (db_energy_sites db)\<rparr>)"

definition observation_key :: "ObservationRow \<Rightarrow> string \<times> string \<times> string \<times> string \<times> time" where
  "observation_key row =
     (or_site_id row, or_provider row, or_provider_site_id row, or_provider_asset_id row, or_observed_at row)"

definition insertEnergyObservationSQL :: "ObservationRow \<Rightarrow> Database \<Rightarrow> Database result" where
  "insertEnergyObservationSQL row db =
     (let db' = db\<lparr>db_observation_serial := db_observation_serial db + 1\<rparr>
      in if observation_key row \<in> observation_key ` set (db_observations db) then Inr db'
         else if map_of (db_energy_sites db) (or_site_id row) = None then Inl (fk_violation ''energy_observations'')
         else Inr (db'\<lparr>db_observations := db_observations db @ [row\<lparr>or_id := db_observation_serial db\<rparr>]\<rparr>))"

definition event_key :: "SessionEventRow \<Rightarrow> string \<times> string \<times> time" where
  "event_key row = (vr_session_id row, vr_event_type row, vr_occurred_at row)"

definition insertSessionEventSQL :: "SessionEventRow \<Rightarrow> Database \<Rightarrow> Database result" where
  "insertSessionEventSQL row db =
     (let db' = db\<lparr>db_event_serial := db_event_serial db + 1\<rparr>
      in if event_key row \<in> event_key ` set (db_session_events db) then Inr db'
         else Inr (db'\<lparr>db_session_events := db_session_events db @ [row\<lparr>vr_id := db_event_serial db\<rparr>]\<rparr>))"

text \<open>The merge of one event's columns into the session projection, column by column.\<close>

definition new_session :: "time \<Rightarrow> SessionColumns \<Rightarrow> SessionRow" where
  "new_session now x =
     \<lparr>sw_station_id = sw_station_id x, sw_connector_id = sw_connector_id x, sw_site_id = sw_site_id x,
      sw_source_protocol = sw_source_protocol x, sw_transaction_reference = sw_transaction_reference x,
      sw_token_type = sw_token_type x, sw_token_hash = sw_token_hash x,
      sw_authorization_reference = sw_authorization_reference x,
      sw_started_at = sw_started_at x, sw_stopped_at = sw_stopped_at x,
      sw_meter_start_wh = sw_meter_start_wh x, sw_meter_last_wh = sw_meter_last_wh x,
      sw_meter_stop_wh = sw_meter_stop_wh x, sw_stop_reason = sw_stop_reason x, sw_updated_at = now\<rparr>"

definition merge_session :: "time \<Rightarrow> SessionColumns \<Rightarrow> SessionRow \<Rightarrow> SessionRow" where
  "merge_session now x row =
     \<lparr>sw_station_id = non_empty_or (sw_station_id x) (sw_station_id row),
      sw_connector_id = non_empty_or (sw_connector_id x) (sw_connector_id row),
      sw_site_id = non_empty_or (sw_site_id x) (sw_site_id row),
      sw_source_protocol = non_empty_or (sw_source_protocol x) (sw_source_protocol row),
      sw_transaction_reference = non_empty_or (sw_transaction_reference x) (sw_transaction_reference row),
      sw_token_type = (if sw_token_type x \<noteq> ''UNSPECIFIED'' then sw_token_type x else sw_token_type row),
      sw_token_hash = non_empty_or (sw_token_hash x) (sw_token_hash row),
      sw_authorization_reference = non_empty_or (sw_authorization_reference x) (sw_authorization_reference row),
      sw_started_at = COALESCE (sw_started_at row) (sw_started_at x),
      sw_stopped_at = COALESCE (sw_stopped_at row) (sw_stopped_at x),
      sw_meter_start_wh = COALESCE (sw_meter_start_wh row) (sw_meter_start_wh x),
      sw_meter_last_wh = greatest_of (sw_meter_last_wh row) (sw_meter_last_wh x),
      sw_meter_stop_wh = COALESCE (sw_meter_stop_wh row) (sw_meter_stop_wh x),
      sw_stop_reason = non_empty_or (sw_stop_reason x) (sw_stop_reason row),
      sw_updated_at = now\<rparr>"

definition upsertSessionSQL :: "time \<Rightarrow> string \<Rightarrow> SessionColumns \<Rightarrow> Database \<Rightarrow> Database result" where
  "upsertSessionSQL now session_id x db =
     Inr (db\<lparr>db_sessions := upsert session_id (new_session now x) (merge_session now x) (db_sessions db)\<rparr>)"

fun execute :: "time \<Rightarrow> SQL \<Rightarrow> Database \<Rightarrow> Database result" where
  "execute now (UpsertStation station_id seen device) db = upsertStationSQL now station_id seen device db"
| "execute now (UpsertConnector station_id connector_id state seen) db =
     upsertConnectorSQL now station_id connector_id state seen db"
| "execute now (InsertTelemetry row) db = insertTelemetrySQL row db"
| "execute now (UpsertEnergySite site_id observed) db = upsertEnergySiteSQL now site_id observed db"
| "execute now (InsertEnergyObservation row) db = insertEnergyObservationSQL row db"
| "execute now (InsertSessionEvent row) db = insertSessionEventSQL row db"
| "execute now (UpsertSession session_id x) db = upsertSessionSQL now session_id x db"

section \<open>Batches and transactions\<close>

text \<open>
  The server's answers during one call: to \<open>BEGIN\<close>, to a statement (a refusal the schema alone
  does not explain: a lost connection, a value outside the type, a byte the encoding forbids), to
  the end of the batch and to \<open>COMMIT\<close>, where an error may hide that the server committed (its flag says
  so); and \<open>now()\<close>, fixed for the transaction.
\<close>

record Server =
  sv_begin :: "go_error option"
  sv_refuse :: "SQL \<Rightarrow> go_error option"
  sv_close :: "go_error option"
  sv_commit :: "(go_error \<times> bool) option"
  sv_now :: time

fun exec_from :: "Server \<Rightarrow> string \<Rightarrow> nat \<Rightarrow> nat \<Rightarrow> SQL list \<Rightarrow> Database \<Rightarrow> Database result" where
  "exec_from server label index len [] db = Inr db"
| "exec_from server label index len (stmt # rest) db =
     (case (case sv_refuse server stmt of Some err \<Rightarrow> Inl err | None \<Rightarrow> execute (sv_now server) stmt db) of
        Inl err \<Rightarrow> Inl (Wrapped (''execute '' @ label @ '' statement '' @ Itoa (int (index + 1)) @ ''/''
                              @ Itoa (int len)) err)
      | Inr db \<Rightarrow> exec_from server label (index + 1) len rest db)"

definition execBatch :: "Server \<Rightarrow> SQL list \<Rightarrow> string \<Rightarrow> Database \<Rightarrow> Database result" where
  "execBatch server batch label db =
     (case exec_from server label 0 (length batch) batch db of
        Inl err \<Rightarrow> Inl err
      | Inr db \<Rightarrow> (case sv_close server of
                     Some err \<Rightarrow> Inl (Wrapped (''close '' @ label @ '' batch'') err)
                   | None \<Rightarrow> Inr db))"

text \<open>The body's changes become visible at the commit only, or at a commit whose answer was lost; every other
  way out rolls back.\<close>

definition inTransaction ::
  "Server \<Rightarrow> (Database \<Rightarrow> Database result) \<Rightarrow> Database \<Rightarrow> go_error option \<times> Database" where
  "inTransaction server body db =
     (case sv_begin server of
        Some err \<Rightarrow> (Some (Wrapped ''begin transaction'' err), db)
      | None \<Rightarrow>
          (case body db of
             Inl err \<Rightarrow> (Some err, db)
           | Inr db' \<Rightarrow>
               (case sv_commit server of
                  Some (err, kept) \<Rightarrow> (Some (Wrapped ''commit transaction'' err), if kept then db' else db)
                | None \<Rightarrow> (None, db'))))"

section \<open>Telemetry and energy observations\<close>

definition telemetry_row :: "Telemetry \<Rightarrow> TelemetryRow" where
  "telemetry_row record =
     \<lparr>tr_id = 0, tr_station_id = tm_StationID record, tr_connector_id = tm_ConnectorID record,
      tr_timestamp = pg_time (tm_Timestamp record), tr_voltage = tm_Voltage record,
      tr_current = tm_Current record, tr_power_kw = tm_PowerKW record, tr_energy_kwh = tm_EnergyKWh record,
      tr_soc = tm_SOC record, tr_temperature_c = tm_TemperatureC record, tr_state = tm_State record,
      tr_edge_id = tm_EdgeID record, tr_site_id = tm_SiteID record,
      tr_received_at = pg_time (tm_ReceivedAt record), tr_ingested_at = pg_time (tm_IngestedAt record),
      tr_edge_sequence = sint (tm_EdgeSequence record), tr_clock_sync = tm_ClockSync record\<rparr>"

definition telemetry_batch :: "Telemetry list \<Rightarrow> SQL list" where
  "telemetry_batch telemetry = concat (map (\<lambda>record.
     [UpsertStation (tm_StationID record) (tm_IngestedAt record) (tm_Timestamp record),
      UpsertConnector (tm_StationID record) (tm_ConnectorID record) (tm_State record) (tm_IngestedAt record),
      InsertTelemetry (telemetry_row record)]) telemetry)"

definition PersistTelemetryBatch ::
  "Server \<Rightarrow> Telemetry list \<Rightarrow> Database \<Rightarrow> go_error option \<times> Database" where
  "PersistTelemetryBatch server telemetry db =
     (if telemetry = [] then (None, db)
      else inTransaction server (execBatch server (telemetry_batch telemetry) ''telemetry'') db)"

definition observation_row :: "EnergyObservation \<Rightarrow> ObservationRow" where
  "observation_row record =
     \<lparr>or_id = 0, or_site_id = eo_SiteID record, or_provider = eo_Provider record,
      or_provider_site_id = eo_ProviderSiteID record, or_provider_asset_id = eo_ProviderAssetID record,
      or_consent_scope = eo_ConsentScope record, or_observed_at = pg_time (eo_ObservedAt record),
      or_retrieved_at = pg_time (eo_RetrievedAt record),
      or_solar_generation_kw = eo_SolarGenerationKW record, or_site_load_kw = eo_SiteLoadKW record,
      or_grid_import_kw = eo_GridImportKW record, or_grid_export_kw = eo_GridExportKW record,
      or_battery_charge_kw = eo_BatteryChargeKW record, or_battery_discharge_kw = eo_BatteryDischargeKW record,
      or_battery_soc = eo_BatterySOC record, or_tariff_import_per_kwh = eo_TariffImportPerKWh record,
      or_data_quality = eo_DataQuality record, or_ingested_at = pg_time (eo_IngestedAt record)\<rparr>"

definition observation_batch :: "EnergyObservation list \<Rightarrow> SQL list" where
  "observation_batch observations = concat (map (\<lambda>record.
     [UpsertEnergySite (eo_SiteID record) (eo_ObservedAt record),
      InsertEnergyObservation (observation_row record)]) observations)"

definition PersistEnergyObservationBatch ::
  "Server \<Rightarrow> EnergyObservation list \<Rightarrow> Database \<Rightarrow> go_error option \<times> Database" where
  "PersistEnergyObservationBatch server observations db =
     (if observations = [] then (None, db)
      else inTransaction server (execBatch server (observation_batch observations) ''energy observation'') db)"

section \<open>Charging sessions\<close>

definition sessionBoundaries :: "SessionEvent \<Rightarrow> time option \<times> time option" where
  "sessionBoundaries event =
     (if se_Type event = SessionStarted then (Some (se_OccurredAt event), None)
      else if se_Type event = SessionStopped then (None, Some (se_OccurredAt event))
      else (None, None))"

definition sessionMeters :: "SessionEvent \<Rightarrow> int option \<times> int option \<times> int option" where
  "sessionMeters event =
     (if se_Type event = SessionStarted then (se_EnergyRegisterWh event, se_EnergyRegisterWh event, None)
      else if se_Type event = SessionStopped then (None, se_EnergyRegisterWh event, se_EnergyRegisterWh event)
      else (None, se_EnergyRegisterWh event, None))"

definition session_event_row :: "SessionEvent \<Rightarrow> SessionEventRow" where
  "session_event_row event =
     \<lparr>vr_id = 0, vr_session_id = se_SessionID event, vr_event_type = se_Type event,
      vr_occurred_at = pg_time (se_OccurredAt event), vr_ingested_at = pg_time (se_IngestedAt event),
      vr_energy_register_wh = se_EnergyRegisterWh event, vr_stop_reason = se_StopReason event,
      vr_source_protocol = se_SourceProtocol event\<rparr>"

definition session_columns :: "SessionEvent \<Rightarrow> SessionColumns" where
  "session_columns event =
     (case sessionBoundaries event of (startedAt, stoppedAt) \<Rightarrow>
      case sessionMeters event of (meterStart, meterLast, meterStop) \<Rightarrow>
        \<lparr>sw_station_id = se_StationID event, sw_connector_id = se_ConnectorID event,
         sw_site_id = se_SiteID event, sw_source_protocol = se_SourceProtocol event,
         sw_transaction_reference = se_TransactionReference event, sw_token_type = se_TokenType event,
         sw_token_hash = se_TokenHash event, sw_authorization_reference = se_AuthorizationRef event,
         sw_started_at = map_option pg_time startedAt, sw_stopped_at = map_option pg_time stoppedAt,
         sw_meter_start_wh = meterStart, sw_meter_last_wh = meterLast, sw_meter_stop_wh = meterStop,
         sw_stop_reason = se_StopReason event\<rparr>)"

definition session_batch :: "SessionEvent list \<Rightarrow> SQL list" where
  "session_batch events = concat (map (\<lambda>event.
     [InsertSessionEvent (session_event_row event),
      UpsertSession (se_SessionID event) (session_columns event)]) events)"

definition PersistSessionEventBatch ::
  "Server \<Rightarrow> SessionEvent list \<Rightarrow> Database \<Rightarrow> go_error option \<times> Database" where
  "PersistSessionEventBatch server events db =
     (if events = [] then (None, db)
      else inTransaction server (execBatch server (session_batch events) ''session event'') db)"

end
