(* ===== verification/Store_Laws.thy ===== *)
theory Store_Laws
  imports Store
begin

text \<open>
  Laws of the repository's writing half: lookups after an upsert, the invariant of the tables,
  atomic batches that succeed whenever the server does, and the abstract projection that the
  session upserts implement.
\<close>

section \<open>Upserts\<close>

lemma map_of_upsert:
  "map_of (upsert k new merge t) = (map_of t)(k \<mapsto> (case map_of t k of None \<Rightarrow> new | Some v \<Rightarrow> merge v))"
  by (induction t) (auto simp: fun_eq_iff)

definition keys :: "('k, 'v) table \<Rightarrow> 'k set" where
  "keys t = fst ` set t"

lemma keys_upsert: "keys (upsert k new merge t) = insert k (keys t)"
  by (simp add: keys_def dom_map_of_conv_image_fst [symmetric] map_of_upsert)

lemma distinct_upsert: "distinct (map fst t) \<Longrightarrow> distinct (map fst (upsert k new merge t))"
proof (induction t)
  case (Cons a t)
  then show ?case using keys_upsert [of k new merge t] by (cases a) (auto simp: keys_def)
qed simp

section \<open>The invariant of the tables\<close>

definition db_wf :: "Database \<Rightarrow> bool" where
  "db_wf db \<longleftrightarrow>
     distinct (map fst (db_stations db)) \<and> distinct (map fst (db_connectors db)) \<and>
     distinct (map fst (db_energy_sites db)) \<and> distinct (map fst (db_sessions db)) \<and>
     distinct (map telemetry_key (db_telemetry db)) \<and> distinct (map observation_key (db_observations db)) \<and>
     distinct (map event_key (db_session_events db)) \<and>
     sorted_wrt (<) (map tr_id (db_telemetry db) @ [db_telemetry_serial db]) \<and>
     sorted_wrt (<) (map or_id (db_observations db) @ [db_observation_serial db]) \<and>
     sorted_wrt (<) (map vr_id (db_session_events db) @ [db_event_serial db]) \<and>
     fst ` keys (db_connectors db) \<subseteq> keys (db_stations db) \<and>
     tr_station_id ` set (db_telemetry db) \<subseteq> keys (db_stations db) \<and>
     or_site_id ` set (db_observations db) \<subseteq> keys (db_energy_sites db)"

definition empty_db :: Database where
  "empty_db = \<lparr>db_stations = [], db_connectors = [], db_telemetry = [], db_energy_sites = [], db_observations = [],
     db_sessions = [], db_session_events = [], db_telemetry_serial = 1, db_observation_serial = 1, db_event_serial = 1\<rparr>"

lemma empty_db_wf: "db_wf empty_db"
  by (simp add: db_wf_def empty_db_def keys_def)

lemma map_of_None_keys: "map_of t k = None \<longleftrightarrow> k \<notin> keys t"
  by (simp add: map_of_eq_None_iff keys_def)

lemma keys_id [simp]:
  "telemetry_key (r\<lparr>tr_id := i\<rparr>) = telemetry_key r" "observation_key (o'\<lparr>or_id := i\<rparr>) = observation_key o'"
  "event_key (v\<lparr>vr_id := i\<rparr>) = event_key v"
  by (simp_all add: telemetry_key_def observation_key_def event_key_def)

lemma sorted_serial:
  "sorted_wrt (<) (xs @ [n]) \<Longrightarrow> sorted_wrt (<) (xs @ [Suc n])"
  "sorted_wrt (<) (xs @ [n]) \<Longrightarrow> sorted_wrt (<) (xs @ [n, Suc n])"
  for n :: nat
  by (auto simp: sorted_wrt_append)

lemmas execute_defs = upsertStationSQL_def upsertConnectorSQL_def insertTelemetrySQL_def upsertEnergySiteSQL_def
  insertEnergyObservationSQL_def insertSessionEventSQL_def upsertSessionSQL_def

lemma execute_wf:
  assumes "execute now stmt db = Inr db'" and "db_wf db"
  shows "db_wf db'"
  using assms
  by (cases stmt; clarsimp simp: execute_defs Let_def map_of_None_keys split: if_splits;
      simp add: db_wf_def distinct_upsert keys_upsert subset_insertI2 sorted_serial image_iff)

section \<open>Batches\<close>

fun apply_all :: "time \<Rightarrow> SQL list \<Rightarrow> Database \<Rightarrow> Database result" where
  "apply_all now [] db = Inr db"
| "apply_all now (stmt # rest) db = (case execute now stmt db of Inl err \<Rightarrow> Inl err | Inr db \<Rightarrow> apply_all now rest db)"

definition accepts :: "Server \<Rightarrow> SQL list \<Rightarrow> bool" where
  "accepts server batch \<longleftrightarrow>
     sv_begin server = None \<and> sv_close server = None \<and> sv_commit server = None \<and>
     (\<forall>stmt\<in>set batch. sv_refuse server stmt = None)"

text \<open>A batch takes effect when the server commits it, whether or not its answer arrives.\<close>

definition commits :: "Server \<Rightarrow> SQL list \<Rightarrow> bool" where
  "commits server batch \<longleftrightarrow>
     sv_begin server = None \<and> sv_close server = None \<and> (\<forall>stmt\<in>set batch. sv_refuse server stmt = None) \<and>
     (case sv_commit server of None \<Rightarrow> True | Some (err, kept) \<Rightarrow> kept)"

definition store_batch :: "('a list \<Rightarrow> SQL list) \<Rightarrow> Server \<Rightarrow> 'a list \<Rightarrow> Database \<Rightarrow> Database" where
  "store_batch batch server xs db =
     (case apply_all (sv_now server) (batch xs) db of Inr db' \<Rightarrow> db' | Inl err \<Rightarrow> db)"

lemma accepts_commits: "accepts server batch \<Longrightarrow> commits server batch"
  by (simp add: accepts_def commits_def)

lemma apply_all_append:
  "apply_all now (xs @ ys) db = (case apply_all now xs db of Inl err \<Rightarrow> Inl err | Inr db \<Rightarrow> apply_all now ys db)"
  by (induction xs arbitrary: db) (auto split: sum.splits)

lemma apply_all_wf: "apply_all now stmts db = Inr db' \<Longrightarrow> db_wf db \<Longrightarrow> db_wf db'"
  by (induction stmts arbitrary: db) (auto split: sum.splits intro: execute_wf)

lemma exec_from_Inr:
  "exec_from server label i n stmts db = Inr db' \<longleftrightarrow>
   apply_all (sv_now server) stmts db = Inr db' \<and> (\<forall>stmt\<in>set stmts. sv_refuse server stmt = None)"
  by (induction stmts arbitrary: db i) (auto split: sum.splits option.splits)

lemma transaction_Inr:
  "inTransaction server (execBatch server batch label) db = (None, db') \<longleftrightarrow>
   accepts server batch \<and> apply_all (sv_now server) batch db = Inr db'"
  using exec_from_Inr [of server label 0 "length batch" batch db]
  by (cases "exec_from server label 0 (length batch) batch db")
     (auto simp: inTransaction_def execBatch_def accepts_def split: option.splits)

lemma transaction_accepts:
  assumes "\<exists>db'. apply_all (sv_now server) batch db = Inr db'"
  shows "fst (inTransaction server (execBatch server batch label) db) = None \<longleftrightarrow> accepts server batch"
  using assms transaction_Inr [of server batch label db] by (metis fst_conv prod.collapse)

lemma exec_from_refused:
  "\<not> (\<forall>stmt\<in>set stmts. sv_refuse server stmt = None) \<Longrightarrow> \<exists>err. exec_from server label i n stmts db = Inl err"
  by (cases "exec_from server label i n stmts db") (auto simp: exec_from_Inr)

lemma transaction_effect:
  assumes "apply_all (sv_now server) batch db = Inr db'"
  shows "snd (inTransaction server (execBatch server batch label) db) = (if commits server batch then db' else db)"
proof (cases "\<forall>stmt\<in>set batch. sv_refuse server stmt = None")
  case True
  then have "exec_from server label 0 (length batch) batch db = Inr db'" using assms by (simp add: exec_from_Inr)
  then show ?thesis using True by (auto simp: inTransaction_def execBatch_def commits_def split: option.splits)
next
  case False
  then obtain err where "exec_from server label 0 (length batch) batch db = Inl err" using exec_from_refused by blast
  then show ?thesis using False by (auto simp: inTransaction_def execBatch_def commits_def split: option.splits)
qed

text \<open>Whatever the server answers, the whole batch has taken effect or nothing of it.\<close>

lemma transaction_atomic:
  "inTransaction server (execBatch server batch label) db = (r, db') \<Longrightarrow>
   db' = db \<or> apply_all (sv_now server) batch db = Inr db'"
proof -
  assume t: "inTransaction server (execBatch server batch label) db = (r, db')"
  have "db' = db \<or> exec_from server label 0 (length batch) batch db = Inr db'"
    using t by (cases "exec_from server label 0 (length batch) batch db")
      (auto simp: inTransaction_def execBatch_def split: option.splits if_splits)
  then show ?thesis by (auto simp: exec_from_Inr)
qed

lemma transaction_wf:
  "inTransaction server (execBatch server batch label) db = (r, db') \<Longrightarrow> db_wf db \<Longrightarrow> db_wf db'"
  by (auto dest: transaction_atomic intro: apply_all_wf)

lemmas persist_defs = PersistTelemetryBatch_def PersistEnergyObservationBatch_def PersistSessionEventBatch_def

interpretation telemetry_persister: persister "PersistTelemetryBatch server" "store_batch telemetry_batch server" db_wf for server
  by unfold_locales
     (auto simp: persist_defs store_batch_def telemetry_batch_def observation_batch_def session_batch_def transaction_Inr
        dest: transaction_atomic transaction_wf split: if_splits)

interpretation energy_persister: persister "PersistEnergyObservationBatch server" "store_batch observation_batch server" db_wf for server
  by unfold_locales
     (auto simp: persist_defs store_batch_def telemetry_batch_def observation_batch_def session_batch_def transaction_Inr
        dest: transaction_atomic transaction_wf split: if_splits)

interpretation session_persister: persister "PersistSessionEventBatch server" "store_batch session_batch server" db_wf for server
  by unfold_locales
     (auto simp: persist_defs store_batch_def telemetry_batch_def observation_batch_def session_batch_def transaction_Inr
        dest: transaction_atomic transaction_wf split: if_splits)

text \<open>The queued statements never violate a constraint: only the server can make a batch fail.\<close>

lemma apply_concat:
  assumes "\<And>x db. \<exists>db'. apply_all now (f x) db = Inr db'"
  shows "\<exists>db'. apply_all now (concat (map f xs)) db = Inr db'"
proof (induction xs arbitrary: db)
  case (Cons x xs)
  obtain db1 where "apply_all now (f x) db = Inr db1" using assms by blast
  then show ?case using Cons [of db1] by (simp add: apply_all_append)
qed simp

lemma telemetry_batch_ok: "\<exists>db'. apply_all now (telemetry_batch ts) db = Inr db'"
  unfolding telemetry_batch_def
  by (rule apply_concat)
     (auto simp: execute_defs Let_def telemetry_row_def map_of_upsert split: sum.splits)

lemma observation_batch_ok: "\<exists>db'. apply_all now (observation_batch os) db = Inr db'"
  unfolding observation_batch_def
  by (rule apply_concat)
     (auto simp: execute_defs Let_def observation_row_def map_of_upsert split: sum.splits)

lemma session_batch_ok: "\<exists>db'. apply_all now (session_batch es) db = Inr db'"
  unfolding session_batch_def
  by (rule apply_concat) (auto simp: execute_defs Let_def split: sum.splits)

end
