(* ===== verification/Store_Queries.thy ===== *)
theory Store_Queries
  imports Store_Laws "HOL-Library.Signed_Division"
begin

text \<open>
  Package \<open>store\<close>, the reading half: each query as a function of the tables, the collation that
  orders text columns (a parameter \<open>lt\<close>, the strict order of the database's collation), the
  server's \<open>now()\<close> and the faults a read can meet.
\<close>

section \<open>Reading rows\<close>

record Faults =
  fa_query :: "go_error option"
  fa_scan :: "nat \<Rightarrow> go_error option"
  fa_rows :: "go_error option"

definition no_faults :: Faults where
  "no_faults = \<lparr>fa_query = None, fa_scan = (\<lambda>_. None), fa_rows = None\<rparr>"

fun scan_from :: "string \<Rightarrow> Faults \<Rightarrow> nat \<Rightarrow> 'r list \<Rightarrow> 'r list result" where
  "scan_from label faults index [] = Inr []"
| "scan_from label faults index (row # rows) =
     (case fa_scan faults index of
        Some err \<Rightarrow> Inl (Wrapped label err)
      | None \<Rightarrow> (case scan_from label faults (index + 1) rows of Inl err \<Rightarrow> Inl err | Inr rest \<Rightarrow> Inr (row # rest)))"

definition read_rows :: "string \<Rightarrow> string \<Rightarrow> string \<Rightarrow> Faults \<Rightarrow> 'r list \<Rightarrow> 'r list result" where
  "read_rows query scan iterate faults rows =
     (case fa_query faults of
        Some err \<Rightarrow> Inl (Wrapped query err)
      | None \<Rightarrow>
          (case scan_from scan faults 0 rows of
             Inl err \<Rightarrow> Inl err
           | Inr rows \<Rightarrow> (case fa_rows faults of Some err \<Rightarrow> Inl (Wrapped iterate err) | None \<Rightarrow> Inr rows)))"

text \<open>\<open>QueryRow\<close>: the first row, nothing when there is none (\<open>pgx.ErrNoRows\<close>), or an error.\<close>

definition query_row :: "string \<Rightarrow> go_error option \<Rightarrow> 'r list \<Rightarrow> 'r option result" where
  "query_row label fault rows =
     (case fault of
        Some err \<Rightarrow> Inl (Wrapped label err)
      | None \<Rightarrow> Inr (case rows of [] \<Rightarrow> None | row # _ \<Rightarrow> Some row))"

section \<open>Stations\<close>

definition station_of :: "string \<times> StationRow \<Rightarrow> Station" where
  "station_of = (\<lambda>(station_id, row).
     \<lparr>st_StationID = station_id, st_LastSeenAt = sr_last_seen_at row, st_LastDeviceTime = sr_last_device_time row,
      st_Connectors = []\<rparr>)"

definition page_rows :: "(string \<Rightarrow> string \<Rightarrow> bool) \<Rightarrow> Page \<Rightarrow> (string, 'r) table \<Rightarrow> (string, 'r) table" where
  "page_rows lt page rows =
     take (nat (pg_Limit page))
       (sort_Slice (\<lambda>x y. lt (fst x) (fst y)) (filter (\<lambda>row. lt (pg_After page) (fst row)) rows))"

definition ListStations :: "(string \<Rightarrow> string \<Rightarrow> bool) \<Rightarrow> Faults \<Rightarrow> Page \<Rightarrow> Database \<Rightarrow> Station list result" where
  "ListStations lt faults page db =
     read_rows ''list stations'' ''scan station'' ''iterate stations'' faults
       (map station_of (page_rows lt (Normalize page) (db_stations db)))"

definition connector_of :: "(string \<times> string) \<times> ConnectorRow \<Rightarrow> Connector" where
  "connector_of = (\<lambda>((station_id, connector_id), row).
     \<lparr>cn_ConnectorID = connector_id, cn_State = kr_last_state row, cn_LastSeenAt = kr_last_seen_at row\<rparr>)"

definition GetStation ::
  "(string \<Rightarrow> string \<Rightarrow> bool) \<Rightarrow> go_error option \<Rightarrow> Faults \<Rightarrow> string \<Rightarrow> Database \<Rightarrow> Station option result" where
  "GetStation lt fault faults stationID db =
     (case query_row ''get station'' fault (filter (\<lambda>row. fst row = stationID) (db_stations db)) of
        Inl err \<Rightarrow> Inl err
      | Inr None \<Rightarrow> Inr None
      | Inr (Some row) \<Rightarrow>
          (case read_rows ''list connectors'' ''scan connector'' ''iterate connectors'' faults
                  (map connector_of (sort_Slice (\<lambda>x y. lt (snd (fst x)) (snd (fst y)))
                     (filter (\<lambda>row. fst (fst row) = stationID) (db_connectors db)))) of
             Inl err \<Rightarrow> Inl err
           | Inr connectors \<Rightarrow> Inr (Some ((station_of row)\<lparr>st_Connectors := connectors\<rparr>))))"

section \<open>Latest telemetry and observation\<close>

text \<open>\<open>ORDER BY ingested_at DESC, id DESC\<close>.\<close>

definition newer_telemetry :: "TelemetryRow \<Rightarrow> TelemetryRow \<Rightarrow> bool" where
  "newer_telemetry x y \<longleftrightarrow>
     tr_ingested_at y < tr_ingested_at x \<or> tr_ingested_at x = tr_ingested_at y \<and> tr_id y < tr_id x"

definition telemetry_of :: "TelemetryRow \<Rightarrow> Telemetry" where
  "telemetry_of row =
     \<lparr>tm_StationID = tr_station_id row, tm_ConnectorID = tr_connector_id row, tm_Timestamp = tr_timestamp row,
      tm_Voltage = tr_voltage row, tm_Current = tr_current row, tm_PowerKW = tr_power_kw row,
      tm_EnergyKWh = tr_energy_kwh row, tm_SOC = tr_soc row, tm_TemperatureC = tr_temperature_c row,
      tm_State = tr_state row, tm_EdgeID = tr_edge_id row, tm_SiteID = tr_site_id row,
      tm_ReceivedAt = tr_received_at row, tm_EdgeSequence = word_of_int (tr_edge_sequence row),
      tm_ClockSync = tr_clock_sync row, tm_IngestedAt = tr_ingested_at row\<rparr>"

definition LatestTelemetry :: "go_error option \<Rightarrow> string \<Rightarrow> Database \<Rightarrow> Telemetry option result" where
  "LatestTelemetry fault stationID db =
     (case query_row ''get latest telemetry'' fault
             (take 1 (sort_Slice newer_telemetry (filter (\<lambda>row. tr_station_id row = stationID) (db_telemetry db)))) of
        Inl err \<Rightarrow> Inl err
      | Inr row \<Rightarrow> Inr (map_option telemetry_of row))"

definition newer_observation :: "ObservationRow \<Rightarrow> ObservationRow \<Rightarrow> bool" where
  "newer_observation x y \<longleftrightarrow>
     or_ingested_at y < or_ingested_at x \<or> or_ingested_at x = or_ingested_at y \<and> or_id y < or_id x"

definition observation_of :: "ObservationRow \<Rightarrow> EnergyObservation" where
  "observation_of row =
     \<lparr>eo_SiteID = or_site_id row, eo_Provider = or_provider row, eo_ProviderSiteID = or_provider_site_id row,
      eo_ProviderAssetID = or_provider_asset_id row, eo_ConsentScope = or_consent_scope row,
      eo_ObservedAt = or_observed_at row, eo_RetrievedAt = or_retrieved_at row,
      eo_SolarGenerationKW = or_solar_generation_kw row, eo_SiteLoadKW = or_site_load_kw row,
      eo_GridImportKW = or_grid_import_kw row, eo_GridExportKW = or_grid_export_kw row,
      eo_BatteryChargeKW = or_battery_charge_kw row, eo_BatteryDischargeKW = or_battery_discharge_kw row,
      eo_BatterySOC = or_battery_soc row, eo_TariffImportPerKWh = or_tariff_import_per_kwh row,
      eo_DataQuality = or_data_quality row, eo_IngestedAt = or_ingested_at row\<rparr>"

definition LatestEnergyObservation :: "go_error option \<Rightarrow> string \<Rightarrow> Database \<Rightarrow> EnergyObservation option result" where
  "LatestEnergyObservation fault siteID db =
     (case query_row ''get latest energy observation'' fault
             (take 1 (sort_Slice newer_observation (filter (\<lambda>row. or_site_id row = siteID) (db_observations db)))) of
        Inl err \<Rightarrow> Inl err
      | Inr row \<Rightarrow> Inr (map_option observation_of row))"

section \<open>Silent stations\<close>

text \<open>
  A Go duration becomes an interval of whole microseconds. The difference of two timestamps is an
  interval of days and the microseconds that are left, as PostgreSQL justifies it.
\<close>

definition pg_interval :: "duration \<Rightarrow> duration" where
  "pg_interval d = d sdiv 1000 * 1000"

record Interval =
  iv_Microseconds :: int
  iv_Days :: int
  iv_Months :: int
  iv_Valid :: bool

definition day_us :: int where
  "day_us = 86400000000"

definition pg_difference :: "time \<Rightarrow> time \<Rightarrow> Interval" where
  "pg_difference t u =
     (let us = (t - u) div 1000
      in \<lparr>iv_Microseconds = us smod day_us, iv_Days = us sdiv day_us, iv_Months = 0, iv_Valid = True\<rparr>)"

definition intervalDuration :: "Interval \<Rightarrow> duration" where
  "intervalDuration interval =
     (if \<not> iv_Valid interval then 0
      else wrap64 (wrap64 (wrap64 (iv_Microseconds interval * 1000) +
                           wrap64 (wrap64 (iv_Days interval * 24) * (3600 * second_ns))) +
                   wrap64 (wrap64 (wrap64 (iv_Months interval * 30) * 24) * (3600 * second_ns))))"

definition silent_of :: "time \<Rightarrow> string \<times> StationRow \<Rightarrow> StationHealth" where
  "silent_of now = (\<lambda>(station_id, row).
     let silentFor = intervalDuration (pg_difference now (sr_last_seen_at row))
     in \<lparr>sh_StationID = station_id, sh_LastSeenAt = sr_last_seen_at row, sh_SilentFor = silentFor,
         sh_SilentForS = Seconds silentFor\<rparr>)"

definition ListSilentStations :: "Faults \<Rightarrow> time \<Rightarrow> duration \<Rightarrow> Database \<Rightarrow> StationHealth list result" where
  "ListSilentStations faults now threshold db =
     read_rows ''list silent stations'' ''scan silent station'' ''iterate silent stations'' faults
       (map (silent_of now)
         (sort_Slice (\<lambda>x y. sr_last_seen_at (snd x) < sr_last_seen_at (snd y))
           (filter (\<lambda>row. sr_last_seen_at (snd row) < now - pg_interval threshold) (db_stations db))))"

section \<open>Demand\<close>

definition demand_states :: "string list" where
  "demand_states = [''CHARGING'', ''PREPARING'', ''SUSPENDED'', ''FINISHING'']"

function distinct_on :: "('r \<Rightarrow> 'k) \<Rightarrow> 'r list \<Rightarrow> 'r list" where
  "distinct_on key [] = []"
| "distinct_on key (row # rows) = row # distinct_on key (dropWhile (\<lambda>r. key r = key row) rows)"
  by pat_completeness auto
termination
  by (relation "measure (\<lambda>(_, rows). length rows)") (auto simp: le_imp_less_Suc length_dropWhile_le)

definition tr_connector :: "TelemetryRow \<Rightarrow> string \<times> string" where
  "tr_connector row = (tr_station_id row, tr_connector_id row)"

definition demand_row_less :: "(string \<Rightarrow> string \<Rightarrow> bool) \<Rightarrow> TelemetryRow \<Rightarrow> TelemetryRow \<Rightarrow> bool" where
  "demand_row_less lt x y =
     (if tr_station_id x \<noteq> tr_station_id y then lt (tr_station_id x) (tr_station_id y)
      else if tr_connector_id x \<noteq> tr_connector_id y then lt (tr_connector_id x) (tr_connector_id y)
      else newer_telemetry x y)"

definition demand_rows :: "time \<Rightarrow> string \<Rightarrow> duration \<Rightarrow> Database \<Rightarrow> TelemetryRow list" where
  "demand_rows now siteID window db =
     filter (\<lambda>row. tr_site_id row = siteID \<and> now - pg_interval window < tr_ingested_at row
                   \<and> tr_state row \<in> set demand_states) (db_telemetry db)"

definition demand_of :: "TelemetryRow \<Rightarrow> ConnectorDemand" where
  "demand_of row =
     \<lparr>cd_StationID = tr_station_id row, cd_ConnectorID = tr_connector_id row, cd_PowerKW = tr_power_kw row,
      cd_State = tr_state row, cd_ObservedAt = tr_ingested_at row\<rparr>"

definition ListSiteDemand ::
  "(string \<Rightarrow> string \<Rightarrow> bool) \<Rightarrow> Faults \<Rightarrow> time \<Rightarrow> string \<Rightarrow> duration \<Rightarrow> Database \<Rightarrow> ConnectorDemand list result" where
  "ListSiteDemand lt faults now siteID window db =
     read_rows ''list site demand'' ''scan site demand'' ''iterate site demand'' faults
       (map demand_of
         (distinct_on tr_connector (sort_Slice (demand_row_less lt) (demand_rows now siteID window db))))"

definition ListActiveSites ::
  "(string \<Rightarrow> string \<Rightarrow> bool) \<Rightarrow> Faults \<Rightarrow> time \<Rightarrow> duration \<Rightarrow> Database \<Rightarrow> string list result" where
  "ListActiveSites lt faults now window db =
     read_rows ''list active sites'' ''scan active site'' ''iterate active sites'' faults
       (sort_Slice lt
         (remdups (map tr_site_id (filter (\<lambda>row. now - pg_interval window < tr_ingested_at row) (db_telemetry db)))))"

section \<open>Sessions\<close>

definition energy_delivered_wh :: "SessionRow \<Rightarrow> int option" where
  "energy_delivered_wh row =
     (case (sw_meter_start_wh row, COALESCE (sw_meter_stop_wh row) (sw_meter_last_wh row)) of
        (Some start, Some stop) \<Rightarrow> Some (max (stop - start) 0)
      | _ \<Rightarrow> None)"

definition scanSession :: "string \<times> SessionRow \<Rightarrow> Session" where
  "scanSession = (\<lambda>(session_id, row).
     \<lparr>ss_SessionID = session_id, ss_StationID = sw_station_id row, ss_ConnectorID = sw_connector_id row,
      ss_SiteID = sw_site_id row, ss_SourceProtocol = sw_source_protocol row,
      ss_TransactionReference = sw_transaction_reference row, ss_TokenType = sw_token_type row,
      ss_TokenHash = sw_token_hash row, ss_AuthorizationRef = sw_authorization_reference row,
      ss_StartedAt = sw_started_at row, ss_StoppedAt = sw_stopped_at row,
      ss_MeterStartWh = sw_meter_start_wh row, ss_MeterStopWh = sw_meter_stop_wh row,
      ss_EnergyDeliveredWh = energy_delivered_wh row, ss_StopReason = sw_stop_reason row,
      ss_Open = (sw_stopped_at row = None), ss_UpdatedAt = sw_updated_at row\<rparr>)"

definition GetSession :: "go_error option \<Rightarrow> string \<Rightarrow> Database \<Rightarrow> Session option result" where
  "GetSession fault sessionID db =
     (case query_row ''get session'' fault (filter (\<lambda>row. fst row = sessionID) (db_sessions db)) of
        Inl err \<Rightarrow> Inl err
      | Inr row \<Rightarrow> Inr (map_option scanSession row))"

definition ListSessions ::
  "(string \<Rightarrow> string \<Rightarrow> bool) \<Rightarrow> Faults \<Rightarrow> SessionQuery \<Rightarrow> Database \<Rightarrow> Session list result" where
  "ListSessions lt faults query db =
     read_rows ''list sessions'' ''scan session'' ''iterate sessions'' faults
       (map scanSession (page_rows lt (Normalize (sq_Page query))
         (filter (\<lambda>(session_id, row). (sq_StationID query = [] \<or> sw_station_id row = sq_StationID query)
                    \<and> (\<not> sq_OpenOnly query \<or> sw_stopped_at row = None)) (db_sessions db))))"

end
