(* ===== verification/Store_Sessions.thy ===== *)
theory Store_Sessions
  imports Store_Laws
begin

text \<open>
  The session projection. Each event is folded into its session's row; on the columns a bill is
  made of (the boundaries and the meter readings) the fold neither depends on the order in which
  the events arrive nor on how often they are redelivered.
\<close>

section \<open>The abstract projection\<close>

definition project :: "time \<Rightarrow> SessionEvent \<Rightarrow> SessionRow option \<Rightarrow> SessionRow option" where
  "project now e r =
     Some (case r of None \<Rightarrow> new_session now (session_columns e)
           | Some row \<Rightarrow> merge_session now (session_columns e) row)"

definition events_of :: "string \<Rightarrow> SessionEvent list \<Rightarrow> SessionEvent list" where
  "events_of sid es = filter (\<lambda>e. se_SessionID e = sid) es"

record Billing =
  bi_started_at :: "time option"
  bi_stopped_at :: "time option"
  bi_meter_start_wh :: "int option"
  bi_meter_last_wh :: "int option"
  bi_meter_stop_wh :: "int option"

definition billing_of :: "SessionRow option \<Rightarrow> Billing" where
  "billing_of r =
     (case r of
        None \<Rightarrow> \<lparr>bi_started_at = None, bi_stopped_at = None, bi_meter_start_wh = None, bi_meter_last_wh = None,
                 bi_meter_stop_wh = None\<rparr>
      | Some row \<Rightarrow> \<lparr>bi_started_at = sw_started_at row, bi_stopped_at = sw_stopped_at row,
                     bi_meter_start_wh = sw_meter_start_wh row, bi_meter_last_wh = sw_meter_last_wh row,
                     bi_meter_stop_wh = sw_meter_stop_wh row\<rparr>)"

definition bill :: "SessionEvent \<Rightarrow> Billing \<Rightarrow> Billing" where
  "bill e b =
     (let x = session_columns e
      in \<lparr>bi_started_at = COALESCE (bi_started_at b) (sw_started_at x),
          bi_stopped_at = COALESCE (bi_stopped_at b) (sw_stopped_at x),
          bi_meter_start_wh = COALESCE (bi_meter_start_wh b) (sw_meter_start_wh x),
          bi_meter_last_wh = greatest_of (bi_meter_last_wh b) (sw_meter_last_wh x),
          bi_meter_stop_wh = COALESCE (bi_meter_stop_wh b) (sw_meter_stop_wh x)\<rparr>)"

lemma COALESCE_simps [simp]: "COALESCE None b = b" "COALESCE (Some v) b = Some v" "COALESCE a None = a" "COALESCE a a = a"
  by (simp_all add: COALESCE_def split: option.splits)

lemma greatest_of_simps [simp]: "greatest_of None b = b" "greatest_of a None = a" "greatest_of a a = a"
  by (simp_all add: greatest_of_def split: option.splits)

lemma greatest_of_assoc: "greatest_of (greatest_of a b) c = greatest_of a (greatest_of b c)"
  by (cases a; cases b; cases c) (auto simp: greatest_of_def)

lemma greatest_of_commute: "greatest_of a b = greatest_of b a"
  by (cases a; cases b) (auto simp: greatest_of_def)

lemma billing_project: "billing_of (project now e r) = bill e (billing_of r)"
  by (cases r) (simp_all add: billing_of_def project_def bill_def new_session_def merge_session_def Let_def)

lemma billing_fold: "billing_of (fold (project now) es r) = fold bill es (billing_of r)"
  by (induction es arbitrary: r) (simp_all add: billing_project)

section \<open>The upserts implement the projection\<close>

lemma session_batch_Cons:
  "session_batch (e # es) = InsertSessionEvent (session_event_row e) # UpsertSession (se_SessionID e) (session_columns e)
     # session_batch es"
  by (simp add: session_batch_def)

lemma insertSessionEvent_sessions:
  "\<exists>db'. insertSessionEventSQL row db = Inr db' \<and> db_sessions db' = db_sessions db"
  by (simp add: insertSessionEventSQL_def Let_def)

lemma session_batch_projection:
  "apply_all now (session_batch es) db = Inr db' \<Longrightarrow>
   map_of (db_sessions db') sid = fold (project now) (events_of sid es) (map_of (db_sessions db) sid)"
proof (induction es arbitrary: db)
  case Nil
  then show ?case by (simp add: session_batch_def events_of_def)
next
  case (Cons e es)
  obtain db1 where db1: "insertSessionEventSQL (session_event_row e) db = Inr db1" "db_sessions db1 = db_sessions db"
    using insertSessionEvent_sessions by blast
  obtain db2 where db2: "upsertSessionSQL now (se_SessionID e) (session_columns e) db1 = Inr db2"
    "map_of (db_sessions db2) sid =
       (if se_SessionID e = sid then project now e (map_of (db_sessions db) sid) else map_of (db_sessions db) sid)"
    by (auto simp: upsertSessionSQL_def map_of_upsert db1(2) project_def)
  have "apply_all now (session_batch es) db2 = Inr db'"
    using Cons.prems db1(1) db2(1) by (simp add: session_batch_Cons)
  then have "map_of (db_sessions db') sid = fold (project now) (events_of sid es) (map_of (db_sessions db2) sid)"
    by (rule Cons.IH)
  then show ?case by (simp add: db2(2) events_of_def)
qed

text \<open>A history of batches, each with the server that answered it; only committed batches are stored.\<close>

definition persist_history :: "(Server \<times> SessionEvent list) list \<Rightarrow> Database \<Rightarrow> Database" where
  "persist_history h db = fold (\<lambda>(server, es) db. snd (PersistSessionEventBatch server es db)) h db"

definition stored :: "(Server \<times> SessionEvent list) list \<Rightarrow> SessionEvent list" where
  "stored h = concat (map (\<lambda>(server, es). if commits server (session_batch es) then es else []) h)"

lemma persist_session_projection:
  "map_of (db_sessions (snd (PersistSessionEventBatch server es db))) sid =
     (if commits server (session_batch es)
      then fold (project (sv_now server)) (events_of sid es) (map_of (db_sessions db) sid)
      else map_of (db_sessions db) sid)"
proof (cases "es = []")
  case False
  obtain db' where db': "apply_all (sv_now server) (session_batch es) db = Inr db'" using session_batch_ok by blast
  then show ?thesis
    using False session_batch_projection [OF db'] transaction_effect [OF db']
    by (simp add: PersistSessionEventBatch_def)
qed (simp add: PersistSessionEventBatch_def events_of_def)

lemma history_billing:
  "billing_of (map_of (db_sessions (persist_history h db)) sid) =
   fold bill (events_of sid (stored h)) (billing_of (map_of (db_sessions db) sid))"
proof (induction h arbitrary: db)
  case Nil
  then show ?case by (simp add: persist_history_def stored_def events_of_def)
next
  case (Cons x h)
  obtain server es where x: "x = (server, es)" by (cases x) auto
  let ?db = "snd (PersistSessionEventBatch server es db)"
  have "billing_of (map_of (db_sessions ?db) sid) =
     fold bill (events_of sid (if commits server (session_batch es) then es else [])) (billing_of (map_of (db_sessions db) sid))"
    by (simp add: persist_session_projection billing_fold events_of_def)
  then show ?case
    using Cons [of ?db] by (simp add: x persist_history_def stored_def events_of_def)
qed

section \<open>Redelivery and reordering\<close>

text \<open>Steps that are idempotent and commute depend on the set of their inputs only.\<close>

locale redelivery =
  fixes step :: "'e \<Rightarrow> 's \<Rightarrow> 's" and S :: "'e set"
  assumes idem: "e \<in> S \<Longrightarrow> step e (step e s) = step e s"
    and commute: "e \<in> S \<Longrightarrow> f \<in> S \<Longrightarrow> step e (step f s) = step f (step e s)"
begin

lemma step_fold: "e \<in> S \<Longrightarrow> set es \<subseteq> S \<Longrightarrow> fold step es (step e s) = step e (fold step es s)"
proof (induction es arbitrary: s)
  case (Cons a es)
  then show ?case using commute [of a e s] by simp
qed simp

lemma absorb_one: "set es \<subseteq> S \<Longrightarrow> e \<in> set es \<Longrightarrow> step e (fold step es s) = fold step es s"
proof (induction es arbitrary: s)
  case (Cons a es)
  show ?case
  proof (cases "e = a")
    case True
    then show ?thesis using Cons.prems step_fold [of a es s] idem by simp
  next
    case False
    then show ?thesis using Cons by simp
  qed
qed simp

lemma absorb: "set es \<subseteq> S \<Longrightarrow> set fs \<subseteq> set es \<Longrightarrow> fold step fs (fold step es s) = fold step es s"
  using absorb_one by (induction fs) auto

lemma fold_fold: "set es \<subseteq> S \<Longrightarrow> set fs \<subseteq> S \<Longrightarrow> fold step fs (fold step es s) = fold step es (fold step fs s)"
  using step_fold by (induction fs arbitrary: s) auto

lemma fold_set_cong:
  assumes "set es \<subseteq> S" and "set fs = set es"
  shows "fold step fs s = fold step es s"
proof -
  have "fold step fs s = fold step es (fold step fs s)" using absorb [of fs es s] assms by simp
  also have "\<dots> = fold step fs (fold step es s)" using fold_fold [of fs es s] assms by simp
  also have "\<dots> = fold step es s" using absorb [of es fs s] assms by simp
  finally show ?thesis .
qed

end

text \<open>Events that agree on when the session started and stopped and on the two readings.\<close>

definition consistent :: "time \<times> int option \<Rightarrow> time \<times> int option \<Rightarrow> SessionEvent \<Rightarrow> bool" where
  "consistent start stop e \<longleftrightarrow>
     (se_Type e = SessionStarted \<longrightarrow> (se_OccurredAt e, se_EnergyRegisterWh e) = start) \<and>
     (se_Type e = SessionStopped \<longrightarrow> (se_OccurredAt e, se_EnergyRegisterWh e) = stop)"

lemmas session_columns_defs = session_columns_def sessionBoundaries_def sessionMeters_def

interpretation billing: redelivery bill "{e. consistent start stop e}" for start stop
proof unfold_locales
  show "bill e (bill e s) = bill e s" for e s
    by (simp add: bill_def Let_def greatest_of_assoc COALESCE_def split: option.splits)
  show "bill e (bill f s) = bill f (bill e s)"
    if "e \<in> {e. consistent start stop e}" "f \<in> {e. consistent start stop e}" for e f s
  proof -
    have last: "greatest_of (greatest_of a b) c = greatest_of (greatest_of a c) b" for a b c
      by (metis greatest_of_assoc greatest_of_commute)
    have "COALESCE (COALESCE a (g f)) (g e) = COALESCE (COALESCE a (g e)) (g f)"
      if "g e = None \<or> g f = None \<or> g e = g f" for a :: "'x option" and g
      using that by (cases a) auto
    then show ?thesis
      using that
      by (auto simp: bill_def Let_def last consistent_def session_columns_defs)
  qed
qed

end
