(* ===== verification/Query_Laws.thy ===== *)
theory Query_Laws
  imports Store_Queries Store_Sessions
begin

text \<open>
  Laws of the repository's reading half: what a page, the demand of a site, the latest reading and
  the silence report contain.
\<close>

section \<open>Reads without faults\<close>

lemma no_faults_simps [simp]: "fa_query no_faults = None" "fa_scan no_faults i = None" "fa_rows no_faults = None"
  by (simp_all add: no_faults_def)

lemma scan_no_faults [simp]: "scan_from label no_faults i rows = Inr rows"
  by (induction rows arbitrary: i) simp_all

lemma read_no_faults [simp]: "read_rows q s i no_faults rows = Inr rows"
  by (simp add: read_rows_def)

text \<open>A read either returns all rows of the query or an error, never a part of them.\<close>

lemma scan_from_Inr: "scan_from label faults i rows = Inr rows' \<Longrightarrow> rows' = rows"
  by (induction rows arbitrary: i rows') (auto split: option.splits sum.splits)

lemma read_rows_Inr: "read_rows q s i faults rows = Inr rows' \<Longrightarrow> rows' = rows"
  by (auto simp: read_rows_def dest: scan_from_Inr split: option.splits sum.splits)

section \<open>Collations and pages\<close>

locale collation =
  fixes lt :: "string \<Rightarrow> string \<Rightarrow> bool"
  assumes irrefl: "\<not> lt a a"
    and lt_trans: "lt a b \<Longrightarrow> lt b c \<Longrightarrow> lt a c"
    and total: "a \<noteq> b \<Longrightarrow> lt a b \<or> lt b a"
    and empty_first: "a \<noteq> [] \<Longrightarrow> lt [] a"
begin

lemma not_lt: "\<not> lt a b \<longleftrightarrow> a = b \<or> lt b a"
  using irrefl lt_trans total by blast

abbreviation row_lt :: "string \<times> 'r \<Rightarrow> string \<times> 'r \<Rightarrow> bool" where
  "row_lt x y \<equiv> lt (fst x) (fst y)"

end

sublocale collation \<subseteq> rows: strict_weak_order "\<lambda>x y. lt (fst x) (fst y)" UNIV
proof unfold_locales
  show "\<not> lt (fst y) (fst x)" if "lt (fst x) (fst y)" for x y :: "string \<times> 'a"
    using that irrefl lt_trans by blast
  show "\<not> lt (fst z) (fst x)" if "\<not> lt (fst y) (fst x)" "\<not> lt (fst z) (fst y)" for x y z :: "string \<times> 'a"
    using that unfolding not_lt by (metis lt_trans)
qed

text \<open>PostgreSQL's \<open>C\<close> collation compares bytes.\<close>

interpretation byte_collation: collation "(<) :: string \<Rightarrow> string \<Rightarrow> bool"
  by unfold_locales (auto simp: neq_Nil_conv)

context collation
begin

abbreviation sort_rows :: "(string, 'r) table \<Rightarrow> (string, 'r) table" where
  "sort_rows \<equiv> sort_Slice (\<lambda>x y. lt (fst x) (fst y))"

lemma distinct_eq: "distinct (map fst t) \<Longrightarrow> x \<in> set t \<Longrightarrow> y \<in> set t \<Longrightarrow> fst x = fst y \<Longrightarrow> x = y"
  by (auto simp: distinct_map dest: inj_onD)

lemma strict_sorted:
  "sorted_wrt (\<lambda>x y. \<not> lt (fst y) (fst x)) xs \<Longrightarrow> distinct (map fst xs) \<Longrightarrow>
   sorted_wrt (\<lambda>x y. lt (fst x) (fst y)) xs"
proof (induction xs)
  case (Cons x xs)
  have "lt (fst x) (fst y)" if "y \<in> set xs" for y
    using that Cons.prems total [of "fst x" "fst y"] by (auto simp: image_iff)
  with Cons show ?case by simp
qed simp

lemma filter_narrow: "(\<And>r. Q r \<Longrightarrow> P r) \<Longrightarrow> filter Q L = filter Q (filter P L)"
  by (induction L) auto

lemma sort_rows_strict:
  assumes "distinct (map fst t)"
  shows "sorted_wrt (\<lambda>x y. lt (fst x) (fst y)) (sort_rows t)"
proof -
  have "sorted_wrt (\<lambda>x y. \<not> lt (fst y) (fst x)) (sort_rows t)" by (intro rows.sort_sorted) simp
  moreover have "distinct (map fst (sort_rows t))"
    using assms by (simp add: distinct_map_sort_Slice)
  ultimately show ?thesis by (rule strict_sorted)
qed

lemma sort_filter:
  assumes "distinct (map fst t)"
  shows "sort_rows (filter P t) = filter P (sort_rows t)"
proof (rule rows.sorted_unique)
  show "mset (sort_rows (filter P t)) = mset (filter P (sort_rows t))" by simp
  show "sorted_wrt (\<lambda>x y. \<not> lt (fst y) (fst x)) (sort_rows (filter P t))" by (intro rows.sort_sorted) simp
  show "sorted_wrt (\<lambda>x y. \<not> lt (fst y) (fst x)) (filter P (sort_rows t))"
    by (intro sorted_wrt_filter rows.sort_sorted) simp
  show "x = y" if "x \<in> set (sort_rows (filter P t))" "y \<in> set (sort_rows (filter P t))"
    "\<not> lt (fst y) (fst x)" "\<not> lt (fst x) (fst y)" for x y
    using that distinct_eq [OF assms] by (auto simp: not_lt irrefl)
qed

text \<open>The rows after the cursor, in order; a page is their first \<open>limit\<close>.\<close>

definition after :: "string \<Rightarrow> (string, 'r) table \<Rightarrow> (string, 'r) table" where
  "after a t = filter (\<lambda>row. lt a (fst row)) (sort_rows t)"

lemma page_after:
  "distinct (map fst t) \<Longrightarrow> page_rows lt page t = take (nat (pg_Limit page)) (after (pg_After page) t)"
  by (simp add: page_rows_def sort_filter after_def)

lemma filter_strict_suffix:
  assumes "sorted_wrt (\<lambda>x y. lt (fst x) (fst y)) L" and "0 < n" "n \<le> length (filter (\<lambda>r. lt a (fst r)) L)"
  shows "filter (\<lambda>r. lt (fst (filter (\<lambda>r. lt a (fst r)) L ! (n - 1))) (fst r)) L =
    drop n (filter (\<lambda>r. lt a (fst r)) L)"
proof -
  let ?X = "filter (\<lambda>r. lt a (fst r)) L"
  let ?b = "fst (?X ! (n - 1))"
  have sX: "sorted_wrt (\<lambda>x y. lt (fst x) (fst y)) ?X" using assms(1) by (rule sorted_wrt_filter)
  have "?X ! (n - 1) \<in> set ?X" using assms(2,3) by (intro nth_mem) simp
  then have ab: "lt a ?b" by simp
  have "filter (\<lambda>r. lt ?b (fst r)) L = filter (\<lambda>r. lt ?b (fst r)) ?X"
    by (rule filter_narrow) (rule lt_trans [OF ab])
  also have "\<dots> = filter (\<lambda>r. lt ?b (fst r)) (take n ?X @ drop n ?X)" by simp
  also have "\<dots> = filter (\<lambda>r. lt ?b (fst r)) (take n ?X) @ filter (\<lambda>r. lt ?b (fst r)) (drop n ?X)"
    by (simp only: filter_append)
  also have "filter (\<lambda>r. lt ?b (fst r)) (take n ?X) = []"
  proof -
    have i: "\<not> lt ?b (fst (?X ! i))" if "i < n" for i
    proof (cases "i = n - 1")
      case True then show ?thesis by (simp add: irrefl)
    next
      case False
      then have "lt (fst (?X ! i)) ?b" using sX that assms(2,3) by (auto simp: sorted_wrt_iff_nth_less)
      then show ?thesis using lt_trans irrefl by blast
    qed
    have "\<not> lt ?b (fst r)" if "r \<in> set (take n ?X)" for r
    proof -
      obtain i where "i < n" "r = ?X ! i" using \<open>r \<in> set (take n ?X)\<close> by (auto simp: in_set_conv_nth)
      then show ?thesis using i by blast
    qed
    then show ?thesis by (simp add: filter_empty_conv)
  qed
  also have "filter (\<lambda>r. lt ?b (fst r)) (drop n ?X) = drop n ?X"
  proof (rule filter_True)
    show "\<forall>r\<in>set (drop n ?X). lt ?b (fst r)"
    proof
      fix r assume "r \<in> set (drop n ?X)"
      then obtain i where "i < length (drop n ?X)" "r = drop n ?X ! i" unfolding in_set_conv_nth by blast
      then have i: "n + i < length ?X" "r = ?X ! (n + i)" using assms(3) by simp_all
      have "n - 1 < n + i" using assms(2) by simp
      then show "lt ?b (fst r)" using sX i by (simp add: sorted_wrt_iff_nth_less)
    qed
  qed
  finally show ?thesis by simp
qed

lemma after_last:
  assumes "distinct (map fst t)" "0 < n" "n \<le> length (after a t)"
  shows "after (fst (last (take n (after a t)))) t = drop n (after a t)"
proof -
  have "last (take n (after a t)) = after a t ! (n - 1)"
    using assms(2,3) by (subst last_conv_nth) (auto simp: min_def)
  then show ?thesis
    using filter_strict_suffix [OF sort_rows_strict [OF assms(1)] assms(2), of a] assms(3) by (simp add: after_def)
qed

lemma after_empty: "[] \<notin> fst ` set t \<Longrightarrow> after [] t = sort_rows t"
  unfolding after_def using empty_first by (intro filter_True) (force simp: image_iff)

end

section \<open>The demand of a site\<close>

text \<open>\<open>DISTINCT ON\<close> after an \<open>ORDER BY\<close> that starts with its key keeps the first row of every key.\<close>

lemma distinct_sorted_wrt: "sorted_wrt (\<lambda>x y. R (f x) (f y)) xs \<Longrightarrow> (\<And>a. \<not> R a a) \<Longrightarrow> distinct (map f xs)"
proof (induction xs)
  case (Cons x xs)
  then have "f x \<noteq> f y" if "y \<in> set xs" for y using that by (metis list.set_intros(1) sorted_wrt.simps(2))
  with Cons show ?case by auto
qed simp

lemma distinct_on_first:
  assumes order: "\<And>a. \<not> kl a a" "\<And>a b c. kl a b \<Longrightarrow> kl b c \<Longrightarrow> kl a c"
    and "sorted_wrt (\<lambda>x y. kl (key x) (key y) \<or> key x = key y \<and> Q x y) rows"
  shows "sorted_wrt (\<lambda>x y. kl (key x) (key y)) (distinct_on key rows) \<and> set (distinct_on key rows) \<subseteq> set rows \<and>
    (\<forall>x\<in>set rows. \<exists>r\<in>set (distinct_on key rows). key r = key x \<and> (r = x \<or> Q r x))"
  using assms(3)
proof (induction key rows rule: distinct_on.induct)
  case (2 key row rows)
  let ?rest = "dropWhile (\<lambda>r. key r = key row) rows"
  have sub: "set ?rest \<subseteq> set rows" by (meson set_dropWhileD subsetI)
  have sorted_rows: "sorted_wrt (\<lambda>x y. kl (key x) (key y) \<or> key x = key y \<and> Q x y) rows"
    and first: "\<And>y. y \<in> set rows \<Longrightarrow> kl (key row) (key y) \<or> key row = key y \<and> Q row y" using 2(2) by auto
  have sorted_rest: "sorted_wrt (\<lambda>x y. kl (key x) (key y) \<or> key x = key y \<and> Q x y) ?rest"
  proof -
    have "sorted_wrt (\<lambda>x y. kl (key x) (key y) \<or> key x = key y \<and> Q x y)
        (takeWhile (\<lambda>r. key r = key row) rows @ ?rest)"
      using sorted_rows by (simp only: takeWhile_dropWhile_id)
    then show ?thesis unfolding sorted_wrt_append by blast
  qed
  note IH = 2(1) [OF sorted_rest]
  have above: "kl (key row) (key y)" if "y \<in> set ?rest" for y
  proof (cases ?rest)
    case (Cons z zs)
    then have "key z \<noteq> key row" using hd_dropWhile [of "\<lambda>r. key r = key row" rows] by simp
    moreover have "z \<in> set rows" using Cons sub by auto
    ultimately have z: "kl (key row) (key z)" using first by metis
    have "y = z \<or> kl (key z) (key y) \<or> key z = key y" using that sorted_rest Cons by auto
    then show ?thesis using z order(2) by metis
  next
    case Nil
    then show ?thesis using that by (simp only: empty_iff list.set)
  qed
  have covered: "\<exists>r\<in>set (distinct_on key (row # rows)). key r = key x \<and> (r = x \<or> Q r x)" if "x \<in> set (row # rows)" for x
  proof (cases "x \<in> set ?rest")
    case True
    then show ?thesis using IH by auto
  next
    case False
    with that have "x = row \<or> x \<in> set (takeWhile (\<lambda>r. key r = key row) rows)"
      by (metis Un_iff set_ConsD set_append takeWhile_dropWhile_id)
    then have "x = row \<or> key x = key row \<and> x \<in> set rows" by (auto dest: set_takeWhileD)
    then have "key row = key x \<and> (row = x \<or> Q row x)" using first order(1) by metis
    then show ?thesis by auto
  qed
  show ?case
  proof (intro conjI ballI)
    show "sorted_wrt (\<lambda>x y. kl (key x) (key y)) (distinct_on key (row # rows))" using IH above by auto
    show "set (distinct_on key (row # rows)) \<subseteq> set (row # rows)" using IH sub by auto
  qed (rule covered)
qed simp

context collation
begin

definition pair_lt :: "string \<times> string \<Rightarrow> string \<times> string \<Rightarrow> bool" where
  "pair_lt x y = (if fst x \<noteq> fst y then lt (fst x) (fst y) else lt (snd x) (snd y))"

lemma pair_lt_irrefl: "\<not> pair_lt a a" by (simp add: pair_lt_def irrefl)

lemma pair_lt_trans: "pair_lt a b \<Longrightarrow> pair_lt b c \<Longrightarrow> pair_lt a c"
  using lt_trans [of "fst a" "fst b" "fst c"] lt_trans [of "snd a" "snd b" "snd c"]
    lt_trans [of "fst b" "fst c" "fst b"] irrefl [of "fst b"]
  by (auto simp: pair_lt_def split: if_splits)

lemma demand_row_less_iff:
  "demand_row_less lt x y \<longleftrightarrow>
   pair_lt (tr_connector x) (tr_connector y) \<or> tr_connector x = tr_connector y \<and> newer_telemetry x y"
  by (auto simp: demand_row_less_def pair_lt_def tr_connector_def irrefl)

lemma not_pair_lt: "\<not> pair_lt a b \<longleftrightarrow> a = b \<or> pair_lt b a"
  by (cases a; cases b) (auto simp: pair_lt_def not_lt)

lemma not_newer: "\<not> newer_telemetry x y \<Longrightarrow> \<not> newer_telemetry y z \<Longrightarrow> \<not> newer_telemetry x z"
  by (auto simp: newer_telemetry_def)

end

sublocale collation \<subseteq> demand_rows: strict_weak_order "demand_row_less lt" UNIV
proof unfold_locales
  show "\<not> demand_row_less lt y x" if "demand_row_less lt x y" for x y
  proof -
    have "\<not> (pair_lt a b \<and> pair_lt b a)" for a b using pair_lt_irrefl pair_lt_trans by blast
    then show ?thesis
      using that pair_lt_irrefl unfolding demand_row_less_iff newer_telemetry_def
      by (metis less_asym order_less_imp_not_eq)
  qed
  show "\<not> demand_row_less lt z x" if "\<not> demand_row_less lt y x" "\<not> demand_row_less lt z y" for x y z
  proof -
    have *: "(pair_lt (tr_connector x) (tr_connector y) \<or> tr_connector x = tr_connector y \<and> \<not> newer_telemetry y x)"
      "(pair_lt (tr_connector y) (tr_connector z) \<or> tr_connector y = tr_connector z \<and> \<not> newer_telemetry z y)"
      using that unfolding demand_row_less_iff de_Morgan_disj not_pair_lt by auto
    then have "pair_lt (tr_connector x) (tr_connector z) \<or> tr_connector x = tr_connector z \<and> \<not> newer_telemetry z x"
      using pair_lt_trans not_newer by metis
    then show ?thesis using pair_lt_irrefl pair_lt_trans unfolding demand_row_less_iff by metis
  qed
qed

context collation
begin

lemma demand_latest:
  obtains rs where "ListSiteDemand lt no_faults now siteID window db = Inr (map demand_of rs)"
    "distinct (map tr_connector rs)" "set rs \<subseteq> set (demand_rows now siteID window db)"
    "\<forall>x\<in>set (demand_rows now siteID window db).
       \<exists>r\<in>set rs. tr_connector r = tr_connector x \<and> \<not> newer_telemetry x r"
proof -
  let ?rows = "sort_Slice (demand_row_less lt) (demand_rows now siteID window db)"
  let ?rs = "distinct_on tr_connector ?rows"
  have "sorted_wrt (\<lambda>x y. \<not> demand_row_less lt y x) ?rows" by (intro demand_rows.sort_sorted) simp
  then have *: "sorted_wrt (\<lambda>x y. pair_lt (tr_connector x) (tr_connector y) \<or>
      tr_connector x = tr_connector y \<and> \<not> newer_telemetry y x) ?rows"
    by (rule sorted_wrt_mono_rel [rotated]) (auto simp: demand_row_less_iff not_pair_lt)
  note first = distinct_on_first [of pair_lt tr_connector "\<lambda>x y. \<not> newer_telemetry y x", OF _ _ *]
  have rs: "sorted_wrt (\<lambda>x y. pair_lt (tr_connector x) (tr_connector y)) ?rs" "set ?rs \<subseteq> set ?rows"
    "\<forall>x\<in>set ?rows. \<exists>r\<in>set ?rs. tr_connector r = tr_connector x \<and> (r = x \<or> \<not> newer_telemetry x r)"
    using first pair_lt_irrefl pair_lt_trans by blast+
  show thesis
  proof (rule that [of ?rs])
    show "distinct (map tr_connector ?rs)"
      using rs(1) pair_lt_irrefl by (rule distinct_sorted_wrt)
    show "\<forall>x\<in>set (demand_rows now siteID window db). \<exists>r\<in>set ?rs. tr_connector r = tr_connector x \<and> \<not> newer_telemetry x r"
      using rs(3) by (auto simp: newer_telemetry_def)
  qed (use rs(2) in \<open>simp_all add: ListSiteDemand_def\<close>)
qed

end

section \<open>The latest reading\<close>

interpretation telemetry_age: strict_weak_order newer_telemetry UNIV
  by unfold_locales (auto simp: newer_telemetry_def)

interpretation observation_age: strict_weak_order newer_observation UNIV
  by unfold_locales (auto simp: newer_observation_def)

lemma pg_time_UnixMilli [simp]: "pg_time (UnixMilli ms) = UnixMilli ms"
proof -
  have "UnixMilli ms = ms * 1000 * 1000" by (simp add: UnixMilli_def)
  then show ?thesis by (simp only: pg_time_def nonzero_mult_div_cancel_right [of 1000] zero_neq_numeral [symmetric] not_False_eq_True)
qed

lemma telemetry_row_roundtrip:
  "telemetry_of ((telemetry_row t)\<lparr>tr_id := i\<rparr>) =
   t\<lparr>tm_Timestamp := pg_time (tm_Timestamp t), tm_ReceivedAt := pg_time (tm_ReceivedAt t),
     tm_IngestedAt := pg_time (tm_IngestedAt t)\<rparr>"
  by (simp add: telemetry_of_def telemetry_row_def)

lemma persist_one_telemetry:
  assumes "accepts server (telemetry_batch [t])"
    and "telemetry_key (telemetry_row t) \<notin> telemetry_key ` set (db_telemetry db)"
  shows "fst (PersistTelemetryBatch server [t] db) = None"
    and "db_telemetry (snd (PersistTelemetryBatch server [t] db)) =
      db_telemetry db @ [(telemetry_row t)\<lparr>tr_id := db_telemetry_serial db\<rparr>]"
proof -
  obtain db' where db': "apply_all (sv_now server) (telemetry_batch [t]) db = Inr db'" using telemetry_batch_ok by blast
  then have p: "PersistTelemetryBatch server [t] db = (None, db')"
    using assms(1) by (simp add: PersistTelemetryBatch_def transaction_Inr)
  then show "fst (PersistTelemetryBatch server [t] db) = None" by simp
  show "db_telemetry (snd (PersistTelemetryBatch server [t] db)) =
      db_telemetry db @ [(telemetry_row t)\<lparr>tr_id := db_telemetry_serial db\<rparr>]"
    unfolding p using db' assms(2)
    by (auto simp: telemetry_batch_def execute_defs Let_def map_of_upsert split: if_splits)
qed

section \<open>Silence\<close>

lemma day_split:
  fixes us :: int
  assumes "0 \<le> us"
  shows "us sdiv day_us = us div day_us" "us smod day_us = us mod day_us"
  using assms by (simp_all add: day_us_def signed_divide_int_def signed_modulo_int_def sgn_if)

lemma silence_exact:
  assumes "0 \<le> now - t" "now - t \<le> max_int64" "pg_time now = now" "pg_time t = t"
  shows "intervalDuration (pg_difference now t) = now - t"
proof -
  define us where "us = (now - t) div 1000"
  have k: "now - t = us * 1000"
    using assms(3,4) unfolding pg_time_def us_def
    by (metis (no_types, lifting) left_diff_distrib nonzero_mult_div_cancel_right zero_neq_numeral)
  have us: "0 \<le> us" using assms(1) by (simp add: us_def)
  define d m where "d = us div day_us" and "m = us mod day_us"
  have "us = d * day_us + m" by (simp add: d_def m_def)
  then have split: "now - t = m * 1000 + d * 24 * (3600 * second_ns)"
    using k by (simp add: day_us_def second_ns_def)
  have m: "0 \<le> m" "0 \<le> d" using us by (simp_all add: m_def d_def day_us_def pos_imp_zdiv_nonneg_iff)
  have b: "m * 1000 \<le> max_int64" "d * 24 * (3600 * second_ns) \<le> max_int64" "d * 24 \<le> max_int64"
    using split m assms(2) by (simp_all add: second_ns_def)
  have w: "wrap64 (m * 1000) = m * 1000" "wrap64 (d * 24) = d * 24"
    "wrap64 (d * 24 * (3600 * second_ns)) = d * 24 * (3600 * second_ns)" "wrap64 (now - t) = now - t" "wrap64 0 = 0"
    by (intro wrap64_id; use b m assms(1,2) in \<open>simp add: min_int64_def max_int64_def second_ns_def\<close>)+
  have "intervalDuration (pg_difference now t) = wrap64 (wrap64 (wrap64 (m * 1000) +
      wrap64 (wrap64 (d * 24) * (3600 * second_ns))) + wrap64 (wrap64 (wrap64 (0 * 30) * 24) * (3600 * second_ns)))"
    by (simp only: intervalDuration_def pg_difference_def Let_def us_def [symmetric] day_split [OF us] d_def m_def
        Interval.simps not_True_eq_False if_False)
  then show ?thesis
    by (simp only: w mult_zero_left add_0_right split [symmetric])
qed

end
