(* ===== verification/Repository.thy ===== *)
theory Repository
  imports Query_Laws
begin

text \<open>
  The reading half of the interface \<open>domain.Repository\<close>, which the HTTP API and the advice
  publisher are written against, and its implementation by the PostgreSQL store.
\<close>

record Repository =
  rp_ListSiteDemand :: "string \<Rightarrow> duration \<Rightarrow> ConnectorDemand list result"
  rp_ListActiveSites :: "duration \<Rightarrow> string list result"
  rp_ListStations :: "Page \<Rightarrow> Station list result"
  rp_GetStation :: "string \<Rightarrow> Station option result"
  rp_LatestTelemetry :: "string \<Rightarrow> Telemetry option result"
  rp_LatestEnergyObservation :: "string \<Rightarrow> EnergyObservation option result"
  rp_ListSilentStations :: "duration \<Rightarrow> StationHealth list result"
  rp_GetSession :: "string \<Rightarrow> Session option result"
  rp_ListSessions :: "SessionQuery \<Rightarrow> Session list result"

text \<open>The faults of the store's reads, one field per method.\<close>

record StoreFaults =
  sf_many :: Faults
  sf_one :: "go_error option"

definition postgres_repository ::
  "(string \<Rightarrow> string \<Rightarrow> bool) \<Rightarrow> StoreFaults \<Rightarrow> time \<Rightarrow> Database \<Rightarrow> Repository" where
  "postgres_repository lt faults clock db =
     \<lparr>rp_ListSiteDemand = (\<lambda>siteID window. ListSiteDemand lt (sf_many faults) clock siteID window db),
      rp_ListActiveSites = (\<lambda>window. ListActiveSites lt (sf_many faults) clock window db),
      rp_ListStations = (\<lambda>page. ListStations lt (sf_many faults) page db),
      rp_GetStation = (\<lambda>stationID. GetStation lt (sf_one faults) (sf_many faults) stationID db),
      rp_LatestTelemetry = (\<lambda>stationID. LatestTelemetry (sf_one faults) stationID db),
      rp_LatestEnergyObservation = (\<lambda>siteID. LatestEnergyObservation (sf_one faults) siteID db),
      rp_ListSilentStations = (\<lambda>threshold. ListSilentStations (sf_many faults) clock threshold db),
      rp_GetSession = (\<lambda>sessionID. GetSession (sf_one faults) sessionID db),
      rp_ListSessions = (\<lambda>query. ListSessions lt (sf_many faults) query db)\<rparr>"

definition no_store_faults :: StoreFaults where
  "no_store_faults = \<lparr>sf_many = no_faults, sf_one = None\<rparr>"

end
