(* ===== verification/Contract.thy ===== *)
theory Contract
  imports Domain GoLib
begin

text \<open>
  Package \<open>contract\<close>: the decoders that turn a wire payload into a validated domain value. The
  Protobuf messages are records with the fields of the \<open>.proto\<close> files (an unset message or an
  \<open>optional\<close> scalar is \<open>None\<close>, an enum number without a name is kept as such);
  \<open>proto.Unmarshal\<close> itself is a parameter, which returns the message or an error text.
\<close>

section \<open>Errors of the contract\<close>

text \<open>\<open>errors.As\<close> walks the chain of wrapped errors.\<close>

fun IsPermanent :: "go_error \<Rightarrow> bool" where
  "IsPermanent (PermanentError reason) = True"
| "IsPermanent (PlainError msg) = False"
| "IsPermanent (Wrapped msg err) = IsPermanent err"

section \<open>Charging telemetry\<close>

datatype ChargingState =
    CHARGING_STATE_UNSPECIFIED | CHARGING_STATE_AVAILABLE | CHARGING_STATE_PREPARING
  | CHARGING_STATE_CHARGING | CHARGING_STATE_FINISHING | CHARGING_STATE_FAULTED
  | CHARGING_STATE_SUSPENDED | CHARGING_STATE_RESERVED | CHARGING_STATE_UNAVAILABLE
  | ChargingState_Unrecognized int

datatype ClockSync =
    CLOCK_SYNC_UNSPECIFIED | CLOCK_SYNC_SYNCHRONIZED | CLOCK_SYNC_UNSYNCHRONIZED
  | ClockSync_Unrecognized int

record EdgeMetadata =
  em_edge_id :: string
  em_site_id :: string
  em_received_at_ms :: int
  em_sequence :: u64
  em_clock_sync :: ClockSync

record ChargingTelemetry =
  ct_station_id :: string
  ct_connector_id :: string
  ct_timestamp_ms :: int
  ct_voltage :: float64
  ct_current :: float64
  ct_power_kw :: float64
  ct_energy_kwh :: float64
  ct_soc :: float64
  ct_temperature_c :: float64
  ct_state :: ChargingState
  ct_edge :: "EdgeMetadata option"

fun chargingStates :: "ChargingState \<Rightarrow> string option" where
  "chargingStates CHARGING_STATE_AVAILABLE = Some ''AVAILABLE''"
| "chargingStates CHARGING_STATE_PREPARING = Some ''PREPARING''"
| "chargingStates CHARGING_STATE_CHARGING = Some ''CHARGING''"
| "chargingStates CHARGING_STATE_FINISHING = Some ''FINISHING''"
| "chargingStates CHARGING_STATE_FAULTED = Some ''FAULTED''"
| "chargingStates CHARGING_STATE_SUSPENDED = Some ''SUSPENDED''"
| "chargingStates CHARGING_STATE_RESERVED = Some ''RESERVED''"
| "chargingStates CHARGING_STATE_UNAVAILABLE = Some ''UNAVAILABLE''"
| "chargingStates _ = None"

fun clockSyncStates :: "ClockSync \<Rightarrow> string option" where
  "clockSyncStates CLOCK_SYNC_UNSPECIFIED = Some ClockSyncUnspecified"
| "clockSyncStates CLOCK_SYNC_SYNCHRONIZED = Some ClockSyncSynchronized"
| "clockSyncStates CLOCK_SYNC_UNSYNCHRONIZED = Some ClockSyncUnsynchronized"
| "clockSyncStates _ = None"

definition DecodeChargingTelemetry ::
  "(string \<Rightarrow> string + ChargingTelemetry) \<Rightarrow> string \<Rightarrow> time \<Rightarrow> Telemetry result" where
  "DecodeChargingTelemetry unmarshal payload ingestedAt =
     (case unmarshal payload of
        Inl err \<Rightarrow> Inl (PermanentError (''decode charging telemetry: '' @ err))
      | Inr message \<Rightarrow>
          if ct_station_id message = [] \<or> ct_connector_id message = [] \<or> ct_timestamp_ms message \<le> 0
             \<or> ct_edge message = None
          then Inl (PermanentError ''charging telemetry is missing required operational fields'')
          else case chargingStates (ct_state message) of
                 None \<Rightarrow> Inl (PermanentError ''charging telemetry state is unspecified or unknown'')
               | Some state \<Rightarrow>
                   (let edge = the (ct_edge message)
                    in if em_edge_id edge = [] \<or> em_site_id edge = []
                       then Inl (PermanentError ''charging telemetry is missing edge provenance'')
                       else let clockSync = (case clockSyncStates (em_clock_sync edge) of
                                               None \<Rightarrow> ClockSyncUnspecified | Some c \<Rightarrow> c)
                            in Inr \<lparr>tm_StationID = ct_station_id message,
                                    tm_ConnectorID = ct_connector_id message,
                                    tm_Timestamp = UnixMilli (ct_timestamp_ms message),
                                    tm_Voltage = ct_voltage message,
                                    tm_Current = ct_current message,
                                    tm_PowerKW = ct_power_kw message,
                                    tm_EnergyKWh = ct_energy_kwh message,
                                    tm_SOC = ct_soc message,
                                    tm_TemperatureC = ct_temperature_c message,
                                    tm_State = state,
                                    tm_EdgeID = em_edge_id edge,
                                    tm_SiteID = em_site_id edge,
                                    tm_ReceivedAt = UnixMilli (em_received_at_ms edge),
                                    tm_EdgeSequence = em_sequence edge,
                                    tm_ClockSync = clockSync,
                                    tm_IngestedAt = ingestedAt\<rparr>))"

section \<open>Charging session events\<close>

datatype SessionEventType =
    SESSION_EVENT_TYPE_UNSPECIFIED | SESSION_EVENT_TYPE_STARTED | SESSION_EVENT_TYPE_UPDATED
  | SESSION_EVENT_TYPE_STOPPED | SessionEventType_Unrecognized int

datatype TokenType =
    TOKEN_TYPE_UNSPECIFIED | TOKEN_TYPE_RFID | TOKEN_TYPE_APP | TOKEN_TYPE_PLUG_AND_CHARGE
  | TOKEN_TYPE_REMOTE | TOKEN_TYPE_LOCAL_FREE | TokenType_Unrecognized int

datatype StopReason =
    STOP_REASON_UNSPECIFIED | STOP_REASON_LOCAL | STOP_REASON_REMOTE | STOP_REASON_EV_DISCONNECTED
  | STOP_REASON_EMERGENCY_STOP | STOP_REASON_POWER_LOSS | STOP_REASON_DE_AUTHORIZED
  | STOP_REASON_ENERGY_LIMIT_REACHED | STOP_REASON_TIME_LIMIT_REACHED | STOP_REASON_OTHER
  | StopReason_Unrecognized int

datatype SourceProtocol =
    SOURCE_PROTOCOL_UNSPECIFIED | SOURCE_PROTOCOL_EDGE_AGENT | SOURCE_PROTOCOL_OCPP_1_6
  | SOURCE_PROTOCOL_OCPP_2_0_1 | SourceProtocol_Unrecognized int

record Authorization =
  au_token_type :: TokenType
  au_token_hash :: string
  au_authorization_reference :: string

record MeterSnapshot =
  ms_energy_register_wh :: int
  ms_measured_at_ms :: int

record ChargingSessionEvent =
  cs_session_id :: string
  cs_station_id :: string
  cs_connector_id :: string
  cs_site_id :: string
  cs_type :: SessionEventType
  cs_occurred_at_ms :: int
  cs_authorization :: "Authorization option"
  cs_meter :: "MeterSnapshot option"
  cs_stop_reason :: StopReason
  cs_source :: SourceProtocol
  cs_transaction_reference :: string

fun sessionEventTypes :: "SessionEventType \<Rightarrow> string option" where
  "sessionEventTypes SESSION_EVENT_TYPE_STARTED = Some SessionStarted"
| "sessionEventTypes SESSION_EVENT_TYPE_UPDATED = Some SessionUpdated"
| "sessionEventTypes SESSION_EVENT_TYPE_STOPPED = Some SessionStopped"
| "sessionEventTypes _ = None"

fun tokenTypes :: "TokenType \<Rightarrow> string option" where
  "tokenTypes TOKEN_TYPE_UNSPECIFIED = Some ''UNSPECIFIED''"
| "tokenTypes TOKEN_TYPE_RFID = Some ''RFID''"
| "tokenTypes TOKEN_TYPE_APP = Some ''APP''"
| "tokenTypes TOKEN_TYPE_PLUG_AND_CHARGE = Some ''PLUG_AND_CHARGE''"
| "tokenTypes TOKEN_TYPE_REMOTE = Some ''REMOTE''"
| "tokenTypes TOKEN_TYPE_LOCAL_FREE = Some ''LOCAL_FREE''"
| "tokenTypes _ = None"

fun stopReasons :: "StopReason \<Rightarrow> string option" where
  "stopReasons STOP_REASON_UNSPECIFIED = Some ''''"
| "stopReasons STOP_REASON_LOCAL = Some ''LOCAL''"
| "stopReasons STOP_REASON_REMOTE = Some ''REMOTE''"
| "stopReasons STOP_REASON_EV_DISCONNECTED = Some ''EV_DISCONNECTED''"
| "stopReasons STOP_REASON_EMERGENCY_STOP = Some ''EMERGENCY_STOP''"
| "stopReasons STOP_REASON_POWER_LOSS = Some ''POWER_LOSS''"
| "stopReasons STOP_REASON_DE_AUTHORIZED = Some ''DE_AUTHORIZED''"
| "stopReasons STOP_REASON_ENERGY_LIMIT_REACHED = Some ''ENERGY_LIMIT_REACHED''"
| "stopReasons STOP_REASON_TIME_LIMIT_REACHED = Some ''TIME_LIMIT_REACHED''"
| "stopReasons STOP_REASON_OTHER = Some ''OTHER''"
| "stopReasons _ = None"

fun sourceProtocols :: "SourceProtocol \<Rightarrow> string option" where
  "sourceProtocols SOURCE_PROTOCOL_EDGE_AGENT = Some ''EDGE_AGENT''"
| "sourceProtocols SOURCE_PROTOCOL_OCPP_1_6 = Some ''OCPP_1_6''"
| "sourceProtocols SOURCE_PROTOCOL_OCPP_2_0_1 = Some ''OCPP_2_0_1''"
| "sourceProtocols _ = None"

text \<open>Indexing a Go map with a missing key reads the zero value, here the empty string.\<close>

definition map_get :: "string option \<Rightarrow> string" where
  "map_get v = (case v of None \<Rightarrow> '''' | Some s \<Rightarrow> s)"

definition hexHashLength :: nat where
  "hexHashLength = 64"

definition isHex :: "char \<Rightarrow> bool" where
  "isHex character \<longleftrightarrow>
     (CHR ''0'' \<le> character \<and> character \<le> CHR ''9'') \<or>
     (CHR ''a'' \<le> character \<and> character \<le> CHR ''f'')"

text \<open>
  The code ranges over the code points of the string. A byte above 127 belongs to a code point
  above 127 (or to the replacement character), which is no hex digit, so the bytes decide.
\<close>

definition rejectRawToken :: "string \<Rightarrow> go_error option" where
  "rejectRawToken hash =
     (if hash = [] then None
      else if length hash \<noteq> hexHashLength
      then Some (PermanentError ''authorization token must be a hex-encoded keyed hash, not a raw token'')
      else if \<not> list_all isHex hash
      then Some (PermanentError ''authorization token must be a lowercase hex-encoded keyed hash'')
      else None)"

definition DecodeChargingSessionEvent ::
  "(string \<Rightarrow> string + ChargingSessionEvent) \<Rightarrow> string \<Rightarrow> time \<Rightarrow> SessionEvent result" where
  "DecodeChargingSessionEvent unmarshal payload ingestedAt =
     (case unmarshal payload of
        Inl err \<Rightarrow> Inl (PermanentError (''decode charging session event: '' @ err))
      | Inr message \<Rightarrow>
          if cs_session_id message = [] \<or> cs_station_id message = [] \<or> cs_occurred_at_ms message \<le> 0
          then Inl (PermanentError ''session event is missing its identity or timestamp'')
          else case sessionEventTypes (cs_type message) of
            None \<Rightarrow> Inl (PermanentError ''session event type is unspecified or unknown'')
          | Some eventType \<Rightarrow>
            (case sourceProtocols (cs_source message) of
               None \<Rightarrow> Inl (PermanentError ''session event source protocol is unspecified or unknown'')
             | Some protocol \<Rightarrow>
                 let event = \<lparr>se_SessionID = cs_session_id message,
                              se_StationID = cs_station_id message,
                              se_ConnectorID = cs_connector_id message,
                              se_SiteID = cs_site_id message,
                              se_Type = eventType,
                              se_OccurredAt = UnixMilli (cs_occurred_at_ms message),
                              se_IngestedAt = ingestedAt,
                              se_TokenType = [], se_TokenHash = [], se_AuthorizationRef = [],
                              se_EnergyRegisterWh = None,
                              se_StopReason = map_get (stopReasons (cs_stop_reason message)),
                              se_SourceProtocol = protocol,
                              se_TransactionReference = cs_transaction_reference message\<rparr>;
                     authorized =
                       (case cs_authorization message of
                          None \<Rightarrow> Inr event
                        | Some authorization \<Rightarrow>
                            (case rejectRawToken (au_token_hash authorization) of
                               Some err \<Rightarrow> Inl err
                             | None \<Rightarrow> Inr (event\<lparr>se_TokenType := map_get (tokenTypes (au_token_type authorization)),
                                                  se_TokenHash := au_token_hash authorization,
                                                  se_AuthorizationRef := au_authorization_reference authorization\<rparr>)))
                 in case authorized of
                      Inl err \<Rightarrow> Inl err
                    | Inr event \<Rightarrow>
                        (let event = (if se_TokenType event = [] then event\<lparr>se_TokenType := ''UNSPECIFIED''\<rparr> else event)
                         in case cs_meter message of
                              None \<Rightarrow> Inr event
                            | Some meter \<Rightarrow>
                                if ms_energy_register_wh meter < 0
                                then Inl (PermanentError ''energy register must not be negative'')
                                else Inr (event\<lparr>se_EnergyRegisterWh := Some (ms_energy_register_wh meter)\<rparr>))))"

section \<open>Energy site observations\<close>

datatype EnergyProvider =
    ENERGY_PROVIDER_UNSPECIFIED | ENERGY_PROVIDER_SMA | ENERGY_PROVIDER_ENPHASE
  | ENERGY_PROVIDER_SOLAREDGE | ENERGY_PROVIDER_TESLA_ENERGY | ENERGY_PROVIDER_UTILITY
  | ENERGY_PROVIDER_OTHER | EnergyProvider_Unrecognized int

datatype DataQuality =
    DATA_QUALITY_UNSPECIFIED | DATA_QUALITY_MEASURED | DATA_QUALITY_ESTIMATED
  | DATA_QUALITY_FORECAST | DATA_QUALITY_UNAVAILABLE | DataQuality_Unrecognized int

record SourceMetadata =
  sm_provider :: EnergyProvider
  sm_provider_site_id :: string
  sm_provider_asset_id :: string
  sm_consent_scope :: string

record EnergySiteObservation =
  es_site_id :: string
  es_source :: "SourceMetadata option"
  es_observed_at_ms :: int
  es_retrieved_at_ms :: int
  es_solar_generation_kw :: "float64 option"
  es_site_load_kw :: "float64 option"
  es_grid_import_kw :: "float64 option"
  es_grid_export_kw :: "float64 option"
  es_battery_charge_kw :: "float64 option"
  es_battery_discharge_kw :: "float64 option"
  es_battery_soc :: "float64 option"
  es_tariff_import_per_kwh :: "float64 option"
  es_data_quality :: DataQuality

fun energyProviders :: "EnergyProvider \<Rightarrow> string option" where
  "energyProviders ENERGY_PROVIDER_SMA = Some ''SMA''"
| "energyProviders ENERGY_PROVIDER_ENPHASE = Some ''ENPHASE''"
| "energyProviders ENERGY_PROVIDER_SOLAREDGE = Some ''SOLAREDGE''"
| "energyProviders ENERGY_PROVIDER_TESLA_ENERGY = Some ''TESLA_ENERGY''"
| "energyProviders ENERGY_PROVIDER_UTILITY = Some ''UTILITY''"
| "energyProviders ENERGY_PROVIDER_OTHER = Some ''OTHER''"
| "energyProviders _ = None"

fun dataQualities :: "DataQuality \<Rightarrow> string option" where
  "dataQualities DATA_QUALITY_MEASURED = Some ''MEASURED''"
| "dataQualities DATA_QUALITY_ESTIMATED = Some ''ESTIMATED''"
| "dataQualities DATA_QUALITY_FORECAST = Some ''FORECAST''"
| "dataQualities DATA_QUALITY_UNAVAILABLE = Some ''UNAVAILABLE''"
| "dataQualities _ = None"

definition isFinite :: "float64 \<Rightarrow> bool" where
  "isFinite value \<longleftrightarrow> \<not> IsNaN value \<and> \<not> IsInf value"

definition validateNonNegative :: "float64 option \<Rightarrow> go_error option" where
  "validateNonNegative value =
     (case value of
        None \<Rightarrow> None
      | Some v \<Rightarrow>
          if \<not> isFinite v \<or> flt v (Fin 0)
          then Some (PermanentError ''energy observation power or tariff value must be finite and non-negative'')
          else None)"

text \<open>The bounds are integers at the only call, so \<open>%v\<close> prints their decimal digits.\<close>

definition validateRange :: "float64 option \<Rightarrow> int \<Rightarrow> int \<Rightarrow> go_error option" where
  "validateRange value minimum maximum =
     (case value of
        None \<Rightarrow> None
      | Some v \<Rightarrow>
          if \<not> isFinite v \<or> flt v (float_of_int minimum) \<or> flt (float_of_int maximum) v
          then Some (PermanentError (''energy observation value must be finite and between '' @
                 Itoa minimum @ '' and '' @ Itoa maximum))
          else None)"

fun first_error :: "go_error option list \<Rightarrow> go_error option" where
  "first_error [] = None"
| "first_error (Some err # rest) = Some err"
| "first_error (None # rest) = first_error rest"

definition DecodeEnergySiteObservation ::
  "(string \<Rightarrow> string + EnergySiteObservation) \<Rightarrow> string \<Rightarrow> time \<Rightarrow> EnergyObservation result" where
  "DecodeEnergySiteObservation unmarshal payload ingestedAt =
     (case unmarshal payload of
        Inl err \<Rightarrow> Inl (PermanentError (''decode energy site observation: '' @ err))
      | Inr message \<Rightarrow>
          if es_site_id message = [] \<or> es_observed_at_ms message \<le> 0 \<or> es_retrieved_at_ms message \<le> 0
          then Inl (PermanentError ''energy observation is missing required timestamps or site identity'')
          else case es_source message of
            None \<Rightarrow> Inl (PermanentError ''energy observation is missing required provider provenance'')
          | Some source \<Rightarrow>
            if sm_provider_site_id source = [] \<or> sm_consent_scope source = []
            then Inl (PermanentError ''energy observation is missing required provider provenance'')
            else case energyProviders (sm_provider source) of
              None \<Rightarrow> Inl (PermanentError ''energy observation provider is unspecified or unknown'')
            | Some provider \<Rightarrow>
              (case dataQualities (es_data_quality message) of
                 None \<Rightarrow> Inl (PermanentError ''energy observation data quality is unspecified or unknown'')
               | Some quality \<Rightarrow>
                 (case first_error (map validateNonNegative
                         [es_solar_generation_kw message, es_site_load_kw message,
                          es_grid_import_kw message, es_grid_export_kw message,
                          es_battery_charge_kw message, es_battery_discharge_kw message,
                          es_tariff_import_per_kwh message]) of
                    Some err \<Rightarrow> Inl err
                  | None \<Rightarrow>
                    (case validateRange (es_battery_soc message) 0 100 of
                       Some err \<Rightarrow> Inl err
                     | None \<Rightarrow>
                         Inr \<lparr>eo_SiteID = es_site_id message,
                              eo_Provider = provider,
                              eo_ProviderSiteID = sm_provider_site_id source,
                              eo_ProviderAssetID = sm_provider_asset_id source,
                              eo_ConsentScope = sm_consent_scope source,
                              eo_ObservedAt = UnixMilli (es_observed_at_ms message),
                              eo_RetrievedAt = UnixMilli (es_retrieved_at_ms message),
                              eo_SolarGenerationKW = es_solar_generation_kw message,
                              eo_SiteLoadKW = es_site_load_kw message,
                              eo_GridImportKW = es_grid_import_kw message,
                              eo_GridExportKW = es_grid_export_kw message,
                              eo_BatteryChargeKW = es_battery_charge_kw message,
                              eo_BatteryDischargeKW = es_battery_discharge_kw message,
                              eo_BatterySOC = es_battery_soc message,
                              eo_TariffImportPerKWh = es_tariff_import_per_kwh message,
                              eo_DataQuality = quality,
                              eo_IngestedAt = ingestedAt\<rparr>))))"

section \<open>What a decoder promises\<close>

text \<open>
  The contract of a decoder towards the ingest runner: an invalid payload is rejected for good,
  an accepted value is valid and carries the arrival stamp of its batch.
\<close>

locale decoder =
  fixes decode :: "string \<Rightarrow> time \<Rightarrow> 'a result"
    and valid :: "'a \<Rightarrow> bool"
    and stamp :: "'a \<Rightarrow> time"
  assumes rejection_permanent: "decode payload ingestedAt = Inl err \<Longrightarrow> IsPermanent err"
    and accepted_valid: "decode payload ingestedAt = Inr v \<Longrightarrow> valid v"
    and accepted_stamp: "decode payload ingestedAt = Inr v \<Longrightarrow> stamp v = ingestedAt"

text \<open>The texts stored for each enum.\<close>

definition charging_state_texts :: "string set" where
  "charging_state_texts = {''AVAILABLE'', ''PREPARING'', ''CHARGING'', ''FINISHING'', ''FAULTED'', ''SUSPENDED'', ''RESERVED'', ''UNAVAILABLE''}"

definition clock_sync_texts :: "string set" where
  "clock_sync_texts = {ClockSyncUnspecified, ClockSyncSynchronized, ClockSyncUnsynchronized}"

definition session_type_texts :: "string set" where
  "session_type_texts = {SessionStarted, SessionUpdated, SessionStopped}"

definition protocol_texts :: "string set" where
  "protocol_texts = {''EDGE_AGENT'', ''OCPP_1_6'', ''OCPP_2_0_1''}"

definition token_type_texts :: "string set" where
  "token_type_texts = {''UNSPECIFIED'', ''RFID'', ''APP'', ''PLUG_AND_CHARGE'', ''REMOTE'', ''LOCAL_FREE''}"

definition provider_texts :: "string set" where
  "provider_texts = {''SMA'', ''ENPHASE'', ''SOLAREDGE'', ''TESLA_ENERGY'', ''UTILITY'', ''OTHER''}"

definition quality_texts :: "string set" where
  "quality_texts = {''MEASURED'', ''ESTIMATED'', ''FORECAST'', ''UNAVAILABLE''}"

definition valid_telemetry :: "Telemetry \<Rightarrow> bool" where
  "valid_telemetry t \<longleftrightarrow>
     tm_StationID t \<noteq> [] \<and> tm_ConnectorID t \<noteq> [] \<and> 0 < tm_Timestamp t \<and>
     tm_EdgeID t \<noteq> [] \<and> tm_SiteID t \<noteq> [] \<and>
     tm_State t \<in> charging_state_texts \<and>
     tm_ClockSync t \<in> clock_sync_texts"

definition hashed_token :: "string \<Rightarrow> bool" where
  "hashed_token h \<longleftrightarrow> h = [] \<or> length h = hexHashLength \<and> list_all isHex h"

definition valid_session_event :: "SessionEvent \<Rightarrow> bool" where
  "valid_session_event e \<longleftrightarrow>
     se_SessionID e \<noteq> [] \<and> se_StationID e \<noteq> [] \<and> 0 < se_OccurredAt e \<and>
     se_Type e \<in> session_type_texts \<and>
     se_SourceProtocol e \<in> protocol_texts \<and>
     se_TokenType e \<in> token_type_texts \<and>
     hashed_token (se_TokenHash e) \<and>
     (case se_EnergyRegisterWh e of None \<Rightarrow> True | Some wh \<Rightarrow> 0 \<le> wh)"

definition non_negative :: "float64 option \<Rightarrow> bool" where
  "non_negative v = (case v of None \<Rightarrow> True | Some x \<Rightarrow> is_fin x \<and> 0 \<le> fval x)"

definition valid_observation :: "EnergyObservation \<Rightarrow> bool" where
  "valid_observation o' \<longleftrightarrow>
     eo_SiteID o' \<noteq> [] \<and> 0 < eo_ObservedAt o' \<and> 0 < eo_RetrievedAt o' \<and>
     eo_ProviderSiteID o' \<noteq> [] \<and> eo_ConsentScope o' \<noteq> [] \<and>
     eo_Provider o' \<in> provider_texts \<and>
     eo_DataQuality o' \<in> quality_texts \<and>
     non_negative (eo_SolarGenerationKW o') \<and> non_negative (eo_SiteLoadKW o') \<and>
     non_negative (eo_GridImportKW o') \<and> non_negative (eo_GridExportKW o') \<and>
     non_negative (eo_BatteryChargeKW o') \<and> non_negative (eo_BatteryDischargeKW o') \<and>
     non_negative (eo_TariffImportPerKWh o') \<and> non_negative (eo_BatterySOC o') \<and>
     (case eo_BatterySOC o' of None \<Rightarrow> True | Some x \<Rightarrow> fval x \<le> 100)"

section \<open>The decoders keep the promise\<close>

lemmas decode_splits = sum.splits option.splits if_splits

lemma chargingStates_range: "chargingStates s = Some t \<Longrightarrow>
   t \<in> charging_state_texts"
  by (cases s) (auto simp: charging_state_texts_def)

lemma clockSyncStates_range: "clockSyncStates s = Some t \<Longrightarrow>
   t \<in> clock_sync_texts"
  by (cases s) (auto simp: clock_sync_texts_def)

lemma sessionEventTypes_range: "sessionEventTypes s = Some t \<Longrightarrow> t \<in> session_type_texts"
  by (cases s) (auto simp: session_type_texts_def)

lemma sourceProtocols_range: "sourceProtocols s = Some t \<Longrightarrow> t \<in> protocol_texts"
  by (cases s) (auto simp: protocol_texts_def)

lemma tokenTypes_range:
  "map_get (tokenTypes s) \<noteq> [] \<Longrightarrow>
   map_get (tokenTypes s) \<in> token_type_texts"
  by (cases s) (auto simp: map_get_def token_type_texts_def)

lemma default_texts [simp]: "''UNSPECIFIED'' \<in> clock_sync_texts" "''UNSPECIFIED'' \<in> token_type_texts"
  by (simp_all add: clock_sync_texts_def token_type_texts_def)

lemma energyProviders_range: "energyProviders s = Some t \<Longrightarrow>
   t \<in> provider_texts"
  by (cases s) (auto simp: provider_texts_def)

lemma dataQualities_range: "dataQualities s = Some t \<Longrightarrow>
   t \<in> quality_texts"
  by (cases s) (auto simp: quality_texts_def)

lemma rejectRawToken_iff: "rejectRawToken h = None \<longleftrightarrow> hashed_token h"
  by (auto simp: rejectRawToken_def hashed_token_def)

lemma rejectRawToken_permanent: "rejectRawToken h = Some err \<Longrightarrow> IsPermanent err"
  by (auto simp: rejectRawToken_def split: if_splits)

lemma isFinite_is_fin: "isFinite x \<longleftrightarrow> is_fin x"
  by (simp add: isFinite_def is_fin_def)

lemma validateNonNegative_iff: "validateNonNegative v = None \<longleftrightarrow> non_negative v"
  by (cases v) (auto simp: validateNonNegative_def non_negative_def isFinite_is_fin flt_fin not_less)

lemma validateRange_soc:
  "validateRange v 0 100 = None \<longleftrightarrow>
   non_negative v \<and> (case v of None \<Rightarrow> True | Some x \<Rightarrow> fval x \<le> 100)"
proof -
  have "float_of_int 0 = Fin 0" "float_of_int 100 = Fin 100"
    using float_of_nat [of 0] float_of_nat [of 100] by simp_all
  then show ?thesis
    by (cases v) (auto simp: validateRange_def non_negative_def isFinite_is_fin flt_fin not_less)
qed

lemma first_error_None: "first_error xs = None \<longleftrightarrow> (\<forall>x\<in>set xs. x = None)"
  by (induction xs rule: first_error.induct) auto

lemma first_error_Some: "first_error xs = Some err \<Longrightarrow> Some err \<in> set xs"
  by (induction xs rule: first_error.induct) auto

lemma validate_permanent:
  "validateNonNegative v = Some err \<Longrightarrow> IsPermanent err" "validateRange v a b = Some err \<Longrightarrow> IsPermanent err"
  by (auto simp: validateNonNegative_def validateRange_def split: decode_splits)

lemma UnixMilli_pos [simp]: "0 < UnixMilli ms \<longleftrightarrow> 0 < ms"
  by (simp add: UnixMilli_def zero_less_mult_iff)

interpretation telemetry_decoder: decoder "DecodeChargingTelemetry unmarshal" valid_telemetry tm_IngestedAt
  for unmarshal
proof unfold_locales
  show "IsPermanent err" if "DecodeChargingTelemetry unmarshal payload ingestedAt = Inl err" for payload ingestedAt err
    using that by (auto simp: DecodeChargingTelemetry_def Let_def split: decode_splits)
  show "valid_telemetry v" if "DecodeChargingTelemetry unmarshal payload ingestedAt = Inr v" for payload ingestedAt v
    using that chargingStates_range clockSyncStates_range
    by (fastforce simp: DecodeChargingTelemetry_def valid_telemetry_def Let_def split: decode_splits)
  show "tm_IngestedAt v = ingestedAt" if "DecodeChargingTelemetry unmarshal payload ingestedAt = Inr v" for payload ingestedAt v
    using that by (auto simp: DecodeChargingTelemetry_def Let_def split: decode_splits)
qed

interpretation session_decoder: decoder "DecodeChargingSessionEvent unmarshal" valid_session_event se_IngestedAt
  for unmarshal
proof unfold_locales
  show "IsPermanent err" if "DecodeChargingSessionEvent unmarshal payload ingestedAt = Inl err" for payload ingestedAt err
    using that
    by (auto simp: DecodeChargingSessionEvent_def Let_def rejectRawToken_permanent split: decode_splits)
  show "valid_session_event v" if "DecodeChargingSessionEvent unmarshal payload ingestedAt = Inr v" for payload ingestedAt v
    using that tokenTypes_range
    by (auto simp: DecodeChargingSessionEvent_def valid_session_event_def Let_def rejectRawToken_iff hashed_token_def
        split: decode_splits dest: sessionEventTypes_range sourceProtocols_range)
  show "se_IngestedAt v = ingestedAt" if "DecodeChargingSessionEvent unmarshal payload ingestedAt = Inr v" for payload ingestedAt v
    using that by (auto simp: DecodeChargingSessionEvent_def Let_def split: decode_splits)
qed

interpretation energy_decoder: decoder "DecodeEnergySiteObservation unmarshal" valid_observation eo_IngestedAt
  for unmarshal
proof unfold_locales
  show "IsPermanent err" if "DecodeEnergySiteObservation unmarshal payload ingestedAt = Inl err" for payload ingestedAt err
    using that
    by (auto simp: DecodeEnergySiteObservation_def Let_def validate_permanent dest!: first_error_Some dest: validate_permanent split: decode_splits)
  show "valid_observation v" if "DecodeEnergySiteObservation unmarshal payload ingestedAt = Inr v" for payload ingestedAt v
    using that
    by (auto simp: DecodeEnergySiteObservation_def valid_observation_def Let_def first_error_None
        validateNonNegative_iff validateRange_soc split: decode_splits dest: energyProviders_range dataQualities_range)
  show "eo_IngestedAt v = ingestedAt" if "DecodeEnergySiteObservation unmarshal payload ingestedAt = Inr v" for payload ingestedAt v
    using that by (auto simp: DecodeEnergySiteObservation_def Let_def split: decode_splits)
qed

end
