(* ===== verification/Metrics.thy ===== *)
theory Metrics
  imports Float64
begin

text \<open>
  Package \<open>metrics\<close>: the Prometheus instruments the control plane updates. A counter is a natural
  number per label tuple (Prometheus stores a float64, exact below \<open>2\<^sup>5\<^sup>3\<close>), a histogram is the list
  of its observations per label, latest first. Registration and exposition are the client library's.
\<close>

definition ResultPersisted :: string where
  [simp]: "ResultPersisted = ''persisted''"

definition ResultDeadLettered :: string where
  [simp]: "ResultDeadLettered = ''dead_lettered''"

definition ResultRetried :: string where
  [simp]: "ResultRetried = ''retried''"

record Metrics =
  me_Messages :: "string \<Rightarrow> string \<Rightarrow> nat"
  me_BatchSize :: "string \<Rightarrow> nat list"
  me_PersistDuration :: "string \<Rightarrow> float64 list"
  me_UnsynchronizedClock :: nat
  me_SilentStations :: nat
  me_HTTPRequests :: "string \<Rightarrow> string \<Rightarrow> nat"

definition Messages_Add :: "string \<Rightarrow> string \<Rightarrow> nat \<Rightarrow> Metrics \<Rightarrow> Metrics" where
  "Messages_Add stream result n m =
     m\<lparr>me_Messages := (me_Messages m)(stream := (me_Messages m stream)(result := me_Messages m stream result + n))\<rparr>"

definition BatchSize_Observe :: "string \<Rightarrow> nat \<Rightarrow> Metrics \<Rightarrow> Metrics" where
  "BatchSize_Observe stream n m =
     m\<lparr>me_BatchSize := (me_BatchSize m)(stream := n # me_BatchSize m stream)\<rparr>"

definition PersistDuration_Observe :: "string \<Rightarrow> float64 \<Rightarrow> Metrics \<Rightarrow> Metrics" where
  "PersistDuration_Observe stream x m =
     m\<lparr>me_PersistDuration := (me_PersistDuration m)(stream := x # me_PersistDuration m stream)\<rparr>"

definition UnsynchronizedClock_Inc :: "Metrics \<Rightarrow> Metrics" where
  "UnsynchronizedClock_Inc m = m\<lparr>me_UnsynchronizedClock := me_UnsynchronizedClock m + 1\<rparr>"

definition SilentStations_Set :: "nat \<Rightarrow> Metrics \<Rightarrow> Metrics" where
  "SilentStations_Set n m = m\<lparr>me_SilentStations := n\<rparr>"

definition HTTPRequests_Inc :: "string \<Rightarrow> string \<Rightarrow> Metrics \<Rightarrow> Metrics" where
  "HTTPRequests_Inc route status m =
     m\<lparr>me_HTTPRequests := (me_HTTPRequests m)(route := (me_HTTPRequests m route)(status := me_HTTPRequests m route status + 1))\<rparr>"

text \<open>Every message of a stream counted so far, whatever its outcome.\<close>

definition messages_total :: "string \<Rightarrow> Metrics \<Rightarrow> nat" where
  "messages_total stream m =
     me_Messages m stream ResultPersisted + me_Messages m stream ResultDeadLettered + me_Messages m stream ResultRetried"

lemma messages_total_Add:
  "r \<in> {ResultPersisted, ResultDeadLettered, ResultRetried} \<Longrightarrow>
   messages_total stream (Messages_Add stream r n m) = messages_total stream m + n"
  by (auto simp: messages_total_def Messages_Add_def)

lemma messages_total_other [simp]:
  "messages_total stream (BatchSize_Observe s n m) = messages_total stream m"
  "messages_total stream (PersistDuration_Observe s x m) = messages_total stream m"
  "messages_total stream (UnsynchronizedClock_Inc m) = messages_total stream m"
  by (simp_all add: messages_total_def BatchSize_Observe_def PersistDuration_Observe_def UnsynchronizedClock_Inc_def)

end
