(* ===== verification/Ingest.thy ===== *)
theory Ingest
  imports Contract Metrics "HOL-Library.Multiset"
begin

text \<open>
  Package \<open>ingest\<close>: the runner that takes batches of messages from a durable JetStream consumer,
  decodes them, checks their origin, persists them in one call and settles every message with the
  broker. The broker, the repository and the clock are parameters: a decoder, a persister and an
  environment that says what each call to them answers.
\<close>

section \<open>Messages and the state a runner changes\<close>

definition TelemetryStreamName :: string where
  [simp]: "TelemetryStreamName = ''ORVOLT_TELEMETRY''"

definition EnergyStreamName :: string where
  [simp]: "EnergyStreamName = ''ORVOLT_ENERGY''"

definition SessionStreamName :: string where
  [simp]: "SessionStreamName = ''ORVOLT_SESSIONS''"

definition DeadLetterStreamName :: string where
  [simp]: "DeadLetterStreamName = ''ORVOLT_DLQ''"

text \<open>A received message; \<open>ms_id\<close> tells two deliveries with the same contents apart.\<close>

record Message =
  ms_id :: nat
  ms_Subject :: string
  ms_Data :: string

datatype Disposition = Ack | NakWithDelay duration | Term

record ParkedMessage =
  pk_Subject :: string
  pk_Data :: string
  pk_SourceStream :: string
  pk_Reason :: string
  pk_ParkedAt :: string

record 'db Ingest =
  ig_db :: 'db
  ig_dlq :: "ParkedMessage list"
  ig_attempts :: nat
  ig_settled :: "(Message \<times> Disposition) list"
  ig_metrics :: Metrics

text \<open>
  The environment of one batch: the arrival stamp, the time the repository took, the broker's answer
  to the n-th dead-letter publication and the wall clock printed in its header.
\<close>

record Env =
  en_now :: time
  en_elapsed :: duration
  en_publish :: "nat \<Rightarrow> go_error option"
  en_clock :: "nat \<Rightarrow> string"

record DeadLetter =
  dl_subject :: string

record ('a, 'db) Runner =
  ru_name :: string
  ru_decode :: "string \<Rightarrow> time \<Rightarrow> Metrics \<Rightarrow> 'a result \<times> Metrics"
  ru_persist :: "'a list \<Rightarrow> 'db \<Rightarrow> go_error option \<times> 'db"
  ru_verify :: "(string \<Rightarrow> 'a \<Rightarrow> go_error option) option"
  ru_deadLetter :: "DeadLetter option"
  ru_batchSize :: int
  ru_batchWait :: duration
  ru_retryDelay :: duration

definition settle :: "Message \<Rightarrow> Disposition \<Rightarrow> 'db Ingest \<Rightarrow> 'db Ingest" where
  "settle received d st = st\<lparr>ig_settled := ig_settled st @ [(received, d)]\<rparr>"

definition on_metrics :: "(Metrics \<Rightarrow> Metrics) \<Rightarrow> 'db Ingest \<Rightarrow> 'db Ingest" where
  "on_metrics f st = st\<lparr>ig_metrics := f (ig_metrics st)\<rparr>"

section \<open>Dead letters\<close>

definition Park ::
  "Env \<Rightarrow> DeadLetter \<Rightarrow> string \<Rightarrow> string \<Rightarrow> go_error \<Rightarrow> 'db Ingest \<Rightarrow> go_error option \<times> 'db Ingest" where
  "Park env deadLetter source payload reason st =
     (let message = \<lparr>pk_Subject = dl_subject deadLetter @ ''.'' @ source,
                     pk_Data = payload,
                     pk_SourceStream = source,
                     pk_Reason = Error reason,
                     pk_ParkedAt = en_clock env (ig_attempts st)\<rparr>;
          tried = st\<lparr>ig_attempts := ig_attempts st + 1\<rparr>
      in case en_publish env (ig_attempts st) of
           Some err \<Rightarrow> (Some (Wrapped ''park dead-letter message'' err), tried)
         | None \<Rightarrow> (None, tried\<lparr>ig_dlq := ig_dlq st @ [message]\<rparr>))"

definition park :: "('a, 'db) Runner \<Rightarrow> Env \<Rightarrow> Message \<Rightarrow> go_error \<Rightarrow> 'db Ingest \<Rightarrow> 'db Ingest" where
  "park runner env received reason st =
     (let terminate = (\<lambda>st. on_metrics (Messages_Add (ru_name runner) ResultDeadLettered 1) (settle received Term st))
      in case ru_deadLetter runner of
           Some deadLetter \<Rightarrow>
             (case Park env deadLetter (ru_name runner) (ms_Data received) reason st of
                (Some err, st) \<Rightarrow>
                  on_metrics (Messages_Add (ru_name runner) ResultRetried 1)
                    (settle received (NakWithDelay (ru_retryDelay runner)) st)
              | (None, st) \<Rightarrow> terminate st)
         | None \<Rightarrow> terminate st)"

section \<open>ProcessBatch\<close>

definition check_origin :: "('a, 'db) Runner \<Rightarrow> Message \<Rightarrow> 'a result \<Rightarrow> 'a result" where
  "check_origin runner received r =
     (case (r, ru_verify runner) of
        (Inr value, Some verify) \<Rightarrow>
          (case verify (ms_Subject received) value of None \<Rightarrow> Inr value | Some err \<Rightarrow> Inl err)
      | _ \<Rightarrow> r)"

definition receive ::
  "('a, 'db) Runner \<Rightarrow> Env \<Rightarrow> Message \<Rightarrow>
   'db Ingest \<times> 'a list \<times> Message list \<Rightarrow> 'db Ingest \<times> 'a list \<times> Message list" where
  "receive runner env received = (\<lambda>(st, decoded, accepted).
     case ru_decode runner (ms_Data received) (en_now env) (ig_metrics st) of
       (r, metrics) \<Rightarrow>
         (let st = st\<lparr>ig_metrics := metrics\<rparr>
          in case check_origin runner received r of
               Inr value \<Rightarrow> (st, decoded @ [value], accepted @ [received])
             | Inl err \<Rightarrow>
                 if IsPermanent err then (park runner env received err st, decoded, accepted)
                 else (on_metrics (Messages_Add (ru_name runner) ResultRetried 1)
                         (settle received (NakWithDelay (ru_retryDelay runner)) st), decoded, accepted)))"

definition persist_decoded ::
  "('a, 'db) Runner \<Rightarrow> Env \<Rightarrow> 'db Ingest \<Rightarrow> 'a list \<Rightarrow> Message list \<Rightarrow> 'db Ingest" where
  "persist_decoded runner env st decoded accepted =
     (if decoded = [] then st
      else case ru_persist runner decoded (ig_db st) of
             (Some err, db) \<Rightarrow>
               on_metrics (Messages_Add (ru_name runner) ResultRetried (length accepted))
                 (fold (\<lambda>received. settle received (NakWithDelay (ru_retryDelay runner))) accepted
                    (st\<lparr>ig_db := db\<rparr>))
           | (None, db) \<Rightarrow>
               fold (\<lambda>received. settle received Ack) accepted
                 (on_metrics (Messages_Add (ru_name runner) ResultPersisted (length decoded))
                   (on_metrics (BatchSize_Observe (ru_name runner) (length decoded))
                     (on_metrics (PersistDuration_Observe (ru_name runner) (Seconds (en_elapsed env)))
                       (st\<lparr>ig_db := db\<rparr>)))))"

definition ProcessBatch :: "('a, 'db) Runner \<Rightarrow> Env \<Rightarrow> Message list \<Rightarrow> 'db Ingest \<Rightarrow> 'db Ingest" where
  "ProcessBatch runner env messages st =
     (case fold (receive runner env) messages (st, [], []) of
        (st, decoded, accepted) \<Rightarrow> persist_decoded runner env st decoded accepted)"

section \<open>Run\<close>

text \<open>
  One iteration of the loop per element: a fetch that failed (the runner waits and retries) or a
  batch, possibly empty. The list ends where the context is cancelled, which is when \<open>Run\<close> returns.
\<close>

datatype Fetch = FetchFailed go_error | Fetched "Message list"

fun run_step :: "('a, 'db) Runner \<Rightarrow> Env \<times> Fetch \<Rightarrow> 'db Ingest \<Rightarrow> 'db Ingest" where
  "run_step runner (env, FetchFailed err) st = st"
| "run_step runner (env, Fetched messages) st =
     (if messages = [] then st else ProcessBatch runner env messages st)"

definition Run :: "('a, 'db) Runner \<Rightarrow> (Env \<times> Fetch) list \<Rightarrow> 'db Ingest \<Rightarrow> 'db Ingest" where
  "Run runner iterations st = fold (run_step runner) iterations st"

section \<open>Origin check\<close>

definition VerifyTelemetryOrigin :: "string \<Rightarrow> bool \<Rightarrow> string \<Rightarrow> Telemetry \<Rightarrow> go_error option" where
  "VerifyTelemetryOrigin baseSubject required subject telemetry =
     (let prefix = baseSubject @ ''.''
      in if subject = baseSubject \<or> \<not> HasPrefix subject prefix
         then if required
              then Some (PermanentError ''telemetry arrived on an unidentified subject; device identity is required'')
              else None
         else if TrimPrefix subject prefix \<noteq> tm_EdgeID telemetry
              then Some (PermanentError ''telemetry edge identity does not match the authenticated publisher'')
              else None)"

section \<open>Building the runners\<close>

record StreamSpec =
  sp_Stream :: string
  sp_Description :: string
  sp_Subject :: string
  sp_Durable :: string
  sp_MaxAge :: duration
  sp_MaxBytes :: int

datatype StorageType = FileStorage
datatype RetentionPolicy = LimitsPolicy
datatype DiscardPolicy = DiscardOld
datatype AckPolicy = AckExplicitPolicy
datatype DeliverPolicy = DeliverAllPolicy

text \<open>A limit the code leaves out of a configuration is zero, which the broker reads as unlimited.\<close>

record StreamConfig =
  sc_Name :: string
  sc_Description :: string
  sc_Subjects :: "string list"
  sc_Storage :: StorageType
  sc_Retention :: RetentionPolicy
  sc_MaxAge :: duration
  sc_MaxBytes :: int
  sc_Discard :: DiscardPolicy
  sc_MaxMsgsPerSubject :: int

record ConsumerConfig =
  cc_Durable :: string
  cc_AckPolicy :: AckPolicy
  cc_DeliverPolicy :: DeliverPolicy
  cc_MaxAckPending :: int
  cc_AckWait :: duration

text \<open>
  The JetStream management calls: each takes the configuration and the broker's state and answers
  an error or nothing, with the new state.
\<close>

record 'b JetStream =
  js_CreateOrUpdateStream :: "StreamConfig \<Rightarrow> 'b \<Rightarrow> go_error option \<times> 'b"
  js_CreateOrUpdateConsumer :: "string \<Rightarrow> ConsumerConfig \<Rightarrow> 'b \<Rightarrow> go_error option \<times> 'b"

definition stream_config :: "StreamSpec \<Rightarrow> StreamConfig" where
  "stream_config spec =
     \<lparr>sc_Name = sp_Stream spec, sc_Description = sp_Description spec,
      sc_Subjects = [sp_Subject spec, sp_Subject spec @ ''.>''],
      sc_Storage = FileStorage, sc_Retention = LimitsPolicy,
      sc_MaxAge = sp_MaxAge spec, sc_MaxBytes = sp_MaxBytes spec, sc_Discard = DiscardOld, sc_MaxMsgsPerSubject = 0\<rparr>"

definition consumer_config :: "StreamSpec \<Rightarrow> int \<Rightarrow> ConsumerConfig" where
  "consumer_config spec batchSize =
     \<lparr>cc_Durable = sp_Durable spec, cc_AckPolicy = AckExplicitPolicy, cc_DeliverPolicy = DeliverAllPolicy,
      cc_MaxAckPending = wrap64 (4 * batchSize), cc_AckWait = 30 * second_ns\<rparr>"

definition NewRunner ::
  "'b JetStream \<Rightarrow> StreamSpec \<Rightarrow> (string \<Rightarrow> time \<Rightarrow> Metrics \<Rightarrow> 'a result \<times> Metrics) \<Rightarrow>
   ('a list \<Rightarrow> 'db \<Rightarrow> go_error option \<times> 'db) \<Rightarrow> DeadLetter option \<Rightarrow> int \<Rightarrow> duration \<Rightarrow> 'b \<Rightarrow>
   ('a, 'db) Runner result \<times> 'b" where
  "NewRunner stream spec decode persist deadLetter batchSize batchWait broker =
     (if sp_MaxAge spec \<le> 0 \<or> sp_MaxBytes spec \<le> 0
      then (Inl (PlainError (''stream '' @ sp_Stream spec @ '' requires a positive retention age and size'')), broker)
      else case js_CreateOrUpdateStream stream (stream_config spec) broker of
             (Some err, broker) \<Rightarrow> (Inl (Wrapped (''create stream '' @ sp_Stream spec) err), broker)
           | (None, broker) \<Rightarrow>
               (case js_CreateOrUpdateConsumer stream (sp_Stream spec) (consumer_config spec batchSize) broker of
                  (Some err, broker) \<Rightarrow> (Inl (Wrapped (''create consumer for '' @ sp_Stream spec) err), broker)
                | (None, broker) \<Rightarrow>
                    (Inr \<lparr>ru_name = sp_Stream spec, ru_decode = decode, ru_persist = persist, ru_verify = None,
                          ru_deadLetter = deadLetter, ru_batchSize = batchSize, ru_batchWait = batchWait,
                          ru_retryDelay = 5 * second_ns\<rparr>, broker)))"

definition WithVerifier ::
  "(string \<Rightarrow> 'a \<Rightarrow> go_error option) \<Rightarrow> ('a, 'db) Runner \<Rightarrow> ('a, 'db) Runner" where
  "WithVerifier verify runner = runner\<lparr>ru_verify := Some verify\<rparr>"

definition dead_letter_config :: "string \<Rightarrow> duration \<Rightarrow> StreamConfig" where
  "dead_letter_config subjectPrefix maxAge =
     \<lparr>sc_Name = DeadLetterStreamName,
      sc_Description = ''Payloads rejected by contract validation, retained for investigation.'',
      sc_Subjects = [subjectPrefix @ ''.>''], sc_Storage = FileStorage, sc_Retention = LimitsPolicy,
      sc_MaxAge = maxAge, sc_MaxBytes = 2 ^ 30, sc_Discard = DiscardOld, sc_MaxMsgsPerSubject = 0\<rparr>"

definition NewDeadLetter :: "'b JetStream \<Rightarrow> string \<Rightarrow> duration \<Rightarrow> 'b \<Rightarrow> DeadLetter result \<times> 'b" where
  "NewDeadLetter stream subjectPrefix maxAge broker =
     (if subjectPrefix = [] then (Inl (PlainError ''dead-letter subject prefix is required''), broker)
      else case js_CreateOrUpdateStream stream (dead_letter_config subjectPrefix maxAge) broker of
             (Some err, broker) \<Rightarrow> (Inl (Wrapped ''create dead-letter stream'' err), broker)
           | (None, broker) \<Rightarrow> (Inr \<lparr>dl_subject = subjectPrefix\<rparr>, broker))"

text \<open>The decoders as the runners call them; the telemetry one counts untrusted clocks.\<close>

definition telemetry_decode ::
  "(string \<Rightarrow> string + ChargingTelemetry) \<Rightarrow> string \<Rightarrow> time \<Rightarrow> Metrics \<Rightarrow> Telemetry result \<times> Metrics" where
  "telemetry_decode unmarshal payload ingestedAt metrics =
     (case DecodeChargingTelemetry unmarshal payload ingestedAt of
        Inl err \<Rightarrow> (Inl err, metrics)
      | Inr telemetry \<Rightarrow>
          (Inr telemetry,
           if tm_ClockSync telemetry \<noteq> ClockSyncSynchronized then UnsynchronizedClock_Inc metrics else metrics))"

definition pure_decode :: "(string \<Rightarrow> time \<Rightarrow> 'a result) \<Rightarrow> string \<Rightarrow> time \<Rightarrow> Metrics \<Rightarrow> 'a result \<times> Metrics" where
  "pure_decode decode payload ingestedAt metrics = (decode payload ingestedAt, metrics)"

definition NewTelemetryRunner ::
  "(string \<Rightarrow> string + ChargingTelemetry) \<Rightarrow> 'b JetStream \<Rightarrow>
   (Telemetry list \<Rightarrow> 'db \<Rightarrow> go_error option \<times> 'db) \<Rightarrow> string \<Rightarrow> DeadLetter option \<Rightarrow> duration \<Rightarrow> int \<Rightarrow>
   int \<Rightarrow> duration \<Rightarrow> bool \<Rightarrow> 'b \<Rightarrow> (Telemetry, 'db) Runner result \<times> 'b" where
  "NewTelemetryRunner unmarshal stream PersistTelemetryBatch subject deadLetter maxAge maxBytes
       batchSize batchWait requireDeviceIdentity broker =
     (case NewRunner stream
             \<lparr>sp_Stream = TelemetryStreamName,
              sp_Description = ''Canonical EVSE charging telemetry produced by site edge agents.'',
              sp_Subject = subject, sp_Durable = ''orvolt-control-plane'',
              sp_MaxAge = maxAge, sp_MaxBytes = maxBytes\<rparr>
             (telemetry_decode unmarshal) PersistTelemetryBatch deadLetter batchSize batchWait broker of
        (Inl err, broker) \<Rightarrow> (Inl err, broker)
      | (Inr runner, broker) \<Rightarrow>
          (Inr (WithVerifier (VerifyTelemetryOrigin subject requireDeviceIdentity) runner), broker))"

definition NewSessionRunner ::
  "(string \<Rightarrow> string + ChargingSessionEvent) \<Rightarrow> 'b JetStream \<Rightarrow>
   (SessionEvent list \<Rightarrow> 'db \<Rightarrow> go_error option \<times> 'db) \<Rightarrow> string \<Rightarrow> DeadLetter option \<Rightarrow> duration \<Rightarrow> int \<Rightarrow>
   int \<Rightarrow> duration \<Rightarrow> 'b \<Rightarrow> (SessionEvent, 'db) Runner result \<times> 'b" where
  "NewSessionRunner unmarshal stream PersistSessionEventBatch subject deadLetter maxAge maxBytes
       batchSize batchWait broker =
     NewRunner stream
       \<lparr>sp_Stream = SessionStreamName,
        sp_Description = ''Charging transaction lifecycle events from edge and protocol adapters.'',
        sp_Subject = subject, sp_Durable = ''orvolt-session-control-plane'',
        sp_MaxAge = maxAge, sp_MaxBytes = maxBytes\<rparr>
       (pure_decode (DecodeChargingSessionEvent unmarshal)) PersistSessionEventBatch deadLetter
       batchSize batchWait broker"

definition NewEnergyRunner ::
  "(string \<Rightarrow> string + EnergySiteObservation) \<Rightarrow> 'b JetStream \<Rightarrow>
   (EnergyObservation list \<Rightarrow> 'db \<Rightarrow> go_error option \<times> 'db) \<Rightarrow> string \<Rightarrow> DeadLetter option \<Rightarrow> duration \<Rightarrow> int \<Rightarrow>
   int \<Rightarrow> duration \<Rightarrow> 'b \<Rightarrow> (EnergyObservation, 'db) Runner result \<times> 'b" where
  "NewEnergyRunner unmarshal stream PersistEnergyObservationBatch subject deadLetter maxAge maxBytes
       batchSize batchWait broker =
     NewRunner stream
       \<lparr>sp_Stream = EnergyStreamName,
        sp_Description = ''Read-only energy-site observations from authorized external providers.'',
        sp_Subject = subject, sp_Durable = ''orvolt-energy-control-plane'',
        sp_MaxAge = maxAge, sp_MaxBytes = maxBytes\<rparr>
       (pure_decode (DecodeEnergySiteObservation unmarshal)) PersistEnergyObservationBatch deadLetter
       batchSize batchWait broker"

section \<open>Every message is settled exactly once\<close>

lemma settle_simps [simp]:
  "ig_settled (settle m d st) = ig_settled st @ [(m, d)]" "ig_db (settle m d st) = ig_db st"
  "ig_metrics (settle m d st) = ig_metrics st" "ig_dlq (settle m d st) = ig_dlq st"
  "ig_attempts (settle m d st) = ig_attempts st"
  by (simp_all add: settle_def)

lemma on_metrics_simps [simp]:
  "ig_settled (on_metrics f st) = ig_settled st" "ig_db (on_metrics f st) = ig_db st"
  "ig_metrics (on_metrics f st) = f (ig_metrics st)" "ig_dlq (on_metrics f st) = ig_dlq st"
  "ig_attempts (on_metrics f st) = ig_attempts st"
  by (simp_all add: on_metrics_def)

lemma settle_all:
  "fold (\<lambda>m. settle m d) ms st = st\<lparr>ig_settled := ig_settled st @ map (\<lambda>m. (m, d)) ms\<rparr>"
  by (induction ms arbitrary: st) (simp_all add: settle_def)

text \<open>What parking does: the message is terminated and kept as evidence, or given back.\<close>

definition parked_as :: "Env \<Rightarrow> DeadLetter \<Rightarrow> string \<Rightarrow> nat \<Rightarrow> Message \<Rightarrow> go_error \<Rightarrow> ParkedMessage" where
  "parked_as env deadLetter source attempt m reason =
     \<lparr>pk_Subject = dl_subject deadLetter @ ''.'' @ source, pk_Data = ms_Data m, pk_SourceStream = source,
      pk_Reason = Error reason, pk_ParkedAt = en_clock env attempt\<rparr>"

lemma park_cases:
  obtains (terminated) "ig_settled (park runner env m err st) = ig_settled st @ [(m, Term)]"
      "ig_dlq (park runner env m err st) =
         (case ru_deadLetter runner of None \<Rightarrow> ig_dlq st
          | Some dl \<Rightarrow> ig_dlq st @ [parked_as env dl (ru_name runner) (ig_attempts st) m err])"
      "ig_metrics (park runner env m err st) = Messages_Add (ru_name runner) ResultDeadLettered 1 (ig_metrics st)"
  | (retried) "ig_settled (park runner env m err st) = ig_settled st @ [(m, NakWithDelay (ru_retryDelay runner))]"
      "ig_dlq (park runner env m err st) = ig_dlq st"
      "ig_metrics (park runner env m err st) = Messages_Add (ru_name runner) ResultRetried 1 (ig_metrics st)"
      "ru_deadLetter runner \<noteq> None" "en_publish env (ig_attempts st) \<noteq> None"
proof (cases "ru_deadLetter runner")
  case None
  then show ?thesis by (intro terminated) (simp_all add: park_def)
next
  case (Some dl)
  show ?thesis
  proof (cases "en_publish env (ig_attempts st)")
    case None
    then show ?thesis using Some
      by (intro terminated) (simp_all add: park_def Park_def parked_as_def Let_def)
  next
    case (Some e)
    then show ?thesis using \<open>ru_deadLetter runner = Some dl\<close>
      by (intro retried) (simp_all add: park_def Park_def Let_def)
  qed
qed

lemma park_db [simp]: "ig_db (park runner env m err st) = ig_db st"
  by (auto simp: park_def Park_def Let_def split: option.splits)

section \<open>A runner over a decoder\<close>

text \<open>The fate of one message, and the values of a batch that reach the repository.\<close>

definition verdict ::
  "(string \<Rightarrow> time \<Rightarrow> 'a result) \<Rightarrow> ('a, 'db) Runner \<Rightarrow> Env \<Rightarrow> Message \<Rightarrow> 'a result" where
  "verdict dec runner env m = check_origin runner m (dec (ms_Data m) (en_now env))"

definition accepted_messages ::
  "(string \<Rightarrow> time \<Rightarrow> 'a result) \<Rightarrow> ('a, 'db) Runner \<Rightarrow> Env \<Rightarrow> Message list \<Rightarrow> Message list" where
  "accepted_messages dec runner env ms = filter (\<lambda>m. \<not> isl (verdict dec runner env m)) ms"

definition accepted_values ::
  "(string \<Rightarrow> time \<Rightarrow> 'a result) \<Rightarrow> ('a, 'db) Runner \<Rightarrow> Env \<Rightarrow> Message list \<Rightarrow> 'a list" where
  "accepted_values dec runner env ms = map (\<lambda>m. projr (verdict dec runner env m)) (accepted_messages dec runner env ms)"

definition rejected_messages ::
  "(string \<Rightarrow> time \<Rightarrow> 'a result) \<Rightarrow> ('a, 'db) Runner \<Rightarrow> Env \<Rightarrow> Message list \<Rightarrow> Message list" where
  "rejected_messages dec runner env ms = filter (\<lambda>m. isl (verdict dec runner env m)) ms"

text \<open>Evidence: a rejected message is terminated with its bytes and reason parked, or redelivered.\<close>

definition evidence_kept ::
  "(string \<Rightarrow> time \<Rightarrow> 'a result) \<Rightarrow> ('a, 'db) Runner \<Rightarrow> Env \<Rightarrow> ParkedMessage list \<Rightarrow> Message \<times> Disposition \<Rightarrow> bool" where
  "evidence_kept dec runner env dlq = (\<lambda>(m, d).
     d = NakWithDelay (ru_retryDelay runner) \<or>
     d = Term \<and> (ru_deadLetter runner = None \<or>
       (\<exists>p\<in>set dlq. pk_Data p = ms_Data m \<and> pk_SourceStream p = ru_name runner \<and>
          Inl (pk_Reason p) = map_sum Error id (verdict dec runner env m))))"

locale runner_decoder = decoder dec valid stamp
  for dec :: "string \<Rightarrow> time \<Rightarrow> 'a result" and valid and stamp +
  fixes runner :: "('a, 'db) Runner"
  assumes decode_result: "fst (ru_decode runner payload ingestedAt metrics) = dec payload ingestedAt"
    and decode_messages: "me_Messages (snd (ru_decode runner payload ingestedAt metrics)) = me_Messages metrics"
    and verify_permanent: "ru_verify runner = Some verify \<Longrightarrow> verify subject v = Some err \<Longrightarrow> IsPermanent err"
begin

abbreviation "judge \<equiv> verdict dec runner"

lemma verdict_permanent: "judge env m = Inl err \<Longrightarrow> IsPermanent err"
  using rejection_permanent verify_permanent
  by (auto simp: verdict_def check_origin_def split: sum.splits option.splits)

lemma verdict_valid: "judge env m = Inr v \<Longrightarrow> valid v \<and> stamp v = en_now env"
  using accepted_valid accepted_stamp
  by (auto simp: verdict_def check_origin_def split: sum.splits option.splits)

lemma receive_accepted:
  assumes "judge env m = Inr v"
  obtains st' where "receive runner env m (st, ds, ms) = (st', ds @ [v], ms @ [m])"
    "ig_settled st' = ig_settled st" "ig_db st' = ig_db st" "ig_dlq st' = ig_dlq st"
    "me_Messages (ig_metrics st') = me_Messages (ig_metrics st)"
proof -
  let ?r = "ru_decode runner (ms_Data m) (en_now env) (ig_metrics st)"
  have "receive runner env m (st, ds, ms) = (st\<lparr>ig_metrics := snd ?r\<rparr>, ds @ [v], ms @ [m])"
    using assms decode_result [of "ms_Data m" "en_now env" "ig_metrics st"]
    by (simp add: receive_def verdict_def case_prod_beta Let_def)
  then show thesis using that decode_messages by simp
qed

lemma receive_rejected:
  assumes "judge env m = Inl err"
  obtains metrics where "receive runner env m (st, ds, ms) = (park runner env m err (st\<lparr>ig_metrics := metrics\<rparr>), ds, ms)"
    "me_Messages metrics = me_Messages (ig_metrics st)"
proof -
  let ?r = "ru_decode runner (ms_Data m) (en_now env) (ig_metrics st)"
  have "receive runner env m (st, ds, ms) = (park runner env m err (st\<lparr>ig_metrics := snd ?r\<rparr>), ds, ms)"
    using assms decode_result [of "ms_Data m" "en_now env" "ig_metrics st"] verdict_permanent [OF assms]
    by (simp add: receive_def verdict_def case_prod_beta Let_def)
  then show thesis using that decode_messages by simp
qed

text \<open>The decoding loop: values in order, and one settlement per rejected message.\<close>

lemma receive_all:
  obtains st' new where
    "fold (receive runner env) ms (st, ds, as) =
       (st', ds @ accepted_values dec runner env ms, as @ accepted_messages dec runner env ms)"
    "ig_db st' = ig_db st" "ig_settled st' = ig_settled st @ new"
    "map fst new = rejected_messages dec runner env ms"
    "\<exists>parked. ig_dlq st' = ig_dlq st @ parked" "\<forall>s\<in>set new. evidence_kept dec runner env (ig_dlq st') s"
    "messages_total (ru_name runner) (ig_metrics st') = messages_total (ru_name runner) (ig_metrics st) + length new"
proof (induction ms arbitrary: st ds as thesis)
  case Nil
  show ?case
    by (rule Nil [of st "[]"]) (simp_all add: accepted_values_def accepted_messages_def rejected_messages_def)
next
  case (Cons m ms)
  note defs = accepted_values_def accepted_messages_def rejected_messages_def
  show ?case
  proof (cases "judge env m")
    case (Inr v)
    then obtain st1 where st1: "receive runner env m (st, ds, as) = (st1, ds @ [v], as @ [m])"
      "ig_settled st1 = ig_settled st" "ig_db st1 = ig_db st" "ig_dlq st1 = ig_dlq st"
      "me_Messages (ig_metrics st1) = me_Messages (ig_metrics st)"
      by (rule receive_accepted)
    show ?thesis
      by (rule Cons.IH [of st1 "ds @ [v]" "as @ [m]"], rule Cons.prems)
         (use st1 Inr in \<open>auto simp: defs messages_total_def\<close>)
  next
    case (Inl err)
    then obtain metrics where st1: "receive runner env m (st, ds, as) = (park runner env m err (st\<lparr>ig_metrics := metrics\<rparr>), ds, as)"
      "me_Messages metrics = me_Messages (ig_metrics st)" by (rule receive_rejected)
    let ?st = "park runner env m err (st\<lparr>ig_metrics := metrics\<rparr>)"
    have total: "messages_total (ru_name runner) metrics = messages_total (ru_name runner) (ig_metrics st)"
      using st1(2) by (simp add: messages_total_def)
    obtain d where d: "ig_settled ?st = ig_settled st @ [(m, d)]"
      and e: "\<exists>parked. ig_dlq ?st = ig_dlq st @ parked" "\<And>more. evidence_kept dec runner env (ig_dlq ?st @ more) (m, d)"
      and t: "messages_total (ru_name runner) (ig_metrics ?st) = messages_total (ru_name runner) (ig_metrics st) + 1"
      by (rule park_cases [of runner env m err "st\<lparr>ig_metrics := metrics\<rparr>"])
         (auto simp: evidence_kept_def parked_as_def Inl messages_total_Add total split: option.splits)
    obtain st2 new where IH:
      "fold (receive runner env) ms (?st, ds, as) =
       (st2, ds @ accepted_values dec runner env ms, as @ accepted_messages dec runner env ms)"
      "ig_db st2 = ig_db ?st" "ig_settled st2 = ig_settled ?st @ new"
      "map fst new = rejected_messages dec runner env ms"
      "\<exists>parked. ig_dlq st2 = ig_dlq ?st @ parked" "\<forall>s\<in>set new. evidence_kept dec runner env (ig_dlq st2) s"
      "messages_total (ru_name runner) (ig_metrics st2) = messages_total (ru_name runner) (ig_metrics ?st) + length new"
      by (rule Cons.IH)
    show ?thesis
    proof (rule Cons.prems [of st2 "(m, d) # new"])
      show "fold (receive runner env) (m # ms) (st, ds, as) =
        (st2, ds @ accepted_values dec runner env (m # ms), as @ accepted_messages dec runner env (m # ms))"
        using IH(1) st1(1) Inl by (simp add: defs)
      show "\<exists>parked. ig_dlq st2 = ig_dlq st @ parked" using IH(5) e(1) by auto
      show "\<forall>s\<in>set ((m, d) # new). evidence_kept dec runner env (ig_dlq st2) s" using IH(5,6) e(2) by auto
    qed (use IH d t Inl in \<open>simp_all add: defs\<close>)
  qed
qed

end

section \<open>One batch and a whole run\<close>

text \<open>
  The answer to a batch: rejected messages first, then all accepted ones with the same answer,
  which is \<open>Ack\<close> exactly when the repository accepted the values.
\<close>

definition answer ::
  "(string \<Rightarrow> time \<Rightarrow> 'a result) \<Rightarrow> ('a, 'db) Runner \<Rightarrow> Env \<Rightarrow> Message list \<Rightarrow> 'db \<Rightarrow> Disposition" where
  "answer dec runner env ms db =
     (if fst (ru_persist runner (accepted_values dec runner env ms) db) = None then Ack
      else NakWithDelay (ru_retryDelay runner))"

text \<open>The messages a sequence of loop iterations takes from the broker.\<close>

definition fetched :: "(Env \<times> Fetch) list \<Rightarrow> Message list" where
  "fetched its = concat (map (\<lambda>(_, f). case f of Fetched ms \<Rightarrow> ms | FetchFailed _ \<Rightarrow> []) its)"

context runner_decoder
begin

lemma accepted_rejected:
  "mset (accepted_messages dec runner env ms) + mset (rejected_messages dec runner env ms) = mset ms"
  by (simp add: accepted_messages_def rejected_messages_def union_commute)

lemma accepted_values_Nil: "accepted_values dec runner env ms = [] \<longleftrightarrow> accepted_messages dec runner env ms = []"
  by (simp add: accepted_values_def)

lemma ProcessBatch_outcome:
  obtains new where
    "ig_settled (ProcessBatch runner env ms st) =
       ig_settled st @ new @ map (\<lambda>m. (m, answer dec runner env ms (ig_db st))) (accepted_messages dec runner env ms)"
    "map fst new = rejected_messages dec runner env ms"
    "\<forall>s\<in>set new. evidence_kept dec runner env (ig_dlq (ProcessBatch runner env ms st)) s"
    "\<exists>parked. ig_dlq (ProcessBatch runner env ms st) = ig_dlq st @ parked"
    "ig_db (ProcessBatch runner env ms st) =
       (if accepted_values dec runner env ms = [] then ig_db st
        else snd (ru_persist runner (accepted_values dec runner env ms) (ig_db st)))"
    "messages_total (ru_name runner) (ig_metrics (ProcessBatch runner env ms st)) =
       messages_total (ru_name runner) (ig_metrics st) + length ms"
proof -
  obtain st' new where r:
    "fold (receive runner env) ms (st, [], []) =
       (st', [] @ accepted_values dec runner env ms, [] @ accepted_messages dec runner env ms)"
    "ig_db st' = ig_db st" "ig_settled st' = ig_settled st @ new"
    "map fst new = rejected_messages dec runner env ms"
    "\<exists>parked. ig_dlq st' = ig_dlq st @ parked" "\<forall>s\<in>set new. evidence_kept dec runner env (ig_dlq st') s"
    "messages_total (ru_name runner) (ig_metrics st') = messages_total (ru_name runner) (ig_metrics st) + length new"
    by (rule receive_all)
  let ?vs = "accepted_values dec runner env ms" and ?as = "accepted_messages dec runner env ms"
  let ?p = "ru_persist runner ?vs (ig_db st)"
  have batch: "ProcessBatch runner env ms st = persist_decoded runner env st' ?vs ?as"
    using r(1) by (simp add: ProcessBatch_def)
  have len: "length new = length (rejected_messages dec runner env ms)"
    using r(4) by (metis length_map)
  have "length ms = length ?as + length (rejected_messages dec runner env ms)"
    using accepted_rejected by (metis size_mset size_union)
  then have total: "length ms = length ?vs + length new" "length ?vs = length ?as"
    using len by (simp_all add: accepted_values_def)
  show thesis
  proof (cases "?vs = []")
    case True
    then show ?thesis
      using r total by (intro that [of new]) (auto simp: batch persist_decoded_def accepted_values_Nil)
  next
    case False
    show ?thesis
    proof (cases "fst ?p")
      case None
      then have p: "?p = (None, snd ?p)" by (metis prod.collapse)
      have "persist_decoded runner env st' ?vs ?as =
        fold (\<lambda>m. settle m Ack) ?as
           (on_metrics (Messages_Add (ru_name runner) ResultPersisted (length ?vs))
             (on_metrics (BatchSize_Observe (ru_name runner) (length ?vs))
               (on_metrics (PersistDuration_Observe (ru_name runner) (Seconds (en_elapsed env)))
                 (st'\<lparr>ig_db := snd ?p\<rparr>))))"
        unfolding persist_decoded_def r(2) using False by (subst p) simp
      then show ?thesis
        using r False None total
        by (intro that [of new]) (simp_all add: batch settle_all answer_def messages_total_Add)
    next
      case (Some e)
      then have p: "?p = (Some e, snd ?p)" by (metis prod.collapse)
      have "persist_decoded runner env st' ?vs ?as =
        on_metrics (Messages_Add (ru_name runner) ResultRetried (length ?as))
           (fold (\<lambda>m. settle m (NakWithDelay (ru_retryDelay runner))) ?as (st'\<lparr>ig_db := snd ?p\<rparr>))"
        unfolding persist_decoded_def r(2) using False by (subst p) simp
      then show ?thesis
        using r False Some total
        by (intro that [of new]) (simp_all add: batch settle_all answer_def messages_total_Add)
    qed
  qed
qed

end

section \<open>Settling, for any runner\<close>

abbreviation settled_messages :: "'db Ingest \<Rightarrow> Message multiset" where
  "settled_messages st \<equiv> mset (map fst (ig_settled st))"

lemma park_settles: "settled_messages (park runner env m err st) = add_mset m (settled_messages st)"
  by (rule park_cases [of runner env m err st]) auto

lemma receive_settles:
  "fold (receive runner env) ms (st, ds, as) = (st', ds', as') \<Longrightarrow> length ds = length as \<Longrightarrow>
   settled_messages st' + mset as' = settled_messages st + mset as + mset ms \<and> length ds' = length as'"
proof (induction ms arbitrary: st ds as)
  case (Cons m ms)
  obtain st1 ds1 as1 where one: "receive runner env m (st, ds, as) = (st1, ds1, as1)" by (metis prod_cases3)
  have "settled_messages st1 + mset as1 = add_mset m (settled_messages st + mset as) \<and> length ds1 = length as1"
    using one Cons.prems(2)
    by (auto simp: receive_def Let_def park_settles simp del: mset_map split: prod.splits sum.splits if_splits)
  moreover have "settled_messages st' + mset as' = settled_messages st1 + mset as1 + mset ms \<and> length ds' = length as'"
    using Cons.IH Cons.prems one calculation by simp
  ultimately show ?case by simp
qed simp

lemma ProcessBatch_settles:
  "settled_messages (ProcessBatch runner env ms st) = settled_messages st + mset ms"
proof -
  obtain st' ds as where f: "fold (receive runner env) ms (st, [], []) = (st', ds, as)" by (metis prod_cases3)
  then have "settled_messages st' + mset as = settled_messages st + mset ms" "length ds = length as"
    using receive_settles [OF f] by simp_all
  moreover have "image_mset fst (image_mset (\<lambda>m. (m, d)) (mset as)) = mset as" for d :: Disposition
    by (simp add: multiset.map_comp comp_def)
  ultimately show ?thesis
    by (auto simp: ProcessBatch_def f persist_decoded_def settle_all split: prod.splits option.splits)
qed

lemma run_step_settles: "settled_messages (run_step runner it st) = settled_messages st + mset (fetched [it])"
  by (cases "(runner, it, st)" rule: run_step.cases) (auto simp: fetched_def ProcessBatch_settles simp del: mset_map)

lemma Run_settles: "settled_messages (Run runner its st) = settled_messages st + mset (fetched its)"
proof (induction its arbitrary: st)
  case (Cons it its)
  have "fetched (it # its) = fetched [it] @ fetched its" by (simp add: fetched_def)
  then show ?case
    using Cons [of "run_step runner it st"] run_step_settles [of runner it st]
    by (simp add: Run_def union_assoc del: mset_map)
qed (simp add: Run_def fetched_def)

section \<open>The runners of the control plane\<close>

definition new_runner ::
  "string \<Rightarrow> (string \<Rightarrow> time \<Rightarrow> Metrics \<Rightarrow> 'a result \<times> Metrics) \<Rightarrow> ('a list \<Rightarrow> 'db \<Rightarrow> go_error option \<times> 'db) \<Rightarrow>
   (string \<Rightarrow> 'a \<Rightarrow> go_error option) option \<Rightarrow> DeadLetter option \<Rightarrow> int \<Rightarrow> duration \<Rightarrow> ('a, 'db) Runner" where
  "new_runner name decode persist verify deadLetter batchSize batchWait =
     \<lparr>ru_name = name, ru_decode = decode, ru_persist = persist, ru_verify = verify, ru_deadLetter = deadLetter,
      ru_batchSize = batchSize, ru_batchWait = batchWait, ru_retryDelay = 5 * second_ns\<rparr>"

lemma new_runner_simps [simp]:
  "ru_name (new_runner name decode persist verify deadLetter batchSize batchWait) = name"
  "ru_decode (new_runner name decode persist verify deadLetter batchSize batchWait) = decode"
  "ru_persist (new_runner name decode persist verify deadLetter batchSize batchWait) = persist"
  "ru_verify (new_runner name decode persist verify deadLetter batchSize batchWait) = verify"
  "ru_deadLetter (new_runner name decode persist verify deadLetter batchSize batchWait) = deadLetter"
  "ru_retryDelay (new_runner name decode persist verify deadLetter batchSize batchWait) = 5 * second_ns"
  by (simp_all add: new_runner_def)

lemma NewRunner_Inr:
  "NewRunner stream spec decode persist deadLetter batchSize batchWait broker = (Inr runner, broker') \<longleftrightarrow>
   0 < sp_MaxAge spec \<and> 0 < sp_MaxBytes spec \<and>
   (\<exists>b. js_CreateOrUpdateStream stream (stream_config spec) broker = (None, b) \<and>
     js_CreateOrUpdateConsumer stream (sp_Stream spec) (consumer_config spec batchSize) b = (None, broker')) \<and>
   runner = new_runner (sp_Stream spec) decode persist None deadLetter batchSize batchWait"
  by (auto simp: NewRunner_def new_runner_def not_le split: prod.splits option.splits)

lemma NewTelemetryRunner_Inr:
  "NewTelemetryRunner unmarshal stream persist subject deadLetter maxAge maxBytes batchSize batchWait required broker
     = (Inr runner, broker') \<Longrightarrow>
   runner = new_runner TelemetryStreamName (telemetry_decode unmarshal) persist
              (Some (VerifyTelemetryOrigin subject required)) deadLetter batchSize batchWait"
  by (auto simp: NewTelemetryRunner_def NewRunner_Inr WithVerifier_def new_runner_def split: prod.splits sum.splits)

lemma NewSessionRunner_Inr:
  "NewSessionRunner unmarshal stream persist subject deadLetter maxAge maxBytes batchSize batchWait broker
     = (Inr runner, broker') \<Longrightarrow>
   runner = new_runner SessionStreamName (pure_decode (DecodeChargingSessionEvent unmarshal)) persist
              None deadLetter batchSize batchWait"
  by (simp add: NewSessionRunner_def NewRunner_Inr)

lemma NewEnergyRunner_Inr:
  "NewEnergyRunner unmarshal stream persist subject deadLetter maxAge maxBytes batchSize batchWait broker
     = (Inr runner, broker') \<Longrightarrow>
   runner = new_runner EnergyStreamName (pure_decode (DecodeEnergySiteObservation unmarshal)) persist
              None deadLetter batchSize batchWait"
  by (simp add: NewEnergyRunner_def NewRunner_Inr)

lemma VerifyTelemetryOrigin_None:
  "VerifyTelemetryOrigin baseSubject required subject t = None \<longleftrightarrow>
   subject = baseSubject @ ''.'' @ tm_EdgeID t \<or> \<not> required \<and> (\<forall>device. subject \<noteq> baseSubject @ ''.'' @ device)"
proof (cases "HasPrefix subject (baseSubject @ ''.'')")
  case True
  then obtain device where "subject = (baseSubject @ ''.'') @ device" unfolding HasPrefix_iff ..
  then show ?thesis
    using HasPrefix_append [of "baseSubject @ ''.''" device] TrimPrefix_append [of "baseSubject @ ''.''" device]
    by (simp add: VerifyTelemetryOrigin_def)
next
  case False
  then show ?thesis by (auto simp: VerifyTelemetryOrigin_def HasPrefix_iff)
qed

lemma VerifyTelemetryOrigin_permanent:
  "VerifyTelemetryOrigin baseSubject required subject t = Some err \<Longrightarrow> IsPermanent err"
  by (auto simp: VerifyTelemetryOrigin_def Let_def split: if_splits)

interpretation telemetry_runner: runner_decoder "DecodeChargingTelemetry unmarshal" valid_telemetry tm_IngestedAt
    "new_runner TelemetryStreamName (telemetry_decode unmarshal) persist
       (Some (VerifyTelemetryOrigin subject required)) deadLetter batchSize batchWait"
  for unmarshal subject required deadLetter batchSize batchWait
    and persist :: "Telemetry list \<Rightarrow> 'db \<Rightarrow> go_error option \<times> 'db"
  by unfold_locales
     (auto simp: telemetry_decode_def UnsynchronizedClock_Inc_def VerifyTelemetryOrigin_permanent split: sum.splits)

interpretation session_runner: runner_decoder "DecodeChargingSessionEvent unmarshal" valid_session_event se_IngestedAt
    "new_runner SessionStreamName (pure_decode (DecodeChargingSessionEvent unmarshal)) persist
       None deadLetter batchSize batchWait"
  for unmarshal deadLetter batchSize batchWait
    and persist :: "SessionEvent list \<Rightarrow> 'db \<Rightarrow> go_error option \<times> 'db"
  by unfold_locales (auto simp: pure_decode_def)

interpretation energy_runner: runner_decoder "DecodeEnergySiteObservation unmarshal" valid_observation eo_IngestedAt
    "new_runner EnergyStreamName (pure_decode (DecodeEnergySiteObservation unmarshal)) persist
       None deadLetter batchSize batchWait"
  for unmarshal deadLetter batchSize batchWait
    and persist :: "EnergyObservation list \<Rightarrow> 'db \<Rightarrow> go_error option \<times> 'db"
  by unfold_locales (auto simp: pure_decode_def)

end
