(* ===== verification/GoParse.thy ===== *)
theory GoParse
  imports GoLib Float64 "HOL-Library.Signed_Division"
begin

text \<open>
  The parsers of the Go standard library that the program applies to text from outside: the space
  trimming and upper-casing of \<open>strings\<close>, \<open>strconv.Atoi\<close> and \<open>strconv.ParseInt\<close> in base ten,
  \<open>strconv.ParseFloat\<close> and \<open>time.ParseDuration\<close>, and the conversions from floats to integers.
  A parser returns \<open>None\<close> where Go returns an error; its callers only ask whether there is one.
\<close>

section \<open>strings.TrimSpace and strings.ToUpper\<close>

definition byte :: "nat \<Rightarrow> char" where
  "byte n = char_of n"

text \<open>The UTF-8 encodings of the code points for which \<open>unicode.IsSpace\<close> holds.\<close>

definition spaces :: "string list" where
  "spaces = map (map byte)
     ([[9], [10], [11], [12], [13], [32], [0xC2, 0x85], [0xC2, 0xA0], [0xE1, 0x9A, 0x80],
       [0xE2, 0x80, 0xA8], [0xE2, 0x80, 0xA9], [0xE2, 0x80, 0xAF], [0xE2, 0x81, 0x9F], [0xE3, 0x80, 0x80]] @
      map (\<lambda>n. [0xE2, 0x80, 0x80 + n]) [0..<11])"

lemma spaces_nonempty: "p \<in> set spaces \<Longrightarrow> 0 < length p"
  unfolding spaces_def by auto

definition leading_space :: "string \<Rightarrow> string option" where
  "leading_space s = find (HasPrefix s) spaces"

lemma leading_space_Some:
  "leading_space s = Some p \<Longrightarrow> length s - length p < length s"
  using spaces_nonempty [of p]
  by (auto simp: leading_space_def find_Some_iff HasPrefix_def dest!: nth_mem intro!: diff_less)

function TrimLeftSpace :: "string \<Rightarrow> string" where
  "TrimLeftSpace s = (case leading_space s of None \<Rightarrow> s | Some p \<Rightarrow> TrimLeftSpace (drop (length p) s))"
  by pat_completeness auto
termination by (relation "measure length") (auto dest!: leading_space_Some)

declare TrimLeftSpace.simps [simp del]

text \<open>
  The right end is trimmed rune by rune as well. The lead byte of a multi-byte space is the only
  byte of it that can start a rune, so a suffix that spells a space is that space.
\<close>

definition trailing_space :: "string \<Rightarrow> string option" where
  "trailing_space s = find (\<lambda>p. HasPrefix (rev s) (rev p)) spaces"

lemma trailing_space_Some:
  "trailing_space s = Some p \<Longrightarrow> length s - length p < length s"
  using spaces_nonempty [of p]
  by (auto simp: trailing_space_def find_Some_iff HasPrefix_def dest!: nth_mem intro!: diff_less)

function TrimRightSpace :: "string \<Rightarrow> string" where
  "TrimRightSpace s =
     (case trailing_space s of None \<Rightarrow> s | Some p \<Rightarrow> TrimRightSpace (take (length s - length p) s))"
  by pat_completeness auto
termination by (relation "measure length") (auto dest!: trailing_space_Some)

declare TrimRightSpace.simps [simp del]

definition TrimSpace :: "string \<Rightarrow> string" where
  "TrimSpace s = TrimRightSpace (TrimLeftSpace s)"

text \<open>
  \<open>ToUpper\<close> maps the letters of an ASCII string; for any other string it consults the Unicode case
  tables, which are a parameter.
\<close>

definition upper :: "char \<Rightarrow> char" where
  "upper c = (if CHR ''a'' \<le> c \<and> c \<le> CHR ''z'' then char_of (of_char c - 32 :: nat) else c)"

definition lower :: "char \<Rightarrow> char" where
  "lower c = (if CHR ''A'' \<le> c \<and> c \<le> CHR ''Z'' then char_of (of_char c + 32 :: nat) else c)"

definition is_ascii :: "string \<Rightarrow> bool" where
  "is_ascii s \<longleftrightarrow> list_all (\<lambda>c. (of_char c :: nat) < 128) s"

definition ToUpper :: "(string \<Rightarrow> string) \<Rightarrow> string \<Rightarrow> string" where
  "ToUpper unicode_upper s = (if is_ascii s then map upper s else unicode_upper s)"

lemma TrimLeftSpace_id: "leading_space (TrimLeftSpace s) = None"
  by (induction s rule: TrimLeftSpace.induct) (subst TrimLeftSpace.simps, auto split: option.splits)

lemma TrimRightSpace_id: "trailing_space (TrimRightSpace s) = None"
  by (induction s rule: TrimRightSpace.induct) (subst TrimRightSpace.simps, auto split: option.splits)

lemma TrimSpace_tight: "trailing_space (TrimSpace s) = None"
  by (simp add: TrimSpace_def TrimRightSpace_id)

section \<open>strconv.Atoi and strconv.ParseInt in base ten\<close>

definition all_digits :: "string \<Rightarrow> bool" where
  "all_digits s \<longleftrightarrow> s \<noteq> [] \<and> list_all is_digit s"

fun split_sign :: "string \<Rightarrow> bool \<times> string" where
  "split_sign (c # s) = (if c = CHR ''-'' then (True, s) else if c = CHR ''+'' then (False, s) else (False, c # s))"
| "split_sign [] = (False, [])"

definition in_int64 :: "int \<Rightarrow> bool" where
  "in_int64 v \<longleftrightarrow> min_int64 \<le> v \<and> v \<le> max_int64"

definition ParseInt :: "string \<Rightarrow> int option" where
  "ParseInt s =
     (case split_sign s of (neg, digits) \<Rightarrow>
        if \<not> all_digits digits then None
        else let v = (if neg then - int (digits_value digits) else int (digits_value digits))
             in if in_int64 v then Some v else None)"

text \<open>\<open>int\<close> has 64 bits, so \<open>Atoi\<close> accepts the same texts.\<close>

definition Atoi :: "string \<Rightarrow> int option" where
  "Atoi s = ParseInt s"

lemma nat_digits_all [simp]: "all_digits (nat_digits n)"
  using nat_digits_digits by (auto simp: all_digits_def list_all_iff)

lemma split_sign_digits: "all_digits s \<Longrightarrow> split_sign s = (False, s)"
  by (cases s) (auto simp: all_digits_def is_digit_def less_eq_char_def)

theorem Atoi_Itoa: "in_int64 i \<Longrightarrow> Atoi (Itoa i) = Some i"
  by (auto simp: Atoi_def ParseInt_def Itoa_def split_sign_digits nat_digits_value Let_def)

lemma ParseInt_range: "ParseInt s = Some v \<Longrightarrow> in_int64 v"
  by (auto simp: ParseInt_def Let_def split: prod.splits if_splits)

section \<open>strconv.ParseFloat\<close>

text \<open>
  \<open>readFloat\<close>: an optional sign, an optional \<open>0x\<close> prefix, digits with at most one point, an
  exponent (decimal with \<open>e\<close>, binary with \<open>p\<close> and then mandatory). Underscores are skipped and
  judged at the end by \<open>underscoreOK\<close>. The exponent digits stop being accumulated at 10000.
\<close>

record Mantissa =
  mn_value :: int
  mn_fraction :: nat
  mn_sawdot :: bool
  mn_sawdigits :: bool
  mn_underscores :: bool

definition empty_mantissa :: Mantissa where
  "empty_mantissa =
     \<lparr>mn_value = 0, mn_fraction = 0, mn_sawdot = False, mn_sawdigits = False, mn_underscores = False\<rparr>"

definition hex_letter :: "char \<Rightarrow> bool" where
  "hex_letter c \<longleftrightarrow> CHR ''a'' \<le> lower c \<and> lower c \<le> CHR ''f''"

definition hex_letter_value :: "char \<Rightarrow> int" where
  "hex_letter_value c = of_char (lower c) - 87"

definition push_digit :: "int \<Rightarrow> int \<Rightarrow> Mantissa \<Rightarrow> Mantissa" where
  "push_digit base d m =
     m\<lparr>mn_value := mn_value m * base + d,
       mn_fraction := (if mn_sawdot m then mn_fraction m + 1 else mn_fraction m),
       mn_sawdigits := True\<rparr>"

fun scan_mantissa :: "bool \<Rightarrow> string \<Rightarrow> Mantissa \<Rightarrow> Mantissa \<times> string" where
  "scan_mantissa hex [] m = (m, [])"
| "scan_mantissa hex (c # s) m =
     (if c = CHR ''_'' then scan_mantissa hex s (m\<lparr>mn_underscores := True\<rparr>)
      else if c = CHR ''.''
      then (if mn_sawdot m then (m, c # s) else scan_mantissa hex s (m\<lparr>mn_sawdot := True\<rparr>))
      else if is_digit c then scan_mantissa hex s (push_digit (if hex then 16 else 10) (int (digit_value c)) m)
      else if hex \<and> hex_letter c then scan_mantissa hex s (push_digit 16 (hex_letter_value c) m)
      else (m, c # s))"

fun scan_exponent :: "string \<Rightarrow> int \<Rightarrow> bool \<Rightarrow> int \<times> bool \<times> string" where
  "scan_exponent [] e underscores = (e, underscores, [])"
| "scan_exponent (c # s) e underscores =
     (if c = CHR ''_'' then scan_exponent s e True
      else if is_digit c
      then scan_exponent s (if e < 10000 then e * 10 + int (digit_value c) else e) underscores
      else (e, underscores, c # s))"

text \<open>The exponent part: its value, whether it had underscores, and the rest of the text.\<close>

definition read_exponent :: "bool \<Rightarrow> string \<Rightarrow> (int \<times> bool \<times> string) option" where
  "read_exponent hex s =
     (case s of
        [] \<Rightarrow> if hex then None else Some (0, False, [])
      | c # rest \<Rightarrow>
          if lower c = (if hex then CHR ''p'' else CHR ''e'')
          then (case split_sign rest of (neg, digits) \<Rightarrow>
                  (case digits of
                     [] \<Rightarrow> None
                   | d # _ \<Rightarrow>
                       if \<not> is_digit d then None
                       else (case scan_exponent digits 0 False of (e, underscores, rest) \<Rightarrow>
                               Some (if neg then - e else e, underscores, rest))))
          else if hex then None else Some (0, False, s))"

text \<open>Underscores must separate digits, or a digit and the base prefix.\<close>

datatype Saw = SawStart | SawDigit | SawUnderscore | SawOther

fun underscores_from :: "bool \<Rightarrow> string \<Rightarrow> Saw \<Rightarrow> bool" where
  "underscores_from hex [] saw = (saw \<noteq> SawUnderscore)"
| "underscores_from hex (c # s) saw =
     (if is_digit c \<or> hex \<and> hex_letter c then underscores_from hex s SawDigit
      else if c = CHR ''_'' then saw = SawDigit \<and> underscores_from hex s SawUnderscore
      else saw \<noteq> SawUnderscore \<and> underscores_from hex s SawOther)"

fun underscoreOK :: "string \<Rightarrow> bool" where
  "underscoreOK s =
     (case snd (split_sign s) of
        z # b # rest \<Rightarrow>
          if z = CHR ''0'' \<and> lower b \<in> {CHR ''b'', CHR ''o'', CHR ''x''}
          then underscores_from (lower b = CHR ''x'') rest SawDigit
          else underscores_from False (z # b # rest) SawStart
      | rest \<Rightarrow> underscores_from False rest SawStart)"

text \<open>\<open>special\<close>: infinities with an optional sign, NaN without one, in any case.\<close>

definition special :: "string \<Rightarrow> float64 option" where
  "special s =
     (case split_sign s of (neg, rest) \<Rightarrow>
        if map lower rest \<in> {''inf'', ''infinity''} then Some (if neg then NegInf else PosInf)
        else if map lower s = ''nan'' then Some NaN
        else None)"

definition scaled :: "bool \<Rightarrow> Mantissa \<Rightarrow> int \<Rightarrow> rat" where
  "scaled hex m e =
     (let base = (if hex then 2 else 10);
          v = of_int (mn_value m) / (if hex then 16 else 10) ^ mn_fraction m
      in if 0 \<le> e then v * base ^ nat e else v / base ^ nat (- e))"

definition read_float :: "string \<Rightarrow> (bool \<times> rat) option" where
  "read_float s =
     (case split_sign s of (neg, body) \<Rightarrow>
        (let hex = (2 < length body \<and> body ! 0 = CHR ''0'' \<and> lower (body ! 1) = CHR ''x'');
             body = (if hex then drop 2 body else body)
         in case scan_mantissa hex body empty_mantissa of
              (m, rest) \<Rightarrow>
                if \<not> mn_sawdigits m then None
                else case read_exponent hex rest of
                       None \<Rightarrow> None
                     | Some (e, underscores, rest) \<Rightarrow>
                         if (mn_underscores m \<or> underscores) \<and>
                            \<not> underscoreOK (take (length s - length rest) s) then None
                         else if rest \<noteq> [] then None
                         else Some (neg, scaled hex m e)))"

text \<open>A value that overflows is an error (\<open>ErrRange\<close>); any other is rounded to nearest even.\<close>

definition ParseFloat :: "string \<Rightarrow> float64 option" where
  "ParseFloat s =
     (case special s of
        Some x \<Rightarrow> Some x
      | None \<Rightarrow>
          (case read_float s of
             None \<Rightarrow> None
           | Some (neg, v) \<Rightarrow>
               (let x = pack64 neg (if neg then - v else v)
                in if IsInf x then None else Some x)))"

lemma wf64_ParseFloat: "ParseFloat s = Some x \<Longrightarrow> wf64 x"
  by (auto simp: ParseFloat_def special_def Let_def wf64_pack64 split: option.splits prod.splits if_splits)
     (simp_all add: wf64_def)

section \<open>Decimal text read back\<close>

lemma digit_not_letter: "is_digit c \<Longrightarrow> lower c = c \<and> c \<noteq> CHR ''i'' \<and> c \<noteq> CHR ''n'' \<and> c \<noteq> CHR ''x'' \<and> c \<noteq> CHR ''_'' \<and> c \<noteq> CHR ''.''"
  by (auto simp: is_digit_def lower_def less_eq_char_def)

lemma scan_mantissa_digits:
  "list_all is_digit s \<Longrightarrow> \<not> mn_sawdot m \<Longrightarrow>
   scan_mantissa False s m =
     (m\<lparr>mn_value := fold (\<lambda>c n. n * 10 + int (digit_value c)) s (mn_value m),
        mn_sawdigits := mn_sawdigits m \<or> s \<noteq> []\<rparr>, [])"
proof (induction s arbitrary: m)
  case (Cons c s)
  then show ?case using digit_not_letter [of c] by (simp add: push_digit_def)
qed simp

lemma fold_digits_int:
  "fold (\<lambda>c n. n * 10 + int (digit_value c)) s (int k) = int (fold (\<lambda>c n. n * 10 + digit_value c) s k)"
proof (induction s arbitrary: k)
  case (Cons c s)
  from Cons [of "k * 10 + digit_value c"] show ?case by simp
qed simp

lemma special_digits: "all_digits s \<Longrightarrow> special s = None"
  using digit_not_letter by (cases s) (auto simp: special_def split_sign_digits all_digits_def)

lemma read_float_digits: "all_digits s \<Longrightarrow> read_float s = Some (False, of_nat (digits_value s))"
proof -
  assume s: "all_digits s"
  have "\<not> (2 < length s \<and> s ! 0 = CHR ''0'' \<and> lower (s ! 1) = CHR ''x'')"
    using s digit_not_letter [of "s ! 1"] by (auto simp: all_digits_def list_all_length)
  moreover have "scan_mantissa False s empty_mantissa =
      (empty_mantissa\<lparr>mn_value := int (digits_value s), mn_sawdigits := True\<rparr>, [])"
    using s fold_digits_int [of s 0] by (simp add: all_digits_def scan_mantissa_digits empty_mantissa_def digits_value_def)
  moreover have "read_exponent False [] = Some (0, False, [])" by (simp add: read_exponent_def)
  ultimately show ?thesis using s
    unfolding read_float_def Let_def
    by (simp only: split_sign_digits prod.case if_False) (simp add: scaled_def empty_mantissa_def)
qed

lemma ParseFloat_nat_digits: "n \<le> 2 ^ 53 \<Longrightarrow> ParseFloat (nat_digits n) = Some (Fin (of_nat n))"
  using float_of_nat [of n]
  by (simp add: ParseFloat_def special_digits read_float_digits nat_digits_value float_of_int_def)

lemma spaces_not_digits: "p \<in> set spaces \<Longrightarrow> p \<noteq> [] \<and> \<not> is_digit (hd p) \<and> \<not> is_digit (last p)"
  unfolding spaces_def by (auto simp: byte_def is_digit_def less_eq_char_def)

lemma TrimSpace_tight_ends:
  assumes ne: "s \<noteq> []" and hd: "is_digit (hd s)" and last: "is_digit (last s)"
  shows "TrimSpace s = s"
proof -
  have "\<not> HasPrefix s p" if "p \<in> set spaces" for p
    using spaces_not_digits [OF that] hd by (auto simp: HasPrefix_iff)
  then have l: "leading_space s = None" by (simp add: leading_space_def find_None_iff)
  have "\<not> HasPrefix (rev s) (rev p)" if "p \<in> set spaces" for p
    using spaces_not_digits [OF that] last by (auto simp: HasPrefix_iff rev_eq_append_conv)
  then have t: "trailing_space s = None" by (simp add: trailing_space_def find_None_iff)
  show ?thesis by (simp add: TrimSpace_def TrimLeftSpace.simps [of s] TrimRightSpace.simps [of s] l t)
qed

lemma TrimSpace_digits: "all_digits s \<Longrightarrow> TrimSpace s = s"
  by (rule TrimSpace_tight_ends) (auto simp: all_digits_def list_all_iff)

lemma digits_value_append: "digits_value (a @ b) = digits_value a * 10 ^ length b + digits_value b"
proof (induction b rule: rev_induct)
  case (snoc c b)
  then show ?case by (simp add: digits_value_snoc algebra_simps flip: append_assoc)
qed (simp add: digits_value_def)

lemma digits_value_less: "list_all is_digit b \<Longrightarrow> digits_value b < 10 ^ length b"
proof (induction b rule: rev_induct)
  case (snoc c b)
  then have "digit_value c < 10" by (auto simp: is_digit_def digit_value_def less_eq_char_def)
  then show ?case using snoc by (simp add: digits_value_snoc)
qed (simp add: digits_value_def)

text \<open>Digits on both sides of a point; without any after it, no point.\<close>

definition decimal :: "string \<Rightarrow> string \<Rightarrow> string" where
  "decimal a b = a @ (if b = [] then [] else CHR ''.'' # b)"

lemma scan_fraction_digits:
  "list_all is_digit s \<Longrightarrow> mn_sawdot m \<Longrightarrow>
   scan_mantissa False s m =
     (m\<lparr>mn_value := fold (\<lambda>c n. n * 10 + int (digit_value c)) s (mn_value m), mn_fraction := mn_fraction m + length s,
        mn_sawdigits := mn_sawdigits m \<or> s \<noteq> []\<rparr>, [])"
proof (induction s arbitrary: m)
  case (Cons c s)
  then show ?case using digit_not_letter [of c] by (simp add: push_digit_def)
qed simp

lemma scan_mantissa_point:
  "list_all is_digit a \<Longrightarrow> \<not> mn_sawdot m \<Longrightarrow>
   scan_mantissa False (a @ CHR ''.'' # s) m =
     scan_mantissa False s (m\<lparr>mn_value := fold (\<lambda>c n. n * 10 + int (digit_value c)) a (mn_value m), mn_sawdot := True,
        mn_sawdigits := mn_sawdigits m \<or> a \<noteq> []\<rparr>)"
proof (induction a arbitrary: m)
  case (Cons c a)
  then show ?case using digit_not_letter [of c] by (simp add: push_digit_def)
qed simp

lemma decimal_shape:
  assumes "all_digits a" "list_all is_digit b"
  shows "decimal a b \<noteq> []" "is_digit (hd (decimal a b))" "is_digit (last (decimal a b))"
    "split_sign (decimal a b) = (False, decimal a b)"
    "\<not> (2 < length (decimal a b) \<and> decimal a b ! 0 = CHR ''0'' \<and> lower (decimal a b ! 1) = CHR ''x'')"
proof -
  obtain c s where a: "a = c # s" "is_digit c" "list_all is_digit s" using assms(1) by (cases a) (auto simp: all_digits_def)
  show "decimal a b \<noteq> []" "is_digit (hd (decimal a b))" "is_digit (last (decimal a b))"
    using a assms(2) by (auto simp: decimal_def list_all_iff)
  show "split_sign (decimal a b) = (False, decimal a b)"
    using a(2) by (auto simp: a(1) decimal_def is_digit_def less_eq_char_def)
  have "lower (decimal a b ! 1) \<noteq> CHR ''x''" if "2 < length (decimal a b)"
  proof -
    have "decimal a b ! 1 \<in> set s \<union> {CHR ''.''}" using that by (cases s) (auto simp: a(1) decimal_def split: if_splits)
    moreover have "lower d \<noteq> CHR ''x''" if "d \<in> set s" for d using digit_not_letter [of d] a(3) that by (auto simp: list_all_iff)
    moreover have "lower (CHR ''.'') \<noteq> CHR ''x''" by (simp add: lower_def less_eq_char_def)
    ultimately show ?thesis by (metis Un_iff singletonD)
  qed
  then show "\<not> (2 < length (decimal a b) \<and> decimal a b ! 0 = CHR ''0'' \<and> lower (decimal a b ! 1) = CHR ''x'')" by blast
qed

lemma read_float_decimal:
  assumes "all_digits a" "list_all is_digit b"
  shows "read_float (decimal a b) = Some (False, of_nat (digits_value (a @ b)) / 10 ^ length b)"
proof -
  have "scan_mantissa False (decimal a b) empty_mantissa =
      (empty_mantissa\<lparr>mn_value := int (digits_value (a @ b)), mn_fraction := length b, mn_sawdot := b \<noteq> [], mn_sawdigits := True\<rparr>, [])"
    using assms fold_digits_int [of a 0] fold_digits_int [of b "digits_value a"]
    by (cases "b = []") (simp_all add: decimal_def all_digits_def scan_mantissa_digits scan_mantissa_point scan_fraction_digits
        empty_mantissa_def digits_value_def)
  moreover have "read_exponent False [] = Some (0, False, [])" by (simp add: read_exponent_def)
  ultimately show ?thesis
    unfolding read_float_def Let_def decimal_shape(4) [OF assms] prod.case using decimal_shape(5) [OF assms]
    by (simp only: if_False prod.case) (simp add: scaled_def empty_mantissa_def)
qed

lemma special_decimal:
  assumes "all_digits a" "list_all is_digit b"
  shows "special (decimal a b) = None"
proof -
  obtain c s where a: "a = c # s" "is_digit c" using assms(1) by (cases a) (auto simp: all_digits_def)
  then show ?thesis using digit_not_letter [of c] decimal_shape(4) [OF assms] by (simp add: special_def decimal_def)
qed

lemma ParseFloat_decimal:
  assumes "all_digits a" "list_all is_digit b" "of_nat (digits_value (a @ b)) / 10 ^ length b \<le> max_finite64"
  shows "\<exists>x. ParseFloat (TrimSpace (decimal a b)) = Some x \<and> is_fin x \<and> fval x = round64 (of_nat (digits_value (a @ b)) / 10 ^ length b)"
proof -
  let ?q = "of_nat (digits_value (a @ b)) / 10 ^ length b :: rat"
  have "is_fin (pack64 False ?q)" using assms(3) by (intro is_fin_pack64_le) simp
  moreover have "\<not> IsInf (pack64 False ?q)" using calculation by (auto simp: is_fin_def)
  ultimately show ?thesis
    using read_float_decimal [OF assms(1,2)] special_decimal [OF assms(1,2)] TrimSpace_tight_ends [OF decimal_shape(1-3) [OF assms(1,2)]]
    by (simp add: ParseFloat_def fval_pack64)
qed

section \<open>Conversion to integers\<close>

text \<open>
  A conversion from float to integer drops the fraction. For a value out of range (or NaN) the
  result is implementation-specific in Go, so it is a parameter.
\<close>

definition trunc :: "rat \<Rightarrow> int" where
  "trunc q = (if 0 \<le> q then \<lfloor>q\<rfloor> else \<lceil>q\<rceil>)"

definition int64_of :: "(float64 \<Rightarrow> int) \<Rightarrow> float64 \<Rightarrow> int" where
  "int64_of out_of_range x =
     (if is_fin x \<and> in_int64 (trunc (fval x)) then trunc (fval x) else out_of_range x)"

section \<open>time.ParseDuration\<close>

definition two63 :: int where
  "two63 = 2 ^ 63"

fun leadingInt :: "string \<Rightarrow> int \<Rightarrow> (int \<times> string) option" where
  "leadingInt [] x = Some (x, [])"
| "leadingInt (c # s) x =
     (if \<not> is_digit c then Some (x, c # s)
      else if two63 div 10 < x then None
      else let x = x * 10 + int (digit_value c) in if two63 < x then None else leadingInt s x)"

fun leadingFraction :: "string \<Rightarrow> int \<Rightarrow> float64 \<Rightarrow> bool \<Rightarrow> int \<times> float64 \<times> string" where
  "leadingFraction [] x scale overflow = (x, scale, [])"
| "leadingFraction (c # s) x scale overflow =
     (if \<not> is_digit c then (x, scale, c # s)
      else if overflow then leadingFraction s x scale True
      else if (two63 - 1) div 10 < x then leadingFraction s x scale True
      else let y = x * 10 + int (digit_value c)
           in if two63 < y then leadingFraction s x scale True
              else leadingFraction s y (fmul scale (Fin 10)) False)"

definition unitMap :: "string \<Rightarrow> int option" where
  "unitMap u =
     (if u = ''ns'' then Some 1
      else if u \<in> {''us'', byte 0xC2 # byte 0xB5 # ''s'', byte 0xCE # byte 0xBC # ''s''} then Some 1000
      else if u = ''ms'' then Some 1000000
      else if u = ''s'' then Some 1000000000
      else if u = ''m'' then Some 60000000000
      else if u = ''h'' then Some 3600000000000
      else None)"

text \<open>One component such as \<open>1.5h\<close>: its nanoseconds and the rest of the text.\<close>

definition duration_part :: "string \<Rightarrow> (int \<times> string) option" where
  "duration_part s =
     (if \<not> (hd s = CHR ''.'' \<or> is_digit (hd s)) then None
      else case leadingInt s 0 of
        None \<Rightarrow> None
      | Some (v, s1) \<Rightarrow>
          (let pre = (length s1 \<noteq> length s);
               dot = (s1 \<noteq> [] \<and> hd s1 = CHR ''.'');
               (f, scale, s2) = (if dot then leadingFraction (tl s1) 0 (Fin 1) False else (0, Fin 1, s1));
               post = (dot \<and> length s2 \<noteq> length (tl s1));
               u = takeWhile (\<lambda>c. \<not> (c = CHR ''.'' \<or> is_digit c)) s2;
               s3 = dropWhile (\<lambda>c. \<not> (c = CHR ''.'' \<or> is_digit c)) s2
           in if \<not> pre \<and> \<not> post then None
              else if u = [] then None
              else case unitMap u of
                None \<Rightarrow> None
              | Some unit \<Rightarrow>
                  if two63 div unit < v then None
                  else let v = v * unit;
                           v = (if 0 < f
                                then v + \<lfloor>fval (fmul (float_of_int f) (fdiv (float_of_int unit) scale))\<rfloor>
                                else v)
                       in if two63 < v then None else Some (v, s3)))"

text \<open>Every component consumes at least its unit, so the length of the text is fuel enough.\<close>

fun duration_parts :: "nat \<Rightarrow> string \<Rightarrow> int \<Rightarrow> int option" where
  "duration_parts 0 s d = (if s = [] then Some d else None)"
| "duration_parts (Suc fuel) s d =
     (if s = [] then Some d
      else case duration_part s of
             None \<Rightarrow> None
           | Some (v, rest) \<Rightarrow> if two63 < d + v then None else duration_parts fuel rest (d + v))"

lemma leadingInt_rest: "leadingInt s x = Some (v, rest) \<Longrightarrow> length rest \<le> length s"
  by (induction s x rule: leadingInt.induct) (auto simp: Let_def split: if_splits)

lemma leadingFraction_rest: "leadingFraction s x scale overflow = (f, scale', rest) \<Longrightarrow> length rest \<le> length s"
  by (induction s x scale overflow rule: leadingFraction.induct) (auto simp: Let_def split: if_splits)

lemma dropWhile_shorter: "takeWhile P xs \<noteq> [] \<Longrightarrow> length (dropWhile P xs) < length xs"
  by (metis add_less_same_cancel2 append_Nil2 length_append length_greater_0_conv takeWhile_dropWhile_id
      less_add_same_cancel2)

lemma duration_part_shorter: "duration_part s = Some (v, rest) \<Longrightarrow> length rest < length s"
  unfolding duration_part_def
  by (auto simp: Let_def split: if_splits option.splits prod.splits
      dest!: leadingInt_rest leadingFraction_rest dropWhile_shorter)

lemma duration_parts_fuel:
  "length s \<le> fuel \<Longrightarrow> length s \<le> fuel' \<Longrightarrow> duration_parts fuel s d = duration_parts fuel' s d"
proof (induction fuel arbitrary: s d fuel')
  case 0
  then show ?case by (cases fuel') auto
next
  case (Suc fuel)
  show ?case
  proof (cases fuel')
    case (Suc m)
    have "duration_parts fuel rest x = duration_parts m rest x"
      if "duration_part s = Some (v, rest)" for v rest x
      using duration_part_shorter [OF that] Suc Suc.prems by (intro Suc.IH) auto
    then show ?thesis using Suc by (auto split: option.splits)
  qed (use Suc.prems in auto)
qed

definition ParseDuration :: "string \<Rightarrow> duration option" where
  "ParseDuration s =
     (case split_sign s of (neg, body) \<Rightarrow>
        if body = ''0'' then Some 0
        else if body = [] then None
        else case duration_parts (length body) body 0 of
               None \<Rightarrow> None
             | Some d \<Rightarrow>
                 if neg then Some (- d)
                 else if two63 - 1 < d then None
                 else Some d)"

end
