(* ===== verification/Advice_Publisher.thy ===== *)
theory Advice_Publisher
  imports Advice Repository Ingest GoParse
begin

text \<open>
  Package \<open>advice\<close>, file \<open>publisher.go\<close>: the advice as a wire message, and the service that
  recomputes and publishes it for every active site. The Protobuf encoder, the broker and the clock
  are parameters.
\<close>

section \<open>The wire message\<close>

datatype AllocationOutcome =
    ALLOCATION_OUTCOME_UNSPECIFIED | ALLOCATION_OUTCOME_FULL | ALLOCATION_OUTCOME_LIMITED
  | ALLOCATION_OUTCOME_PAUSED

datatype AdviceBasis =
    ADVICE_BASIS_UNSPECIFIED | ADVICE_BASIS_MEASURED | ADVICE_BASIS_STALE | ADVICE_BASIS_NO_DATA

record ConnectorAllocation =
  ca_station_id :: string
  ca_connector_id :: string
  ca_max_power_kw :: float64
  ca_outcome :: AllocationOutcome

record SiteChargingAdvice =
  sa_site_id :: string
  sa_computed_at_ms :: int
  sa_site_capacity_kw :: float64
  sa_non_ev_load_kw :: float64
  sa_available_for_ev_kw :: float64
  sa_solar_surplus_kw :: float64
  sa_basis :: AdviceBasis
  sa_observation_age_ms :: int
  sa_allocations :: "ConnectorAllocation list"

text \<open>Indexing these maps with a missing key reads the zero value of the enum.\<close>

definition outcomes :: "string \<Rightarrow> AllocationOutcome" where
  "outcomes outcome =
     (if outcome = OutcomeFull then ALLOCATION_OUTCOME_FULL
      else if outcome = OutcomeLimited then ALLOCATION_OUTCOME_LIMITED
      else if outcome = OutcomePaused then ALLOCATION_OUTCOME_PAUSED
      else ALLOCATION_OUTCOME_UNSPECIFIED)"

definition bases :: "string \<Rightarrow> AdviceBasis" where
  "bases basis =
     (if basis = BasisMeasured then ADVICE_BASIS_MEASURED
      else if basis = BasisStale then ADVICE_BASIS_STALE
      else if basis = BasisNoData then ADVICE_BASIS_NO_DATA
      else ADVICE_BASIS_UNSPECIFIED)"

definition encode_allocation :: "Allocation \<Rightarrow> ConnectorAllocation" where
  "encode_allocation a =
     \<lparr>ca_station_id = al_StationID a, ca_connector_id = al_ConnectorID a,
      ca_max_power_kw = al_MaxPowerKW a, ca_outcome = outcomes (al_Outcome a)\<rparr>"

definition Encode :: "(float64 \<Rightarrow> int) \<Rightarrow> Advice \<Rightarrow> SiteChargingAdvice" where
  "Encode oob computed =
     \<lparr>sa_site_id = ad_SiteID computed,
      sa_computed_at_ms = to_UnixMilli (ad_ComputedAt computed),
      sa_site_capacity_kw = ad_SiteCapacityKW computed,
      sa_non_ev_load_kw = ad_NonEVLoadKW computed,
      sa_available_for_ev_kw = ad_AvailableForEVKW computed,
      sa_solar_surplus_kw = ad_SolarSurplusKW computed,
      sa_basis = bases (ad_Basis computed),
      sa_observation_age_ms = int64_of oob (fmul (ad_ObservationAgeSec computed) (Fin 1000)),
      sa_allocations = map encode_allocation (ad_Allocations computed)\<rparr>"

section \<open>The publisher\<close>

definition AdviceStreamName :: string where
  [simp]: "AdviceStreamName = ''ORVOLT_ADVICE''"

record AdvicePublisher =
  ap_subject :: string
  ap_repository :: Repository
  ap_policy :: Policy
  ap_interval :: duration
  ap_activeWithin :: duration

definition advice_stream_config :: "string \<Rightarrow> duration \<Rightarrow> StreamConfig" where
  "advice_stream_config subject retention =
     \<lparr>sc_Name = AdviceStreamName,
      sc_Description = ''Advisory site charging capacity proposals. Never a command.'',
      sc_Subjects = [subject, subject @ ''.>''],
      sc_Storage = FileStorage, sc_Retention = LimitsPolicy, sc_MaxAge = retention,
      sc_MaxBytes = 2 ^ 30, sc_Discard = DiscardOld, sc_MaxMsgsPerSubject = 1\<rparr>"

definition NewPublisher ::
  "'b JetStream \<Rightarrow> string \<Rightarrow> Repository \<Rightarrow> Policy \<Rightarrow> duration \<Rightarrow> duration \<Rightarrow> 'b \<Rightarrow> AdvicePublisher result \<times> 'b" where
  "NewPublisher stream subject repository policy interval retention broker =
     (case js_CreateOrUpdateStream stream (advice_stream_config subject retention) broker of
        (Some err, broker) \<Rightarrow> (Inl (Wrapped ''create advice stream'' err), broker)
      | (None, broker) \<Rightarrow>
          (Inr \<lparr>ap_subject = subject, ap_repository = repository, ap_policy = policy, ap_interval = interval,
                ap_activeWithin = 2 * 60 * second_ns\<rparr>, broker))"

text \<open>
  What one round meets: the clock per computation, the encoder, the broker's answer to the n-th
  publication, and what an out-of-range age converts to. The state keeps the messages the broker
  accepted and, per failed site, the error that is logged.
\<close>

record AdviceEnv =
  ae_clock :: "nat \<Rightarrow> time"
  ae_marshal :: "SiteChargingAdvice \<Rightarrow> string result"
  ae_publish :: "nat \<Rightarrow> go_error option"
  ae_out_of_range :: "float64 \<Rightarrow> int"

record AdviceState =
  as_reads :: nat
  as_attempts :: nat
  as_published :: "(string \<times> string) list"
  as_failed :: "(string \<times> go_error) list"

definition advice_demands :: "ConnectorDemand list \<Rightarrow> Demand list" where
  "advice_demands connectors =
     map (\<lambda>c. \<lparr>de_StationID = cd_StationID c, de_ConnectorID = cd_ConnectorID c, de_RequestedKW = cd_PowerKW c\<rparr>) connectors"

definition latest_observation :: "Repository \<Rightarrow> string \<Rightarrow> EnergyObservation option" where
  "latest_observation repository siteID =
     (case rp_LatestEnergyObservation repository siteID of
        Inr (Some observation) \<Rightarrow> Some observation
      | _ \<Rightarrow> None)"

definition publishSite ::
  "AdviceEnv \<Rightarrow> AdvicePublisher \<Rightarrow> string \<Rightarrow> AdviceState \<Rightarrow> go_error option \<times> AdviceState" where
  "publishSite env publisher siteID st =
     (case rp_ListSiteDemand (ap_repository publisher) siteID (ap_activeWithin publisher) of
        Inl err \<Rightarrow> (Some err, st)
      | Inr connectors \<Rightarrow>
          (let demands = advice_demands connectors;
               latest = latest_observation (ap_repository publisher) siteID;
               computed = Compute siteID (ap_policy publisher) latest demands (ae_clock env (as_reads st));
               st = st\<lparr>as_reads := as_reads st + 1\<rparr>
           in case ae_marshal env (Encode (ae_out_of_range env) computed) of
                Inl err \<Rightarrow> (Some (Wrapped ''encode advice'' err), st)
              | Inr payload \<Rightarrow>
                  (let tried = st\<lparr>as_attempts := as_attempts st + 1\<rparr>
                   in case ae_publish env (as_attempts st) of
                        Some err \<Rightarrow> (Some (Wrapped ''publish advice'' err), tried)
                      | None \<Rightarrow>
                          (None, tried\<lparr>as_published := as_published st @ [(ap_subject publisher @ ''.'' @ siteID, payload)]\<rparr>))))"

definition site_step :: "AdviceEnv \<Rightarrow> AdvicePublisher \<Rightarrow> string \<Rightarrow> AdviceState \<Rightarrow> AdviceState" where
  "site_step env publisher siteID st =
     (case publishSite env publisher siteID st of
        (Some err, st) \<Rightarrow> st\<lparr>as_failed := as_failed st @ [(siteID, err)]\<rparr>
      | (None, st) \<Rightarrow> st)"

definition publishRound ::
  "AdviceEnv \<Rightarrow> AdvicePublisher \<Rightarrow> AdviceState \<Rightarrow> go_error option \<times> AdviceState" where
  "publishRound env publisher st =
     (case rp_ListActiveSites (ap_repository publisher) (ap_activeWithin publisher) of
        Inl err \<Rightarrow> (Some (Wrapped ''list active sites'' err), st)
      | Inr sites \<Rightarrow> (None, fold (site_step env publisher) sites st))"

text \<open>
  One round per tick, until the context ends; a round that fails is logged. Every tick has its own
  environment and repository answers.
\<close>

definition advice_Run :: "AdvicePublisher \<Rightarrow> (AdviceEnv \<times> Repository) list \<Rightarrow> AdviceState \<Rightarrow> AdviceState" where
  "advice_Run publisher ticks st =
     fold (\<lambda>(env, repository) st. snd (publishRound env (publisher\<lparr>ap_repository := repository\<rparr>) st)) ticks st"

section \<open>Every enum of an encoded advice is specified\<close>

lemma allocate_outcomes: "a \<in> set (allocate A policy demands) \<Longrightarrow> al_Outcome a \<in> {OutcomeFull, OutcomeLimited, OutcomePaused}"
proof (cases "demands = []")
  case False
  let ?o = "sort_Slice demand_less demands"
  obtain r limited paused where sh:
    "allocate_ordered A policy ?o =
       map (\<lambda>i. if i \<in> set limited then limited_allocation policy ?o (share_of r limited) i
                else if i \<in> set paused then paused_allocation ?o i
                else full_allocation policy ?o i) [0..<length ?o]"
    by (rule allocate_ordered_shape)
  assume "a \<in> set (allocate A policy demands)"
  then show ?thesis using False
    by (auto simp: allocate_def sh limited_allocation_def paused_allocation_def full_allocation_def split: if_splits)
qed (simp add: allocate_def)

definition fully_specified :: "SiteChargingAdvice \<Rightarrow> bool" where
  "fully_specified m \<longleftrightarrow> sa_basis m \<noteq> ADVICE_BASIS_UNSPECIFIED \<and>
     list_all (\<lambda>a. ca_outcome a \<noteq> ALLOCATION_OUTCOME_UNSPECIFIED) (sa_allocations m)"

lemma Compute_basis: "ad_Basis (Compute site policy observation demands t) \<in> {BasisMeasured, BasisStale, BasisNoData}"
  by (auto simp: Compute_def Let_def split: option.splits)

lemma Compute_allocations:
  "ad_Allocations (Compute site policy observation demands t) =
     allocate (ad_AvailableForEVKW (Compute site policy observation demands t)) policy demands"
  by (auto simp: Compute_def Let_def split: option.splits)

lemma Encode_specified: "fully_specified (Encode oob (Compute site policy observation demands t))"
proof -
  have "outcomes (al_Outcome a) \<noteq> ALLOCATION_OUTCOME_UNSPECIFIED"
    if "a \<in> set (ad_Allocations (Compute site policy observation demands t))" for a
    using allocate_outcomes [OF that [unfolded Compute_allocations]] by (auto simp: outcomes_def)
  moreover have "bases (ad_Basis (Compute site policy observation demands t)) \<noteq> ADVICE_BASIS_UNSPECIFIED"
    using Compute_basis [of site policy observation demands t] by (auto simp: bases_def)
  ultimately show ?thesis by (simp add: fully_specified_def Encode_def encode_allocation_def list_all_iff)
qed

section \<open>A round\<close>

definition readable :: "AdvicePublisher \<Rightarrow> string \<Rightarrow> bool" where
  "readable publisher site \<longleftrightarrow> \<not> isl (rp_ListSiteDemand (ap_repository publisher) site (ap_activeWithin publisher))"

definition advises :: "AdviceEnv \<Rightarrow> AdvicePublisher \<Rightarrow> string \<Rightarrow> string \<Rightarrow> bool" where
  "advises env publisher site payload \<longleftrightarrow>
     (\<exists>connectors t m. rp_ListSiteDemand (ap_repository publisher) site (ap_activeWithin publisher) = Inr connectors \<and>
        m = Encode (ae_out_of_range env) (Compute site (ap_policy publisher)
              (latest_observation (ap_repository publisher) site) (advice_demands connectors) t) \<and>
        ae_marshal env m = Inr payload \<and> fully_specified m)"

lemma publishSite_cases:
  obtains (published) payload st' where "publishSite env publisher site st = (None, st')" "advises env publisher site payload"
      "as_published st' = as_published st @ [(ap_subject publisher @ ''.'' @ site, payload)]" "as_failed st' = as_failed st"
      "readable publisher site"
  | (failed) err st' where "publishSite env publisher site st = (Some err, st')"
      "as_published st' = as_published st" "as_failed st' = as_failed st"
      "readable publisher site \<longrightarrow> (\<exists>m. isl (ae_marshal env m)) \<or> (\<exists>n. ae_publish env n \<noteq> None)"
proof (cases "rp_ListSiteDemand (ap_repository publisher) site (ap_activeWithin publisher)")
  case (Inl err)
  then show ?thesis by (intro failed) (simp_all add: publishSite_def readable_def)
next
  case (Inr connectors)
  define m where "m = Encode (ae_out_of_range env) (Compute site (ap_policy publisher)
      (latest_observation (ap_repository publisher) site) (advice_demands connectors) (ae_clock env (as_reads st)))"
  have spec: "fully_specified m" unfolding m_def by (rule Encode_specified)
  show ?thesis
  proof (cases "ae_marshal env m")
    case (Inl err)
    then show ?thesis using Inr
      by (intro failed [of "Wrapped ''encode advice'' err" "st\<lparr>as_reads := as_reads st + 1\<rparr>"])
         (auto simp: publishSite_def Let_def m_def [symmetric] intro!: exI [of _ m])
  next
    case m: (Inr payload)
    show ?thesis
    proof (cases "ae_publish env (as_attempts st)")
      case None
      have "advises env publisher site payload" unfolding advises_def using Inr m spec m_def by blast
      then show ?thesis using Inr m None
        by (intro published [of "st\<lparr>as_reads := as_reads st + 1, as_attempts := as_attempts st + 1,
              as_published := as_published st @ [(ap_subject publisher @ ''.'' @ site, payload)]\<rparr>" payload]) (auto simp: publishSite_def Let_def m_def [symmetric] readable_def)
    next
      case (Some err)
      then show ?thesis using Inr m
        by (intro failed [of "Wrapped ''publish advice'' err"
              "st\<lparr>as_reads := as_reads st + 1, as_attempts := as_attempts st + 1\<rparr>"])
           (auto simp: publishSite_def Let_def m_def [symmetric])
    qed
  qed
qed

lemma sites_fold:
  "\<exists>sent. as_published (fold (site_step env publisher) sites st) =
       as_published st @ map (\<lambda>(site, payload). (ap_subject publisher @ ''.'' @ site, payload)) sent \<and>
     list_all (\<lambda>(site, payload). advises env publisher site payload) sent \<and>
     (\<exists>fails. as_failed (fold (site_step env publisher) sites st) = as_failed st @ fails \<and>
        mset (map fst sent @ map fst fails) = mset sites \<and>
        ((\<forall>m. \<not> isl (ae_marshal env m)) \<and> (\<forall>n. ae_publish env n = None) \<longrightarrow> map fst sent = filter (readable publisher) sites))"
proof (induction sites arbitrary: st)
  case (Cons site sites)
  show ?case
  proof (cases rule: publishSite_cases [of env publisher site st])
    case (published payload st')
    obtain sent fails where IH: "as_published (fold (site_step env publisher) sites st') =
        as_published st' @ map (\<lambda>(site, payload). (ap_subject publisher @ ''.'' @ site, payload)) sent"
      "list_all (\<lambda>(site, payload). advises env publisher site payload) sent"
      "as_failed (fold (site_step env publisher) sites st') = as_failed st' @ fails"
      "mset (map fst sent @ map fst fails) = mset sites"
      "(\<forall>m. \<not> isl (ae_marshal env m)) \<and> (\<forall>n. ae_publish env n = None) \<longrightarrow> map fst sent = filter (readable publisher) sites"
      using Cons.IH [of st'] by blast
    have "site_step env publisher site st = st'" using published(1) by (simp add: site_step_def)
    then show ?thesis using IH published
      by (intro exI [of _ "(site, payload) # sent"] conjI exI [of _ fails]) simp_all
  next
    case (failed err st')
    let ?st = "st'\<lparr>as_failed := as_failed st' @ [(site, err)]\<rparr>"
    obtain sent fails where IH: "as_published (fold (site_step env publisher) sites ?st) =
        as_published ?st @ map (\<lambda>(site, payload). (ap_subject publisher @ ''.'' @ site, payload)) sent"
      "list_all (\<lambda>(site, payload). advises env publisher site payload) sent"
      "as_failed (fold (site_step env publisher) sites ?st) = as_failed ?st @ fails"
      "mset (map fst sent @ map fst fails) = mset sites"
      "(\<forall>m. \<not> isl (ae_marshal env m)) \<and> (\<forall>n. ae_publish env n = None) \<longrightarrow> map fst sent = filter (readable publisher) sites"
      using Cons.IH [of ?st] by blast
    have "site_step env publisher site st = ?st" using failed(1) by (simp add: site_step_def)
    then show ?thesis using IH failed
      by (intro exI [of _ sent] conjI exI [of _ "(site, err) # fails"]) auto
  qed
qed simp

end
