(* ===== verification/HttpApi.thy ===== *)
theory HttpApi
  imports Advice_Publisher
begin

text \<open>
  Package \<open>httpapi\<close>: the read-only API over the repository. A handler is a function of the request
  (its path values and query parameters) and the metrics; the router of \<open>net/http\<close> chooses the
  route. A response is a status and the value written as JSON, which the encoder refuses, leaving
  the body empty, when a number is not finite or a time lies outside the years 0 to 9999.
\<close>

section \<open>Requests, responses and the API\<close>

record Request =
  rq_PathValue :: "string \<Rightarrow> string"
  rq_Query :: "string \<Rightarrow> string"

datatype Body =
    MessageBody "(string \<times> string) list"
  | StationPageBody "Station list" string
  | StationBody Station
  | TelemetryBody Telemetry
  | ObservationBody EnergyObservation
  | SilentStationsBody float64 "StationHealth list"
  | SessionPageBody "Session list" string
  | SessionBody Session
  | AdviceBody Advice

record Response =
  rs_Status :: int
  rs_ContentType :: string
  rs_Body :: "Body option"

record API =
  api_repository :: Repository
  api_ready :: "go_error option"
  api_silenceAfter :: duration
  api_advicePolicy :: Policy
  api_demandFreshness :: duration
  api_maxRequestTime :: duration

definition api_New :: "Repository \<Rightarrow> go_error option \<Rightarrow> duration \<Rightarrow> Policy \<Rightarrow> API" where
  "api_New repository ready silenceAfter advicePolicy =
     \<lparr>api_repository = repository, api_ready = ready, api_silenceAfter = silenceAfter,
      api_advicePolicy = advicePolicy, api_demandFreshness = 2 * 60 * second_ns,
      api_maxRequestTime = 15 * second_ns\<rparr>"

section \<open>Writing JSON\<close>

definition json_time :: "time \<Rightarrow> bool" where
  "json_time t \<longleftrightarrow> - 62167219200 * second_ns \<le> t \<and> t < 253402300800 * second_ns"

definition json_float :: "float64 \<Rightarrow> bool" where
  "json_float x \<longleftrightarrow> \<not> IsNaN x \<and> \<not> IsInf x"

definition json_option :: "('a \<Rightarrow> bool) \<Rightarrow> 'a option \<Rightarrow> bool" where
  "json_option ok v = (case v of None \<Rightarrow> True | Some x \<Rightarrow> ok x)"

definition json_station :: "Station \<Rightarrow> bool" where
  "json_station s \<longleftrightarrow> json_time (st_LastSeenAt s) \<and> json_option json_time (st_LastDeviceTime s) \<and>
     list_all (\<lambda>c. json_time (cn_LastSeenAt c)) (st_Connectors s)"

definition json_session :: "Session \<Rightarrow> bool" where
  "json_session s \<longleftrightarrow> json_option json_time (ss_StartedAt s) \<and> json_option json_time (ss_StoppedAt s) \<and> json_time (ss_UpdatedAt s)"

definition json_telemetry :: "Telemetry \<Rightarrow> bool" where
  "json_telemetry t \<longleftrightarrow> json_time (tm_Timestamp t) \<and> json_time (tm_ReceivedAt t) \<and> json_time (tm_IngestedAt t) \<and>
     list_all json_float [tm_Voltage t, tm_Current t, tm_PowerKW t, tm_EnergyKWh t, tm_SOC t, tm_TemperatureC t]"

definition json_observation :: "EnergyObservation \<Rightarrow> bool" where
  "json_observation v \<longleftrightarrow> json_time (eo_ObservedAt v) \<and> json_time (eo_RetrievedAt v) \<and> json_time (eo_IngestedAt v) \<and>
     list_all (json_option json_float)
       [eo_SolarGenerationKW v, eo_SiteLoadKW v, eo_GridImportKW v, eo_GridExportKW v, eo_BatteryChargeKW v,
        eo_BatteryDischargeKW v, eo_BatterySOC v, eo_TariffImportPerKWh v]"

definition json_advice :: "Advice \<Rightarrow> bool" where
  "json_advice a \<longleftrightarrow> json_time (ad_ComputedAt a) \<and>
     list_all json_float [ad_SiteCapacityKW a, ad_NonEVLoadKW a, ad_AvailableForEVKW a, ad_SolarSurplusKW a,
        ad_ObservationAgeSec a] \<and>
     list_all (\<lambda>x. json_float (al_MaxPowerKW x)) (ad_Allocations a)"

fun encodable :: "Body \<Rightarrow> bool" where
  "encodable (MessageBody m) = True"
| "encodable (StationPageBody stations n) = list_all json_station stations"
| "encodable (StationBody s) = json_station s"
| "encodable (TelemetryBody t) = json_telemetry t"
| "encodable (ObservationBody v) = json_observation v"
| "encodable (SilentStationsBody threshold stations) =
     (json_float threshold \<and> list_all (\<lambda>s. json_time (sh_LastSeenAt s) \<and> json_float (sh_SilentForS s)) stations)"
| "encodable (SessionPageBody sessions n) = list_all json_session sessions"
| "encodable (SessionBody s) = json_session s"
| "encodable (AdviceBody a) = json_advice a"

definition writeJSON :: "int \<Rightarrow> Body \<Rightarrow> Response" where
  "writeJSON status value =
     \<lparr>rs_Status = status, rs_ContentType = ''application/json'',
      rs_Body = (if encodable value then Some value else None)\<rparr>"

definition write_error :: "int \<Rightarrow> string \<Rightarrow> Response" where
  "write_error status message = writeJSON status (MessageBody [(''error'', message)])"

section \<open>Handlers\<close>

definition demandsOf :: "ConnectorDemand list \<Rightarrow> Demand list" where
  "demandsOf connectors =
     fold (\<lambda>connector demands. demands @
             [\<lparr>de_StationID = cd_StationID connector, de_ConnectorID = cd_ConnectorID connector,
               de_RequestedKW = cd_PowerKW connector\<rparr>]) connectors []"

definition advice_policy :: "API \<Rightarrow> Request \<Rightarrow> Policy option" where
  "advice_policy api request =
     (let raw = rq_Query request ''capacity_kw''
      in if raw = [] then Some (api_advicePolicy api)
         else case ParseFloat raw of
                None \<Rightarrow> None
              | Some capacity \<Rightarrow>
                  if fle capacity (Fin 0) then None
                  else Some ((api_advicePolicy api)\<lparr>po_CapacityKW := capacity\<rparr>))"

definition chargingAdvice :: "API \<Rightarrow> time \<Rightarrow> Request \<Rightarrow> Response" where
  "chargingAdvice api clock request =
     (let siteID = rq_PathValue request ''siteID''
      in case advice_policy api request of
           None \<Rightarrow> write_error 400 ''capacity_kw must be a positive number''
         | Some policy \<Rightarrow>
             (case rp_ListSiteDemand (api_repository api) siteID (api_demandFreshness api) of
                Inl err \<Rightarrow> write_error 500 ''unable to read site demand''
              | Inr demand \<Rightarrow>
                  (let latest = (case rp_LatestEnergyObservation (api_repository api) siteID of
                                   Inr (Some observation) \<Rightarrow> Some observation
                                 | _ \<Rightarrow> None)
                   in writeJSON 200 (AdviceBody (Compute siteID policy latest (demandsOf demand) clock)))))"

definition health :: Response where
  "health = writeJSON 200 (MessageBody [(''status'', ''ok'')])"

definition api_readiness :: "API \<Rightarrow> Response" where
  "api_readiness api =
     (case api_ready api of
        Some err \<Rightarrow> writeJSON 503 (MessageBody [(''status'', ''not_ready''), (''reason'', Error err)])
      | None \<Rightarrow> writeJSON 200 (MessageBody [(''status'', ''ready'')]))"

definition pageFrom :: "(string \<Rightarrow> string) \<Rightarrow> Page result" where
  "pageFrom query =
     (let page = \<lparr>pg_Limit = 0, pg_After = query ''after''\<rparr>;
          raw = query ''limit''
      in if raw = [] then Inr (Normalize page)
         else case Atoi raw of
                None \<Rightarrow> Inl (PlainError ''limit must be a positive integer'')
              | Some limit \<Rightarrow>
                  if limit \<le> 0 then Inl (PlainError ''limit must be a positive integer'')
                  else Inr (Normalize (page\<lparr>pg_Limit := limit\<rparr>)))"

definition listStations :: "API \<Rightarrow> Request \<Rightarrow> Response" where
  "listStations api request =
     (case pageFrom (rq_Query request) of
        Inl err \<Rightarrow> write_error 400 (Error err)
      | Inr page \<Rightarrow>
          (case rp_ListStations (api_repository api) page of
             Inl err \<Rightarrow> write_error 500 ''unable to list stations''
           | Inr stations \<Rightarrow>
               writeJSON 200 (StationPageBody stations
                 (if int (length stations) = pg_Limit page then st_StationID (last stations) else []))))"

definition getStation :: "API \<Rightarrow> Request \<Rightarrow> Response" where
  "getStation api request =
     (case rp_GetStation (api_repository api) (rq_PathValue request ''stationID'') of
        Inl err \<Rightarrow> write_error 500 ''unable to get station''
      | Inr None \<Rightarrow> write_error 404 ''station not found''
      | Inr (Some station) \<Rightarrow> writeJSON 200 (StationBody station))"

definition latestTelemetry :: "API \<Rightarrow> Request \<Rightarrow> Response" where
  "latestTelemetry api request =
     (case rp_LatestTelemetry (api_repository api) (rq_PathValue request ''stationID'') of
        Inl err \<Rightarrow> write_error 500 ''unable to get telemetry''
      | Inr None \<Rightarrow> write_error 404 ''telemetry not found''
      | Inr (Some telemetry) \<Rightarrow> writeJSON 200 (TelemetryBody telemetry))"

definition latestEnergy :: "API \<Rightarrow> Request \<Rightarrow> Response" where
  "latestEnergy api request =
     (case rp_LatestEnergyObservation (api_repository api) (rq_PathValue request ''siteID'') of
        Inl err \<Rightarrow> write_error 500 ''unable to get energy observation''
      | Inr None \<Rightarrow> write_error 404 ''energy observation not found''
      | Inr (Some observation) \<Rightarrow> writeJSON 200 (ObservationBody observation))"

definition silence_threshold :: "API \<Rightarrow> Request \<Rightarrow> duration option" where
  "silence_threshold api request =
     (let raw = rq_Query request ''threshold''
      in if raw = [] then Some (api_silenceAfter api)
         else case ParseDuration raw of
                None \<Rightarrow> None
              | Some parsed \<Rightarrow> if parsed \<le> 0 then None else Some parsed)"

definition silentStations :: "API \<Rightarrow> Request \<Rightarrow> Metrics \<Rightarrow> Response \<times> Metrics" where
  "silentStations api request metrics =
     (case silence_threshold api request of
        None \<Rightarrow> (write_error 400 ''threshold must be a positive Go duration, for example 5m'', metrics)
      | Some threshold \<Rightarrow>
          (case rp_ListSilentStations (api_repository api) threshold of
             Inl err \<Rightarrow> (write_error 500 ''unable to list silent stations'', metrics)
           | Inr stations \<Rightarrow>
               (writeJSON 200 (SilentStationsBody (Seconds threshold) stations),
                SilentStations_Set (length stations) metrics)))"

definition listSessions :: "API \<Rightarrow> Request \<Rightarrow> Response" where
  "listSessions api request =
     (case pageFrom (rq_Query request) of
        Inl err \<Rightarrow> write_error 400 (Error err)
      | Inr page \<Rightarrow>
          (let sessionQuery = \<lparr>sq_StationID = rq_Query request ''station'',
                               sq_OpenOnly = (rq_Query request ''open'' = ''true''), sq_Page = page\<rparr>
           in case rp_ListSessions (api_repository api) sessionQuery of
                Inl err \<Rightarrow> write_error 500 ''unable to list sessions''
              | Inr sessions \<Rightarrow>
                  writeJSON 200 (SessionPageBody sessions
                    (if int (length sessions) = pg_Limit page then ss_SessionID (last sessions) else []))))"

definition getSession :: "API \<Rightarrow> Request \<Rightarrow> Response" where
  "getSession api request =
     (case rp_GetSession (api_repository api) (rq_PathValue request ''sessionID'') of
        Inl err \<Rightarrow> write_error 500 ''unable to get session''
      | Inr None \<Rightarrow> write_error 404 ''session not found''
      | Inr (Some session) \<Rightarrow> writeJSON 200 (SessionBody session))"

section \<open>Routes\<close>

datatype Route =
    RouteHealth | RouteReady | RouteStations | RouteStation | RouteTelemetry | RouteEnergy
  | RouteSilent | RouteSessions | RouteSession | RouteAdvice

text \<open>The pattern registered with the router and the name under which the route is counted.\<close>

fun route_name :: "Route \<Rightarrow> string \<times> string" where
  "route_name RouteHealth = (''GET /health'', ''health'')"
| "route_name RouteReady = (''GET /ready'', ''ready'')"
| "route_name RouteStations = (''GET /api/v1/stations'', ''stations.list'')"
| "route_name RouteStation = (''GET /api/v1/stations/{stationID}'', ''stations.get'')"
| "route_name RouteTelemetry = (''GET /api/v1/stations/{stationID}/telemetry/latest'', ''telemetry.latest'')"
| "route_name RouteEnergy = (''GET /api/v1/energy/sites/{siteID}/latest'', ''energy.latest'')"
| "route_name RouteSilent = (''GET /api/v1/fleet/silent-stations'', ''fleet.silent'')"
| "route_name RouteSessions = (''GET /api/v1/sessions'', ''sessions.list'')"
| "route_name RouteSession = (''GET /api/v1/sessions/{sessionID}'', ''sessions.get'')"
| "route_name RouteAdvice = (''GET /api/v1/sites/{siteID}/charging-advice'', ''advice.get'')"

fun route_handler :: "API \<Rightarrow> time \<Rightarrow> Route \<Rightarrow> Request \<Rightarrow> Metrics \<Rightarrow> Response \<times> Metrics" where
  "route_handler api clock RouteHealth request metrics = (health, metrics)"
| "route_handler api clock RouteReady request metrics = (api_readiness api, metrics)"
| "route_handler api clock RouteStations request metrics = (listStations api request, metrics)"
| "route_handler api clock RouteStation request metrics = (getStation api request, metrics)"
| "route_handler api clock RouteTelemetry request metrics = (latestTelemetry api request, metrics)"
| "route_handler api clock RouteEnergy request metrics = (latestEnergy api request, metrics)"
| "route_handler api clock RouteSilent request metrics = silentStations api request metrics"
| "route_handler api clock RouteSessions request metrics = (listSessions api request, metrics)"
| "route_handler api clock RouteSession request metrics = (getSession api request, metrics)"
| "route_handler api clock RouteAdvice request metrics = (chargingAdvice api clock request, metrics)"

definition statusClass :: "int \<Rightarrow> string" where
  "statusClass status =
     (if 500 \<le> status then ''5xx'' else if 400 \<le> status then ''4xx'' else if 300 \<le> status then ''3xx'' else ''2xx'')"

text \<open>Every handler writes its status exactly once, which is what the status recorder keeps.\<close>

definition route :: "API \<Rightarrow> time \<Rightarrow> Route \<Rightarrow> Request \<Rightarrow> Metrics \<Rightarrow> Response \<times> Metrics" where
  "route api clock r request metrics =
     (case route_handler api clock r request metrics of
        (response, metrics) \<Rightarrow>
          (response, HTTPRequests_Inc (snd (route_name r)) (statusClass (rs_Status response)) metrics))"

end
