(* ===== verification/Api_Theorems.thy ===== *)
theory Api_Theorems
  imports HttpApi
begin

text \<open>
  What the HTTP API and the advice publisher promise: a client that follows the cursor sees every
  station and session once, the endpoint and the publisher give the same advice, and one site's
  failure does not take another's advice.
\<close>

section \<open>Following the cursor\<close>

text \<open>
  A client: it asks for the page after a cursor, keeps its items and follows the cursor of the answer
  until there is none. The fuel bounds the requests; running out is \<open>None\<close>.
\<close>

fun crawl :: "(string \<Rightarrow> 'a list \<times> string) \<Rightarrow> nat \<Rightarrow> string \<Rightarrow> 'a list option" where
  "crawl fetch 0 cursor = None"
| "crawl fetch (Suc n) cursor =
     (case fetch cursor of
        (items, following) \<Rightarrow>
          if following = [] then Some items else map_option ((@) items) (crawl fetch n following))"

text \<open>What a listing answers: the first \<open>limit\<close> items after the cursor, and a cursor when the page is full.\<close>

definition listing :: "('a \<Rightarrow> string) \<Rightarrow> nat \<Rightarrow> (string \<Rightarrow> 'a list) \<Rightarrow> string \<Rightarrow> 'a list \<times> string" where
  "listing key limit rest cursor =
     (let items = take limit (rest cursor)
      in (items, if length items = limit then key (last items) else []))"

context collation
begin

lemma crawl_table:
  assumes t: "distinct (map fst t)" "[] \<notin> fst ` set t" and limit: "0 < limit"
    and f: "\<And>row. row \<in> set t \<Longrightarrow> key (f row) = fst row"
  shows "length (after cursor t) < fuel \<Longrightarrow>
    crawl (listing key limit (\<lambda>a. map f (after a t))) fuel cursor = Some (map f (after cursor t))"
proof (induction fuel arbitrary: cursor)
  case (Suc fuel)
  let ?rows = "after cursor t"
  have in_t: "row \<in> set t" if "row \<in> set ?rows" for row using that by (auto simp: after_def)
  show ?case
  proof (cases "limit \<le> length ?rows")
    case True
    let ?page = "take limit ?rows"
    have page: "?page \<noteq> []" "length ?page = limit" using True limit by auto
    have last_page: "last ?page \<in> set t" using page(1) in_t by (meson in_set_takeD last_in_set)
    then have key: "key (f (last ?page)) = fst (last ?page)" "fst (last ?page) \<noteq> []"
      using f t(2) by (auto simp: image_iff)
    have following: "listing key limit (\<lambda>a. map f (after a t)) cursor = (map f ?page, fst (last ?page))"
      using page key by (simp add: listing_def take_map last_map)
    have rest: "after (fst (last ?page)) t = drop limit ?rows" by (rule after_last [OF t(1) limit True])
    have "length (after (fst (last ?page)) t) < fuel" using Suc.prems limit True by (simp add: rest)
    from Suc.IH [OF this] have "crawl (listing key limit (\<lambda>a. map f (after a t))) fuel (fst (last ?page)) =
        Some (map f (drop limit ?rows))" by (simp add: rest)
    then show ?thesis using following key(2)
      by (simp add: drop_map flip: map_append)
  next
    case False
    then show ?thesis by (simp add: listing_def)
  qed
qed simp

end

text \<open>The requests of the client, and what it reads from the answers.\<close>

definition page_request :: "(string \<Rightarrow> string) \<Rightarrow> string \<Rightarrow> string \<Rightarrow> Request" where
  "page_request filters limit cursor =
     \<lparr>rq_PathValue = (\<lambda>_. []),
      rq_Query = (\<lambda>name. if name = ''after'' then cursor else if name = ''limit'' then limit else filters name)\<rparr>"

definition stations_of :: "Response \<Rightarrow> Station list \<times> string" where
  "stations_of response = (case rs_Body response of Some (StationPageBody stations following) \<Rightarrow> (stations, following) | _ \<Rightarrow> ([], []))"

definition sessions_of :: "Response \<Rightarrow> Session list \<times> string" where
  "sessions_of response = (case rs_Body response of Some (SessionPageBody sessions following) \<Rightarrow> (sessions, following) | _ \<Rightarrow> ([], []))"

definition page_limit :: "int \<Rightarrow> nat" where
  "page_limit limit = nat (pg_Limit (Normalize \<lparr>pg_Limit = limit, pg_After = []\<rparr>))"

lemma page_limit_pos: "0 < page_limit limit"
  using Normalize_limit(1) [of "\<lparr>pg_Limit = limit, pg_After = []\<rparr>"] by (simp add: page_limit_def)

lemma Normalize_page: "Normalize \<lparr>pg_Limit = limit, pg_After = cursor\<rparr> = \<lparr>pg_Limit = int (page_limit limit), pg_After = cursor\<rparr>"
  by (auto simp: page_limit_def Normalize_def Let_def DefaultPageLimit_def MaxPageLimit_def)

lemma pageFrom_request:
  assumes "Atoi text = Some limit" and "0 < limit"
  shows "pageFrom (rq_Query (page_request filters text cursor)) = Inr \<lparr>pg_Limit = int (page_limit limit), pg_After = cursor\<rparr>"
proof -
  have "text \<noteq> []" using assms(1) by (auto simp: Atoi_def ParseInt_def all_digits_def)
  then show ?thesis using assms by (simp add: pageFrom_def page_request_def Let_def Normalize_page)
qed

lemma list_stations_page:
  assumes "collation lt" and "distinct (map fst (db_stations db))"
    and "api_repository api = postgres_repository lt no_store_faults clock db"
    and "\<forall>row\<in>set (db_stations db). json_station (station_of row)"
    and "Atoi text = Some limit" and "0 < limit"
  shows "stations_of (listStations api (page_request filters text cursor)) =
    listing st_StationID (page_limit limit) (\<lambda>a. map station_of (collation.after lt a (db_stations db))) cursor"
proof -
  let ?rows = "take (page_limit limit) (collation.after lt cursor (db_stations db))"
  have page: "page_rows lt \<lparr>pg_Limit = int (page_limit limit), pg_After = cursor\<rparr> (db_stations db) = ?rows"
    using collation.page_after [OF assms(1,2)] by simp
  have norm: "Normalize \<lparr>pg_Limit = int (page_limit limit), pg_After = cursor\<rparr> =
      \<lparr>pg_Limit = int (page_limit limit), pg_After = cursor\<rparr>"
    using Normalize_page [of limit cursor] by (metis Normalize_idem)
  have "set ?rows \<subseteq> set (db_stations db)"
    by (auto simp: collation.after_def [OF assms(1)] dest!: in_set_takeD)
  then have "list_all json_station (map station_of ?rows)" using assms(4) by (auto simp: list_all_iff)
  then show ?thesis
    using assms(3)
    by (simp add: listStations_def pageFrom_request [OF assms(5,6)] postgres_repository_def no_store_faults_def
        ListStations_def norm page stations_of_def writeJSON_def listing_def Let_def take_map)
qed

text \<open>The sessions that the query parameters select.\<close>

definition wanted_sessions :: "(string \<Rightarrow> string) \<Rightarrow> Database \<Rightarrow> (string, SessionRow) table" where
  "wanted_sessions filters db =
     filter (\<lambda>(session_id, row). (filters ''station'' = [] \<or> sw_station_id row = filters ''station'')
        \<and> (filters ''open'' \<noteq> ''true'' \<or> sw_stopped_at row = None)) (db_sessions db)"

lemma list_sessions_page:
  assumes "collation lt" and "distinct (map fst (db_sessions db))"
    and "api_repository api = postgres_repository lt no_store_faults clock db"
    and "\<forall>row\<in>set (db_sessions db). json_session (scanSession row)"
    and "Atoi text = Some limit" and "0 < limit"
  shows "sessions_of (listSessions api (page_request filters text cursor)) =
    listing ss_SessionID (page_limit limit) (\<lambda>a. map scanSession (collation.after lt a (wanted_sessions filters db))) cursor"
proof -
  let ?rows = "take (page_limit limit) (collation.after lt cursor (wanted_sessions filters db))"
  have distinct: "distinct (map fst (wanted_sessions filters db))" using assms(2) by (simp add: wanted_sessions_def distinct_map_filter)
  have page: "page_rows lt \<lparr>pg_Limit = int (page_limit limit), pg_After = cursor\<rparr> (wanted_sessions filters db) = ?rows"
    using collation.page_after [OF assms(1) distinct] by simp
  have norm: "Normalize \<lparr>pg_Limit = int (page_limit limit), pg_After = cursor\<rparr> =
      \<lparr>pg_Limit = int (page_limit limit), pg_After = cursor\<rparr>"
    using Normalize_page [of limit cursor] by (metis Normalize_idem)
  have "set ?rows \<subseteq> set (db_sessions db)"
    by (auto simp: collation.after_def [OF assms(1)] wanted_sessions_def dest!: in_set_takeD)
  then have "list_all json_session (map scanSession ?rows)" using assms(4) by (auto simp: list_all_iff)
  moreover have "rq_Query (page_request filters text cursor) ''station'' = filters ''station''"
    "rq_Query (page_request filters text cursor) ''open'' = filters ''open''"
    by (simp_all add: page_request_def)
  moreover have "ListSessions lt no_faults \<lparr>sq_StationID = filters ''station'', sq_OpenOnly = (filters ''open'' = ''true''),
      sq_Page = \<lparr>pg_Limit = int (page_limit limit), pg_After = cursor\<rparr>\<rparr> db = Inr (map scanSession ?rows)"
    unfolding page [symmetric] by (simp add: ListSessions_def norm wanted_sessions_def)
  ultimately show ?thesis
    using assms(3)
    by (simp add: listSessions_def pageFrom_request [OF assms(5,6)] postgres_repository_def no_store_faults_def
        sessions_of_def writeJSON_def listing_def Let_def take_map)
qed

text \<open>
  C33. Following the cursor visits everything once. On an unchanged database, a client that starts
  without a cursor and follows the cursor of each answer, with any page size the API accepts, ends
  after at most one request more than there are rows, having received every station exactly once, in
  order of its identifier; and likewise every session that its filters select.
\<close>

theorem cursor_lists_everything_once:
  assumes lt: "collation lt" and wf: "db_wf db" and named: "[] \<notin> fst ` set (db_stations db)" "[] \<notin> fst ` set (db_sessions db)"
    and repo: "api_repository api = postgres_repository lt no_store_faults clock db"
    and json: "\<forall>row\<in>set (db_stations db). json_station (station_of row)"
      "\<forall>row\<in>set (db_sessions db). json_session (scanSession row)"
    and accepted: "Atoi text = Some limit" "0 < limit"
  shows "crawl (\<lambda>cursor. stations_of (listStations api (page_request filters text cursor)))
      (Suc (length (db_stations db))) [] =
      Some (map station_of (sort_Slice (\<lambda>x y. lt (fst x) (fst y)) (db_stations db))) \<and>
    crawl (\<lambda>cursor. sessions_of (listSessions api (page_request filters text cursor)))
      (Suc (length (db_sessions db))) [] =
      Some (map scanSession (sort_Slice (\<lambda>x y. lt (fst x) (fst y)) (wanted_sessions filters db)))"
proof
  have distinct: "distinct (map fst (db_stations db))" "distinct (map fst (db_sessions db))"
    using wf by (simp_all add: db_wf_def)
  have wanted: "distinct (map fst (wanted_sessions filters db))" "[] \<notin> fst ` set (wanted_sessions filters db)"
    "length (wanted_sessions filters db) \<le> length (db_sessions db)"
    using distinct(2) named(2) by (auto simp: wanted_sessions_def distinct_map_filter)
  note pages = list_stations_page [OF lt distinct(1) repo json(1) accepted]
    list_sessions_page [OF lt distinct(2) repo json(2) accepted]
  have "length (collation.after lt [] (db_stations db)) < Suc (length (db_stations db))"
    by (simp add: collation.after_empty [OF lt named(1)])
  from collation.crawl_table [OF lt distinct(1) named(1) page_limit_pos _ this, of st_StationID station_of limit]
  show "crawl (\<lambda>cursor. stations_of (listStations api (page_request filters text cursor)))
      (Suc (length (db_stations db))) [] =
      Some (map station_of (sort_Slice (\<lambda>x y. lt (fst x) (fst y)) (db_stations db)))"
    unfolding pages by (simp add: station_of_def case_prod_beta collation.after_empty [OF lt named(1)])
  have "length (collation.after lt [] (wanted_sessions filters db)) < Suc (length (db_sessions db))"
    using wanted(3) by (simp add: collation.after_empty [OF lt wanted(2)])
  from collation.crawl_table [OF lt wanted(1,2) page_limit_pos _ this, of ss_SessionID scanSession limit]
  show "crawl (\<lambda>cursor. sessions_of (listSessions api (page_request filters text cursor)))
      (Suc (length (db_sessions db))) [] =
      Some (map scanSession (sort_Slice (\<lambda>x y. lt (fst x) (fst y)) (wanted_sessions filters db)))"
    unfolding pages by (simp add: scanSession_def case_prod_beta collation.after_empty [OF lt wanted(2)])
qed

definition example_fleet_db :: Database where
  "example_fleet_db = empty_db\<lparr>db_stations :=
     map (\<lambda>name. (name, \<lparr>sr_last_seen_at = 0, sr_last_device_time = None, sr_updated_at = 0\<rparr>)) [''c'', ''a'', ''b'']\<rparr>"

definition example_api :: API where
  "example_api = api_New (postgres_repository (<) no_store_faults 0 example_fleet_db) None (300 * second_ns)
     \<lparr>po_CapacityKW = Fin 100, po_SafetyMarginKW = Fin 5, po_FallbackKW = Fin 20,
      po_ObservationFreshness = 300 * second_ns, po_MaxConnectorKW = Fin 350\<rparr>"

theorem cursor_lists_everything_once_witness:
  "map_option (map st_StationID)
     (crawl (\<lambda>cursor. stations_of (listStations example_api (page_request (\<lambda>_. []) ''2'' cursor))) 4 []) =
   Some [''a'', ''b'', ''c'']"
proof -
  have wf: "db_wf example_fleet_db"
    by (simp add: db_wf_def example_fleet_db_def empty_db_def keys_def)
  have fleet: "[] \<notin> fst ` set (db_stations example_fleet_db)" "[] \<notin> fst ` set (db_sessions example_fleet_db)"
    "\<forall>row\<in>set (db_stations example_fleet_db). json_station (station_of row)"
    "\<forall>row\<in>set (db_sessions example_fleet_db). json_session (scanSession row)"
    by (simp_all add: example_fleet_db_def empty_db_def json_station_def station_of_def json_time_def json_option_def second_ns_def)
  have two: "Atoi ''2'' = Some 2" by code_simp
  have repo: "api_repository example_api = postgres_repository (<) no_store_faults 0 example_fleet_db"
    by (simp add: example_api_def api_New_def)
  have size: "Suc (length (db_stations example_fleet_db)) = 4"
    and order: "map (st_StationID \<circ> station_of) (sort_Slice (\<lambda>x y. fst x < fst y) (db_stations example_fleet_db)) = [''a'', ''b'', ''c'']"
    by code_simp+
  show ?thesis
    using cursor_lists_everything_once [OF byte_collation.collation_axioms wf fleet(1,2) repo fleet(3,4) two, of "\<lambda>_. []"]
      order unfolding size by simp
qed

section \<open>One advice, two ways out\<close>

lemma demandsOf_eq: "demandsOf connectors = advice_demands connectors"
proof -
  have "fold (\<lambda>connector demands. demands @ [g connector]) connectors acc = acc @ map g connectors" for g :: "ConnectorDemand \<Rightarrow> Demand" and acc
    by (induction connectors arbitrary: acc) simp_all
  then show ?thesis by (simp add: demandsOf_def advice_demands_def)
qed

text \<open>
  C34. The endpoint and the publisher never disagree. When both are built on one repository and one
  policy, the advice that the publisher puts on a site's subject is the encoding of exactly the
  advice the endpoint answers for that site at the same instant without a capacity override, and a
  site whose demand cannot be read gets neither.
\<close>

theorem endpoint_agrees_with_publisher:
  assumes new: "NewPublisher stream subject repository policy interval retention broker = (Inr publisher, broker')"
    and api: "api = api_New repository ready silenceAfter policy"
    and plain: "rq_Query request ''capacity_kw'' = []"
  defines "site \<equiv> rq_PathValue request ''siteID''"
  shows "case publishSite env publisher site st of
      (None, st') \<Rightarrow> \<exists>computed payload.
         chargingAdvice api (ae_clock env (as_reads st)) request = writeJSON 200 (AdviceBody computed) \<and>
         ae_marshal env (Encode (ae_out_of_range env) computed) = Inr payload \<and>
         as_published st' = as_published st @ [(subject @ ''.'' @ site, payload)]
    | (Some err, st') \<Rightarrow> as_published st' = as_published st \<and>
         (isl (rp_ListSiteDemand repository site (2 * 60 * second_ns)) \<longleftrightarrow>
            chargingAdvice api (ae_clock env (as_reads st)) request = write_error 500 ''unable to read site demand'')"
proof -
  have publisher: "publisher = \<lparr>ap_subject = subject, ap_repository = repository, ap_policy = policy, ap_interval = interval,
      ap_activeWithin = 2 * 60 * second_ns\<rparr>"
    using new by (auto simp: NewPublisher_def split: prod.splits option.splits)
  have unlike: "writeJSON 200 body \<noteq> write_error 500 message" for body message
    by (simp add: writeJSON_def write_error_def)
  show ?thesis
    using plain unlike
    by (auto simp: publisher api api_New_def publishSite_def chargingAdvice_def advice_policy_def Let_def demandsOf_eq
        latest_observation_def site_def split: sum.splits option.splits)
qed

definition example_advice_env :: AdviceEnv where
  "example_advice_env = \<lparr>ae_clock = (\<lambda>n. second_ns), ae_marshal = (\<lambda>m. Inr (sa_site_id m)), ae_publish = (\<lambda>n. None),
     ae_out_of_range = (\<lambda>x. 0)\<rparr>"

definition example_advice_state :: AdviceState where
  "example_advice_state = \<lparr>as_reads = 0, as_attempts = 0, as_published = [], as_failed = []\<rparr>"

definition example_broker :: "nat JetStream" where
  "example_broker = \<lparr>js_CreateOrUpdateStream = (\<lambda>config n. (None, n + 1)), js_CreateOrUpdateConsumer = (\<lambda>stream config n. (None, n + 1))\<rparr>"

definition example_repository :: Repository where
  "example_repository = (postgres_repository (<) no_store_faults 0 example_fleet_db)
     \<lparr>rp_ListActiveSites := (\<lambda>window. Inr [''bad'', ''good'']),
      rp_ListSiteDemand := (\<lambda>site window. if site = ''bad'' then Inl (PlainError ''timeout'')
         else Inr [\<lparr>cd_StationID = ''a'', cd_ConnectorID = ''1'', cd_PowerKW = Fin 7, cd_State = ''CHARGING'', cd_ObservedAt = 0\<rparr>])\<rparr>"

definition example_policy_kw :: Policy where
  "example_policy_kw = \<lparr>po_CapacityKW = Fin 100, po_SafetyMarginKW = Fin 5, po_FallbackKW = Fin 20,
     po_ObservationFreshness = 300 * second_ns, po_MaxConnectorKW = Fin 350\<rparr>"

definition example_publisher :: AdvicePublisher where
  "example_publisher = \<lparr>ap_subject = ''advice'', ap_repository = example_repository, ap_policy = example_policy_kw,
     ap_interval = second_ns, ap_activeWithin = 2 * 60 * second_ns\<rparr>"

lemma example_NewPublisher:
  "NewPublisher example_broker ''advice'' example_repository example_policy_kw second_ns second_ns 0 = (Inr example_publisher, 1)"
  by (simp add: NewPublisher_def example_broker_def example_publisher_def)

theorem endpoint_agrees_with_publisher_witness:
  "\<exists>computed. chargingAdvice (api_New example_repository None second_ns example_policy_kw) second_ns
       \<lparr>rq_PathValue = (\<lambda>_. ''good''), rq_Query = (\<lambda>_. [])\<rparr> = writeJSON 200 (AdviceBody computed) \<and>
     as_published (snd (publishSite example_advice_env example_publisher ''good'' example_advice_state)) =
       [(''advice.good'', sa_site_id (Encode (\<lambda>x. 0) computed))]"
proof -
  have "fst (publishSite example_advice_env example_publisher ''good'' example_advice_state) = None" by code_simp
  then obtain st' where run: "publishSite example_advice_env example_publisher ''good'' example_advice_state = (None, st')"
    by (metis prod.collapse)
  let ?request = "\<lparr>rq_PathValue = (\<lambda>_. ''good''), rq_Query = (\<lambda>_. [])\<rparr> :: Request"
  have "rq_Query ?request ''capacity_kw'' = []" by simp
  from endpoint_agrees_with_publisher [where env = example_advice_env and st = example_advice_state and ready = None and silenceAfter = second_ns,
      OF example_NewPublisher refl this]
  obtain computed where "chargingAdvice (api_New example_repository None second_ns example_policy_kw)
      (ae_clock example_advice_env (as_reads example_advice_state)) ?request = writeJSON 200 (AdviceBody computed)"
    and "\<exists>payload. ae_marshal example_advice_env (Encode (ae_out_of_range example_advice_env) computed) = Inr payload \<and>
      as_published st' = as_published example_advice_state @ [(''advice'' @ ''.'' @ ''good'', payload)]"
    using run by auto
  then show ?thesis using run
    by (intro exI [of _ computed]) (auto simp: example_advice_env_def example_advice_state_def)
qed

text \<open>
  C35. One site's trouble never costs another its advice. A round that can list the active sites treats
  each of them exactly once, publishing or reporting its error; everything published on a site's
  subject is the advice computed from that site's own demand and latest observation, with its basis
  and every outcome specified; and as long as the encoder and the broker accept, the sites published
  are exactly those whose demand could be read.
\<close>

theorem round_isolates_sites:
  assumes "rp_ListActiveSites (ap_repository publisher) (ap_activeWithin publisher) = Inr sites"
  shows "\<exists>st' sent failures. publishRound env publisher st = (None, st') \<and>
    as_published st' = as_published st @ map (\<lambda>(site, payload). (ap_subject publisher @ ''.'' @ site, payload)) sent \<and>
    as_failed st' = as_failed st @ failures \<and>
    mset (map fst sent @ map fst failures) = mset sites \<and>
    list_all (\<lambda>(site, payload). advises env publisher site payload) sent \<and>
    ((\<forall>m. \<not> isl (ae_marshal env m)) \<and> (\<forall>n. ae_publish env n = None) \<longrightarrow>
       map fst sent = filter (readable publisher) sites)"
  using sites_fold [of env publisher sites st] assms by (auto simp: publishRound_def)

theorem round_isolates_sites_witness:
  "\<exists>st' sent. publishRound example_advice_env example_publisher example_advice_state = (None, st') \<and>
     as_published st' = map (\<lambda>(site, payload). (''advice'' @ ''.'' @ site, payload)) sent \<and> map fst sent = [''good'']"
proof -
  have "rp_ListActiveSites (ap_repository example_publisher) (ap_activeWithin example_publisher) = Inr [''bad'', ''good'']"
    by (simp add: example_publisher_def example_repository_def)
  from round_isolates_sites [OF this, of example_advice_env example_advice_state]
  obtain st' sent where "publishRound example_advice_env example_publisher example_advice_state = (None, st')"
    "as_published st' = as_published example_advice_state @ map (\<lambda>(site, payload). (ap_subject example_publisher @ ''.'' @ site, payload)) sent"
    "(\<forall>m. \<not> isl (ae_marshal example_advice_env m)) \<and> (\<forall>n. ae_publish example_advice_env n = None) \<longrightarrow>
       map fst sent = filter (readable example_publisher) [''bad'', ''good'']"
    by blast
  then show ?thesis
    by (auto simp: example_advice_env_def example_advice_state_def example_publisher_def example_repository_def readable_def)
qed

text \<open>A capacity of \<open>NaN\<close> is accepted, and the answer is a success without a body.\<close>

definition nan_request :: Request where
  "nan_request = \<lparr>rq_PathValue = (\<lambda>_. ''site''), rq_Query = (\<lambda>_. ''NaN'')\<rparr>"

lemma nan_capacity_is_accepted:
  assumes "rp_ListSiteDemand (api_repository api) ''site'' (api_demandFreshness api) = Inr demand"
  shows "rs_Status (chargingAdvice api clock nan_request) = 200" "rs_Body (chargingAdvice api clock nan_request) = None"
proof -
  have p: "ParseFloat ''NaN'' = Some NaN" by code_simp
  then have policy: "advice_policy api nan_request = Some ((api_advicePolicy api)\<lparr>po_CapacityKW := NaN\<rparr>)"
    by (simp add: advice_policy_def nan_request_def fle_def flt_def feq_def)
  have "\<not> json_advice (Compute ''site'' ((api_advicePolicy api)\<lparr>po_CapacityKW := NaN\<rparr>) latest demands clock)" for latest demands
    by (auto simp: json_advice_def json_float_def Compute_def Let_def split: option.splits)
  then show "rs_Status (chargingAdvice api clock nan_request) = 200" "rs_Body (chargingAdvice api clock nan_request) = None"
    using assms policy by (simp_all add: chargingAdvice_def writeJSON_def nan_request_def Let_def)
qed

end
