(* ===== verification/Edge_Io.thy ===== *)
theory Edge_Io
  imports GoParse "HOL-Library.AList" "HOL-Library.Word"
begin

text \<open>
  The machine the edge agent runs on: one directory of files, the connection to the event bus, and a
  fate that decides at every call to the outside whether it works, fails with an error, or is the last
  thing the process does. A call that fails has no effect, except that a write may have been short; a
  process is killed before the effect of its last call, after it, or in the middle of a write. A Rust function that returns \<open>io::Result\<close> and may be killed is a function from the machine
  to a reply and the machine it leaves; \<open>try_io\<close> is the operator \<open>?\<close>.
\<close>

section \<open>Replies\<close>

datatype io_error = NotFound | InvalidInput string | IoError

datatype ('e, 'a) reply = Ok 'a | Err 'e | Killed

datatype fault = Works | Fails nat | Dies nat

type_synonym ('s, 'e, 'a) call = "'s \<Rightarrow> ('e, 'a) reply \<times> 's"

definition try_io :: "('s, 'e, 'a) call \<Rightarrow> ('a \<Rightarrow> ('s, 'e, 'b) call) \<Rightarrow> ('s, 'e, 'b) call" where
  "try_io m f s =
     (case m s of
        (Ok x, s') \<Rightarrow> f x s'
      | (Err e, s') \<Rightarrow> (Err e, s')
      | (Killed, s') \<Rightarrow> (Killed, s'))"

definition ok :: "'a \<Rightarrow> ('s, 'e, 'a) call" where
  "ok x s = (Ok x, s)"

text \<open>\<open>unwrap_or\<close>: an error becomes a default; a process that was killed stays dead.\<close>

definition unwrap_or :: "'a \<Rightarrow> ('s, 'e, 'a) call \<Rightarrow> ('s, 'f, 'a) call" where
  "unwrap_or d m s =
     (case m s of
        (Ok x, s') \<Rightarrow> (Ok x, s')
      | (Err e, s') \<Rightarrow> (Ok d, s')
      | (Killed, s') \<Rightarrow> (Killed, s'))"

lemma try_io_cong [fundef_cong]:
  "m s = m' s' \<Longrightarrow> (\<And>x t. m' s' = (Ok x, t) \<Longrightarrow> f x t = f' x t) \<Longrightarrow> try_io m f s = try_io m' f' s'"
  by (auto simp: try_io_def split: prod.splits reply.splits)

text \<open>What a call guarantees of its reply and of the state it leaves.\<close>

definition ends :: "('s, 'e, 'a) call \<Rightarrow> (('e, 'a) reply \<Rightarrow> 's \<Rightarrow> bool) \<Rightarrow> 's \<Rightarrow> bool" where
  "ends m Q s \<longleftrightarrow> (case m s of (r, s') \<Rightarrow> Q r s')"

lemma ends_try:
  "ends (try_io m f) Q s \<longleftrightarrow>
     ends m (\<lambda>r s'. case r of Ok x \<Rightarrow> ends (f x) Q s' | Err e \<Rightarrow> Q (Err e) s' | Killed \<Rightarrow> Q Killed s') s"
  by (auto simp: ends_def try_io_def split: prod.splits reply.splits)

lemma ends_ok [simp]: "ends (ok x) Q s \<longleftrightarrow> Q (Ok x) s"
  by (simp add: ends_def ok_def)

lemma ends_unwrap:
  "ends (unwrap_or d m) Q s \<longleftrightarrow>
     ends m (\<lambda>r s'. case r of Ok x \<Rightarrow> Q (Ok x) s' | Err e \<Rightarrow> Q (Ok d) s' | Killed \<Rightarrow> Q Killed s') s"
  by (auto simp: ends_def unwrap_or_def split: prod.splits reply.splits)

lemma ends_weaken: "ends m Q s \<Longrightarrow> (\<And>r s'. Q r s' \<Longrightarrow> Q' r s') \<Longrightarrow> ends m Q' s"
  by (auto simp: ends_def split: prod.splits)

lemma ends_conj: "ends m Q s \<Longrightarrow> ends m Q' s \<Longrightarrow> ends m (\<lambda>r s'. Q r s' \<and> Q' r s') s"
  by (auto simp: ends_def split: prod.splits)

lemma endsD: "ends m Q s \<Longrightarrow> m s = (r, s') \<Longrightarrow> Q r s'"
  by (simp add: ends_def)

lemma endsI: "(\<And>r s'. m s = (r, s') \<Longrightarrow> Q r s') \<Longrightarrow> ends m Q s"
  by (simp add: ends_def split: prod.splits)

lemma ends_then:
  assumes "ends m P s" "\<And>x t. P (Ok x) t \<Longrightarrow> ends (f x) Q t" "\<And>e t. P (Err e) t \<Longrightarrow> Q (Err e) t" "\<And>t. P Killed t \<Longrightarrow> Q Killed t"
  shows "ends (try_io m f) Q s"
  unfolding ends_try by (rule ends_weaken [OF assms(1)]) (use assms(2-) in \<open>auto split: reply.splits\<close>)

lemma ends_subst: "m s = m' s \<Longrightarrow> ends m' Q s \<Longrightarrow> ends m Q s"
  by (simp add: ends_def)

section \<open>The machine\<close>

text \<open>
  A directory is an association list of file names and contents. \<open>mc_bus\<close> holds the messages the broker
  has stored, with their subjects; \<open>mc_stores\<close> says of the n-th message that is sent whether the broker
  stores it.
\<close>

type_synonym files = "(string \<times> string) list"

record Machine =
  mc_files :: files
  mc_faults :: "nat \<Rightarrow> fault"
  mc_calls :: nat
  mc_bus :: "(string \<times> string) list"
  mc_sent :: nat
  mc_stores :: "nat \<Rightarrow> bool"

definition fault_now :: "'z Machine_scheme \<Rightarrow> fault" where
  "fault_now m = mc_faults m (mc_calls m)"

definition called :: "'z Machine_scheme \<Rightarrow> 'z Machine_scheme" where
  "called m = m\<lparr>mc_calls := Suc (mc_calls m)\<rparr>"

text \<open>
  A call that answers from the files and changes them: wholly when it works, and as far as it came when
  it fails or the process dies.
\<close>

definition syscall ::
  "(files \<Rightarrow> (io_error, 'a) reply) \<Rightarrow> (files \<Rightarrow> files) \<Rightarrow> (nat \<Rightarrow> files \<Rightarrow> files) \<Rightarrow> (nat \<Rightarrow> files \<Rightarrow> files) \<Rightarrow>
   ('z Machine_scheme, io_error, 'a) call" where
  "syscall result wholly failing dying m =
     (case fault_now m of
        Works \<Rightarrow> (result (mc_files m), (called m)\<lparr>mc_files := wholly (mc_files m)\<rparr>)
      | Fails k \<Rightarrow> (Err IoError, (called m)\<lparr>mc_files := failing k (mc_files m)\<rparr>)
      | Dies k \<Rightarrow> (Killed, (called m)\<lparr>mc_files := dying k (mc_files m)\<rparr>))"

text \<open>A call that happens as a whole or not at all, and one that only reads.\<close>

definition atomic_call :: "(files \<Rightarrow> (io_error, 'a) reply) \<Rightarrow> (files \<Rightarrow> files) \<Rightarrow> ('z Machine_scheme, io_error, 'a) call" where
  "atomic_call result effect = syscall result effect (\<lambda>k fs. fs) (\<lambda>k fs. if k = 0 then fs else effect fs)"

definition reading_call :: "(files \<Rightarrow> (io_error, 'a) reply) \<Rightarrow> ('z Machine_scheme, io_error, 'a) call" where
  "reading_call result = syscall result (\<lambda>fs. fs) (\<lambda>k fs. fs) (\<lambda>k fs. fs)"

section \<open>Files\<close>

definition content :: "files \<Rightarrow> string \<Rightarrow> string" where
  "content fs name = (case map_of fs name of None \<Rightarrow> [] | Some c \<Rightarrow> c)"

definition create_dir_all :: "('z Machine_scheme, io_error, unit) call" where
  "create_dir_all = reading_call (\<lambda>fs. Ok ())"

definition read_dir :: "('z Machine_scheme, io_error, string list) call" where
  "read_dir = reading_call (\<lambda>fs. Ok (map fst fs))"

text \<open>\<open>File::open\<close> and the reads up to the end of the file; \<open>fs::read_to_string\<close>.\<close>

definition read_file :: "string \<Rightarrow> ('z Machine_scheme, io_error, string) call" where
  "read_file name = reading_call (\<lambda>fs. case map_of fs name of None \<Rightarrow> Err NotFound | Some c \<Rightarrow> Ok c)"

definition metadata_len :: "string \<Rightarrow> ('z Machine_scheme, io_error, nat) call" where
  "metadata_len name = reading_call (\<lambda>fs. case map_of fs name of None \<Rightarrow> Err NotFound | Some c \<Rightarrow> Ok (length c))"

text \<open>\<open>OpenOptions::new().create(true).append(true).open\<close>, and \<open>File::create\<close>, which empties the file.\<close>

definition create_if_missing :: "string \<Rightarrow> files \<Rightarrow> files" where
  "create_if_missing name fs = (if map_of fs name = None then AList.update name [] fs else fs)"

definition open_append :: "string \<Rightarrow> ('z Machine_scheme, io_error, unit) call" where
  "open_append name = atomic_call (\<lambda>fs. Ok ()) (create_if_missing name)"

definition create_file :: "string \<Rightarrow> ('z Machine_scheme, io_error, unit) call" where
  "create_file name = atomic_call (\<lambda>fs. Ok ()) (AList.update name [])"

definition resize :: "nat \<Rightarrow> string \<Rightarrow> string" where
  "resize n c = take n c @ replicate (n - length c) (CHR 0x00)"

definition set_len :: "string \<Rightarrow> nat \<Rightarrow> ('z Machine_scheme, io_error, unit) call" where
  "set_len name n =
     atomic_call (\<lambda>fs. if map_of fs name = None then Err NotFound else Ok ())
       (\<lambda>fs. case map_of fs name of None \<Rightarrow> fs | Some c \<Rightarrow> AList.update name (resize n c) fs)"

definition remove_file :: "string \<Rightarrow> ('z Machine_scheme, io_error, unit) call" where
  "remove_file name =
     atomic_call (\<lambda>fs. if map_of fs name = None then Err NotFound else Ok ()) (AList.delete name)"

definition rename :: "string \<Rightarrow> string \<Rightarrow> ('z Machine_scheme, io_error, unit) call" where
  "rename from to =
     atomic_call (\<lambda>fs. if map_of fs from = None then Err NotFound else Ok ())
       (\<lambda>fs. case map_of fs from of None \<Rightarrow> fs | Some c \<Rightarrow> AList.update to c (AList.delete from fs))"

text \<open>
  \<open>write_all\<close> at the end of an open file appends; a file that was removed meanwhile takes the bytes out
  of the directory with it. \<open>written\<close> is how many bytes a call that does not work still wrote.
\<close>

definition append_bytes :: "string \<Rightarrow> string \<Rightarrow> files \<Rightarrow> files" where
  "append_bytes name bs fs = (case map_of fs name of None \<Rightarrow> fs | Some c \<Rightarrow> AList.update name (c @ bs) fs)"

definition write_all :: "string \<Rightarrow> string \<Rightarrow> ('z Machine_scheme, io_error, unit) call" where
  "write_all name bs =
     syscall (\<lambda>fs. Ok ()) (append_bytes name bs) (\<lambda>k. append_bytes name (take k bs)) (\<lambda>k. append_bytes name (take k bs))"

definition written :: "fault \<Rightarrow> string \<Rightarrow> nat" where
  "written f bs = (case f of Works \<Rightarrow> length bs | Fails k \<Rightarrow> min k (length bs) | Dies k \<Rightarrow> min k (length bs))"

section \<open>What the calls do\<close>

lemmas call_defs = create_dir_all_def read_dir_def read_file_def metadata_len_def open_append_def
  create_file_def set_len_def remove_file_def rename_def write_all_def atomic_call_def reading_call_def

lemma map_of_update [simp]: "map_of (AList.update k v fs) = (map_of fs)(k \<mapsto> v)"
  by (rule update_conv')

lemma map_of_delete [simp]: "map_of (AList.delete k fs) = (map_of fs)(k := None)"
  by (rule delete_conv')

lemma map_of_create_if_missing:
  "map_of (create_if_missing name fs) = (if map_of fs name = None then (map_of fs)(name \<mapsto> []) else map_of fs)"
  by (simp add: create_if_missing_def)

lemma map_of_append_bytes:
  "map_of (append_bytes name bs fs) =
     (case map_of fs name of None \<Rightarrow> map_of fs | Some c \<Rightarrow> (map_of fs)(name \<mapsto> c @ bs))"
  by (simp add: append_bytes_def split: option.splits)

lemma ends_syscall:
  "ends (syscall result wholly failing dying) Q m \<longleftrightarrow>
     (case fault_now m of
        Works \<Rightarrow> Q (result (mc_files m)) ((called m)\<lparr>mc_files := wholly (mc_files m)\<rparr>)
      | Fails k \<Rightarrow> Q (Err IoError) ((called m)\<lparr>mc_files := failing k (mc_files m)\<rparr>)
      | Dies k \<Rightarrow> Q Killed ((called m)\<lparr>mc_files := dying k (mc_files m)\<rparr>))"
  by (simp add: ends_def syscall_def split: fault.splits)

lemma called_simps [simp]:
  "mc_files (called m) = mc_files m" "mc_bus (called m) = mc_bus m" "mc_sent (called m) = mc_sent m"
  "mc_stores (called m) = mc_stores m" "mc_faults (called m) = mc_faults m"
  by (simp_all add: called_def)

end
