(* ===== verification/Edge_Spool.thy ===== *)
theory Edge_Spool
  imports Edge_Io
begin

text \<open>
  \<open>edge/orvolt-edge-agent/src/spool.rs\<close>: the segmented log that keeps telemetry on flash until the bus has
  confirmed it. File names are relative to the spool's directory. \<open>crc32fast::hash\<close> is the parameter
  \<open>crc\<close>. Sizes and offsets are natural numbers; the index of a segment wraps at 64 bits as in a release
  build. A \<open>BTreeSet\<close> is the ascending list of its elements.
\<close>

section \<open>Data\<close>

definition RECORD_HEADER_BYTES :: nat where
  "RECORD_HEADER_BYTES = 8"

definition MAX_RECORD_BYTES :: int where
  "MAX_RECORD_BYTES = 1048576"

record Cursor =
  cu_segment :: nat
  cu_offset :: nat

definition default_cursor :: Cursor where
  "default_cursor = \<lparr>cu_segment = 0, cu_offset = 0\<rparr>"

record SpoolConfig =
  sc_segment_bytes :: nat
  sc_max_total_bytes :: nat

definition default_config :: SpoolConfig where
  "default_config = \<lparr>sc_segment_bytes = 4194304, sc_max_total_bytes = 268435456\<rparr>"

text \<open>The active segment with what its \<open>BufWriter\<close> holds back.\<close>

record ActiveSegment =
  ac_index :: nat
  ac_buffer :: string
  ac_bytes :: nat

record Spool =
  sp_config :: SpoolConfig
  sp_segments :: "nat list"
  sp_active :: "ActiveSegment option"
  sp_cursor :: Cursor
  sp_dropped_records :: nat
  sp_corrupt_records :: nat

text \<open>
  The machine with a spool in memory. \<open>st_discarded\<close> is a history variable: the undelivered records whose
  segment the size ceiling removed, which the code only counts.
\<close>

record Spooled = Machine +
  st_spool :: Spool
  st_discarded :: "string list"

definition on_spool :: "(Spool \<Rightarrow> Spool) \<Rightarrow> 'z Spooled_scheme \<Rightarrow> 'z Spooled_scheme" where
  "on_spool f s = s\<lparr>st_spool := f (st_spool s)\<rparr>"

definition modify :: "(Spool \<Rightarrow> Spool) \<Rightarrow> ('z Spooled_scheme, 'e, unit) call" where
  "modify f s = (Ok (), on_spool f s)"

section \<open>Names\<close>

definition SEGMENT_PREFIX :: string where
  "SEGMENT_PREFIX = ''seg-''"

definition SEGMENT_SUFFIX :: string where
  "SEGMENT_SUFFIX = ''.log''"

definition CURSOR_FILE :: string where
  "CURSOR_FILE = ''cursor''"

definition CURSOR_TMP :: string where
  "CURSOR_TMP = ''cursor.tmp''"

text \<open>\<open>{index:020}\<close>\<close>

definition pad20 :: "string \<Rightarrow> string" where
  "pad20 digits = replicate (20 - length digits) (CHR ''0'') @ digits"

definition segment_path :: "nat \<Rightarrow> string" where
  "segment_path index = SEGMENT_PREFIX @ pad20 (nat_digits index) @ SEGMENT_SUFFIX"

text \<open>\<open>str::parse::<u64>\<close> takes an optional plus sign and digits whose value fits.\<close>

definition parse_u64 :: "string \<Rightarrow> nat option" where
  "parse_u64 s =
     (let digits = (if s \<noteq> [] \<and> hd s = CHR ''+'' then tl s else s)
      in if all_digits digits \<and> int (digits_value digits) < 2 ^ 64 then Some (digits_value digits) else None)"

definition strip_prefix :: "string \<Rightarrow> string \<Rightarrow> string option" where
  "strip_prefix p s = (if take (length p) s = p then Some (drop (length p) s) else None)"

definition strip_suffix :: "string \<Rightarrow> string \<Rightarrow> string option" where
  "strip_suffix p s =
     (if length p \<le> length s \<and> drop (length s - length p) s = p then Some (take (length s - length p) s) else None)"

definition segment_index :: "string \<Rightarrow> nat option" where
  "segment_index name =
     Option.bind (Option.bind (strip_prefix SEGMENT_PREFIX name) (strip_suffix SEGMENT_SUFFIX)) parse_u64"

section \<open>Records\<close>

text \<open>\<open>u32::to_le_bytes\<close> and \<open>u32::from_le_bytes\<close>\<close>

definition to_le_bytes :: "int \<Rightarrow> string" where
  "to_le_bytes n =
     [char_of (n mod 256), char_of (n div 256 mod 256), char_of (n div 256 div 256 mod 256),
      char_of (n div 256 div 256 div 256 mod 256)]"

definition from_le_bytes :: "string \<Rightarrow> int" where
  "from_le_bytes bs = of_char (bs ! 0) + 256 * of_char (bs ! 1) + 256 ^ 2 * of_char (bs ! 2) + 256 ^ 3 * of_char (bs ! 3)"

type_synonym checksum = "string \<Rightarrow> 32 word"

definition encode_record :: "checksum \<Rightarrow> string \<Rightarrow> string" where
  "encode_record crc payload = to_le_bytes (int (length payload)) @ to_le_bytes (uint (crc payload)) @ payload"

datatype RecordRead = Record string nat | EndOfSegment | Corrupt

text \<open>\<open>read_exact\<close> on the bytes that are left meets the end of the file when there are too few.\<close>

definition read_record :: "checksum \<Rightarrow> string \<Rightarrow> RecordRead" where
  "read_record crc rest =
     (if length rest < RECORD_HEADER_BYTES then EndOfSegment
      else let len = from_le_bytes (take 4 rest);
               expected = from_le_bytes (take 4 (drop 4 rest));
               payload = take (nat len) (drop RECORD_HEADER_BYTES rest)
           in if len = 0 \<or> MAX_RECORD_BYTES < len then Corrupt
              else if int (length rest) < int RECORD_HEADER_BYTES + len then Corrupt
              else if uint (crc payload) \<noteq> expected then Corrupt
              else Record payload (RECORD_HEADER_BYTES + nat len))"

lemma read_record_consumes: "read_record crc rest = Record p n \<Longrightarrow> 0 < n \<and> n \<le> length rest"
  by (auto simp: read_record_def Let_def RECORD_HEADER_BYTES_def split: if_splits)

text \<open>The loop of \<open>count_records\<close> and \<open>recover_newest_segment\<close>: the records up to the first that cannot be read.\<close>

function scan_records :: "checksum \<Rightarrow> string \<Rightarrow> (string \<times> nat) list" where
  "scan_records crc rest =
     (case read_record crc rest of
        Record payload consumed \<Rightarrow> (payload, consumed) # scan_records crc (drop consumed rest)
      | EndOfSegment \<Rightarrow> []
      | Corrupt \<Rightarrow> [])"
  by pat_completeness auto
termination
  by (relation "measure (\<lambda>(crc, rest). length rest)") (auto dest!: read_record_consumes)

declare scan_records.simps [simp del]

text \<open>
  The inner loop of \<open>read_from_segment\<close>: whether the segment is exhausted, whether that was for a corrupt
  record, the new offset and the records.
\<close>

function read_loop :: "checksum \<Rightarrow> nat \<Rightarrow> string \<Rightarrow> nat \<Rightarrow> string list \<Rightarrow> bool \<times> bool \<times> nat \<times> string list" where
  "read_loop crc limit rest offset records =
     (if length records < limit
      then case read_record crc rest of
             Record payload consumed \<Rightarrow> read_loop crc limit (drop consumed rest) (offset + consumed) (records @ [payload])
           | EndOfSegment \<Rightarrow> (True, False, offset, records)
           | Corrupt \<Rightarrow> (True, True, offset, records)
      else (False, False, offset, records))"
  by pat_completeness auto
termination
  by (relation "measure (\<lambda>(crc, limit, rest, offset, records). length rest)") (auto dest!: read_record_consumes)

declare read_loop.simps [simp del]

section \<open>Reading\<close>

definition segment_at_or_after :: "Spool \<Rightarrow> nat \<Rightarrow> nat option" where
  "segment_at_or_after sp segment =
     (case filter (\<lambda>i. segment \<le> i) (sp_segments sp) of [] \<Rightarrow> None | i # _ \<Rightarrow> Some i)"

definition segment_after :: "Spool \<Rightarrow> nat \<Rightarrow> nat option" where
  "segment_after sp segment = segment_at_or_after sp (segment + 1)"

definition bump_corrupt :: "Spool \<Rightarrow> Spool" where
  "bump_corrupt sp = sp\<lparr>sp_corrupt_records := sp_corrupt_records sp + 1\<rparr>"

text \<open>A missing file counts as exhausted; the result is the answer, the cursor and the records read so far.\<close>

definition read_from_segment ::
  "checksum \<Rightarrow> nat \<Rightarrow> Cursor \<Rightarrow> nat \<Rightarrow> string list \<Rightarrow>
   ('z Spooled_scheme, io_error, bool \<times> Cursor \<times> string list) call" where
  "read_from_segment crc segment cursor limit records s =
     (case read_file (segment_path segment) s of
        (Killed, s') \<Rightarrow> (Killed, s')
      | (Err NotFound, s') \<Rightarrow> (Ok (True, cursor, records), s')
      | (Err e, s') \<Rightarrow> (Err e, s')
      | (Ok bytes, s') \<Rightarrow>
          (case read_loop crc limit (drop (cu_offset cursor) bytes) (cu_offset cursor) records of
             (exhausted, corrupt, offset, records') \<Rightarrow>
               (Ok (exhausted, cursor\<lparr>cu_offset := offset\<rparr>, records'), if corrupt then on_spool bump_corrupt s' else s')))"

lemma syscall_spool: "syscall result wholly failing dying s = (r, s') \<Longrightarrow> st_spool s' = st_spool s \<and> st_discarded s' = st_discarded s"
  by (auto simp: syscall_def called_def split: fault.splits)

lemma read_from_segment_segments:
  "read_from_segment crc segment cursor limit records s = (r, s') \<Longrightarrow> sp_segments (st_spool s') = sp_segments (st_spool s)"
  by (auto simp: read_from_segment_def call_defs on_spool_def bump_corrupt_def dest!: syscall_spool
      split: prod.splits reply.splits io_error.splits if_splits)

lemma segment_at_or_after_Some: "segment_at_or_after sp c = Some i \<Longrightarrow> i \<in> set (sp_segments sp) \<and> c \<le> i"
proof -
  assume "segment_at_or_after sp c = Some i"
  then obtain rest where "filter (\<lambda>k. c \<le> k) (sp_segments sp) = i # rest"
    by (auto simp: segment_at_or_after_def split: list.splits)
  then have "i \<in> set (filter (\<lambda>k. c \<le> k) (sp_segments sp))" by (metis list.set_intros(1))
  then show ?thesis by simp
qed

lemma segment_after_smaller:
  assumes "segment_at_or_after sp c = Some i" "segment_after sp i = Some j"
  shows "length (filter (\<lambda>k. j \<le> k) (sp_segments sp)) < length (filter (\<lambda>k. c \<le> k) (sp_segments sp))"
proof -
  have i: "i \<in> set (sp_segments sp)" "c \<le> i" and j: "i < j"
    using segment_at_or_after_Some assms by (fastforce simp: segment_after_def)+
  then have *: "filter (\<lambda>k. j \<le> k) (sp_segments sp) = filter (\<lambda>k. j \<le> k) (filter (\<lambda>k. c \<le> k) (sp_segments sp))"
    by (auto intro: filter_cong)
  show ?thesis unfolding * by (rule length_filter_less [of i]) (use i j in auto)
qed

function read_segments ::
  "checksum \<Rightarrow> Cursor \<Rightarrow> nat \<Rightarrow> string list \<Rightarrow> ('z Spooled_scheme, io_error, string list \<times> Cursor) call" where
  "read_segments crc cursor limit records s =
     (case segment_at_or_after (st_spool s) (cu_segment cursor) of
        None \<Rightarrow> (Ok (records, cursor), s)
      | Some segment \<Rightarrow>
          (case read_from_segment crc segment
                  (if segment \<noteq> cu_segment cursor then \<lparr>cu_segment = segment, cu_offset = 0\<rparr> else cursor) limit records s of
             (Killed, s') \<Rightarrow> (Killed, s')
           | (Err e, s') \<Rightarrow> (Err e, s')
           | (Ok (exhausted, cursor', records'), s') \<Rightarrow>
               if limit \<le> length records' \<or> \<not> exhausted then (Ok (records', cursor'), s')
               else (case segment_after (st_spool s) segment of
                       None \<Rightarrow> (Ok (records', cursor'), s')
                     | Some following \<Rightarrow> read_segments crc \<lparr>cu_segment = following, cu_offset = 0\<rparr> limit records' s')))"
  by pat_completeness auto
termination
  by (relation "measure (\<lambda>(crc, cursor, limit, records, s). length (filter (\<lambda>k. cu_segment cursor \<le> k) (sp_segments (st_spool s))))")
     (auto dest!: sym [THEN read_from_segment_segments] simp: segment_after_smaller)

declare read_segments.simps [simp del]

definition read_batch :: "checksum \<Rightarrow> nat \<Rightarrow> ('z Spooled_scheme, io_error, string list \<times> Cursor) call" where
  "read_batch crc limit s =
     (if limit = 0 then (Ok ([], sp_cursor (st_spool s)), s)
      else read_segments crc (sp_cursor (st_spool s)) limit [] s)"

definition is_empty :: "checksum \<Rightarrow> ('z Spooled_scheme, io_error, bool) call" where
  "is_empty crc = try_io (read_batch crc 1) (\<lambda>(records, cursor). ok (records = []))"

section \<open>The cursor on disk\<close>

definition render_cursor :: "Cursor \<Rightarrow> string" where
  "render_cursor c = nat_digits (cu_segment c) @ '' '' @ nat_digits (cu_offset c)"

text \<open>
  \<open>split_whitespace\<close> on the cursor file, which holds digits and a space; \<open>parse().unwrap_or(0)\<close> on the
  first two words.
\<close>

definition is_space :: "char \<Rightarrow> bool" where
  "is_space c \<longleftrightarrow> c = CHR '' '' \<or> (CHR 0x09 \<le> c \<and> c \<le> CHR 0x0D)"

function split_whitespace :: "string \<Rightarrow> string list" where
  "split_whitespace s =
     (let t = dropWhile is_space s
      in if t = [] then []
         else takeWhile (\<lambda>c. \<not> is_space c) t # split_whitespace (dropWhile (\<lambda>c. \<not> is_space c) t))"
  by pat_completeness auto
termination
proof (relation "measure length")
  fix s :: string and t assume "t = dropWhile is_space s" "t \<noteq> []"
  then have "\<not> is_space (hd t)" "length t \<le> length s" by (simp_all add: hd_dropWhile length_dropWhile_le)
  then have "length (dropWhile (\<lambda>c. \<not> is_space c) t) < length t"
    using \<open>t \<noteq> []\<close> by (cases t) (simp_all add: le_imp_less_Suc length_dropWhile_le)
  with \<open>length t \<le> length s\<close> show "(dropWhile (\<lambda>c. \<not> is_space c) t, s) \<in> measure length" by simp
qed simp

declare split_whitespace.simps [simp del]

definition parse_or_zero :: "string \<Rightarrow> nat" where
  "parse_or_zero s = (case parse_u64 s of None \<Rightarrow> 0 | Some n \<Rightarrow> n)"

definition parse_cursor :: "string \<Rightarrow> Cursor" where
  "parse_cursor raw =
     (case split_whitespace raw of
        segment # offset # _ \<Rightarrow> \<lparr>cu_segment = parse_or_zero segment, cu_offset = parse_or_zero offset\<rparr>
      | _ \<Rightarrow> default_cursor)"

definition first_or :: "nat \<Rightarrow> nat list \<Rightarrow> nat" where
  "first_or d xs = (case xs of [] \<Rightarrow> d | x # _ \<Rightarrow> x)"

definition load_cursor :: "('z Spooled_scheme, io_error, Cursor) call" where
  "load_cursor s =
     (case read_file CURSOR_FILE s of
        (Killed, s') \<Rightarrow> (Killed, s')
      | (Err NotFound, s') \<Rightarrow> (Ok default_cursor, s')
      | (Err e, s') \<Rightarrow> (Err e, s')
      | (Ok raw, s') \<Rightarrow>
          (let cursor = parse_cursor raw; segments = sp_segments (st_spool s')
           in if cu_segment cursor \<in> set segments then (Ok cursor, s')
              else (Ok \<lparr>cu_segment = first_or 0 segments, cu_offset = 0\<rparr>, s')))"

definition store_cursor :: "('z Spooled_scheme, io_error, unit) call" where
  "store_cursor s =
     try_io (create_file CURSOR_TMP)
       (\<lambda>_. try_io (write_all CURSOR_TMP (render_cursor (sp_cursor (st_spool s))))
       (\<lambda>_. rename CURSOR_TMP CURSOR_FILE)) s"

section \<open>The buffered writer\<close>

text \<open>
  \<open>BufWriter\<close> with its default capacity. A flush that fails keeps what it could not write; a write that
  does not fit flushes first and goes past the buffer when it is larger than the buffer.
\<close>

definition BUFFER_CAPACITY :: int where
  "BUFFER_CAPACITY = 8192"

definition buffer :: "Spool \<Rightarrow> string" where
  "buffer sp = (case sp_active sp of None \<Rightarrow> [] | Some a \<Rightarrow> ac_buffer a)"

definition set_buffer :: "string \<Rightarrow> Spool \<Rightarrow> Spool" where
  "set_buffer bs sp = sp\<lparr>sp_active := map_option (\<lambda>a. a\<lparr>ac_buffer := bs\<rparr>) (sp_active sp)\<rparr>"

definition active_path :: "Spool \<Rightarrow> string" where
  "active_path sp = (case sp_active sp of None \<Rightarrow> [] | Some a \<Rightarrow> segment_path (ac_index a))"

definition flush_buf :: "('z Spooled_scheme, io_error, unit) call" where
  "flush_buf s =
     (if buffer (st_spool s) = [] then (Ok (), s)
      else case write_all (active_path (st_spool s)) (buffer (st_spool s)) s of
             (r, s') \<Rightarrow> (r, on_spool (set_buffer (drop (written (fault_now s) (buffer (st_spool s))) (buffer (st_spool s)))) s'))"

definition buf_write_all :: "string \<Rightarrow> ('z Spooled_scheme, io_error, unit) call" where
  "buf_write_all bs s =
     (let spare = BUFFER_CAPACITY - int (length (buffer (st_spool s))); push = modify (\<lambda>sp. set_buffer (buffer sp @ bs) sp)
      in if int (length bs) < spare then push s
         else try_io (if spare < int (length bs) then flush_buf else ok ())
                (\<lambda>_. if BUFFER_CAPACITY \<le> int (length bs) then (\<lambda>t. write_all (active_path (st_spool t)) bs t) else push) s)"

section \<open>Rotation and the size ceiling\<close>

text \<open>
  Replacing the active segment drops its writer, which flushes what is left and ignores the result.
\<close>

definition ensure_active_segment :: "('z Spooled_scheme, io_error, unit) call" where
  "ensure_active_segment s =
     (let sp = st_spool s;
          needs_rotation = (case sp_active sp of None \<Rightarrow> True | Some a \<Rightarrow> sc_segment_bytes (sp_config sp) \<le> ac_bytes a)
      in if \<not> needs_rotation then (Ok (), s)
         else let index = (if sp_segments sp = [] then 0 else nat (int (last (sp_segments sp) + 1) mod 2 ^ 64))
              in try_io (open_append (segment_path index))
                   (\<lambda>_. try_io (modify (\<lambda>sp. sp\<lparr>sp_segments := insort_insert index (sp_segments sp)\<rparr>))
                   (\<lambda>_. try_io (unwrap_or () flush_buf)
                   (\<lambda>_. modify (\<lambda>sp. sp\<lparr>sp_active := Some \<lparr>ac_index = index, ac_buffer = [], ac_bytes = 0\<rparr>\<rparr>)))) s)"

definition count_records :: "checksum \<Rightarrow> nat \<Rightarrow> ('z Spooled_scheme, io_error, nat) call" where
  "count_records crc segment =
     try_io (read_file (segment_path segment)) (\<lambda>bytes. ok (length (scan_records crc bytes)))"

text \<open>The records of a segment that the drain has not passed, for the history variable.\<close>

definition undelivered :: "checksum \<Rightarrow> files \<Rightarrow> Cursor \<Rightarrow> nat \<Rightarrow> string list" where
  "undelivered crc fs c i =
     (if i < cu_segment c then []
      else map fst (scan_records crc (drop (if i = cu_segment c then cu_offset c else 0) (content fs (segment_path i)))))"

definition unlink_segment :: "checksum \<Rightarrow> nat \<Rightarrow> bool \<Rightarrow> ('z Spooled_scheme, io_error, unit) call" where
  "unlink_segment crc segment count_as_dropped s =
     (case remove_file (segment_path segment) s of
        (r, s') \<Rightarrow>
          (case r of Err NotFound \<Rightarrow> Ok () | _ \<Rightarrow> r,
           if count_as_dropped \<and> map_of (mc_files s') (segment_path segment) = None
           then s'\<lparr>st_discarded := st_discarded s' @ undelivered crc (mc_files s) (sp_cursor (st_spool s)) segment\<rparr>
           else s'))"

definition forget_segment :: "nat \<Rightarrow> Spool \<Rightarrow> Spool" where
  "forget_segment segment sp =
     sp\<lparr>sp_segments := removeAll segment (sp_segments sp),
        sp_active := (case sp_active sp of Some a \<Rightarrow> if ac_index a = segment then None else Some a | None \<Rightarrow> None)\<rparr>"

definition remove_segment :: "checksum \<Rightarrow> nat \<Rightarrow> bool \<Rightarrow> ('z Spooled_scheme, io_error, unit) call" where
  "remove_segment crc segment count_as_dropped =
     try_io (if count_as_dropped then unwrap_or 0 (count_records crc segment) else ok 0)
       (\<lambda>n. try_io (modify (\<lambda>sp. sp\<lparr>sp_dropped_records := sp_dropped_records sp + n\<rparr>))
       (\<lambda>_. try_io (unlink_segment crc segment count_as_dropped)
       (\<lambda>_. modify (forget_segment segment))))"

text \<open>\<open>total_bytes\<close> and \<open>pending_bytes\<close> skip a segment whose size cannot be read.\<close>

fun sum_lengths :: "nat list \<Rightarrow> ('z Spooled_scheme, io_error, nat) call" where
  "sum_lengths [] = ok 0"
| "sum_lengths (i # is) =
     try_io (unwrap_or 0 (metadata_len (segment_path i))) (\<lambda>n. try_io (sum_lengths is) (\<lambda>m. ok (n + m)))"

definition total_bytes :: "('z Spooled_scheme, io_error, nat) call" where
  "total_bytes s = sum_lengths (sp_segments (st_spool s)) s"

definition pending_bytes :: "('z Spooled_scheme, io_error, nat) call" where
  "pending_bytes s = try_io total_bytes (\<lambda>n. ok (n - cu_offset (sp_cursor (st_spool s)))) s"

definition move_cursor_past :: "nat \<Rightarrow> Spool \<Rightarrow> Spool" where
  "move_cursor_past oldest sp =
     sp\<lparr>sp_cursor := \<lparr>cu_segment = first_or (oldest + 1) (sp_segments sp), cu_offset = 0\<rparr>\<rparr>"

lemma sum_lengths_spool: "sum_lengths is s = (r, s') \<Longrightarrow> st_spool s' = st_spool s"
  by (induction "is" arbitrary: s r s')
     (auto simp: try_io_def ok_def unwrap_or_def call_defs dest!: syscall_spool split: prod.splits reply.splits)

lemma total_bytes_spool: "total_bytes s = (r, s') \<Longrightarrow> st_spool s' = st_spool s"
  unfolding total_bytes_def by (rule sum_lengths_spool)

lemma store_cursor_spool: "store_cursor s = (r, s') \<Longrightarrow> st_spool s' = st_spool s"
  by (auto simp: store_cursor_def try_io_def call_defs dest!: syscall_spool
      split: prod.splits reply.splits)

lemma count_records_spool: "count_records crc segment s = (r, s') \<Longrightarrow> st_spool s' = st_spool s"
  by (auto simp: count_records_def try_io_def ok_def call_defs dest!: syscall_spool split: prod.splits reply.splits)

lemma unlink_segment_spool: "unlink_segment crc segment count s = (r, s') \<Longrightarrow> st_spool s' = st_spool s"
  by (auto simp: unlink_segment_def call_defs dest!: syscall_spool split: prod.splits reply.splits)

lemma remove_segment_segments:
  "remove_segment crc segment count s = (Ok u, s') \<Longrightarrow> sp_segments (st_spool s') = removeAll segment (sp_segments (st_spool s))"
  by (auto simp: remove_segment_def try_io_def modify_def on_spool_def forget_segment_def unwrap_or_def ok_def
      dest!: unlink_segment_spool count_records_spool split: prod.splits reply.splits if_splits)

text \<open>One turn of the loop: the oldest segment goes, and a cursor in it moves on.\<close>

definition evict_oldest :: "checksum \<Rightarrow> nat \<Rightarrow> ('z Spooled_scheme, io_error, unit) call" where
  "evict_oldest crc oldest =
     try_io (remove_segment crc oldest True)
       (\<lambda>_ s. if cu_segment (sp_cursor (st_spool s)) \<le> oldest
              then try_io (modify (move_cursor_past oldest)) (\<lambda>_. store_cursor) s
              else (Ok (), s))"

lemma evict_oldest_segments:
  "evict_oldest crc oldest s = (Ok u, s') \<Longrightarrow> sp_segments (st_spool s') = removeAll oldest (sp_segments (st_spool s))"
  by (auto simp: evict_oldest_def try_io_def modify_def on_spool_def move_cursor_past_def
      dest!: store_cursor_spool remove_segment_segments split: if_splits prod.splits reply.splits)

function enforce_capacity :: "checksum \<Rightarrow> ('z Spooled_scheme, io_error, unit) call" where
  "enforce_capacity crc s =
     try_io total_bytes
       (\<lambda>total s1.
          if total \<le> sc_max_total_bytes (sp_config (st_spool s1)) then (Ok (), s1)
          else case sp_segments (st_spool s1) of
                 [] \<Rightarrow> (Ok (), s1)
               | oldest # _ \<Rightarrow>
                   if Some oldest = map_option ac_index (sp_active (st_spool s1)) then (Ok (), s1)
                   else try_io (evict_oldest crc oldest) (\<lambda>_ s2. enforce_capacity crc s2) s1) s"
  by pat_completeness auto
termination
proof (relation "measure (\<lambda>(crc, s). length (sp_segments (st_spool s)))", goal_cases)
  case (2 crc s total s1 oldest rest u s2)
  have "sp_segments (st_spool s2) = removeAll oldest (sp_segments (st_spool s))"
    using evict_oldest_segments [OF 2(5)] total_bytes_spool [OF 2(1)] by simp
  moreover have "sp_segments (st_spool s) = oldest # rest" using 2(3) total_bytes_spool [OF 2(1)] by simp
  ultimately show ?case by (simp add: le_imp_less_Suc)
qed simp

declare enforce_capacity.simps [simp del]

section \<open>The interface\<close>

definition spool_append :: "checksum \<Rightarrow> string \<Rightarrow> ('z Spooled_scheme, io_error, unit) call" where
  "spool_append crc payload =
     (if payload = [] then ok ()
      else if MAX_RECORD_BYTES < int (length payload)
      then (\<lambda>s. (Err (InvalidInput ''record exceeds the maximum spool record size''), s))
      else try_io ensure_active_segment
        (\<lambda>_. try_io (buf_write_all (to_le_bytes (int (length payload))))
        (\<lambda>_. try_io (buf_write_all (to_le_bytes (uint (crc payload))))
        (\<lambda>_. try_io (buf_write_all payload)
        (\<lambda>_. try_io flush_buf
        (\<lambda>_. try_io (modify (\<lambda>sp. sp\<lparr>sp_active :=
               map_option (\<lambda>a. a\<lparr>ac_bytes := ac_bytes a + (RECORD_HEADER_BYTES + length payload)\<rparr>) (sp_active sp)\<rparr>))
        (\<lambda>_. enforce_capacity crc)))))))"

fun remove_segments :: "checksum \<Rightarrow> nat list \<Rightarrow> ('z Spooled_scheme, io_error, unit) call" where
  "remove_segments crc [] = ok ()"
| "remove_segments crc (i # is) = try_io (remove_segment crc i False) (\<lambda>_. remove_segments crc is)"

definition spool_commit :: "checksum \<Rightarrow> Cursor \<Rightarrow> ('z Spooled_scheme, io_error, unit) call" where
  "spool_commit crc cursor =
     try_io (modify (\<lambda>sp. sp\<lparr>sp_cursor := cursor\<rparr>))
       (\<lambda>_. try_io (\<lambda>s. remove_segments crc (filter (\<lambda>i. i < cu_segment cursor) (sp_segments (st_spool s))) s)
       (\<lambda>_. store_cursor))"

definition recover_newest_segment :: "checksum \<Rightarrow> ('z Spooled_scheme, io_error, unit) call" where
  "recover_newest_segment crc s =
     (if sp_segments (st_spool s) = [] then (Ok (), s)
      else let newest = last (sp_segments (st_spool s))
           in try_io (read_file (segment_path newest))
                (\<lambda>bytes.
                   let valid = sum_list (map snd (scan_records crc bytes))
                   in try_io (if valid < length bytes
                              then try_io (set_len (segment_path newest) valid) (\<lambda>_. modify bump_corrupt) else ok ())
                        (\<lambda>_. try_io (open_append (segment_path newest))
                        (\<lambda>_. modify (\<lambda>sp. sp\<lparr>sp_active := Some \<lparr>ac_index = newest, ac_buffer = [], ac_bytes = valid\<rparr>\<rparr>)))) s)"

definition segments_of :: "string list \<Rightarrow> nat list" where
  "segments_of names =
     fold (\<lambda>name segments. case segment_index name of None \<Rightarrow> segments | Some i \<Rightarrow> insort_insert i segments) names []"

definition spool_open :: "checksum \<Rightarrow> SpoolConfig \<Rightarrow> ('z Spooled_scheme, io_error, unit) call" where
  "spool_open crc config =
     try_io create_dir_all
       (\<lambda>_. try_io read_dir
       (\<lambda>names. try_io (modify (\<lambda>_. \<lparr>sp_config = config, sp_segments = segments_of names, sp_active = None,
              sp_cursor = default_cursor, sp_dropped_records = 0, sp_corrupt_records = 0\<rparr>))
       (\<lambda>_. try_io load_cursor
       (\<lambda>cursor. try_io (modify (\<lambda>sp. sp\<lparr>sp_cursor := cursor\<rparr>))
       (\<lambda>_. recover_newest_segment crc)))))"

end
