(* ===== verification/Edge_Telemetry.thy ===== *)
theory Edge_Telemetry
  imports Contract Edge_Spool
begin

text \<open>
  The parts of the edge agent that decide what a reading is worth: \<open>clock.rs\<close>, \<open>subject.rs\<close>,
  \<open>telemetry.rs\<close>, \<open>watchdog.rs\<close> and \<open>observability.rs\<close> under
  \<open>edge/orvolt-edge-agent/src\<close>. The message a reading becomes is the one the control plane decodes
  (\<open>Contract\<close>). \<open>serde_json\<close> and \<open>prost\<close> are parameters where they are used. Text is its UTF-8 bytes; the
  whitespace that separates words is ASCII whitespace.
\<close>

section \<open>The clock\<close>

definition PLAUSIBLE_EPOCH_MS :: int where
  "PLAUSIBLE_EPOCH_MS = 1735689600000"

datatype ClockTrust = Synchronized | Unsynchronized

definition assess :: "int \<Rightarrow> ClockTrust" where
  "assess now_ms = (if PLAUSIBLE_EPOCH_MS \<le> now_ms then Synchronized else Unsynchronized)"

text \<open>\<open>now_ms\<close> of an instant of the system clock; before the epoch it is the default.\<close>

definition now_ms :: "time \<Rightarrow> int" where
  "now_ms t = (if t < 0 then 0 else wrap64 (t div 1000000))"

text \<open>\<open>Sequence::next\<close>: the number, and the counter it leaves.\<close>

definition sequence_next :: "u64 \<Rightarrow> u64 \<times> u64" where
  "sequence_next counter = (counter + 1, counter + 1)"

section \<open>The device's subject\<close>

definition MAX_IDENTITY_BYTES :: nat where
  "MAX_IDENTITY_BYTES = 128"

datatype SubjectError = EmptyIdentity | TooLong | IllegalCharacter char

definition is_ascii_alphanumeric :: "char \<Rightarrow> bool" where
  "is_ascii_alphanumeric c \<longleftrightarrow>
     (CHR ''0'' \<le> c \<and> c \<le> CHR ''9'') \<or> (CHR ''A'' \<le> c \<and> c \<le> CHR ''Z'') \<or> (CHR ''a'' \<le> c \<and> c \<le> CHR ''z'')"

definition id_char :: "char \<Rightarrow> bool" where
  "id_char c \<longleftrightarrow> is_ascii_alphanumeric c \<or> c = CHR ''-'' \<or> c = CHR ''_''"

definition validate_identity :: "string \<Rightarrow> SubjectError option" where
  "validate_identity identity =
     (if identity = [] then Some EmptyIdentity
      else if MAX_IDENTITY_BYTES < length identity then Some TooLong
      else map_option IllegalCharacter (find (\<lambda>c. \<not> id_char c) identity))"

definition device_subject :: "string \<Rightarrow> string \<Rightarrow> SubjectError + string" where
  "device_subject base identity =
     (case validate_identity identity of Some err \<Rightarrow> Inl err | None \<Rightarrow> Inr (base @ ''.'' @ identity))"

section \<open>Readings\<close>

record RawTelemetry =
  rt_station_id :: string
  rt_connector_id :: string
  rt_timestamp_ms :: int
  rt_state :: string
  rt_voltage :: float64
  rt_current :: float64
  rt_power_kw :: float64
  rt_energy_kwh :: float64
  rt_soc :: float64
  rt_temperature_c :: float64

record EdgeContext =
  ec_edge_id :: string
  ec_site_id :: string
  ec_received_at_ms :: int
  ec_sequence :: u64
  ec_clock :: ClockTrust

datatype ValidationError =
    InvalidIdentifier string
  | InvalidTimestamp
  | InvalidState string
  | OutOfRange string int int

definition clock_sync_of :: "ClockTrust \<Rightarrow> ClockSync" where
  "clock_sync_of trust =
     (case trust of Synchronized \<Rightarrow> CLOCK_SYNC_SYNCHRONIZED | Unsynchronized \<Rightarrow> CLOCK_SYNC_UNSYNCHRONIZED)"

definition validate_identifier :: "string \<Rightarrow> string \<Rightarrow> ValidationError option" where
  "validate_identifier field value =
     (if value = [] \<or> 128 < length value then Some (InvalidIdentifier field) else None)"

text \<open>The bounds are integers at every call, exact as binary64.\<close>

definition validate_range :: "string \<Rightarrow> float64 \<Rightarrow> int \<Rightarrow> int \<Rightarrow> ValidationError option" where
  "validate_range field value minimum maximum =
     (if \<not> isFinite value \<or> flt value (Fin (of_int minimum)) \<or> flt (Fin (of_int maximum)) value
      then Some (OutOfRange field minimum maximum) else None)"

definition state_from_str :: "string \<Rightarrow> ValidationError + ChargingState" where
  "state_from_str state =
     (if state = ''Available'' then Inr CHARGING_STATE_AVAILABLE
      else if state = ''Preparing'' then Inr CHARGING_STATE_PREPARING
      else if state = ''Charging'' then Inr CHARGING_STATE_CHARGING
      else if state = ''Finishing'' then Inr CHARGING_STATE_FINISHING
      else if state = ''Faulted'' then Inr CHARGING_STATE_FAULTED
      else Inl (InvalidState state))"

text \<open>The operator \<open>?\<close> on a sequence of checks: the first that refuses.\<close>

fun first_refusal :: "'e option list \<Rightarrow> 'e option" where
  "first_refusal [] = None"
| "first_refusal (None # rest) = first_refusal rest"
| "first_refusal (Some err # rest) = Some err"

definition normalize_reading :: "RawTelemetry \<Rightarrow> EdgeContext \<Rightarrow> ValidationError + ChargingTelemetry" where
  "normalize_reading raw context =
     (case first_refusal
             [validate_identifier ''station_id'' (rt_station_id raw),
              validate_identifier ''connector_id'' (rt_connector_id raw),
              validate_identifier ''edge_id'' (ec_edge_id context),
              validate_identifier ''site_id'' (ec_site_id context),
              if rt_timestamp_ms raw \<le> 0 \<or> ec_received_at_ms context \<le> 0 then Some InvalidTimestamp else None,
              validate_range ''voltage'' (rt_voltage raw) 0 1000,
              validate_range ''current'' (rt_current raw) 0 1000,
              validate_range ''power_kw'' (rt_power_kw raw) 0 500,
              validate_range ''energy_kwh'' (rt_energy_kwh raw) 0 10000000,
              validate_range ''soc'' (rt_soc raw) 0 100,
              validate_range ''temperature_c'' (rt_temperature_c raw) (- 50) 150] of
        Some err \<Rightarrow> Inl err
      | None \<Rightarrow>
          (case state_from_str (rt_state raw) of
             Inl err \<Rightarrow> Inl err
           | Inr state \<Rightarrow>
               Inr \<lparr>ct_station_id = rt_station_id raw, ct_connector_id = rt_connector_id raw,
                    ct_timestamp_ms = rt_timestamp_ms raw, ct_voltage = rt_voltage raw,
                    ct_current = rt_current raw, ct_power_kw = rt_power_kw raw,
                    ct_energy_kwh = rt_energy_kwh raw, ct_soc = rt_soc raw,
                    ct_temperature_c = rt_temperature_c raw, ct_state = state,
                    ct_edge = Some \<lparr>em_edge_id = ec_edge_id context, em_site_id = ec_site_id context,
                                    em_received_at_ms = ec_received_at_ms context, em_sequence = ec_sequence context,
                                    em_clock_sync = clock_sync_of (ec_clock context)\<rparr>\<rparr>))"

section \<open>Metrics and the local endpoint\<close>

record AgentMetrics =
  am_received :: u64
  am_rejected :: u64
  am_published :: u64
  am_publish_failures :: u64
  am_spool_pending_bytes :: u64
  am_spool_dropped :: u64
  am_spool_corrupt :: u64
  am_unsynchronized_clock :: u64
  am_bus_connected :: bool
  am_broker_connected :: bool

definition default_metrics :: AgentMetrics where
  "default_metrics = \<lparr>am_received = 0, am_rejected = 0, am_published = 0, am_publish_failures = 0,
     am_spool_pending_bytes = 0, am_spool_dropped = 0, am_spool_corrupt = 0, am_unsynchronized_clock = 0,
     am_bus_connected = False, am_broker_connected = False\<rparr>"

definition is_ready :: "AgentMetrics \<Rightarrow> bool" where
  "is_ready m \<longleftrightarrow> am_broker_connected m \<and> am_bus_connected m"

definition newline :: string where
  "newline = [CHR 0x0A]"

definition render_sample :: "string \<Rightarrow> string \<Rightarrow> string \<Rightarrow> u64 \<Rightarrow> string" where
  "render_sample kind name help value =
     ''# HELP '' @ name @ '' '' @ help @ newline @ ''# TYPE '' @ name @ '' '' @ kind @ newline @ name @ '' '' @
     Itoa (uint value) @ newline"

definition render_metrics :: "AgentMetrics \<Rightarrow> string" where
  "render_metrics m = concat
     [render_sample ''counter'' ''orvolt_edge_telemetry_received_total'' ''Telemetry messages read from the local broker.'' (am_received m),
      render_sample ''counter'' ''orvolt_edge_telemetry_rejected_total'' ''Messages rejected by local validation.'' (am_rejected m),
      render_sample ''counter'' ''orvolt_edge_telemetry_published_total'' ''Records confirmed by the cloud event bus.'' (am_published m),
      render_sample ''counter'' ''orvolt_edge_publish_failures_total'' ''Publish attempts refused by the cloud event bus.'' (am_publish_failures m),
      render_sample ''counter'' ''orvolt_edge_spool_dropped_records_total''
        ''Records discarded because the local spool reached its size ceiling.'' (am_spool_dropped m),
      render_sample ''counter'' ''orvolt_edge_spool_corrupt_records_total'' ''Spool records abandoned after a checksum mismatch.'' (am_spool_corrupt m),
      render_sample ''counter'' ''orvolt_edge_unsynchronized_clock_total''
        ''Observations produced while the device clock was untrusted.'' (am_unsynchronized_clock m),
      render_sample ''gauge'' ''orvolt_edge_spool_pending_bytes'' ''Bytes waiting in the local spool for delivery.'' (am_spool_pending_bytes m),
      render_sample ''gauge'' ''orvolt_edge_broker_connected'' ''1 when the local MQTT broker connection is up.'' (of_bool (am_broker_connected m)),
      render_sample ''gauge'' ''orvolt_edge_bus_connected'' ''1 when the cloud event bus connection is up.'' (of_bool (am_bus_connected m))]"

text \<open>The request is what one read of at most 1024 bytes returned.\<close>

definition request_path :: "string \<Rightarrow> string" where
  "request_path request =
     (case split_whitespace (takeWhile (\<lambda>c. c \<noteq> CHR 0x0A) request) of
        method # path # _ \<Rightarrow> path
      | _ \<Rightarrow> ''/'')"

definition local_answer :: "AgentMetrics \<Rightarrow> string \<Rightarrow> string \<times> string \<times> string" where
  "local_answer m path =
     (if path = ''/metrics'' then (''200 OK'', ''text/plain; version=0.0.4'', render_metrics m)
      else if path = ''/health'' then (''200 OK'', ''application/json'', ''{\"status\":\"ok\"}'' @ newline)
      else if path = ''/ready''
      then if is_ready m then (''200 OK'', ''application/json'', ''{\"status\":\"ready\"}'' @ newline)
           else (''503 Service Unavailable'', ''application/json'', ''{\"status\":\"not_ready\"}'' @ newline)
      else (''404 Not Found'', ''application/json'', ''{\"error\":\"not found\"}'' @ newline))"

definition local_response :: "AgentMetrics \<Rightarrow> string \<Rightarrow> string" where
  "local_response m request =
     (case local_answer m (request_path (take 1024 request)) of
        (status, content_type, body) \<Rightarrow>
          ''HTTP/1.1 '' @ status @ [CHR 0x0D, CHR 0x0A] @ ''Content-Type: '' @ content_type @ [CHR 0x0D, CHR 0x0A] @
          ''Content-Length: '' @ nat_digits (length body) @ [CHR 0x0D, CHR 0x0A] @ ''Connection: close'' @
          [CHR 0x0D, CHR 0x0A, CHR 0x0D, CHR 0x0A] @ body)"

section \<open>The watchdog\<close>

definition trim :: "string \<Rightarrow> string" where
  "trim s = rev (dropWhile is_space (rev (dropWhile is_space s)))"

text \<open>Microseconds between keepalives.\<close>

definition keepalive_from :: "string option \<Rightarrow> nat option" where
  "keepalive_from raw =
     (case Option.bind raw (\<lambda>s. parse_u64 (trim s)) of
        None \<Rightarrow> None
      | Some microseconds \<Rightarrow> if microseconds = 0 then None else Some (microseconds div 2))"

section \<open>What the checks decide\<close>

definition in_bounds :: "int \<Rightarrow> int \<Rightarrow> float64 \<Rightarrow> bool" where
  "in_bounds lo hi v \<longleftrightarrow> isFinite v \<and> of_int lo \<le> fval v \<and> fval v \<le> of_int hi"

definition named :: "string \<Rightarrow> bool" where
  "named s \<longleftrightarrow> s \<noteq> [] \<and> length s \<le> 128"

definition acceptable :: "RawTelemetry \<Rightarrow> EdgeContext \<Rightarrow> bool" where
  "acceptable raw context \<longleftrightarrow>
     named (rt_station_id raw) \<and> named (rt_connector_id raw) \<and> named (ec_edge_id context) \<and> named (ec_site_id context) \<and>
     0 < rt_timestamp_ms raw \<and> 0 < ec_received_at_ms context \<and>
     in_bounds 0 1000 (rt_voltage raw) \<and> in_bounds 0 1000 (rt_current raw) \<and> in_bounds 0 500 (rt_power_kw raw) \<and>
     in_bounds 0 10000000 (rt_energy_kwh raw) \<and> in_bounds 0 100 (rt_soc raw) \<and> in_bounds (- 50) 150 (rt_temperature_c raw) \<and>
     rt_state raw \<in> {''Available'', ''Preparing'', ''Charging'', ''Finishing'', ''Faulted''}"

lemma validate_range_None: "validate_range field v lo hi = None \<longleftrightarrow> in_bounds lo hi v"
  by (cases v) (auto simp: validate_range_def in_bounds_def isFinite_def flt_def)

lemma validate_identifier_None: "validate_identifier field v = None \<longleftrightarrow> named v"
  by (auto simp: validate_identifier_def named_def)

lemma first_refusal_None: "first_refusal xs = None \<longleftrightarrow> (\<forall>x\<in>set xs. x = None)"
  by (induction xs rule: first_refusal.induct) auto

definition state_names :: "(string \<times> string) list" where
  "state_names =
     [(''Available'', ''AVAILABLE''), (''Preparing'', ''PREPARING''), (''Charging'', ''CHARGING''),
      (''Finishing'', ''FINISHING''), (''Faulted'', ''FAULTED'')]"

lemma state_from_str_cases:
  "(case state_from_str s of Inl err \<Rightarrow> err = InvalidState s \<and> map_of state_names s = None
    | Inr state \<Rightarrow> chargingStates state = map_of state_names s \<and> map_of state_names s \<noteq> None)"
  by (simp add: state_from_str_def state_names_def)

text \<open>\<open>normalize\<close> accepts exactly the acceptable readings and carries every field over.\<close>

lemma normalize_Inr:
  "normalize_reading raw context = Inr m \<longleftrightarrow>
     acceptable raw context \<and>
     (\<exists>state. state_from_str (rt_state raw) = Inr state \<and>
        m = \<lparr>ct_station_id = rt_station_id raw, ct_connector_id = rt_connector_id raw, ct_timestamp_ms = rt_timestamp_ms raw,
             ct_voltage = rt_voltage raw, ct_current = rt_current raw, ct_power_kw = rt_power_kw raw, ct_energy_kwh = rt_energy_kwh raw,
             ct_soc = rt_soc raw, ct_temperature_c = rt_temperature_c raw, ct_state = state,
             ct_edge = Some \<lparr>em_edge_id = ec_edge_id context, em_site_id = ec_site_id context,
               em_received_at_ms = ec_received_at_ms context, em_sequence = ec_sequence context,
               em_clock_sync = clock_sync_of (ec_clock context)\<rparr>\<rparr>)"
proof -
  let ?checks = "[validate_identifier ''station_id'' (rt_station_id raw), validate_identifier ''connector_id'' (rt_connector_id raw),
      validate_identifier ''edge_id'' (ec_edge_id context), validate_identifier ''site_id'' (ec_site_id context),
      if rt_timestamp_ms raw \<le> 0 \<or> ec_received_at_ms context \<le> 0 then Some InvalidTimestamp else None,
      validate_range ''voltage'' (rt_voltage raw) 0 1000, validate_range ''current'' (rt_current raw) 0 1000,
      validate_range ''power_kw'' (rt_power_kw raw) 0 500, validate_range ''energy_kwh'' (rt_energy_kwh raw) 0 10000000,
      validate_range ''soc'' (rt_soc raw) 0 100, validate_range ''temperature_c'' (rt_temperature_c raw) (- 50) 150]"
  have "first_refusal ?checks = None \<and> (\<exists>state. state_from_str (rt_state raw) = Inr state) \<longleftrightarrow> acceptable raw context"
    using state_from_str_cases [of "rt_state raw"]
    by (auto simp: first_refusal_None validate_range_None validate_identifier_None acceptable_def state_names_def
        split: sum.splits if_splits)
  then show ?thesis unfolding normalize_reading_def by (auto split: option.splits sum.splits)
qed

text \<open>The control plane accepts it, under the subject of the device.\<close>

definition carries :: "RawTelemetry \<Rightarrow> EdgeContext \<Rightarrow> Telemetry \<Rightarrow> bool" where
  "carries raw context t \<longleftrightarrow>
     tm_StationID t = rt_station_id raw \<and> tm_ConnectorID t = rt_connector_id raw \<and> tm_Timestamp t = UnixMilli (rt_timestamp_ms raw) \<and>
     tm_Voltage t = rt_voltage raw \<and> tm_Current t = rt_current raw \<and> tm_PowerKW t = rt_power_kw raw \<and> tm_EnergyKWh t = rt_energy_kwh raw \<and>
     tm_SOC t = rt_soc raw \<and> tm_TemperatureC t = rt_temperature_c raw \<and> Some (tm_State t) = map_of state_names (rt_state raw) \<and>
     tm_EdgeID t = ec_edge_id context \<and> tm_SiteID t = ec_site_id context \<and> tm_ReceivedAt t = UnixMilli (ec_received_at_ms context) \<and>
     tm_EdgeSequence t = ec_sequence context \<and>
     tm_ClockSync t = (case ec_clock context of Synchronized \<Rightarrow> ''SYNCHRONIZED'' | Unsynchronized \<Rightarrow> ''UNSYNCHRONIZED'')"

lemma decode_normalized:
  assumes "normalize_reading raw context = Inr m" "unmarshal payload = Inr m"
  shows "\<exists>t. DecodeChargingTelemetry unmarshal payload ingestedAt = Inr t \<and> carries raw context t"
proof -
  obtain state where ok: "acceptable raw context" and state: "state_from_str (rt_state raw) = Inr state" and "ct_state m = state"
    using assms(1) by (auto simp: normalize_Inr)
  moreover have "chargingStates state = map_of state_names (rt_state raw)" "map_of state_names (rt_state raw) \<noteq> None"
    using state_from_str_cases [of "rt_state raw"] state by simp_all
  ultimately show ?thesis using assms
    by (cases "ec_clock context") (auto simp: normalize_Inr DecodeChargingTelemetry_def acceptable_def named_def clock_sync_of_def carries_def)
qed

lemma device_subject_Inr:
  "device_subject base identity = Inr subject \<Longrightarrow>
   subject = base @ ''.'' @ identity \<and> identity \<noteq> [] \<and> length identity \<le> 128 \<and> (\<forall>c\<in>set identity. id_char c)"
  by (auto simp: device_subject_def validate_identity_def MAX_IDENTITY_BYTES_def find_None_iff split: option.splits if_splits)

end
