(* ===== verification/Edge_Agent.thy ===== *)
theory Edge_Agent
  imports Edge_Telemetry
begin

text \<open>
  \<open>pipeline.rs\<close> and \<open>main.rs\<close> of the edge agent: the forwarder that moves the spool to the bus, the sink
  that publishes to JetStream, and the main loop with the process around it. A publish is sent, which
  may reach the broker, and then its acknowledgement is awaited, which arrives only for a message the
  broker stored. The forwarder's loop is a partial function; \<open>None\<close> would be a drain that never returns.
\<close>

section \<open>The forwarder\<close>

record DrainOutcome =
  do_published :: nat
  do_blocked :: bool

definition default_outcome :: DrainOutcome where
  "default_outcome = \<lparr>do_published = 0, do_blocked = False\<rparr>"

definition enqueue :: "checksum \<Rightarrow> string \<Rightarrow> ('z Spooled_scheme, io_error, unit) call" where
  "enqueue crc payload = spool_append crc payload"

partial_function (option) drain_loop ::
  "checksum \<Rightarrow> (string list \<Rightarrow> ('z Spooled_scheme, string, unit) call) \<Rightarrow> nat \<Rightarrow> DrainOutcome \<Rightarrow> 'z Spooled_scheme \<Rightarrow>
   ((io_error, DrainOutcome) reply \<times> 'z Spooled_scheme) option" where
  "drain_loop crc publish batch_size outcome s =
     (case read_batch crc batch_size s of
        (Err e, s1) \<Rightarrow> Some (Err e, s1)
      | (Killed, s1) \<Rightarrow> Some (Killed, s1)
      | (Ok (records, cursor), s1) \<Rightarrow>
          if records = [] then Some (Ok outcome, s1)
          else (case publish records s1 of
                  (Err _, s2) \<Rightarrow> Some (Ok (outcome\<lparr>do_blocked := True\<rparr>), s2)
                | (Killed, s2) \<Rightarrow> Some (Killed, s2)
                | (Ok _, s2) \<Rightarrow>
                    (case spool_commit crc cursor s2 of
                       (Err e, s3) \<Rightarrow> Some (Err e, s3)
                     | (Killed, s3) \<Rightarrow> Some (Killed, s3)
                     | (Ok _, s3) \<Rightarrow>
                         drain_loop crc publish batch_size (outcome\<lparr>do_published := do_published outcome + length records\<rparr>) s3)))"

declare drain_loop.simps [code]

text \<open>\<open>Forwarder::new\<close> raises the batch size to one.\<close>

definition forwarder_drain ::
  "checksum \<Rightarrow> (string list \<Rightarrow> ('z Spooled_scheme, string, unit) call) \<Rightarrow> nat \<Rightarrow> 'z Spooled_scheme \<Rightarrow>
   ((io_error, DrainOutcome) reply \<times> 'z Spooled_scheme) option" where
  "forwarder_drain crc publish batch_size = drain_loop crc publish (max batch_size 1) default_outcome"

section \<open>The agent\<close>

text \<open>
  \<open>ag_running\<close> says whether there is a process; \<open>ag_channel\<close> is the channel between the task that reads
  the local broker and the main loop; \<open>ag_accepted\<close> is a history variable with the payloads \<open>enqueue\<close>
  reported as recorded.
\<close>

record Agent = Spooled +
  ag_running :: bool
  ag_channel :: "string list"
  ag_connected :: bool
  ag_metrics :: AgentMetrics
  ag_sequence :: u64
  ag_accepted :: "string list"

record AgentConfig =
  cf_nats_subject :: string
  cf_credentials :: bool
  cf_edge_id :: string
  cf_site_id :: string
  cf_spool :: SpoolConfig
  cf_batch_size :: nat

text \<open>The libraries: the checksum, \<open>serde_json::from_slice\<close> and \<open>prost\<close>'s \<open>encode_to_vec\<close>.\<close>

record Libraries =
  lb_crc :: checksum
  lb_parse :: "string \<Rightarrow> string + RawTelemetry"
  lb_encode :: "ChargingTelemetry \<Rightarrow> string"

definition on_agent_metrics :: "(AgentMetrics \<Rightarrow> AgentMetrics) \<Rightarrow> 'z Agent_scheme \<Rightarrow> 'z Agent_scheme" where
  "on_agent_metrics f s = s\<lparr>ag_metrics := f (ag_metrics s)\<rparr>"

text \<open>The subject the sink publishes to, which the start of a process computes.\<close>

definition own_subject :: "AgentConfig \<Rightarrow> string" where
  "own_subject config =
     (case device_subject (cf_nats_subject config) (cf_edge_id config) of Inl err \<Rightarrow> [] | Inr subject \<Rightarrow> subject)"

section \<open>The sink\<close>

definition mark_offline :: "'z Agent_scheme \<Rightarrow> 'z Agent_scheme" where
  "mark_offline s = on_agent_metrics (\<lambda>m. m\<lparr>am_bus_connected := False\<rparr>) (s\<lparr>ag_connected := False\<rparr>)"

definition publish_failed :: "'z Agent_scheme \<Rightarrow> 'z Agent_scheme" where
  "publish_failed s = on_agent_metrics (\<lambda>m. m\<lparr>am_publish_failures := am_publish_failures m + 1\<rparr>) (mark_offline s)"

text \<open>
  Sending one message: it reaches the broker when the call works, and may have reached it when the call
  fails or the process dies; the broker stores it or not. The answer tells whether it was stored, which
  the acknowledgement will report.
\<close>

definition reaches_broker :: "fault \<Rightarrow> bool" where
  "reaches_broker f = (case f of Works \<Rightarrow> True | Fails k \<Rightarrow> k \<noteq> 0 | Dies k \<Rightarrow> k \<noteq> 0)"

definition send :: "string \<Rightarrow> string \<Rightarrow> ('z Agent_scheme, string, bool) call" where
  "send subject payload s =
     (let stored = reaches_broker (fault_now s) \<and> mc_stores s (mc_sent s);
          s' = (called s)\<lparr>mc_sent := Suc (mc_sent s), mc_bus := mc_bus s @ (if stored then [(subject, payload)] else [])\<rparr>
      in case fault_now s of
           Works \<Rightarrow> (Ok stored, s')
         | Fails k \<Rightarrow> (Err ''publish failed'', s')
         | Dies k \<Rightarrow> (Killed, s'))"

definition await_ack :: "bool \<Rightarrow> ('z Agent_scheme, string, unit) call" where
  "await_ack stored s =
     (case fault_now s of
        Works \<Rightarrow> (if stored then Ok () else Err ''no acknowledgement'', called s)
      | Fails k \<Rightarrow> (Err ''no acknowledgement'', called s)
      | Dies k \<Rightarrow> (Killed, called s))"

text \<open>The error arm of both loops.\<close>

definition or_offline :: "('z Agent_scheme, string, 'a) call \<Rightarrow> ('z Agent_scheme, string, 'a) call" where
  "or_offline m s = (case m s of (Err e, s') \<Rightarrow> (Err e, publish_failed s') | answer \<Rightarrow> answer)"

fun send_all :: "string \<Rightarrow> string list \<Rightarrow> ('z Agent_scheme, string, bool list) call" where
  "send_all subject [] = ok []"
| "send_all subject (payload # rest) =
     try_io (or_offline (send subject payload)) (\<lambda>stored. try_io (send_all subject rest) (\<lambda>others. ok (stored # others)))"

fun await_all :: "bool list \<Rightarrow> ('z Agent_scheme, string, unit) call" where
  "await_all [] = ok ()"
| "await_all (stored # rest) = try_io (or_offline (await_ack stored)) (\<lambda>_. await_all rest)"

definition sink_publish :: "string \<Rightarrow> string list \<Rightarrow> ('z Agent_scheme, string, unit) call" where
  "sink_publish subject payloads s =
     (if \<not> ag_connected s then (Err ''not connected to the event bus'', s)
      else try_io (send_all subject payloads) await_all s)"

definition network_call :: "('z Agent_scheme, io_error, unit) call" where
  "network_call = reading_call (\<lambda>_. Ok ())"

text \<open>\<open>connect\<close>: credentials that cannot be loaded leave the metric as it was.\<close>

definition connect :: "bool \<Rightarrow> ('z Agent_scheme, io_error, bool) call" where
  "connect credentials s =
     (if ag_connected s then (Ok True, s)
      else case (if credentials then network_call else ok ()) s of
             (Killed, s1) \<Rightarrow> (Killed, s1)
           | (Err e, s1) \<Rightarrow> (Ok False, s1)
           | (Ok _, s1) \<Rightarrow>
               (case network_call s1 of
                  (Killed, s2) \<Rightarrow> (Killed, s2)
                | (Err e, s2) \<Rightarrow> (Ok False, on_agent_metrics (\<lambda>m. m\<lparr>am_bus_connected := False\<rparr>) s2)
                | (Ok _, s2) \<Rightarrow> (Ok True, on_agent_metrics (\<lambda>m. m\<lparr>am_bus_connected := True\<rparr>) (s2\<lparr>ag_connected := True\<rparr>))))"

section \<open>The handlers of the main loop\<close>

definition accept :: "Libraries \<Rightarrow> AgentConfig \<Rightarrow> time \<Rightarrow> string \<Rightarrow> 'z Agent_scheme \<Rightarrow> string option \<times> 'z Agent_scheme" where
  "accept lib config now payload s =
     (let reject = on_agent_metrics (\<lambda>m. m\<lparr>am_rejected := am_rejected m + 1\<rparr>)
      in case lb_parse lib payload of
           Inl err \<Rightarrow> (None, reject s)
         | Inr raw \<Rightarrow>
             (let received = now_ms now;
                  trust = assess received;
                  s1 = (if trust = Unsynchronized
                        then on_agent_metrics (\<lambda>m. m\<lparr>am_unsynchronized_clock := am_unsynchronized_clock m + 1\<rparr>) s else s);
                  (number, counter) = sequence_next (ag_sequence s1);
                  s2 = s1\<lparr>ag_sequence := counter\<rparr>
              in case normalize_reading raw \<lparr>ec_edge_id = cf_edge_id config, ec_site_id = cf_site_id config, ec_received_at_ms = received,
                        ec_sequence = number, ec_clock = trust\<rparr> of
                   Inl err \<Rightarrow> (None, reject s2)
                 | Inr telemetry \<Rightarrow> (Some (lb_encode lib telemetry), s2)))"

text \<open>A process that ends takes its channel with it. An error of \<open>enqueue\<close> is only logged.\<close>

definition process_exit :: "'z Agent_scheme \<Rightarrow> 'z Agent_scheme" where
  "process_exit s = s\<lparr>ag_running := False, ag_channel := []\<rparr>"

definition main_receive :: "Libraries \<Rightarrow> AgentConfig \<Rightarrow> time \<Rightarrow> string \<Rightarrow> 'z Agent_scheme \<Rightarrow> 'z Agent_scheme" where
  "main_receive lib config now raw s =
     (case accept lib config now raw (on_agent_metrics (\<lambda>m. m\<lparr>am_received := am_received m + 1\<rparr>) s) of
        (None, s1) \<Rightarrow> s1
      | (Some encoded, s1) \<Rightarrow>
          (case enqueue (lb_crc lib) encoded s1 of
             (Ok _, s2) \<Rightarrow> s2\<lparr>ag_accepted := ag_accepted s2 @ [encoded]\<rparr>
           | (Err e, s2) \<Rightarrow> s2
           | (Killed, s2) \<Rightarrow> process_exit s2))"

text \<open>The spool's figures are stored after every drain; reading sizes may be the last call of the process.\<close>

definition report_spool :: "'z Agent_scheme \<Rightarrow> 'z Agent_scheme" where
  "report_spool s =
     (case (pending_bytes :: ('z Agent_scheme, io_error, nat) call) s of
        (Ok n, s') \<Rightarrow>
          on_agent_metrics (\<lambda>m. m\<lparr>am_spool_pending_bytes := of_nat n, am_spool_dropped := of_nat (sp_dropped_records (st_spool s')),
                            am_spool_corrupt := of_nat (sp_corrupt_records (st_spool s'))\<rparr>) s'
      | (Err e, s') \<Rightarrow> s'
      | (Killed, s') \<Rightarrow> process_exit s')"

definition main_drain :: "Libraries \<Rightarrow> AgentConfig \<Rightarrow> 'z Agent_scheme \<Rightarrow> 'z Agent_scheme option" where
  "main_drain lib config s =
     (case forwarder_drain (lb_crc lib) (sink_publish (own_subject config)) (cf_batch_size config) s of
        None \<Rightarrow> None
      | Some (Ok outcome, s1) \<Rightarrow>
          (let s2 = (if 0 < do_published outcome
                     then on_agent_metrics (\<lambda>m. m\<lparr>am_published := am_published m + of_nat (do_published outcome)\<rparr>) s1 else s1)
           in if do_blocked outcome
              then (case connect (cf_credentials config) s2 of
                      (Killed, s3) \<Rightarrow> Some (process_exit s3)
                    | (_, s3) \<Rightarrow> Some (report_spool s3))
              else Some (report_spool s2))
      | Some (Err e, s1) \<Rightarrow> Some (report_spool s1)
      | Some (Killed, s1) \<Rightarrow> Some (process_exit s1))"

text \<open>
  The start of a process: a spool that cannot be opened ends it, and so does an identity that cannot
  address a subject; the connection is tried once. The counter and the metrics start afresh.
\<close>

definition start :: "Libraries \<Rightarrow> AgentConfig \<Rightarrow> 'z Agent_scheme \<Rightarrow> 'z Agent_scheme" where
  "start lib config s =
     (case spool_open (lb_crc lib) (cf_spool config)
             (s\<lparr>ag_running := True, ag_connected := False, ag_metrics := default_metrics, ag_sequence := 0\<rparr>) of
        (Ok _, s1) \<Rightarrow>
          (case device_subject (cf_nats_subject config) (cf_edge_id config) of
             Inl err \<Rightarrow> process_exit s1
           | Inr subject \<Rightarrow>
               (case connect (cf_credentials config) s1 of
                  (Killed, s2) \<Rightarrow> process_exit s2
                | (_, s2) \<Rightarrow> s2))
      | (_, s1) \<Rightarrow> process_exit s1)"

section \<open>The process\<close>

definition CHANNEL_CAPACITY :: int where
  "CHANNEL_CAPACITY = 1024"

text \<open>
  The encoded reading is not empty (no normalised reading is), and unless it is too large for a record
  the writer's buffer, which only failed flushes fill, has room for it. What happens without room is
  the subject of \<open>failed_append_leaves_a_header\<close> in \<open>Edge_Readings\<close>.
\<close>

definition fits_spool :: "Libraries \<Rightarrow> AgentConfig \<Rightarrow> time \<Rightarrow> string \<Rightarrow> 'z Agent_scheme \<Rightarrow> bool" where
  "fits_spool lib config now raw s \<longleftrightarrow>
     (case fst (accept lib config now raw s) of
        None \<Rightarrow> True
      | Some encoded \<Rightarrow>
          encoded \<noteq> [] \<and>
          (int (length encoded) \<le> MAX_RECORD_BYTES \<longrightarrow>
             int (length (buffer (st_spool s)) + RECORD_HEADER_BYTES + length encoded) < BUFFER_CAPACITY))"

text \<open>
  What may happen: the reader learns of its connection or puts a message into the channel while it has
  room; the main loop takes a reading, flushes on a tick, or drains once and returns, on a signal or
  when the reader is gone; the process is killed between two calls; and a supervisor starts it.
\<close>

inductive edge_step :: "Libraries \<Rightarrow> AgentConfig \<Rightarrow> Agent \<Rightarrow> Agent \<Rightarrow> bool" for lib config where
  broker: "ag_running s \<Longrightarrow> edge_step lib config s (on_agent_metrics (\<lambda>m. m\<lparr>am_broker_connected := b\<rparr>) s)"
| arrives: "ag_running s \<Longrightarrow> int (length (ag_channel s)) < CHANNEL_CAPACITY \<Longrightarrow>
    edge_step lib config s (s\<lparr>ag_channel := ag_channel s @ [raw]\<rparr>)"
| takes: "ag_running s \<Longrightarrow> ag_channel s = raw # rest \<Longrightarrow> fits_spool lib config now raw s \<Longrightarrow>
    edge_step lib config s (main_receive lib config now raw (s\<lparr>ag_channel := rest\<rparr>))"
| ticks: "ag_running s \<Longrightarrow> main_drain lib config s = Some s' \<Longrightarrow> edge_step lib config s s'"
| returns: "ag_running s \<Longrightarrow> main_drain lib config s = Some s' \<Longrightarrow> edge_step lib config s (process_exit s')"
| killed: "ag_running s \<Longrightarrow> edge_step lib config s (process_exit s)"
| starts: "\<not> ag_running s \<Longrightarrow> edge_step lib config s (start lib config s)"

end
