(* ===== verification/Edge_Log.thy ===== *)
theory Edge_Log
  imports Edge_Spool
begin

text \<open>
  The format of the log: records read back as they were written, every file is its readable records
  followed by a tail that does not read, and a record that was cut off never reads as one. On top of it,
  the queue a directory and a cursor stand for.
\<close>

section \<open>Four bytes\<close>

lemma le_bytes_length [simp]: "length (to_le_bytes n) = 4"
  by (simp add: to_le_bytes_def)

lemma of_char_of_256 [simp]: "(of_char (char_of (n mod 256)) :: int) = n mod 256"
  by (simp add: take_bit_eq_mod)

lemma low_digit:
  assumes "0 \<le> (a :: int)" "a < 256"
  shows "(a + 256 * q) mod 256 = a" "(a + 256 * q) div 256 = q"
  using assms by simp_all

lemma from_to_le_bytes:
  assumes "0 \<le> n" "n < 2 ^ 32"
  shows "from_le_bytes (to_le_bytes n) = n"
proof -
  let ?a = "n div 256" let ?b = "?a div 256" let ?c = "?b div 256"
  have "0 \<le> ?c" "?c < 256" using assms by (simp_all flip: zdiv_zmult2_eq)
  then have "?c mod 256 = ?c" by simp
  moreover have "256 * (?b div 256) + ?b mod 256 = ?b" "256 * (?a div 256) + ?a mod 256 = ?a" "256 * (n div 256) + n mod 256 = n"
    by simp_all
  ultimately have "n mod 256 + 256 * (?a mod 256) + 65536 * (?b mod 256) + 16777216 * (?c mod 256) = n" by linarith
  moreover have "from_le_bytes (to_le_bytes n) = n mod 256 + 256 * (?a mod 256) + 65536 * (?b mod 256) + 16777216 * (?c mod 256)"
    by (simp add: from_le_bytes_def to_le_bytes_def)
  ultimately show ?thesis by simp
qed

lemma from_le_bytes_range:
  assumes "length bs = 4"
  shows "0 \<le> from_le_bytes bs" "from_le_bytes bs < 2 ^ 32" "to_le_bytes (from_le_bytes bs) = bs"
proof -
  obtain a b c d where bs: "bs = [a, b, c, d]" using assms by (auto simp: length_Suc_conv numeral_eq_Suc)
  have r: "0 \<le> (of_char x :: int)" "(of_char x :: int) < 256" for x
    using of_char_mod_256 [of x, where 'a = int] by (metis pos_mod_sign zero_less_numeral, metis pos_mod_bound zero_less_numeral)
  note ra = r [of a] r [of b] r [of c] r [of d]
  let ?d = "of_char d :: int" let ?c = "of_char c + 256 * ?d" let ?b = "of_char b + 256 * ?c"
  have v: "from_le_bytes bs = of_char a + 256 * ?b" by (simp add: from_le_bytes_def bs)
  show "0 \<le> from_le_bytes bs" "from_le_bytes bs < 2 ^ 32" unfolding v using ra by simp_all
  have "from_le_bytes bs mod 256 = of_char a" and q: "from_le_bytes bs div 256 = ?b" unfolding v by (rule low_digit [OF ra(1,2)])+
  moreover have "?b mod 256 = of_char b" "?b div 256 = ?c" by (rule low_digit [OF ra(3,4)])+
  moreover have "?c mod 256 = of_char c" "?c div 256 = ?d" by (rule low_digit [OF ra(5,6)])+
  moreover have "?d mod 256 = ?d" using ra by simp
  ultimately have "to_le_bytes (from_le_bytes bs) = map (\<lambda>x. char_of (of_char x :: int)) bs"
    by (simp only: to_le_bytes_def bs list.map)
  then show "to_le_bytes (from_le_bytes bs) = bs" by (simp add: map_idI)
qed

section \<open>Records\<close>

definition storable :: "string \<Rightarrow> bool" where
  "storable p \<longleftrightarrow> p \<noteq> [] \<and> int (length p) \<le> MAX_RECORD_BYTES"

lemma encode_record_length [simp]: "length (encode_record crc p) = RECORD_HEADER_BYTES + length p"
  by (simp add: encode_record_def RECORD_HEADER_BYTES_def)

lemma encode_record_parts:
  "take 4 (encode_record crc p @ rest) = to_le_bytes (int (length p))"
  "take 4 (drop 4 (encode_record crc p @ rest)) = to_le_bytes (uint (crc p))"
  "drop RECORD_HEADER_BYTES (encode_record crc p @ rest) = p @ rest"
  by (simp_all add: encode_record_def RECORD_HEADER_BYTES_def)

lemma read_encoded:
  assumes "storable p"
  shows "read_record crc (encode_record crc p @ rest) = Record p (length (encode_record crc p))"
proof -
  have "from_le_bytes (to_le_bytes (int (length p))) = int (length p)"
    using assms by (intro from_to_le_bytes) (auto simp: storable_def MAX_RECORD_BYTES_def)
  moreover have "from_le_bytes (to_le_bytes (uint (crc p))) = uint (crc p)"
    using uint_bounded [of "crc p"] by (intro from_to_le_bytes) simp_all
  ultimately show ?thesis
    using assms unfolding read_record_def Let_def encode_record_parts by (simp add: storable_def)
qed

lemma read_record_Record:
  assumes "read_record crc rest = Record p n"
  shows "storable p" "n = length (encode_record crc p)" "rest = encode_record crc p @ drop n rest"
proof -
  let ?len = "from_le_bytes (take 4 rest)"
  have l: "8 \<le> length rest" "0 < ?len" "?len \<le> MAX_RECORD_BYTES" "8 + ?len \<le> int (length rest)"
    "uint (crc p) = from_le_bytes (take 4 (drop 4 rest))" "p = take (nat ?len) (drop 8 rest)" "n = 8 + nat ?len"
    using assms from_le_bytes_range(1) [of "take 4 rest"]
    by (auto simp: read_record_def Let_def RECORD_HEADER_BYTES_def split: if_splits)
  then have len: "length p = nat ?len" by (simp add: min_def) linarith
  then show "storable p" using l by (auto simp: storable_def)
  show "n = length (encode_record crc p)" using l len by (simp add: RECORD_HEADER_BYTES_def)
  have "take 4 rest = to_le_bytes (int (length p))" "take 4 (drop 4 rest) = to_le_bytes (uint (crc p))"
    using from_le_bytes_range(3) [of "take 4 rest"] from_le_bytes_range(3) [of "take 4 (drop 4 rest)"] l len by simp_all
  then have "encode_record crc p @ drop n rest = take 4 rest @ take 4 (drop 4 rest) @ take (nat ?len) (drop 8 rest) @ drop (8 + nat ?len) rest"
    using l by (simp add: encode_record_def)
  also have "\<dots> = rest"
    using append_take_drop_id [of "nat ?len" "drop 8 rest"] append_take_drop_id [of 4 "drop 4 rest"] append_take_drop_id [of 4 rest]
    by (simp add: drop_drop add.commute)
  finally show "rest = encode_record crc p @ drop n rest" ..
qed

section \<open>Logs\<close>

definition encode_log :: "checksum \<Rightarrow> string list \<Rightarrow> string" where
  "encode_log crc ps = concat (map (encode_record crc) ps)"

text \<open>The payloads a file yields, and the bytes after the last of them.\<close>

definition payloads :: "checksum \<Rightarrow> string \<Rightarrow> string list" where
  "payloads crc bytes = map fst (scan_records crc bytes)"

definition unreadable :: "checksum \<Rightarrow> string \<Rightarrow> bool" where
  "unreadable crc bytes \<longleftrightarrow> payloads crc bytes = []"

lemma encode_log_simps [simp]:
  "encode_log crc [] = []" "encode_log crc (p # ps) = encode_record crc p @ encode_log crc ps"
  "encode_log crc (ps @ qs) = encode_log crc ps @ encode_log crc qs"
  by (simp_all add: encode_log_def)

lemma payloads_Cons: "storable p \<Longrightarrow> payloads crc (encode_record crc p @ rest) = p # payloads crc rest"
  by (simp add: payloads_def scan_records.simps [of crc "encode_record crc p @ rest"] read_encoded)

lemma payloads_stop: "(\<And>p n. read_record crc rest \<noteq> Record p n) \<Longrightarrow> payloads crc rest = []"
  by (simp add: payloads_def scan_records.simps [of crc rest] split: RecordRead.splits)

lemma payloads_Nil [simp]: "payloads crc [] = []"
  by (rule payloads_stop) (simp add: read_record_def RECORD_HEADER_BYTES_def)

lemma payloads_log: "list_all storable ps \<Longrightarrow> payloads crc (encode_log crc ps @ rest) = ps @ payloads crc rest"
  by (induction ps) (simp_all add: payloads_Cons)

lemma payloads_split:
  "\<exists>tail. bytes = encode_log crc (payloads crc bytes) @ tail \<and> unreadable crc tail \<and> list_all storable (payloads crc bytes)"
proof (induction "length bytes" arbitrary: bytes rule: less_induct)
  case less
  show ?case
  proof (cases "\<exists>p n. read_record crc bytes = Record p n")
    case True
    then obtain p n where r: "read_record crc bytes = Record p n" by blast
    note split = read_record_Record [OF r]
    obtain tail where "drop n bytes = encode_log crc (payloads crc (drop n bytes)) @ tail" "unreadable crc tail"
      "list_all storable (payloads crc (drop n bytes))"
      using less [of "drop n bytes"] read_record_consumes [OF r] by (metis diff_less length_drop less_le_trans)
    moreover have "payloads crc bytes = p # payloads crc (drop n bytes)" using payloads_Cons [OF split(1)] split(3) by metis
    ultimately show ?thesis using split(1,3) by (intro exI [of _ tail]) simp
  next
    case False
    then show ?thesis using payloads_stop [of crc bytes] by (intro exI [of _ bytes]) (simp add: unreadable_def)
  qed
qed

lemma payloads_storable: "p \<in> set (payloads crc bytes) \<Longrightarrow> storable p"
  using payloads_split [of bytes crc] by (auto simp: list_all_iff)

lemma scan_bytes: "sum_list (map snd (scan_records crc bytes)) = length (encode_log crc (payloads crc bytes))"
proof (induction crc bytes rule: scan_records.induct)
  case (1 crc rest)
  show ?case
  proof (cases "read_record crc rest")
    case (Record p n)
    then have "length (encode_log crc (payloads crc rest)) = n + length (encode_log crc (payloads crc (drop n rest)))"
      using read_record_Record [OF Record] payloads_Cons [of p crc "drop n rest"] by (metis append_eq_conv_conj encode_log_simps(2) length_append)
    then show ?thesis using 1 [OF Record] Record by (simp add: scan_records.simps [of crc rest])
  qed (simp_all add: scan_records.simps [of crc rest] payloads_stop)
qed

text \<open>A record that is cut off does not read, whatever its checksum.\<close>

lemma cut_unreadable:
  assumes "storable p" "encode_record crc p = part @ rest" "rest \<noteq> []"
  shows "unreadable crc part"
proof -
  have "read_record crc part \<noteq> Record q n" for q n
  proof
    assume r: "read_record crc part = Record q n"
    then have "part = encode_record crc q @ drop n part" by (rule read_record_Record)
    then have eq: "encode_record crc p = encode_record crc q @ drop n part @ rest" using assms(2) by (metis append_assoc)
    then have "read_record crc (encode_record crc p) = Record q (length (encode_record crc q))"
      using read_encoded [OF read_record_Record(1) [OF r]] by metis
    then have "q = p" using read_encoded [OF assms(1), of crc "[]"] by simp
    with eq show False using assms(3) by simp
  qed
  then show ?thesis by (simp add: unreadable_def payloads_stop)
qed

text \<open>Whatever is appended to a file leaves the records it had.\<close>

lemma payloads_append:
  obtains tail where "bytes = encode_log crc (payloads crc bytes) @ tail" "unreadable crc tail"
    "\<And>more. payloads crc (bytes @ more) = payloads crc bytes @ payloads crc (tail @ more)"
proof -
  obtain tail where t: "bytes = encode_log crc (payloads crc bytes) @ tail" "unreadable crc tail" "list_all storable (payloads crc bytes)"
    using payloads_split by blast
  have "payloads crc (bytes @ more) = payloads crc bytes @ payloads crc (tail @ more)" for more
    using payloads_log [OF t(3), of crc "tail @ more"] t(1) by (metis append_assoc)
  then show ?thesis using that t by blast
qed

definition intact :: "checksum \<Rightarrow> string \<Rightarrow> bool" where
  "intact crc bytes \<longleftrightarrow> bytes = encode_log crc (payloads crc bytes)"

lemma intact_log: "list_all storable ps \<Longrightarrow> intact crc (encode_log crc ps)"
  using payloads_log [of ps crc "[]"] by (simp add: intact_def)

lemma intact_append:
  assumes "intact crc bytes" "storable p"
  shows "intact crc (bytes @ encode_record crc p)" "payloads crc (bytes @ encode_record crc p) = payloads crc bytes @ [p]"
proof -
  have "list_all storable (payloads crc bytes)" using payloads_storable by (auto simp: list_all_iff)
  then have "payloads crc (encode_log crc (payloads crc bytes) @ encode_record crc p) = payloads crc bytes @ [p]"
    using payloads_log [of "payloads crc bytes" crc "encode_record crc p"] payloads_Cons [OF assms(2), of crc "[]"] by simp
  then show "payloads crc (bytes @ encode_record crc p) = payloads crc bytes @ [p]" using assms(1) by (simp add: intact_def)
  then show "intact crc (bytes @ encode_record crc p)" using assms(1) by (simp add: intact_def)
qed

lemma take_intact: "intact crc (take (length (encode_log crc (payloads crc bytes))) bytes)"
  "payloads crc (take (length (encode_log crc (payloads crc bytes))) bytes) = payloads crc bytes"
proof -
  obtain tail where t: "bytes = encode_log crc (payloads crc bytes) @ tail" "list_all storable (payloads crc bytes)"
    using payloads_split by blast
  then have *: "take (length (encode_log crc (payloads crc bytes))) bytes = encode_log crc (payloads crc bytes)"
    by (metis append_eq_conv_conj)
  show "payloads crc (take (length (encode_log crc (payloads crc bytes))) bytes) = payloads crc bytes"
    unfolding * using payloads_log [OF t(2), of crc "[]"] by simp
  show "intact crc (take (length (encode_log crc (payloads crc bytes))) bytes)" unfolding * by (rule intact_log [OF t(2)])
qed

text \<open>A prefix of an intact log yields a prefix of its records.\<close>

lemma intact_prefix:
  "list_all storable ps \<Longrightarrow> encode_log crc ps = bytes @ rest \<Longrightarrow> \<exists>qs. ps = payloads crc bytes @ qs"
proof (induction ps arbitrary: bytes)
  case (Cons p ps)
  show ?case
  proof (cases "length (encode_record crc p) \<le> length bytes")
    case True
    then obtain bytes' where b: "bytes = encode_record crc p @ bytes'"
      using Cons.prems(2) by (metis append_eq_append_conv_if append_take_drop_id encode_log_simps(2))
    then have "encode_log crc ps = bytes' @ rest" using Cons.prems(2) by simp
    then obtain qs where "ps = payloads crc bytes' @ qs" using Cons by auto
    then show ?thesis using Cons.prems(1) by (simp add: b payloads_Cons)
  next
    case False
    then have "encode_record crc p = bytes @ drop (length bytes) (encode_record crc p)" "drop (length bytes) (encode_record crc p) \<noteq> []"
      using Cons.prems(2) by (auto simp: append_eq_append_conv_if) (metis append_take_drop_id)
    from cut_unreadable [OF _ this] show ?thesis using Cons.prems(1) by (simp add: unreadable_def)
  qed
qed simp

section \<open>Positions\<close>

definition on_record :: "checksum \<Rightarrow> files \<Rightarrow> Cursor \<Rightarrow> bool" where
  "on_record crc fs c \<longleftrightarrow>
     map_of fs (segment_path (cu_segment c)) = None \<or>
     (\<exists>k. cu_offset c = length (encode_log crc (take k (payloads crc (content fs (segment_path (cu_segment c)))))))"

lemma drop_records:
  assumes "off = length (encode_log crc (take k (payloads crc bytes)))"
  shows "payloads crc (drop off bytes) = drop k (payloads crc bytes)" "off \<le> length bytes"
proof -
  obtain tail where t: "bytes = encode_log crc (payloads crc bytes) @ tail" "unreadable crc tail" "list_all storable (payloads crc bytes)"
    using payloads_split by blast
  have "encode_log crc (payloads crc bytes) = encode_log crc (take k (payloads crc bytes)) @ encode_log crc (drop k (payloads crc bytes))"
    by (simp flip: encode_log_simps(3))
  then have "bytes = encode_log crc (take k (payloads crc bytes)) @ encode_log crc (drop k (payloads crc bytes)) @ tail" using t(1) by simp
  then have d: "drop off bytes = encode_log crc (drop k (payloads crc bytes)) @ tail" "off \<le> length bytes"
    unfolding assms by (metis append_eq_conv_conj, metis length_append le_add1)
  have "list_all storable (drop k (payloads crc bytes))" using t(3) by (auto simp: list_all_iff dest: in_set_dropD)
  then show "payloads crc (drop off bytes) = drop k (payloads crc bytes)" "off \<le> length bytes"
    using d t(2) by (simp_all add: payloads_log unreadable_def)
qed

lemma undelivered_eq:
  "undelivered crc fs c i =
     (if i < cu_segment c then []
      else payloads crc (drop (if i = cu_segment c then cu_offset c else 0) (content fs (segment_path i))))"
  by (simp add: undelivered_def payloads_def)

lemma content_None [simp]: "map_of fs name = None \<Longrightarrow> content fs name = []"
  and content_Some [simp]: "map_of fs name = Some bytes \<Longrightarrow> content fs name = bytes"
  by (simp_all add: content_def)

lemma undelivered_missing: "map_of fs (segment_path i) = None \<Longrightarrow> undelivered crc fs c i = []"
  by (simp add: undelivered_eq)

section \<open>The queue of a directory and a cursor\<close>

definition queued :: "checksum \<Rightarrow> files \<Rightarrow> nat list \<Rightarrow> Cursor \<Rightarrow> string list" where
  "queued crc fs segs c = concat (map (undelivered crc fs c) segs)"

lemma queued_cong:
  "(\<And>i. i \<in> set segs \<Longrightarrow> map_of fs (segment_path i) = map_of fs' (segment_path i)) \<Longrightarrow>
   queued crc fs segs c = queued crc fs' segs c"
  by (auto simp: queued_def undelivered_eq content_def intro!: arg_cong [of _ _ concat] map_cong)

lemma queued_filter: "(\<And>i. i \<in> set segs \<Longrightarrow> \<not> P i \<Longrightarrow> undelivered crc fs c i = []) \<Longrightarrow> queued crc fs (filter P segs) c = queued crc fs segs c"
  by (induction segs) (auto simp: queued_def)

lemma queued_append: "queued crc fs (xs @ ys) c = queued crc fs xs c @ queued crc fs ys c"
  by (simp add: queued_def)

section \<open>Names\<close>

lemma digits_value_zeros: "digits_value (replicate k (CHR ''0'') @ s) = digits_value s"
  by (induction k) (simp_all add: digits_value_def digit_value_def)

lemma nat_digits_length: "n < 10 ^ k \<Longrightarrow> 0 < k \<Longrightarrow> length (nat_digits n) \<le> k"
proof (induction k arbitrary: n)
  case (Suc k)
  show ?case
  proof (cases "n < 10")
    case False
    then have "0 < k" using Suc.prems by (cases k) auto
    moreover have "n div 10 < 10 ^ k" using Suc.prems(1) by (simp add: less_mult_imp_div_less mult.commute)
    ultimately show ?thesis using Suc.IH False by (subst nat_digits.simps) simp
  qed (subst nat_digits.simps, simp)
qed simp

lemma pad20_digits: "all_digits (pad20 (nat_digits i))" "digits_value (pad20 (nat_digits i)) = i"
  using nat_digits_all [of i] by (auto simp: pad20_def digits_value_zeros nat_digits_value all_digits_def list_all_iff is_digit_def less_eq_char_def)

lemma segment_path_inject [simp]: "segment_path i = segment_path j \<longleftrightarrow> i = j"
proof
  assume "segment_path i = segment_path j"
  then have "pad20 (nat_digits i) = pad20 (nat_digits j)" by (simp add: segment_path_def)
  then show "i = j" using pad20_digits(2) by metis
qed simp

lemma segment_path_ne [simp]: "segment_path i \<noteq> CURSOR_FILE" "segment_path i \<noteq> CURSOR_TMP" "CURSOR_FILE \<noteq> segment_path i"
  "CURSOR_TMP \<noteq> segment_path i" "CURSOR_FILE \<noteq> CURSOR_TMP"
  by (simp_all add: segment_path_def SEGMENT_PREFIX_def CURSOR_FILE_def CURSOR_TMP_def)

lemma parse_u64_digits: "all_digits s \<Longrightarrow> parse_u64 s = (if digits_value s < 2 ^ 64 then Some (digits_value s) else None)"
proof -
  assume s: "all_digits s"
  have "hd s \<noteq> CHR ''+''" using s by (cases s) (auto simp: all_digits_def is_digit_def less_eq_char_def)
  then show ?thesis using s by (simp add: parse_u64_def)
qed

lemma segment_index_path: "i < 2 ^ 64 \<Longrightarrow> segment_index (segment_path i) = Some i"
  using pad20_digits [of i]
  by (simp add: segment_index_def segment_path_def strip_prefix_def strip_suffix_def SEGMENT_PREFIX_def SEGMENT_SUFFIX_def parse_u64_digits)

lemma segment_index_cursor [simp]: "segment_index CURSOR_FILE = None" "segment_index CURSOR_TMP = None"
  by (simp_all add: segment_index_def strip_prefix_def SEGMENT_PREFIX_def CURSOR_FILE_def CURSOR_TMP_def)

end
