(* ===== verification/Edge_Queue.thy ===== *)
theory Edge_Queue
  imports Edge_Log
begin

text \<open>
  The spool as a queue. \<open>spool_inv\<close> relates the directory to the spool in memory; under it \<open>read_batch\<close>
  returns the first records of the queue and the position behind them. Reading changes nothing but the
  count of corrupt records.
\<close>

section \<open>Order of positions\<close>

definition reached :: "Cursor \<Rightarrow> Cursor \<Rightarrow> bool" where
  "reached c d \<longleftrightarrow> cu_segment c < cu_segment d \<or> cu_segment c = cu_segment d \<and> cu_offset c \<le> cu_offset d"

lemma reached_refl [simp]: "reached c c"
  and reached_trans: "reached c d \<Longrightarrow> reached d e \<Longrightarrow> reached c e"
  by (auto simp: reached_def)

lemma encode_log_take_mono: "k \<le> n \<Longrightarrow> length (encode_log crc (take k ps)) \<le> length (encode_log crc (take n ps))"
  by (metis (no_types, lifting) encode_log_simps(3) length_append le_add1 min.absorb2 take_add take_take le_Suc_ex)

lemma later_records:
  assumes "off = length (encode_log crc (take k (payloads crc bytes)))" "off' = length (encode_log crc (take n (payloads crc bytes)))"
    and "off \<le> off'"
  shows "\<exists>xs. payloads crc (drop off bytes) = xs @ payloads crc (drop off' bytes)"
proof (cases "k \<le> n")
  case True
  then have "drop k (payloads crc bytes) = take (n - k) (drop k (payloads crc bytes)) @ drop n (payloads crc bytes)"
    using append_take_drop_id [of "n - k" "drop k (payloads crc bytes)"] by (simp add: drop_drop)
  then show ?thesis unfolding drop_records(1) [OF assms(1)] drop_records(1) [OF assms(2)] by blast
next
  case False
  then have "off' \<le> off" using encode_log_take_mono [of n k crc "payloads crc bytes"] assms by simp
  then show ?thesis using assms(3) by simp
qed

lemma undelivered_later:
  assumes "reached c d" "on_record crc fs c" "on_record crc fs d"
  shows "\<exists>xs. undelivered crc fs c i = xs @ undelivered crc fs d i"
proof -
  consider "i < cu_segment d" | "cu_segment d < i" | "i = cu_segment d" "map_of fs (segment_path i) = None"
    | "i = cu_segment d" "map_of fs (segment_path i) \<noteq> None" by linarith
  then show ?thesis
  proof cases
    case 4
    let ?bytes = "content fs (segment_path i)"
    obtain n where n: "cu_offset d = length (encode_log crc (take n (payloads crc ?bytes)))"
      using 4 assms(3) by (auto simp: on_record_def)
    show ?thesis
    proof (cases "cu_segment c = i")
      case True
      then obtain k where "cu_offset c = length (encode_log crc (take k (payloads crc ?bytes)))"
        using 4 assms(2) by (auto simp: on_record_def)
      then show ?thesis using later_records [OF _ n] assms(1) 4 True by (auto simp: undelivered_eq reached_def)
    next
      case False
      then show ?thesis using later_records [of 0 crc 0 ?bytes, OF _ n] assms(1) 4 by (auto simp: undelivered_eq reached_def)
    qed
  qed (use assms(1) in \<open>auto simp: undelivered_eq reached_def\<close>)
qed

lemma queued_later:
  assumes "reached c d" "on_record crc fs c" "on_record crc fs d" "sorted_wrt (<) segs"
  shows "\<exists>xs. queued crc fs segs c = xs @ queued crc fs segs d"
  using assms(4)
proof (induction segs)
  case (Cons i segs)
  obtain ys where ys: "undelivered crc fs c i = ys @ undelivered crc fs d i" using undelivered_later [OF assms(1-3)] by blast
  show ?case
  proof (cases "i < cu_segment d")
    case True
    then have "undelivered crc fs d i = []" by (simp add: undelivered_eq)
    then show ?thesis using Cons by (auto simp: queued_def intro: exI [of _ "undelivered crc fs c i @ _"])
  next
    case False
    have "undelivered crc fs c j = undelivered crc fs d j" if "j \<in> set segs" for j
    proof -
      have "i < j" using that Cons.prems by simp
      then have "cu_segment d < j" "cu_segment c < j" using False assms(1) by (auto simp: reached_def)
      then show ?thesis by (simp add: undelivered_eq)
    qed
    then have "queued crc fs segs c = queued crc fs segs d" by (auto simp: queued_def intro!: arg_cong [of _ _ concat] map_cong)
    then show ?thesis using ys by (auto simp: queued_def)
  qed
qed (simp add: queued_def)

section \<open>Reading\<close>

text \<open>States that differ at most in the number of corrupt records and in the calls made.\<close>

definition steady :: "'z Spooled_scheme \<Rightarrow> 'z Spooled_scheme \<Rightarrow> bool" where
  "steady s s' \<longleftrightarrow> (\<exists>n k. mc_calls s \<le> k \<and> s' = on_spool (\<lambda>sp. sp\<lparr>sp_corrupt_records := n\<rparr>) (s\<lparr>mc_calls := k\<rparr>))"

lemma steady_trans: "steady s s' \<Longrightarrow> steady s' s'' \<Longrightarrow> steady s s''"
  unfolding steady_def on_spool_def by clarsimp (metis order_trans)

lemma steadyD:
  assumes "steady s s'"
  shows "mc_files s' = mc_files s" "mc_bus s' = mc_bus s" "mc_sent s' = mc_sent s" "st_discarded s' = st_discarded s"
    "sp_segments (st_spool s') = sp_segments (st_spool s)" "sp_cursor (st_spool s') = sp_cursor (st_spool s)"
    "sp_active (st_spool s') = sp_active (st_spool s)" "sp_config (st_spool s') = sp_config (st_spool s)"
    "mc_stores s' = mc_stores s" "mc_faults s' = mc_faults s" "mc_calls s \<le> mc_calls s'" "sp_dropped_records (st_spool s') = sp_dropped_records (st_spool s)"
  using assms by (auto simp: steady_def on_spool_def)

lemma steady_intros: "steady s s" "steady s (called s)" "steady s (on_spool bump_corrupt (called s))" "steady s ((called s)\<lparr>mc_files := mc_files s\<rparr>)"
proof -
  let ?n = "sp_corrupt_records (st_spool s)"
  show "steady s s" unfolding steady_def by (rule exI [of _ ?n], rule exI [of _ "mc_calls s"]) (simp add: on_spool_def)
  show "steady s (called s)" "steady s ((called s)\<lparr>mc_files := mc_files s\<rparr>)"
    unfolding steady_def by (rule exI [of _ ?n], rule exI [of _ "Suc (mc_calls s)"], simp add: on_spool_def called_def)+
  show "steady s (on_spool bump_corrupt (called s))"
    unfolding steady_def by (rule exI [of _ "?n + 1"], rule exI [of _ "Suc (mc_calls s)"]) (simp add: on_spool_def called_def bump_corrupt_def)
qed

lemma ends_reading:
  "(\<And>r. r = result (mc_files s) \<or> r = Err IoError \<or> r = Killed \<Longrightarrow> Q r (called s)) \<Longrightarrow> ends (reading_call result) Q s"
  by (auto simp: ends_syscall reading_call_def called_def split: fault.splits)

lemma read_loop_spec:
  "length records \<le> limit \<Longrightarrow>
   \<exists>exhausted corrupt. read_loop crc limit rest offset records =
     (exhausted, corrupt, offset + length (encode_log crc (take (limit - length records) (payloads crc rest))),
      records @ take (limit - length records) (payloads crc rest)) \<and>
     (exhausted \<longleftrightarrow> length (payloads crc rest) < limit - length records)"
proof (induction crc limit rest offset records rule: read_loop.induct)
  case (1 crc limit rest offset records)
  show ?case
  proof (cases "length records < limit")
    case True
    show ?thesis
    proof (cases "read_record crc rest")
      case (Record p n)
      note rec = read_record_Record [OF Record]
      have ps: "payloads crc rest = p # payloads crc (drop n rest)" using payloads_Cons [OF rec(1)] rec(3) by metis
      have left: "limit - length records = Suc (limit - length (records @ [p]))" using True by simp
      obtain exhausted corrupt where "read_loop crc limit (drop n rest) (offset + n) (records @ [p]) =
          (exhausted, corrupt, offset + n + length (encode_log crc (take (limit - length (records @ [p])) (payloads crc (drop n rest)))),
           (records @ [p]) @ take (limit - length (records @ [p])) (payloads crc (drop n rest)))"
        "exhausted \<longleftrightarrow> length (payloads crc (drop n rest)) < limit - length (records @ [p])"
        using 1(1) [OF True Record] True by auto
      moreover have "read_loop crc limit rest offset records = read_loop crc limit (drop n rest) (offset + n) (records @ [p])"
        using True Record by (subst read_loop.simps) simp
      ultimately show ?thesis unfolding left ps using rec(2) by simp
    next
      case EndOfSegment
      then have "read_loop crc limit rest offset records = (True, False, offset, records)" using True by (subst read_loop.simps) simp
      then show ?thesis using EndOfSegment True by (intro exI [of _ True] exI [of _ False]) (simp add: payloads_stop)
    next
      case Corrupt
      then have "read_loop crc limit rest offset records = (True, True, offset, records)" using True by (subst read_loop.simps) simp
      then show ?thesis using Corrupt True by (intro exI [of _ True]) (simp add: payloads_stop)
    qed
  next
    case False
    then have "read_loop crc limit rest offset records = (False, False, offset, records)" by (subst read_loop.simps) simp
    then show ?thesis using False by (intro exI [of _ False]) simp
  qed
qed

text \<open>One segment: the records from the cursor on, up to the limit.\<close>

lemma read_from_segment_spec:
  assumes "length records \<le> limit" "cu_segment c = segment"
  shows "ends (read_from_segment crc segment c limit records)
    (\<lambda>r s'. steady s s' \<and> (case r of
       Ok (exhausted, c', rs) \<Rightarrow>
         rs = records @ take (limit - length records) (undelivered crc (mc_files s) c segment) \<and>
         c' = c\<lparr>cu_offset := cu_offset c + length (encode_log crc (take (limit - length records) (undelivered crc (mc_files s) c segment)))\<rparr> \<and>
         (exhausted \<longleftrightarrow> length (undelivered crc (mc_files s) c segment) < limit - length records \<or> map_of (mc_files s) (segment_path segment) = None)
     | _ \<Rightarrow> True)) s"
proof -
  let ?name = "segment_path segment"
  let ?us = "undelivered crc (mc_files s) c segment"
  let ?n = "limit - length records"
  have us: "?us = payloads crc (drop (cu_offset c) (content (mc_files s) ?name))" using assms(2) by (simp add: undelivered_eq)
  obtain exhausted corrupt where loop: "read_loop crc limit (drop (cu_offset c) (content (mc_files s) ?name)) (cu_offset c) records =
      (exhausted, corrupt, cu_offset c + length (encode_log crc (take ?n ?us)), records @ take ?n ?us)"
    "exhausted \<longleftrightarrow> length ?us < ?n"
    unfolding us using read_loop_spec [OF assms(1)] by blast
  have opened: "read_file ?name s \<in> {(Killed, called s), (Err IoError, called s),
      (case map_of (mc_files s) ?name of None \<Rightarrow> Err NotFound | Some b \<Rightarrow> Ok b, called s)}"
    by (auto simp: read_file_def reading_call_def syscall_def called_def split: fault.splits option.splits)
  have "ends (read_from_segment crc segment c limit records) (\<lambda>r s'. s' = called s \<or> s' = on_spool bump_corrupt (called s)) s"
    using opened loop by (auto simp: ends_def read_from_segment_def split: option.splits)
  moreover have "ends (read_from_segment crc segment c limit records) (\<lambda>r s'. case r of
       Ok (ex, c', rs) \<Rightarrow> rs = records @ take ?n ?us \<and> c' = c\<lparr>cu_offset := cu_offset c + length (encode_log crc (take ?n ?us))\<rparr> \<and>
         (ex \<longleftrightarrow> length ?us < ?n \<or> map_of (mc_files s) ?name = None) | _ \<Rightarrow> True) s"
  proof (cases "map_of (mc_files s) ?name")
    case None
    then show ?thesis using opened by (auto simp: ends_def read_from_segment_def undelivered_missing)
  next
    case (Some bytes)
    then show ?thesis using opened loop by (auto simp: ends_def read_from_segment_def)
  qed
  ultimately show ?thesis by (rule ends_weaken [OF ends_conj]) (auto intro: steady_intros)
qed

text \<open>The segments from a position on, and what moving the position within them does.\<close>

lemma segments_from:
  assumes "sorted_wrt (<) (sp_segments sp)"
  shows "segment_at_or_after sp (cu_segment d) = None \<Longrightarrow> queued crc fs (sp_segments sp) d = []"
    "segment_at_or_after sp c = Some i \<Longrightarrow>
       \<exists>xs ys. sp_segments sp = xs @ i # ys \<and> (\<forall>j\<in>set xs. j < c) \<and> c \<le> i \<and>
         segment_after sp i = (case ys of [] \<Rightarrow> None | j # _ \<Rightarrow> Some j)"
proof -
  assume "segment_at_or_after sp (cu_segment d) = None"
  then have "\<forall>j\<in>set (sp_segments sp). \<not> cu_segment d \<le> j" by (auto simp: segment_at_or_after_def filter_empty_conv split: list.splits)
  then show "queued crc fs (sp_segments sp) d = []"
    by (auto simp: queued_def undelivered_eq)
next
  assume "segment_at_or_after sp c = Some i"
  then obtain zs where "filter (\<lambda>k. c \<le> k) (sp_segments sp) = i # zs" by (auto simp: segment_at_or_after_def split: list.splits)
  then obtain xs ys where *: "sp_segments sp = xs @ i # ys" "\<forall>j\<in>set xs. \<not> c \<le> j" "c \<le> i" by (auto simp: filter_eq_Cons_iff)
  then have "\<forall>j\<in>set ys. i + 1 \<le> j" "\<forall>j\<in>set xs. \<not> i + 1 \<le> j" using assms by (auto simp: sorted_wrt_append)
  then have "filter (\<lambda>k. i + 1 \<le> k) (sp_segments sp) = ys" using * by (simp add: filter_True filter_False)
  then have "segment_after sp i = (case ys of [] \<Rightarrow> None | j # _ \<Rightarrow> Some j)" by (simp add: segment_after_def segment_at_or_after_def)
  then show "\<exists>xs ys. sp_segments sp = xs @ i # ys \<and> (\<forall>j\<in>set xs. j < c) \<and> c \<le> i \<and>
         segment_after sp i = (case ys of [] \<Rightarrow> None | j # _ \<Rightarrow> Some j)"
    using * by (intro exI [of _ xs] exI [of _ ys]) auto
qed

text \<open>What lies before the segment of a position is behind the drain; what lies after it is whole.\<close>

lemma queued_at:
  assumes "sorted_wrt (<) (xs @ i # ys)" "\<forall>j\<in>set xs. j < cu_segment c" "cu_segment c \<le> i"
  shows "queued crc fs (xs @ i # ys) c = undelivered crc fs c i @ queued crc fs ys \<lparr>cu_segment = 0, cu_offset = 0\<rparr>"
proof -
  have "concat (map (undelivered crc fs c) xs) = []" using assms(2) by (simp add: undelivered_eq)
  moreover have "undelivered crc fs c j = undelivered crc fs \<lparr>cu_segment = 0, cu_offset = 0\<rparr> j" if "j \<in> set ys" for j
    using assms(1,3) that by (auto simp: undelivered_eq sorted_wrt_append)
  then have "map (undelivered crc fs c) ys = map (undelivered crc fs \<lparr>cu_segment = 0, cu_offset = 0\<rparr>) ys" by simp
  ultimately show ?thesis by (simp only: queued_def map_append list.map concat_append concat.simps append_Nil)
qed

lemma undelivered_offset:
  assumes "on_record crc fs c" "cu_segment c = i" "us = undelivered crc fs c i"
    and "c' = c\<lparr>cu_offset := cu_offset c + length (encode_log crc (take n us))\<rparr>"
  shows "undelivered crc fs c' i = drop n us" "on_record crc fs c'"
proof -
  have "undelivered crc fs c' i = drop n us \<and> on_record crc fs c'"
  proof (cases "map_of fs (segment_path i)")
    case None
    then show ?thesis using assms by (simp add: undelivered_missing on_record_def)
  next
    case (Some bytes)
    then obtain k where k: "cu_offset c = length (encode_log crc (take k (payloads crc bytes)))" using assms(1,2) by (auto simp: on_record_def)
    have us: "us = drop k (payloads crc bytes)" using assms(2,3) Some by (simp add: undelivered_eq drop_records(1) [OF k])
    have off: "cu_offset c' = length (encode_log crc (take (k + n) (payloads crc bytes)))"
      using assms(4) k us by (simp add: take_add)
    then have "on_record crc fs c'" using assms(2,4) Some by (auto simp: on_record_def)
    moreover have "undelivered crc fs c' i = drop n us"
    proof -
      have "undelivered crc fs c' i = payloads crc (drop (cu_offset c') bytes)" using assms(2,4) Some by (simp add: undelivered_eq)
      then show ?thesis using us by (simp add: drop_records(1) [OF off] drop_drop add.commute)
    qed
    ultimately show ?thesis by simp
  qed
  then show "undelivered crc fs c' i = drop n us" "on_record crc fs c'" by simp_all
qed

text \<open>The contract of a read that starts at \<open>c\<close> and has \<open>records\<close> already.\<close>

definition read_post ::
  "checksum \<Rightarrow> Cursor \<Rightarrow> nat \<Rightarrow> string list \<Rightarrow> 'z Spooled_scheme \<Rightarrow> (io_error, string list \<times> Cursor) reply \<Rightarrow> 'z Spooled_scheme \<Rightarrow> bool" where
  "read_post crc c limit records s r s' \<longleftrightarrow> steady s s' \<and>
     (case r of
        Ok (rs, c') \<Rightarrow>
          rs = records @ take (limit - length records) (queued crc (mc_files s) (sp_segments (st_spool s)) c) \<and>
          queued crc (mc_files s) (sp_segments (st_spool s)) c' =
            drop (limit - length records) (queued crc (mc_files s) (sp_segments (st_spool s)) c) \<and>
          reached c c' \<and> on_record crc (mc_files s) c' \<and> (c' = c \<or> cu_segment c' \<in> set (sp_segments (st_spool s)))
      | _ \<Rightarrow> True)"

lemma read_segments_spec:
  assumes "length records < limit" "sorted_wrt (<) (sp_segments (st_spool s))" "on_record crc (mc_files s) c"
  shows "ends (read_segments crc c limit records) (read_post crc c limit records s) s"
  using assms
proof (induction crc c limit records s rule: read_segments.induct)
  case (1 crc c limit records s)
  let ?fs = "mc_files s" let ?segs = "sp_segments (st_spool s)" let ?n = "limit - length records"
  show ?case
  proof (cases "segment_at_or_after (st_spool s) (cu_segment c)")
    case None
    then have "queued crc ?fs ?segs c = []" by (rule segments_from(1) [OF 1(3)])
    then show ?thesis using None 1(4) by (simp add: ends_def read_segments.simps [of crc c] read_post_def steady_intros)
  next
    case (Some i)
    obtain xs ys where segs: "?segs = xs @ i # ys" "\<forall>j\<in>set xs. j < cu_segment c" "cu_segment c \<le> i"
      and after: "segment_after (st_spool s) i = (case ys of [] \<Rightarrow> None | j # _ \<Rightarrow> Some j)"
      using segments_from(2) [OF 1(3) Some] by blast
    define d where "d = (if i \<noteq> cu_segment c then \<lparr>cu_segment = i, cu_offset = 0\<rparr> else c)"
    have d: "cu_segment d = i" "on_record crc ?fs d" "reached c d" "undelivered crc ?fs d i = undelivered crc ?fs c i"
      using segs(3) 1(4) by (auto simp: d_def on_record_def reached_def undelivered_eq intro: exI [of _ 0])
    let ?us = "undelivered crc ?fs d i" and ?rest = "queued crc ?fs ys \<lparr>cu_segment = 0, cu_offset = 0\<rparr>"
    have sorted: "sorted_wrt (<) (xs @ i # ys)" using 1(3) segs(1) by simp
    have q: "queued crc ?fs ?segs c = ?us @ ?rest" unfolding segs(1) d(4) by (rule queued_at [OF sorted segs(2,3)])
    define e where "e = d\<lparr>cu_offset := cu_offset d + length (encode_log crc (take ?n ?us))\<rparr>"
    define rs where "rs = records @ take ?n ?us"
    have e: "undelivered crc ?fs e i = drop ?n ?us" "on_record crc ?fs e" by (rule undelivered_offset [OF d(2,1) refl e_def])+
    have e_at: "reached c e" "cu_segment e = i" "i \<in> set ?segs" using d(1,3) segs(1) by (auto simp: reached_def e_def)
    have "queued crc ?fs (xs @ i # ys) e = undelivered crc ?fs e i @ ?rest"
      by (rule queued_at [OF sorted]) (use segs(2,3) e_at in auto)
    then have qe: "queued crc ?fs ?segs e = drop ?n ?us @ ?rest" by (simp only: segs(1) e(1))
    obtain r s' where read: "read_from_segment crc i d limit records s = (r, s')" by (cases "read_from_segment crc i d limit records s")
    note spec = endsD [OF read_from_segment_spec [OF less_imp_le [OF 1(2)] d(1)] read, folded e_def rs_def]
    note unfold = read_segments.simps [of crc c limit records s, unfolded Some, simplified, folded d_def, simplified, unfolded read]
    show ?thesis
    proof (cases r)
      case (Ok a)
      obtain ex where a: "a = (ex, e, rs)" and ex: "ex \<longleftrightarrow> length ?us < ?n \<or> map_of ?fs (segment_path i) = None"
        using spec Ok by (cases a) auto
      have us: "map_of ?fs (segment_path i) = None \<Longrightarrow> ?us = []" by (rule undelivered_missing)
      have full: "limit \<le> length rs \<longleftrightarrow> ?n \<le> length ?us" using 1(2) by (auto simp: rs_def)
      show ?thesis
      proof (cases "?n \<le> length ?us \<or> ys = []")
        case True
        then have "read_segments crc c limit records s = (Ok (rs, e), s')" using unfold Ok a full after by (auto split: if_splits)
        moreover have "rs = records @ take ?n (?us @ ?rest)" "drop ?n ?us @ ?rest = drop ?n (?us @ ?rest)"
          using True by (auto simp: rs_def queued_def)
        ultimately show ?thesis using spec q qe e e_at by (simp add: ends_def read_post_def)
      next
        case False
        then obtain j zs where ys: "ys = j # zs" by (cases ys) auto
        have "ex" "length rs < limit" using False full 1(2) ex us by auto
        let ?f = "\<lparr>cu_segment = j, cu_offset = 0\<rparr>"
        have "queued crc ?fs ((xs @ [i]) @ j # zs) ?f = undelivered crc ?fs ?f j @ queued crc ?fs zs \<lparr>cu_segment = 0, cu_offset = 0\<rparr>"
          by (rule queued_at) (use sorted ys segs(2,3) in \<open>auto simp: sorted_wrt_append\<close>)
        then have qf: "queued crc ?fs ?segs ?f = ?rest" using segs(1) ys by (simp add: queued_def undelivered_eq)
        have rf: "reached c ?f" "on_record crc ?fs ?f" "j \<in> set ?segs"
          using segs(1,3) sorted ys by (auto simp: reached_def on_record_def sorted_wrt_append intro: exI [of _ 0])
        have step: "read_segments crc c limit records s = read_segments crc ?f limit rs s'"
          using unfold Ok a after ys \<open>ex\<close> \<open>length rs < limit\<close> by simp
        have st: "steady s s'" using spec by simp
        have next_post: "ends (read_segments crc ?f limit rs) (read_post crc ?f limit rs s') s'"
          by (rule "1.IH" [OF Some, of "Ok (ex, e, rs)" s' "(ex, e, rs)" ex "(e, rs)" e])
             (use read Ok a d_def \<open>ex\<close> \<open>length rs < limit\<close> after ys rf(2) 1(3) steadyD [OF st] in auto)
        have "read_post crc c limit records s r' t" if "read_post crc ?f limit rs s' r' t" for r' t
        proof -
          have "limit - length rs = ?n - length ?us" "rs = records @ ?us" using False by (auto simp: rs_def)
          then show ?thesis using that False st steadyD [OF st] q qf rf reached_trans [OF rf(1)]
            by (auto simp: read_post_def steady_trans split: reply.splits)
        qed
        then show ?thesis using next_post unfolding ends_def step by auto
      qed
    qed (use unfold spec in \<open>simp_all add: ends_def read_post_def\<close>)
  qed
qed

end
