(* ===== verification/Edge_Spool_Laws.thy ===== *)
theory Edge_Spool_Laws
  imports Edge_Queue
begin

text \<open>
  The invariant of a spool and its directory, and what every operation does to it at every fate of every
  call: when an operation returns, and also when the process dies inside it, the directory still stands
  for the queue.
\<close>

section \<open>The directory\<close>

definition on_disk :: "files \<Rightarrow> nat list" where
  "on_disk fs = segments_of (map fst fs)"

text \<open>Nothing but segments below a bound, the cursor and its temporary file.\<close>

definition tidy :: "nat \<Rightarrow> files \<Rightarrow> bool" where
  "tidy N fs \<longleftrightarrow>
     (\<forall>name. map_of fs name \<noteq> None \<longrightarrow> name = CURSOR_FILE \<or> name = CURSOR_TMP \<or> (\<exists>i<N. name = segment_path i))"

definition stored_cursor :: "files \<Rightarrow> Cursor" where
  "stored_cursor fs = (case map_of fs CURSOR_FILE of None \<Rightarrow> default_cursor | Some raw \<Rightarrow> parse_cursor raw)"

lemma insort_insert_props:
  "set (insort_insert x xs) = insert x (set xs)" "sorted_wrt (<) xs \<Longrightarrow> sorted_wrt (<) (insort_insert x xs)" for x :: nat
  by (simp add: set_insort_insert) (simp add: strict_sorted_iff sorted_insort_insert distinct_insort_insert)

lemma segments_of_props:
  "set (segments_of names) = {i. \<exists>name\<in>set names. segment_index name = Some i}" "sorted_wrt (<) (segments_of names)"
proof -
  let ?f = "\<lambda>name segments. case segment_index name of None \<Rightarrow> segments | Some i \<Rightarrow> insort_insert i segments"
  have "set (fold ?f names acc) = set acc \<union> {i. \<exists>name\<in>set names. segment_index name = Some i} \<and>
      (sorted_wrt (<) acc \<longrightarrow> sorted_wrt (<) (fold ?f names acc))" for acc
    by (induction names arbitrary: acc) (auto simp: insort_insert_props split: option.splits)
  from this [of "[]"] show "set (segments_of names) = {i. \<exists>name\<in>set names. segment_index name = Some i}" "sorted_wrt (<) (segments_of names)"
    by (simp_all add: segments_of_def)
qed

lemma on_disk_props:
  assumes "tidy N fs" "N \<le> 2 ^ 64"
  shows "i \<in> set (on_disk fs) \<longleftrightarrow> map_of fs (segment_path i) \<noteq> None" "sorted_wrt (<) (on_disk fs)"
proof -
  have names: "name \<in> set (map fst fs) \<longleftrightarrow> map_of fs name \<noteq> None" for name
    by (metis list.set_map map_of_eq_None_iff)
  have "segment_index name = Some i \<longleftrightarrow> name = segment_path i" if "name = CURSOR_FILE \<or> name = CURSOR_TMP \<or> (\<exists>j<N. name = segment_path j)" for name
  proof -
    from that consider "name = CURSOR_FILE" | "name = CURSOR_TMP" | j where "j < N" "name = segment_path j" by blast
    then show ?thesis
    proof cases
      case 3
      then have "j < 2 ^ 64" using assms(2) by linarith
      then show ?thesis using 3 segment_index_path [of j] by auto
    qed auto
  qed
  then have "(\<exists>name\<in>set (map fst fs). segment_index name = Some i) \<longleftrightarrow> map_of fs (segment_path i) \<noteq> None"
    using assms(1) names unfolding tidy_def by metis
  then show "i \<in> set (on_disk fs) \<longleftrightarrow> map_of fs (segment_path i) \<noteq> None" by (simp add: on_disk_def segments_of_props)
  show "sorted_wrt (<) (on_disk fs)" by (simp add: on_disk_def segments_of_props)
qed

text \<open>What \<open>store_cursor\<close> writes reads back, at worst with the offset of a segment's start.\<close>

lemma digit_no_space: "all_digits a \<Longrightarrow> c \<in> set a \<Longrightarrow> \<not> is_space c"
  by (auto simp: all_digits_def list_all_iff is_space_def is_digit_def less_eq_char_def)

lemma split_whitespace_Nil: "split_whitespace [] = []"
  by (subst split_whitespace.simps) simp

lemma first_word:
  assumes "all_digits a" "rest = [] \<or> is_space (hd rest)"
  shows "split_whitespace (a @ rest) = a # split_whitespace rest"
proof -
  obtain x xs where a: "a = x # xs" using assms(1) by (cases a) (auto simp: all_digits_def)
  have "dropWhile is_space (a @ rest) = a @ rest" using digit_no_space [OF assms(1), of x] by (simp add: a)
  moreover have "takeWhile (\<lambda>c. \<not> is_space c) (a @ rest) = a" "dropWhile (\<lambda>c. \<not> is_space c) (a @ rest) = rest"
    using digit_no_space [OF assms(1)] assms(2) by (cases rest; simp add: takeWhile_append2 dropWhile_append2)+
  ultimately show ?thesis by (subst split_whitespace.simps) (simp add: a Let_def)
qed

lemma words_of_digits:
  assumes "all_digits a" "all_digits b"
  shows "split_whitespace (a @ CHR '' '' # b) = [a, b]"
proof -
  have "split_whitespace (CHR '' '' # b) = split_whitespace b"
    by (subst (1 2) split_whitespace.simps) (simp add: is_space_def)
  also have "\<dots> = [b]" using first_word [OF assms(2), of "[]"] by (simp add: split_whitespace_Nil)
  finally show ?thesis using first_word [OF assms(1), of "CHR '' '' # b"] by (simp add: is_space_def)
qed

lemma parse_render: "cu_segment c < 2 ^ 64 \<Longrightarrow> parse_cursor (render_cursor c) \<in> {c, c\<lparr>cu_offset := 0\<rparr>}"
  by (simp add: parse_cursor_def render_cursor_def words_of_digits parse_or_zero_def parse_u64_digits nat_digits_value)

section \<open>The invariant\<close>

definition newest_ok :: "checksum \<Rightarrow> files \<Rightarrow> Spool \<Rightarrow> bool" where
  "newest_ok crc fs sp \<longleftrightarrow>
     map_of fs (segment_path (last (sp_segments sp))) \<noteq> None \<and>
     (\<exists>a. sp_active sp = Some a \<and> ac_index a = last (sp_segments sp) \<and>
        intact crc (content fs (segment_path (last (sp_segments sp))) @ ac_buffer a))"

definition spool_inv :: "checksum \<Rightarrow> nat \<Rightarrow> files \<Rightarrow> Spool \<Rightarrow> bool" where
  "spool_inv crc N fs sp \<longleftrightarrow>
     tidy N fs \<and> sorted_wrt (<) (sp_segments sp) \<and> (\<forall>i\<in>set (sp_segments sp). i < N) \<and>
     (\<forall>i. map_of fs (segment_path i) \<noteq> None \<longrightarrow> i \<in> set (sp_segments sp)) \<and>
     on_record crc fs (sp_cursor sp) \<and>
     (map_of fs (segment_path (cu_segment (stored_cursor fs))) \<noteq> None \<longrightarrow>
        on_record crc fs (stored_cursor fs) \<and> reached (stored_cursor fs) (sp_cursor sp)) \<and>
     (if sp_segments sp = []
      then sp_active sp = None \<and> sp_cursor sp = default_cursor \<and> stored_cursor fs = default_cursor
      else newest_ok crc fs sp \<and> cu_segment (sp_cursor sp) \<le> last (sp_segments sp) \<and>
           cu_segment (stored_cursor fs) \<le> last (sp_segments sp))"

definition queue :: "checksum \<Rightarrow> files \<Rightarrow> Spool \<Rightarrow> string list" where
  "queue crc fs sp = queued crc fs (sp_segments sp) (sp_cursor sp)"

lemma strictly_last: "sorted_wrt (<) segs \<Longrightarrow> i \<in> set segs \<Longrightarrow> i \<le> last segs" for i :: nat
  by (induction segs rule: rev_induct) (auto simp: sorted_wrt_append)

lemma on_record_cong:
  "map_of fs' (segment_path (cu_segment c)) = map_of fs (segment_path (cu_segment c)) \<Longrightarrow> on_record crc fs' c = on_record crc fs c"
  by (simp add: on_record_def content_def)

lemma default_on_record [simp]: "on_record crc fs \<lparr>cu_segment = i, cu_offset = 0\<rparr>" "on_record crc fs default_cursor"
  "on_record crc fs (c\<lparr>cu_offset := 0\<rparr>)" "reached default_cursor d" "reached (c\<lparr>cu_offset := 0\<rparr>) c"
  by (auto simp: on_record_def default_cursor_def reached_def intro: exI [of _ 0])

lemma newest_cong:
  "map_of fs' (segment_path (last (sp_segments sp))) = map_of fs (segment_path (last (sp_segments sp))) \<Longrightarrow>
   newest_ok crc fs' sp = newest_ok crc fs sp"
  by (simp add: newest_ok_def content_def)

text \<open>The temporary file does not matter.\<close>

lemma inv_frame:
  assumes "spool_inv crc N fs sp" "\<And>name. name \<noteq> CURSOR_TMP \<Longrightarrow> map_of fs' name = map_of fs name"
  shows "spool_inv crc N fs' sp" "queue crc fs' sp = queue crc fs sp"
proof -
  have seg: "map_of fs' (segment_path i) = map_of fs (segment_path i)" for i by (rule assms(2)) simp
  have "stored_cursor fs' = stored_cursor fs" using assms(2) [of CURSOR_FILE] by (simp add: stored_cursor_def)
  moreover have "tidy N fs'" using assms unfolding spool_inv_def tidy_def by metis
  ultimately show "spool_inv crc N fs' sp"
    using assms(1) newest_cong [of fs' sp fs, OF seg] by (simp add: spool_inv_def seg on_record_cong [of fs' _ fs])
  show "queue crc fs' sp = queue crc fs sp" unfolding queue_def by (rule queued_cong) (rule seg)
qed

text \<open>Counters do not matter.\<close>

lemma inv_counters:
  "spool_inv crc N fs (sp\<lparr>sp_corrupt_records := n\<rparr>) = spool_inv crc N fs sp"
  "spool_inv crc N fs (sp\<lparr>sp_dropped_records := n\<rparr>) = spool_inv crc N fs sp"
  "spool_inv crc N fs (sp\<lparr>sp_active := map_option (\<lambda>a. a\<lparr>ac_bytes := f a\<rparr>) (sp_active sp)\<rparr>) = spool_inv crc N fs sp"
  by (auto simp: spool_inv_def newest_ok_def)

lemma queue_counters [simp]:
  "queue crc fs (sp\<lparr>sp_corrupt_records := n\<rparr>) = queue crc fs sp" "queue crc fs (sp\<lparr>sp_dropped_records := n\<rparr>) = queue crc fs sp"
  "queue crc fs (sp\<lparr>sp_active := a\<rparr>) = queue crc fs sp"
  by (simp_all add: queue_def)

text \<open>The cursor moves forward.\<close>

lemma inv_set_cursor:
  assumes "spool_inv crc N fs sp" "reached (sp_cursor sp) c" "on_record crc fs c"
    and "c = sp_cursor sp \<or> cu_segment c \<in> set (sp_segments sp)"
  shows "spool_inv crc N fs (sp\<lparr>sp_cursor := c\<rparr>)"
  using assms reached_trans [of _ "sp_cursor sp" c] strictly_last [of "sp_segments sp" "cu_segment c"]
  by (auto simp: spool_inv_def newest_ok_def)

text \<open>The cursor is stored.\<close>

lemma inv_store_cursor:
  assumes "spool_inv crc N fs sp" "N \<le> 2 ^ 64"
    and "\<And>name. name \<noteq> CURSOR_TMP \<Longrightarrow> map_of fs' name = ((map_of fs)(CURSOR_FILE \<mapsto> render_cursor (sp_cursor sp))) name"
  shows "spool_inv crc N fs' sp" "queue crc fs' sp = queue crc fs sp"
proof -
  have seg: "map_of fs' (segment_path i) = map_of fs (segment_path i)" for i using assms(3) [of "segment_path i"] by simp
  have "cu_segment (sp_cursor sp) < 2 ^ 64"
  proof (cases "sp_segments sp = []")
    case True
    then show ?thesis using assms(1) by (simp add: spool_inv_def default_cursor_def)
  next
    case False
    then have "last (sp_segments sp) < N" "cu_segment (sp_cursor sp) \<le> last (sp_segments sp)" using assms(1) by (auto simp: spool_inv_def)
    then show ?thesis using assms(2) by linarith
  qed
  then have st: "stored_cursor fs' = sp_cursor sp \<or> stored_cursor fs' = (sp_cursor sp)\<lparr>cu_offset := 0\<rparr>"
    using parse_render [of "sp_cursor sp"] assms(3) [of CURSOR_FILE] by (simp add: stored_cursor_def)
  have rec: "on_record crc fs' c = on_record crc fs c" for c by (rule on_record_cong) (rule seg)
  have "tidy N fs'" unfolding tidy_def
  proof (intro allI impI)
    fix name assume "map_of fs' name \<noteq> None"
    then have "name = CURSOR_TMP \<or> name = CURSOR_FILE \<or> map_of fs name \<noteq> None" using assms(3) [of name] by (cases "name = CURSOR_TMP") auto
    then show "name = CURSOR_FILE \<or> name = CURSOR_TMP \<or> (\<exists>i<N. name = segment_path i)"
      using assms(1) unfolding spool_inv_def tidy_def by blast
  qed
  then show "spool_inv crc N fs' sp"
    using assms(1) st newest_cong [of fs' sp fs, OF seg] by (auto simp: spool_inv_def seg rec default_cursor_def)
  show "queue crc fs' sp = queue crc fs sp" unfolding queue_def by (rule queued_cong) (rule seg)
qed

text \<open>A segment other than the newest is removed, from the directory and from memory.\<close>

lemma newest_forget:
  assumes "i \<noteq> last (sp_segments sp)" "sp_segments sp \<noteq> []"
  shows "removeAll i (sp_segments sp) \<noteq> []" "last (removeAll i (sp_segments sp)) = last (sp_segments sp)"
proof -
  obtain xs where "sp_segments sp = xs @ [last (sp_segments sp)]" using assms(2) by (metis append_butlast_last_id)
  then have "removeAll i (sp_segments sp) = removeAll i xs @ [last (sp_segments sp)]" using assms(1) by (metis removeAll.simps removeAll_append)
  then show "removeAll i (sp_segments sp) \<noteq> []" "last (removeAll i (sp_segments sp)) = last (sp_segments sp)" by simp_all
qed

lemma inv_unlink:
  assumes "spool_inv crc N fs sp" "sp_segments sp = [] \<or> i \<noteq> last (sp_segments sp)"
    and "map_of fs' = (map_of fs)(segment_path i := None)"
  shows "spool_inv crc N fs' sp"
proof -
  have entry: "map_of fs' (segment_path j) = (if j = i then None else map_of fs (segment_path j))" for j using assms(3) by simp
  have "stored_cursor fs' = stored_cursor fs" by (simp add: stored_cursor_def assms(3))
  moreover have "on_record crc fs' c" if "on_record crc fs c" for c
    using that on_record_cong [of fs' c fs crc] by (cases "cu_segment c = i") (auto simp: entry on_record_def)
  moreover have "tidy N fs'" using assms(1) unfolding spool_inv_def tidy_def assms(3) by (metis fun_upd_apply)
  moreover have "sp_segments sp \<noteq> [] \<Longrightarrow> newest_ok crc fs' sp = newest_ok crc fs sp" using assms(2) by (intro newest_cong) (auto simp: entry)
  ultimately show ?thesis using assms(1) by (auto simp: spool_inv_def entry split: if_splits)
qed

lemma inv_forget:
  assumes "spool_inv crc N fs sp" "sp_segments sp = [] \<or> i \<noteq> last (sp_segments sp)" "map_of fs (segment_path i) = None"
  shows "spool_inv crc N fs (forget_segment i sp)"
proof (cases "sp_segments sp = []")
  case True
  then have "forget_segment i sp = sp" using assms(1) by (simp add: forget_segment_def spool_inv_def)
  then show ?thesis using assms(1) by simp
next
  case False
  then have i: "i \<noteq> last (sp_segments sp)" using assms(2) by simp
  note newest = newest_forget [OF i False]
  have "sorted_wrt (<) (removeAll i (sp_segments sp))" using assms(1) by (simp add: spool_inv_def removeAll_filter_not_eq sorted_wrt_filter)
  then show ?thesis using assms False newest i
    by (auto simp: spool_inv_def newest_ok_def forget_segment_def)
qed

lemma queued_removeAll:
  "undelivered crc fs c i = [] \<Longrightarrow> queued crc fs (removeAll i segs) c = queued crc fs segs c"
  unfolding removeAll_filter_not_eq by (rule queued_filter) auto

lemma queue_forget: "map_of fs (segment_path i) = None \<Longrightarrow> queue crc fs (forget_segment i sp) = queue crc fs sp"
  by (simp add: queue_def forget_segment_def queued_removeAll undelivered_missing)

lemma queue_unlink:
  assumes "map_of fs' = (map_of fs)(segment_path i := None)"
  shows "set (queue crc fs sp) \<subseteq> set (queue crc fs' sp) \<union> set (undelivered crc fs (sp_cursor sp) i)"
    "i < cu_segment (sp_cursor sp) \<Longrightarrow> queue crc fs' sp = queue crc fs sp"
proof -
  have "undelivered crc fs' c j = undelivered crc fs c j" if "j \<noteq> i" for c j
    using that assms by (simp add: undelivered_eq content_def)
  then show "set (queue crc fs sp) \<subseteq> set (queue crc fs' sp) \<union> set (undelivered crc fs (sp_cursor sp) i)"
    by (auto simp: queue_def queued_def) metis
  assume "i < cu_segment (sp_cursor sp)"
  then have "undelivered crc fs' (sp_cursor sp) j = undelivered crc fs (sp_cursor sp) j" for j
    using assms by (cases "j = i") (simp_all add: undelivered_eq content_def)
  then have "undelivered crc fs' (sp_cursor sp) = undelivered crc fs (sp_cursor sp)" by blast
  then show "queue crc fs' sp = queue crc fs sp" by (simp add: queue_def queued_def)
qed

text \<open>Bytes arrive at the end of a segment: the queue keeps what it had.\<close>

lemma on_record_append:
  assumes "on_record crc fs c" "map_of fs' = (map_of fs)(segment_path i \<mapsto> content fs (segment_path i) @ extra)"
    and "map_of fs (segment_path i) \<noteq> None"
  shows "on_record crc fs' c"
proof (cases "cu_segment c = i")
  case True
  obtain tail where app: "\<And>extra. payloads crc (content fs (segment_path i) @ extra) = payloads crc (content fs (segment_path i)) @ payloads crc (tail @ extra)"
    using payloads_append by blast
  obtain k where k: "cu_offset c = length (encode_log crc (take k (payloads crc (content fs (segment_path i)))))"
    using assms(1,3) True by (auto simp: on_record_def)
  let ?k = "min k (length (payloads crc (content fs (segment_path i))))"
  have "cu_offset c = length (encode_log crc (take ?k (payloads crc (content fs' (segment_path i)))))"
    using k assms(2) app by (simp add: min_def)
  then show ?thesis using True by (auto simp: on_record_def)
next
  case False
  then show ?thesis using assms(1,2) on_record_cong [of fs' c fs crc] by simp
qed

lemma undelivered_append:
  assumes "on_record crc fs c" "map_of fs' = (map_of fs)(segment_path i \<mapsto> content fs (segment_path i) @ extra)"
    and "map_of fs (segment_path i) \<noteq> None"
  shows "\<exists>xs. undelivered crc fs' c j = undelivered crc fs c j @ xs"
proof (cases "j = i \<and> cu_segment c \<le> i")
  case True
  let ?bytes = "content fs (segment_path i)"
  have "content fs' (segment_path i) = ?bytes @ extra" using assms(2) by simp
  obtain k where k: "(if i = cu_segment c then cu_offset c else 0) = length (encode_log crc (take k (payloads crc ?bytes)))"
  proof (cases "i = cu_segment c")
    case True
    then show ?thesis using that assms(1,3) by (auto simp: on_record_def)
  next
    case False
    then show ?thesis using that [of 0] by simp
  qed
  obtain tail where "\<And>extra. payloads crc (drop (if i = cu_segment c then cu_offset c else 0) ?bytes @ extra) =
      payloads crc (drop (if i = cu_segment c then cu_offset c else 0) ?bytes) @ payloads crc (tail @ extra)"
    using payloads_append by blast
  then show ?thesis using True drop_records(2) [OF k] \<open>content fs' (segment_path i) = ?bytes @ extra\<close>
    by (auto simp: undelivered_eq)
next
  case False
  then have "undelivered crc fs' c j = undelivered crc fs c j" using assms(2) by (auto simp: undelivered_eq content_def)
  then show ?thesis by simp
qed

lemma queued_append_bytes:
  assumes "on_record crc fs c" "map_of fs' = (map_of fs)(segment_path i \<mapsto> content fs (segment_path i) @ extra)"
    and "map_of fs (segment_path i) \<noteq> None"
  shows "set (queued crc fs segs c) \<subseteq> set (queued crc fs' segs c)"
proof
  fix p assume "p \<in> set (queued crc fs segs c)"
  then obtain j where j: "j \<in> set segs" "p \<in> set (undelivered crc fs c j)" by (auto simp: queued_def)
  obtain xs where "undelivered crc fs' c j = undelivered crc fs c j @ xs" using undelivered_append [OF assms] by blast
  then show "p \<in> set (queued crc fs' segs c)" using j by (auto simp: queued_def intro!: bexI [of _ j])
qed

section \<open>What an operation may touch\<close>

text \<open>The bus, the fate and the rest of the agent stay; the history of discarded records grows.\<close>

definition outside :: "'z Spooled_scheme \<Rightarrow> 'z Spooled_scheme \<Rightarrow> bool" where
  "outside s s' \<longleftrightarrow>
     mc_bus s' = mc_bus s \<and> mc_sent s' = mc_sent s \<and> mc_stores s' = mc_stores s \<and> mc_faults s' = mc_faults s \<and> mc_calls s \<le> mc_calls s' \<and>
     Spooled.more s' = Spooled.more s \<and> set (st_discarded s) \<subseteq> set (st_discarded s')"

lemma outside_refl [simp]: "outside s s"
  and outside_trans: "outside s t \<Longrightarrow> outside t u \<Longrightarrow> outside s u"
  by (auto simp: outside_def)

definition confined :: "('z Spooled_scheme, 'e, 'a) call \<Rightarrow> bool" where
  "confined m \<longleftrightarrow> (\<forall>s. ends m (\<lambda>r s'. outside s s') s)"

lemma confinedD: "confined m \<Longrightarrow> m s = (r, s') \<Longrightarrow> outside s s'"
  by (auto simp: confined_def ends_def split: prod.splits)

lemma confined_try: "confined m \<Longrightarrow> (\<And>x. confined (f x)) \<Longrightarrow> confined (try_io m f)"
  by (fastforce simp: confined_def ends_def try_io_def intro: outside_trans split: prod.splits reply.splits)

lemma confined_basic:
  "confined (syscall result wholly failing dying)" "confined (ok x)" "confined (modify g)"
  "confined (atomic_call result effect)" "confined (reading_call result)" "confined (\<lambda>s. (r, s))"
  by (auto simp: confined_def ends_def syscall_def atomic_call_def reading_call_def ok_def modify_def on_spool_def called_def outside_def
      split: fault.splits)

lemma confined_unwrap: "confined m \<Longrightarrow> confined (unwrap_or d m)"
  by (fastforce simp: confined_def ends_def unwrap_or_def split: prod.splits reply.splits)

lemma confined_if: "confined m \<Longrightarrow> confined m' \<Longrightarrow> confined (if b then m else m')"
  by simp

lemma confined_state: "(\<And>s. ends (g s) (\<lambda>r s'. outside s s') s) \<Longrightarrow> confined (\<lambda>s. g s s)"
  by (simp add: confined_def ends_def)

lemmas confined_calls = confined_try confined_basic confined_unwrap confined_if

lemma confined_files:
  "confined create_dir_all" "confined read_dir" "confined (read_file name)" "confined (metadata_len name)" "confined (open_append name)"
  "confined (create_file name)" "confined (set_len name n)" "confined (remove_file name)" "confined (rename name name')" "confined (write_all name bs)"
  unfolding call_defs(1-10) by (rule confined_basic)+

section \<open>Storing the cursor\<close>

definition apart_from_tmp :: "files \<Rightarrow> files \<Rightarrow> bool" where
  "apart_from_tmp fs fs' \<longleftrightarrow> (\<forall>name. name \<noteq> CURSOR_TMP \<longrightarrow> map_of fs' name = map_of fs name)"

definition cursor_written :: "string \<Rightarrow> files \<Rightarrow> files \<Rightarrow> bool" where
  "cursor_written text fs fs' \<longleftrightarrow>
     (\<forall>name. name \<noteq> CURSOR_TMP \<longrightarrow> map_of fs' name = ((map_of fs)(CURSOR_FILE \<mapsto> text)) name)"

lemma apart_then:
  "apart_from_tmp fs fs' \<Longrightarrow> apart_from_tmp fs' fs'' \<Longrightarrow> apart_from_tmp fs fs''"
  "apart_from_tmp fs fs' \<Longrightarrow> cursor_written text fs' fs'' \<Longrightarrow> cursor_written text fs fs''"
  by (simp_all add: apart_from_tmp_def cursor_written_def)

lemma ends_create_tmp:
  "ends (create_file CURSOR_TMP) (\<lambda>r s'. apart_from_tmp (mc_files s) (mc_files s') \<and> (r = Ok () \<longrightarrow> map_of (mc_files s') CURSOR_TMP = Some [])) s"
  by (simp add: create_file_def atomic_call_def ends_syscall apart_from_tmp_def split: fault.splits)

lemma ends_write_tmp:
  "map_of (mc_files s) CURSOR_TMP = Some [] \<Longrightarrow>
   ends (write_all CURSOR_TMP bs) (\<lambda>r s'. apart_from_tmp (mc_files s) (mc_files s') \<and> (r = Ok () \<longrightarrow> map_of (mc_files s') CURSOR_TMP = Some bs)) s"
  by (simp add: write_all_def ends_syscall apart_from_tmp_def map_of_append_bytes split: fault.splits)

lemma ends_rename_tmp:
  "map_of (mc_files s) CURSOR_TMP = Some text \<Longrightarrow>
   ends (rename CURSOR_TMP CURSOR_FILE) (\<lambda>r s'. apart_from_tmp (mc_files s) (mc_files s') \<or> cursor_written text (mc_files s) (mc_files s')) s"
  by (simp add: rename_def atomic_call_def ends_syscall apart_from_tmp_def cursor_written_def split: fault.splits)

lemma store_cursor_files:
  "ends store_cursor (\<lambda>r s'. apart_from_tmp (mc_files s) (mc_files s') \<or>
     cursor_written (render_cursor (sp_cursor (st_spool s))) (mc_files s) (mc_files s')) s"
proof (rule ends_subst [OF store_cursor_def], rule ends_then [OF ends_create_tmp])
  let ?text = "render_cursor (sp_cursor (st_spool s))"
  fix u t assume "apart_from_tmp (mc_files s) (mc_files t) \<and> (Ok u = Ok () \<longrightarrow> map_of (mc_files t) CURSOR_TMP = Some [])"
  then have t: "apart_from_tmp (mc_files s) (mc_files t)" "map_of (mc_files t) CURSOR_TMP = Some []" by simp_all
  show "ends (try_io (write_all CURSOR_TMP ?text) (\<lambda>_. rename CURSOR_TMP CURSOR_FILE))
     (\<lambda>r s'. apart_from_tmp (mc_files s) (mc_files s') \<or> cursor_written ?text (mc_files s) (mc_files s')) t"
  proof (rule ends_then [OF ends_write_tmp [OF t(2)]])
    fix v t' assume "apart_from_tmp (mc_files t) (mc_files t') \<and> (Ok v = Ok () \<longrightarrow> map_of (mc_files t') CURSOR_TMP = Some ?text)"
    then have t': "apart_from_tmp (mc_files s) (mc_files t')" "map_of (mc_files t') CURSOR_TMP = Some ?text"
      using apart_then(1) [OF t(1)] by simp_all
    show "ends (rename CURSOR_TMP CURSOR_FILE) (\<lambda>r s'. apart_from_tmp (mc_files s) (mc_files s') \<or> cursor_written ?text (mc_files s) (mc_files s')) t'"
      by (rule ends_weaken [OF ends_rename_tmp [OF t'(2)]]) (use apart_then [OF t'(1)] in blast)
  qed (use apart_then(1) [OF t(1)] in blast)+
qed simp_all

lemma store_cursor_spec:
  assumes "spool_inv crc N (mc_files s) (st_spool s)" "N \<le> 2 ^ 64"
  shows "ends store_cursor (\<lambda>r s'. spool_inv crc N (mc_files s') (st_spool s') \<and> st_spool s' = st_spool s \<and>
    queue crc (mc_files s') (st_spool s') = queue crc (mc_files s) (st_spool s)) s"
proof (rule endsI)
  fix r s' assume run: "store_cursor s = (r, s')"
  note sp = store_cursor_spool [OF run]
  from endsD [OF store_cursor_files run] consider "apart_from_tmp (mc_files s) (mc_files s')"
    | "cursor_written (render_cursor (sp_cursor (st_spool s))) (mc_files s) (mc_files s')" by blast
  then show "spool_inv crc N (mc_files s') (st_spool s') \<and> st_spool s' = st_spool s \<and>
    queue crc (mc_files s') (st_spool s') = queue crc (mc_files s) (st_spool s)"
  proof cases
    case 1
    then show ?thesis using inv_frame [OF assms(1), of "mc_files s'"] sp by (simp add: apart_from_tmp_def)
  next
    case 2
    then show ?thesis using inv_store_cursor [OF assms, of "mc_files s'"] sp unfolding cursor_written_def by metis
  qed
qed

lemma confined_store_cursor: "confined store_cursor"
  unfolding confined_def
proof
  fix s :: "'a Spooled_scheme"
  show "ends store_cursor (\<lambda>r s'. outside s s') s"
    by (rule ends_subst [OF store_cursor_def], rule endsI) (erule confinedD [rotated], intro confined_try confined_files)
qed

end
