(* ===== verification/Edge_Spool_Ops.thy ===== *)
theory Edge_Spool_Ops
  imports Edge_Spool_Laws
begin

text \<open>
  What the operations of the spool do, at every fate: \<open>live\<close> says that the spool in memory and the
  directory fit and that given payloads are queued or were discarded by the size ceiling; \<open>preserved\<close> says the
  same of the directory alone, for a process that died.
\<close>

definition live :: "checksum \<Rightarrow> nat \<Rightarrow> string set \<Rightarrow> 'z Spooled_scheme \<Rightarrow> bool" where
  "live crc N X s \<longleftrightarrow>
     spool_inv crc N (mc_files s) (st_spool s) \<and> X \<subseteq> set (queue crc (mc_files s) (st_spool s)) \<union> set (st_discarded s)"

definition preserved :: "checksum \<Rightarrow> nat \<Rightarrow> string set \<Rightarrow> 'z Spooled_scheme \<Rightarrow> bool" where
  "preserved crc N X s \<longleftrightarrow>
     (\<exists>sp. spool_inv crc N (mc_files s) sp \<and> X \<subseteq> set (queue crc (mc_files s) sp) \<union> set (st_discarded s))"

definition safe :: "checksum \<Rightarrow> nat \<Rightarrow> string set \<Rightarrow> ('e, 'a) reply \<Rightarrow> 'z Spooled_scheme \<Rightarrow> bool" where
  "safe crc N X r s \<longleftrightarrow> (case r of Killed \<Rightarrow> preserved crc N X s | _ \<Rightarrow> live crc N X s)"

lemma live_held: "live crc N X s \<Longrightarrow> preserved crc N X s"
  by (auto simp: live_def preserved_def)

lemma heldI: "spool_inv crc N (mc_files s) sp \<Longrightarrow> X \<subseteq> set (queue crc (mc_files s) sp) \<union> set (st_discarded s) \<Longrightarrow> preserved crc N X s"
  by (auto simp: preserved_def)

lemma live_safe: "live crc N X s \<Longrightarrow> safe crc N X r s"
  by (simp add: safe_def live_held split: reply.splits)

lemma safe_simps [simp]: "safe crc N X (Ok x) s = live crc N X s" "safe crc N X (Err e) s = live crc N X s" "safe crc N X Killed s = preserved crc N X s"
  by (simp_all add: safe_def)

lemma inv_mono: "spool_inv crc N fs sp \<Longrightarrow> N \<le> M \<Longrightarrow> spool_inv crc M fs sp"
  unfolding spool_inv_def tidy_def by (meson less_le_trans)

lemma live_mono: "live crc N X s \<Longrightarrow> N \<le> M \<Longrightarrow> live crc M X s" "preserved crc N X s \<Longrightarrow> N \<le> M \<Longrightarrow> preserved crc M X s"
  unfolding live_def preserved_def using inv_mono by blast+

lemma live_steady:
  assumes "steady s s'"
  shows "live crc N X s' = live crc N X s" "queue crc (mc_files s') (st_spool s') = queue crc (mc_files s) (st_spool s)"
  using assms by (auto simp: steady_def live_def on_spool_def inv_counters)

section \<open>Writing to the active segment\<close>

lemma inv_active:
  assumes "spool_inv crc N fs sp" "sp_active sp = Some a"
  shows "sp_segments sp \<noteq> []" "ac_index a = last (sp_segments sp)" "map_of fs (segment_path (ac_index a)) \<noteq> None"
    "intact crc (content fs (segment_path (ac_index a)) @ ac_buffer a)"
  using assms by (auto simp: spool_inv_def newest_ok_def split: if_splits)

text \<open>Some of the buffer reaches the file.\<close>

lemma inv_flush:
  assumes "spool_inv crc N fs sp" "sp_active sp = Some a" "ac_buffer a = bs @ rest"
    and "map_of fs' = (map_of fs)(segment_path (ac_index a) \<mapsto> content fs (segment_path (ac_index a)) @ bs)"
  shows "spool_inv crc N fs' (set_buffer rest sp)" "set (queue crc fs sp) \<subseteq> set (queue crc fs' (set_buffer rest sp))"
proof -
  note act = inv_active [OF assms(1,2)]
  have "stored_cursor fs' = stored_cursor fs" by (simp add: stored_cursor_def assms(4))
  moreover have "tidy N fs'" using assms(1) act(3) unfolding spool_inv_def tidy_def assms(4) by (metis fun_upd_apply)
  moreover have "on_record crc fs' c" if "on_record crc fs c" for c by (rule on_record_append [OF that assms(4) act(3)])
  moreover have "newest_ok crc fs' (set_buffer rest sp)"
    using act assms(2-4) by (simp add: newest_ok_def set_buffer_def)
  ultimately show "spool_inv crc N fs' (set_buffer rest sp)"
    using assms(1,4) act by (auto simp: spool_inv_def set_buffer_def)
  have "on_record crc fs (sp_cursor sp)" using assms(1) by (simp add: spool_inv_def)
  from queued_append_bytes [OF this assms(4) act(3)] show "set (queue crc fs sp) \<subseteq> set (queue crc fs' (set_buffer rest sp))"
    by (simp add: queue_def set_buffer_def)
qed

lemma set_buffer_simps [simp]:
  "sp_segments (set_buffer bs sp) = sp_segments sp" "sp_cursor (set_buffer bs sp) = sp_cursor sp" "sp_config (set_buffer bs sp) = sp_config sp"
  "sp_active sp = Some a \<Longrightarrow> sp_active (set_buffer bs sp) = Some (a\<lparr>ac_buffer := bs\<rparr>)"
  "set_buffer bs (set_buffer bs' sp) = set_buffer bs sp" "sp_active sp \<noteq> None \<Longrightarrow> buffer (set_buffer bs sp) = bs"
  "queue crc fs (set_buffer bs sp) = queue crc fs sp"
  by (auto simp: set_buffer_def buffer_def queue_def option.map_comp comp_def split: option.splits)

lemma flush_buf_spec:
  assumes "live crc N X s"
  shows "ends flush_buf (\<lambda>r s'. live crc N X s' \<and> (r = Ok () \<longrightarrow> buffer (st_spool s') = []) \<and>
    sp_segments (st_spool s') = sp_segments (st_spool s)) s"
proof (cases "sp_active (st_spool s)")
  case None
  then show ?thesis using assms by (simp add: ends_def flush_buf_def buffer_def)
next
  case (Some a)
  show ?thesis
  proof (cases "ac_buffer a = []")
    case True
    then show ?thesis using assms Some by (simp add: ends_def flush_buf_def buffer_def)
  next
    case False
    let ?fs = "mc_files s" and ?name = "segment_path (ac_index a)"
    have inv: "spool_inv crc N ?fs (st_spool s)" using assms by (simp add: live_def)
    obtain bytes where bytes: "map_of ?fs ?name = Some bytes" using inv_active(3) [OF inv Some] by blast
    have part: "live crc N X (on_spool (set_buffer (drop k (ac_buffer a))) ((called s)\<lparr>mc_files := append_bytes ?name (take k (ac_buffer a)) ?fs\<rparr>))" for k
      using inv_flush [OF inv Some append_take_drop_id [of k "ac_buffer a", symmetric], of "append_bytes ?name (take k (ac_buffer a)) ?fs"] assms bytes
      by (simp add: live_def on_spool_def called_def map_of_append_bytes) blast
    have buf: "buffer (st_spool s) = ac_buffer a" "active_path (st_spool s) = ?name" using Some by (simp_all add: buffer_def active_path_def)
    show ?thesis
    proof (cases "fault_now s")
      case Works
      then show ?thesis using False part [of "length (ac_buffer a)"] Some
        by (simp add: ends_def flush_buf_def buf write_all_def syscall_def written_def) (simp add: on_spool_def called_def)
    next
      case (Fails k)
      then show ?thesis using False part [of "min k (length (ac_buffer a))"]
        by (simp add: ends_def flush_buf_def buf write_all_def syscall_def written_def) (simp add: on_spool_def called_def min_def split: if_splits)
    next
      case (Dies k)
      then show ?thesis using False part [of "min k (length (ac_buffer a))"]
        by (simp add: ends_def flush_buf_def buf write_all_def syscall_def written_def) (simp add: on_spool_def called_def min_def split: if_splits)
    qed
  qed
qed

text \<open>A record is pushed whole while the buffer has room for it.\<close>

definition has_room :: "string \<Rightarrow> Spool \<Rightarrow> bool" where
  "has_room payload sp \<longleftrightarrow> int (length (buffer sp) + RECORD_HEADER_BYTES + length payload) < BUFFER_CAPACITY"

lemma buf_write_room:
  "int (length (buffer (st_spool s)) + length bs) < BUFFER_CAPACITY \<Longrightarrow>
   buf_write_all bs s = (Ok (), on_spool (\<lambda>sp. set_buffer (buffer sp @ bs) sp) s)"
  by (simp add: buf_write_all_def modify_def)

lemma push_record:
  assumes "has_room payload (st_spool s)" "sp_active (st_spool s) \<noteq> None"
  shows "try_io (buf_write_all (to_le_bytes (int (length payload)))) (\<lambda>_. try_io (buf_write_all (to_le_bytes (uint (crc payload))))
      (\<lambda>_. try_io (buf_write_all payload) f)) s =
    f () (on_spool (set_buffer (buffer (st_spool s) @ encode_record crc payload)) s)"
proof -
  have *: "st_spool (on_spool g t) = g (st_spool t)" "on_spool g (on_spool h t) = on_spool (\<lambda>sp. g (h sp)) t" for g h and t :: "'a Spooled_scheme"
    by (simp_all add: on_spool_def)
  show ?thesis using assms
    by (simp add: try_io_def buf_write_room has_room_def RECORD_HEADER_BYTES_def * encode_record_def) (simp add: on_spool_def)
qed

lemma inv_push:
  assumes "spool_inv crc N fs sp" "sp_active sp = Some a" "storable payload"
  shows "spool_inv crc N fs (set_buffer (ac_buffer a @ encode_record crc payload) sp)"
  using assms inv_active [OF assms(1,2)] intact_append(1) [OF _ assms(3), of crc "content fs (segment_path (ac_index a)) @ ac_buffer a"]
  by (auto simp: spool_inv_def newest_ok_def)

text \<open>Once the buffer is flushed the record is the last of the queue.\<close>

lemma queue_flushed:
  assumes "spool_inv crc N fs sp" "sp_active sp = Some a" "storable payload"
    and "map_of fs' = (map_of fs)(segment_path (ac_index a) \<mapsto> content fs (segment_path (ac_index a)) @ ac_buffer a @ encode_record crc payload)"
  shows "\<exists>ys. queue crc fs' sp = queue crc fs sp @ ys @ [payload] \<and> (ac_buffer a = [] \<longrightarrow> ys = [])"
proof -
  note act = inv_active [OF assms(1,2)]
  let ?n = "last (sp_segments sp)" and ?bytes = "content fs (segment_path (ac_index a))" and ?c = "sp_cursor sp"
  let ?off = "if ?n = cu_segment ?c then cu_offset ?c else 0"
  have "on_record crc fs ?c" "cu_segment ?c \<le> ?n" "sorted_wrt (<) (sp_segments sp)" using assms(1) act(1) by (auto simp: spool_inv_def)
  obtain k where k: "?off = length (encode_log crc (take k (payloads crc ?bytes)))"
  proof (cases "?n = cu_segment ?c")
    case True
    then show ?thesis using that \<open>on_record crc fs ?c\<close> act by (auto simp: on_record_def)
  next
    case False
    then show ?thesis using that [of 0] by simp
  qed
  obtain tail where tail: "\<And>extra. payloads crc (?bytes @ extra) = payloads crc ?bytes @ payloads crc (tail @ extra)"
    using payloads_append by blast
  define ys where "ys = payloads crc (tail @ ac_buffer a)"
  have all: "payloads crc (?bytes @ ac_buffer a @ encode_record crc payload) = payloads crc ?bytes @ ys @ [payload]"
    using intact_append(2) [OF act(4) assms(3)] tail [of "ac_buffer a"] by (simp add: ys_def)
  let ?k = "min k (length (payloads crc ?bytes))"
  have "?off = length (encode_log crc (take ?k (payloads crc (?bytes @ ac_buffer a @ encode_record crc payload))))"
    using k all by (simp add: min_def)
  from drop_records(1) [OF this] have "payloads crc (drop ?off (?bytes @ ac_buffer a @ encode_record crc payload)) =
      drop k (payloads crc ?bytes) @ ys @ [payload]" by (simp add: all min_def)
  then have newest: "undelivered crc fs' ?c ?n = undelivered crc fs ?c ?n @ ys @ [payload]"
    using \<open>cu_segment ?c \<le> ?n\<close> act(2) assms(4) drop_records(1) [OF k] by (simp add: undelivered_eq)
  obtain xs where xs: "sp_segments sp = xs @ [?n]" using act(1) by (metis append_butlast_last_id)
  have "undelivered crc fs' ?c j = undelivered crc fs ?c j" if "j \<in> set xs" for j
  proof -
    have "j \<noteq> ?n" using that xs \<open>sorted_wrt (<) (sp_segments sp)\<close> by (metis less_irrefl sorted_wrt_append list.set_intros(1))
    then show ?thesis using assms(4) act(2) by (simp add: undelivered_eq content_def)
  qed
  then have "map (undelivered crc fs' ?c) xs = map (undelivered crc fs ?c) xs" by simp
  then have "queue crc fs' sp = queue crc fs sp @ ys @ [payload]" unfolding queue_def queued_def by (subst (1 2) xs) (simp add: newest cong: map_cong)
  moreover have "ys = []" if "ac_buffer a = []" using tail [of "[]"] that by (simp add: ys_def)
  ultimately show ?thesis by blast
qed

section \<open>A new segment\<close>

definition next_index :: "Spool \<Rightarrow> nat" where
  "next_index sp = (if sp_segments sp = [] then 0 else last (sp_segments sp) + 1)"

definition new_segment :: "nat \<Rightarrow> Spool \<Rightarrow> Spool" where
  "new_segment index sp =
     sp\<lparr>sp_segments := sp_segments sp @ [index], sp_active := Some \<lparr>ac_index = index, ac_buffer = [], ac_bytes = 0\<rparr>\<rparr>"

lemma insort_last: "\<forall>i\<in>set xs. i < (n :: nat) \<Longrightarrow> insort_insert n xs = xs @ [n]"
proof -
  assume less: "\<forall>i\<in>set xs. i < n"
  then have "insort n xs = xs @ [n]" by (induction xs) auto
  then show ?thesis using less by (auto simp: insort_insert_key_def)
qed

lemma next_index_fresh:
  assumes "spool_inv crc N fs sp"
  shows "\<forall>i\<in>set (sp_segments sp). i < next_index sp" "map_of fs (segment_path (next_index sp)) = None" "next_index sp < N + 1"
proof -
  have sorted: "sorted_wrt (<) (sp_segments sp)" using assms by (simp add: spool_inv_def)
  show less: "\<forall>i\<in>set (sp_segments sp). i < next_index sp"
    using strictly_last [OF sorted] by (auto simp: next_index_def less_Suc_eq_le)
  show "map_of fs (segment_path (next_index sp)) = None"
  proof (rule ccontr)
    assume "map_of fs (segment_path (next_index sp)) \<noteq> None"
    then have "next_index sp \<in> set (sp_segments sp)" using assms by (auto simp: spool_inv_def)
    then show False using less by blast
  qed
  show "next_index sp < N + 1" using assms by (cases "sp_segments sp = []") (auto simp: spool_inv_def next_index_def)
qed

lemma inv_new_segment:
  assumes "spool_inv crc N fs sp" "map_of fs' = (map_of fs)(segment_path (next_index sp) \<mapsto> [])"
  shows "spool_inv crc (N + 1) fs' (new_segment (next_index sp) sp)" "queue crc fs' (new_segment (next_index sp) sp) = queue crc fs sp"
proof -
  let ?n = "next_index sp"
  note fresh = next_index_fresh [OF assms(1)]
  have entry: "map_of fs' (segment_path j) = (if j = ?n then Some [] else map_of fs (segment_path j))" for j using assms(2) by simp
  have st: "stored_cursor fs' = stored_cursor fs" by (simp add: stored_cursor_def assms(2))
  have pos: "cu_segment c \<noteq> ?n \<or> cu_offset c = 0" if "c = sp_cursor sp \<or> c = stored_cursor fs" for c
    using that assms(1) by (auto simp: spool_inv_def next_index_def default_cursor_def split: if_splits)
  have rec: "on_record crc fs' c" if "on_record crc fs c \<or> cu_segment c = ?n" "c = sp_cursor sp \<or> c = stored_cursor fs" for c
    using pos [OF that(2)] that(1) on_record_cong [of fs' c fs crc] by (cases "cu_segment c = ?n") (auto simp: entry on_record_def)
  have "tidy (N + 1) fs'" unfolding tidy_def
  proof (intro allI impI)
    fix name assume "map_of fs' name \<noteq> None"
    then have "name = segment_path ?n \<or> map_of fs name \<noteq> None" using assms(2) by auto
    then show "name = CURSOR_FILE \<or> name = CURSOR_TMP \<or> (\<exists>i<N + 1. name = segment_path i)"
      using assms(1) fresh(3) unfolding spool_inv_def tidy_def by (metis less_Suc_eq Suc_eq_plus1)
  qed
  moreover have "sorted_wrt (<) (sp_segments sp @ [?n])" "\<forall>i\<in>set (sp_segments sp @ [?n]). i < N + 1"
    using assms(1) fresh by (auto simp: spool_inv_def sorted_wrt_append)
  moreover have "cu_segment (sp_cursor sp) \<le> ?n" "cu_segment (stored_cursor fs) \<le> ?n"
    using assms(1) by (auto simp: spool_inv_def next_index_def default_cursor_def split: if_splits)
  moreover have "reached (stored_cursor fs) (sp_cursor sp)" if "map_of fs' (segment_path (cu_segment (stored_cursor fs))) \<noteq> None"
    using that assms(1) by (auto simp: spool_inv_def entry next_index_def split: if_splits)
  moreover have "on_record crc fs' (stored_cursor fs)" if "map_of fs' (segment_path (cu_segment (stored_cursor fs))) \<noteq> None"
    using that assms(1) by (intro rec) (auto simp: spool_inv_def entry split: if_splits)
  moreover have "on_record crc fs' (sp_cursor sp)" using assms(1) by (intro rec) (auto simp: spool_inv_def)
  ultimately show "spool_inv crc (N + 1) fs' (new_segment ?n sp)"
    using assms(1) by (auto simp: spool_inv_def st newest_ok_def new_segment_def entry intact_def split: if_splits)
  have "undelivered crc fs' (sp_cursor sp) ?n = []" by (simp add: undelivered_eq entry)
  moreover have "queued crc fs' (sp_segments sp) (sp_cursor sp) = queued crc fs (sp_segments sp) (sp_cursor sp)"
    using fresh(1) by (intro queued_cong) (auto simp: entry)
  ultimately show "queue crc fs' (new_segment ?n sp) = queue crc fs sp" by (simp add: queue_def new_segment_def queued_append) (simp add: queued_def)
qed

text \<open>Bytes for a segment that is no longer the newest.\<close>

lemma inv_old_bytes:
  assumes "spool_inv crc N fs sp" "i \<noteq> last (sp_segments sp)" "sp_segments sp \<noteq> []" "map_of fs (segment_path i) \<noteq> None"
    and "map_of fs' = (map_of fs)(segment_path i \<mapsto> content fs (segment_path i) @ bs)"
  shows "spool_inv crc N fs' sp" "set (queue crc fs sp) \<subseteq> set (queue crc fs' sp)"
proof -
  have "stored_cursor fs' = stored_cursor fs" by (simp add: stored_cursor_def assms(5))
  moreover have "tidy N fs'" using assms(1,4) unfolding spool_inv_def tidy_def assms(5) by (metis fun_upd_apply)
  moreover have "on_record crc fs' c" if "on_record crc fs c" for c by (rule on_record_append [OF that assms(5,4)])
  moreover have "newest_ok crc fs' sp = newest_ok crc fs sp" using assms(2,5) by (intro newest_cong) auto
  ultimately show "spool_inv crc N fs' sp" using assms by (auto simp: spool_inv_def)
  have "on_record crc fs (sp_cursor sp)" using assms(1) by (simp add: spool_inv_def)
  from queued_append_bytes [OF this assms(5,4)] show "set (queue crc fs sp) \<subseteq> set (queue crc fs' sp)" by (simp add: queue_def)
qed

lemma flush_files:
  assumes "flush_buf s = (r, s')"
  shows "\<exists>bs. map_of (mc_files s') = map_of (append_bytes (active_path (st_spool s)) bs (mc_files s)) \<and> (buffer (st_spool s) = [] \<longrightarrow> bs = []) \<and>
    (\<exists>b. st_spool s' = (st_spool s)\<lparr>sp_active := b\<rparr>) \<and> st_discarded s' = st_discarded s"
proof (cases "buffer (st_spool s) = []")
  case True
  then have "s' = s" using assms by (simp add: flush_buf_def)
  then show ?thesis by (auto simp: map_of_append_bytes fun_upd_idem split: option.splits intro!: exI [of _ "[]"] exI [of _ "sp_active (st_spool s)"])
next
  case False
  let ?bs = "buffer (st_spool s)" and ?name = "active_path (st_spool s)"
  from assms False have "mc_files s' = append_bytes ?name (case fault_now s of Works \<Rightarrow> ?bs | Fails k \<Rightarrow> take k ?bs | Dies k \<Rightarrow> take k ?bs) (mc_files s) \<and>
    st_discarded s' = st_discarded s \<and> (\<exists>b. st_spool s' = (st_spool s)\<lparr>sp_active := b\<rparr>)"
    by (auto simp: flush_buf_def write_all_def syscall_def on_spool_def called_def set_buffer_def split: fault.splits)
  then show ?thesis using False by auto
qed

text \<open>The state in which the new segment exists and some of the old buffer was flushed.\<close>

lemma rotated:
  assumes "live crc N X s" "map_of (mc_files t) = map_of (append_bytes (active_path (st_spool s)) bs fs)"
    and "map_of fs = (map_of (mc_files s))(segment_path (next_index (st_spool s)) \<mapsto> [])" "st_discarded t = st_discarded s"
    and sp: "sp = new_segment (next_index (st_spool s)) (st_spool s)"
  shows "spool_inv crc (N + 1) (mc_files t) sp" "X \<subseteq> set (queue crc (mc_files t) sp) \<union> set (st_discarded t)"
    "bs = [] \<Longrightarrow> queue crc (mc_files t) sp = queue crc (mc_files s) (st_spool s)"
proof -
  have inv: "spool_inv crc N (mc_files s) (st_spool s)" using assms(1) by (simp add: live_def)
  note new = inv_new_segment [OF inv assms(3), folded sp]
  have step: "spool_inv crc (N + 1) (mc_files t) sp \<and> set (queue crc fs sp) \<subseteq> set (queue crc (mc_files t) sp) \<and>
      (bs = [] \<longrightarrow> queue crc (mc_files t) sp = queue crc fs sp)"
  proof (cases "map_of fs (active_path (st_spool s)) = None \<or> bs = []")
    case True
    then have "map_of (mc_files t) = map_of fs" using assms(2) by (auto simp: map_of_append_bytes fun_upd_idem split: option.splits)
    then show ?thesis using inv_frame [OF new(1), of "mc_files t"] by auto
  next
    case False
    then obtain a where a: "sp_active (st_spool s) = Some a" using assms(3) inv
      by (cases "sp_active (st_spool s)")
        (auto simp: active_path_def spool_inv_def tidy_def segment_path_def SEGMENT_PREFIX_def CURSOR_FILE_def CURSOR_TMP_def)
    let ?i = "ac_index a"
    have "?i < next_index (st_spool s)"
      using next_index_fresh(1) [OF inv] last_in_set [OF inv_active(1) [OF inv a]] inv_active(2) [OF inv a] by simp
    then have "?i \<noteq> last (sp_segments sp)" "sp_segments sp \<noteq> []" by (simp_all add: sp new_segment_def)
    moreover have "map_of fs (segment_path ?i) \<noteq> None" "map_of (mc_files t) = (map_of fs)(segment_path ?i \<mapsto> content fs (segment_path ?i) @ bs)"
      using False assms(2) a by (auto simp: active_path_def map_of_append_bytes split: option.splits)
    ultimately show ?thesis using inv_old_bytes [OF new(1), of ?i] False by auto
  qed
  show "spool_inv crc (N + 1) (mc_files t) sp" using step by simp
  show "X \<subseteq> set (queue crc (mc_files t) sp) \<union> set (st_discarded t)" using step new(2) assms(1,4) by (auto simp: live_def)
  show "bs = [] \<Longrightarrow> queue crc (mc_files t) sp = queue crc (mc_files s) (st_spool s)" using step new(2) by simp
qed

lemma ensure_active_spec:
  fixes s :: "'z Spooled_scheme"
  assumes "live crc N X s" "N + 1 \<le> 2 ^ 64"
  shows "ends ensure_active_segment (\<lambda>r s'. safe crc (N + 1) X r s' \<and>
    (r = Ok () \<longrightarrow> sp_active (st_spool s') \<noteq> None \<and> buffer (st_spool s') \<in> {[], buffer (st_spool s)} \<and>
       (buffer (st_spool s) = [] \<longrightarrow> queue crc (mc_files s') (st_spool s') = queue crc (mc_files s) (st_spool s)))) s"
    (is "ends _ ?Q s")
proof -
  let ?sp = "st_spool s" and ?n = "next_index (st_spool s)"
  have inv: "spool_inv crc N (mc_files s) ?sp" using assms(1) by (simp add: live_def)
  have index: "(if sp_segments ?sp = [] then 0 else nat (int (last (sp_segments ?sp) + 1) mod 2 ^ 64)) = ?n"
    using next_index_fresh(3) [OF inv] assms(2) by (auto simp: next_index_def)
  show ?thesis
  proof (cases "case sp_active ?sp of None \<Rightarrow> True | Some a \<Rightarrow> sc_segment_bytes (sp_config ?sp) \<le> ac_bytes a")
    case False
    then have "ensure_active_segment s = (Ok (), s)" "sp_active ?sp \<noteq> None" by (auto simp: ensure_active_segment_def split: option.splits)
    then show ?thesis using live_mono(1) [OF assms(1)] by (simp add: ends_def)
  next
    case True
    let ?rest = "\<lambda>u :: unit. (try_io :: ('z Spooled_scheme, io_error, unit) call \<Rightarrow> _)  (modify (\<lambda>sp. sp\<lparr>sp_segments := insort_insert ?n (sp_segments sp)\<rparr>))
        (\<lambda>_. try_io (unwrap_or () flush_buf) (\<lambda>_. modify (\<lambda>sp. sp\<lparr>sp_active := Some \<lparr>ac_index = ?n, ac_buffer = [], ac_bytes = 0\<rparr>\<rparr>)))"
    have def: "ensure_active_segment s = try_io (open_append (segment_path ?n)) ?rest s"
      using True unfolding ensure_active_segment_def Let_def index by simp
    let ?P = "\<lambda>(r :: (io_error, unit) reply) (t :: 'z Spooled_scheme). (\<forall>e. r = Err e \<longrightarrow> mc_files t = mc_files s) \<and> st_discarded t = st_discarded s \<and> st_spool t = ?sp \<and>
        (map_of (mc_files t) = (map_of (mc_files s))(segment_path ?n \<mapsto> []) \<or> r \<noteq> Ok () \<and> mc_files t = mc_files s)"
    have open_ends: "ends (open_append (segment_path ?n)) ?P s"
      using next_index_fresh(2) [OF inv]
      by (simp add: open_append_def atomic_call_def ends_syscall map_of_create_if_missing called_def split: fault.splits)
    have "ends (try_io (open_append (segment_path ?n)) ?rest) ?Q s"
    proof (rule ends_then [OF open_ends])
      fix u and t :: "'z Spooled_scheme" assume "?P (Ok u) t"
      then have t: "st_discarded t = st_discarded s" "st_spool t = ?sp" "map_of (mc_files t) = (map_of (mc_files s))(segment_path ?n \<mapsto> [])" by auto
      let ?t = "on_spool (\<lambda>sp. sp\<lparr>sp_segments := insort_insert ?n (sp_segments sp)\<rparr>) t"
      obtain r v where fl: "flush_buf ?t = (r, v)" by (cases "flush_buf ?t")
      obtain bs b where v: "map_of (mc_files v) = map_of (append_bytes (active_path ?sp) bs (mc_files t))" "buffer ?sp = [] \<longrightarrow> bs = []"
        "st_discarded v = st_discarded s" "st_spool v = ?sp\<lparr>sp_segments := insort_insert ?n (sp_segments ?sp), sp_active := b\<rparr>"
        using flush_files [OF fl] t by (auto simp: on_spool_def active_path_def buffer_def)
      let ?new = "new_segment ?n ?sp"
      note rot = rotated [OF assms(1) v(1) t(3) v(3) refl]
      have fin: "(st_spool v)\<lparr>sp_active := Some \<lparr>ac_index = ?n, ac_buffer = [], ac_bytes = 0\<rparr>\<rparr> = ?new"
        using v(4) insort_last [OF next_index_fresh(1) [OF inv]] by (simp add: new_segment_def)
      have "?rest u t = (case r of Killed \<Rightarrow> (Killed, v) | _ \<Rightarrow> (Ok (), v\<lparr>st_spool := ?new\<rparr>))"
        using fl fin by (simp add: try_io_def modify_def unwrap_or_def on_spool_def split: reply.splits)
      moreover have "preserved crc (N + 1) X v" unfolding preserved_def using rot(1,2) by (intro exI [of _ ?new]) simp
      moreover have "live crc (N + 1) X (v\<lparr>st_spool := ?new\<rparr>)" unfolding live_def using rot(1,2) by simp
      moreover have "sp_active ?new \<noteq> None" "buffer ?new = []" by (simp_all add: new_segment_def buffer_def)
      ultimately show "ends (?rest u) ?Q t" using rot(3) v(2) by (cases r) (simp_all add: ends_def)
    next
      fix e and t :: "'z Spooled_scheme" assume "?P (Err e) t"
      then show "?Q (Err e) t" using live_mono(1) [OF assms(1)] by (auto simp: live_def)
    next
      fix t :: "'z Spooled_scheme" assume t: "?P Killed t"
      then consider "map_of (mc_files t) = (map_of (mc_files s))(segment_path ?n \<mapsto> [])" | "mc_files t = mc_files s" by blast
      then have "preserved crc (N + 1) X t"
      proof cases
        case 1
        then show ?thesis using inv_new_segment [OF inv 1] t assms(1) by (intro heldI [of _ _ _ "new_segment ?n ?sp"]) (simp_all add: live_def)
      next
        case 2
        then show ?thesis using inv_mono [OF inv, of "N + 1"] t assms(1) by (intro heldI [of _ _ _ ?sp]) (simp_all add: live_def)
      qed
      then show "?Q Killed t" by simp
    qed
    then show ?thesis using def by (simp add: ends_def)
  qed
qed

end
