(* ===== verification/Edge_Spool_Safety.thy ===== *)
theory Edge_Spool_Safety
  imports Edge_Spool_Ops
begin

text \<open>
  The remaining operations of the spool: removing segments, the size ceiling, \<open>append\<close>, \<open>commit\<close> and
  \<open>open\<close>. Each keeps the invariant and what is queued, at every fate of every call it makes.
\<close>

section \<open>Removing a segment\<close>

lemma called_live [simp]:
  "live crc N X (called s) = live crc N X s" "st_spool (called s) = st_spool s" "st_discarded (called s) = st_discarded s"
  by (simp_all add: live_def called_def)

lemma ends_remove_file:
  "ends (remove_file name) (\<lambda>r s'.
     s' = (called s)\<lparr>mc_files := AList.delete name (mc_files s)\<rparr> \<and> r \<in> {Killed, if map_of (mc_files s) name = None then Err NotFound else Ok ()} \<or>
     s' = called s \<and> r \<in> {Killed, Err IoError}) s"
  by (auto simp: remove_file_def atomic_call_def ends_syscall called_def split: fault.splits)

lemma unlink_spec:
  fixes s :: "'z Spooled_scheme"
  assumes "live crc N X s" "sp_segments (st_spool s) = [] \<or> i \<noteq> last (sp_segments (st_spool s))"
    and "dropped \<or> i < cu_segment (sp_cursor (st_spool s))"
  shows "ends (unlink_segment crc i dropped) (\<lambda>r s'. live crc N X s' \<and> st_spool s' = st_spool s \<and>
    (r = Ok () \<longrightarrow> map_of (mc_files s') (segment_path i) = None \<and> map_of (mc_files s') = (map_of (mc_files s))(segment_path i := None)) \<and>
    (\<not> dropped \<longrightarrow> queue crc (mc_files s') (st_spool s') = queue crc (mc_files s) (st_spool s))) s" (is "ends _ ?Q s")
proof (rule endsI)
  fix r s' assume run: "unlink_segment crc i dropped s = (r, s')"
  let ?fs = "mc_files s" and ?sp = "st_spool s" and ?gone = "AList.delete (segment_path i) (mc_files s)"
  let ?us = "undelivered crc ?fs (sp_cursor ?sp) i"
  have inv: "spool_inv crc N ?fs ?sp" and X: "X \<subseteq> set (queue crc ?fs ?sp) \<union> set (st_discarded s)" using assms(1) by (simp_all add: live_def)
  have del: "map_of ?gone = (map_of ?fs)(segment_path i := None)" by simp
  obtain r0 t where removed: "remove_file (segment_path i) s = (r0, t)" by fastforce
  from endsD [OF ends_remove_file removed] consider
      (gone) "t = (called s)\<lparr>mc_files := ?gone\<rparr>" | (kept) "t = called s" "r0 \<in> {Killed, Err IoError}" by blast
  then show "?Q r s'"
  proof cases
    case gone
    then have s': "mc_files s' = ?gone" "st_spool s' = ?sp" "st_discarded s' = (if dropped then st_discarded s @ ?us else st_discarded s)"
      using run removed by (auto simp: unlink_segment_def called_def)
    have "X \<subseteq> set (queue crc ?gone ?sp) \<union> set (st_discarded s')"
      using queue_unlink [OF del, where crc = crc and sp = ?sp] X assms(3) s'(3) by (cases dropped) auto
    then show ?thesis using s' inv_unlink [OF inv assms(2) del] queue_unlink(2) [OF del, where crc = crc and sp = ?sp] assms(3) del
      by (auto simp: live_def)
  next
    case kept
    have "mc_files s' = ?fs" "st_spool s' = ?sp" "r \<noteq> Ok ()" "set (st_discarded s) \<subseteq> set (st_discarded s')"
      using kept run removed by (auto simp: unlink_segment_def split: if_splits)
    then show ?thesis using inv X by (auto simp: live_def)
  qed
qed

lemma count_steady: "ends (unwrap_or 0 (count_records crc i)) (\<lambda>r s'. s' = called s) s"
  by (auto simp: ends_def unwrap_or_def count_records_def try_io_def ok_def call_defs syscall_def called_def
      split: fault.splits option.splits)

lemma remove_segment_spec:
  fixes s :: "'z Spooled_scheme"
  assumes "live crc N X s" "sp_segments (st_spool s) = [] \<or> i \<noteq> last (sp_segments (st_spool s))"
    and "dropped \<or> i < cu_segment (sp_cursor (st_spool s))"
  shows "ends (remove_segment crc i dropped) (\<lambda>r s'. live crc N X s' \<and>
    (r = Ok () \<longrightarrow> (\<exists>n. st_spool s' = forget_segment i ((st_spool s)\<lparr>sp_dropped_records := n\<rparr>)) \<and>
       map_of (mc_files s') = (map_of (mc_files s))(segment_path i := None)) \<and>
    sp_cursor (st_spool s') = sp_cursor (st_spool s) \<and>
    (\<not> dropped \<longrightarrow> queue crc (mc_files s') (st_spool s') = queue crc (mc_files s) (st_spool s))) s" (is "ends _ ?Q s")
proof -
  let ?bump = "\<lambda>n sp. sp\<lparr>sp_dropped_records := sp_dropped_records sp + n\<rparr>"
  let ?rest = "\<lambda>n. try_io (modify (?bump n)) (\<lambda>_. try_io (unlink_segment crc i dropped) (\<lambda>_. modify (forget_segment i)))"
  have rest: "ends (?rest n) ?Q t" if t: "t = s \<or> t = called s" for n and t :: "'z Spooled_scheme"
  proof -
    let ?t = "on_spool (?bump n) t"
    have "live crc N X ?t" "sp_segments (st_spool ?t) = sp_segments (st_spool s)" "sp_cursor (st_spool ?t) = sp_cursor (st_spool s)"
      "mc_files ?t = mc_files s" "st_spool ?t = ?bump n (st_spool s)"
      using t assms(1) by (auto simp: live_def on_spool_def inv_counters called_def)
    note t' = this
    note unlink = unlink_spec [of crc N X ?t i dropped, OF t'(1)] 
    have "ends (try_io (unlink_segment crc i dropped) (\<lambda>_. modify (forget_segment i))) ?Q ?t"
    proof (rule ends_then [OF unlink])
      show "sp_segments (st_spool ?t) = [] \<or> i \<noteq> last (sp_segments (st_spool ?t))" "dropped \<or> i < cu_segment (sp_cursor (st_spool ?t))"
        using assms(2,3) t' by simp_all
      fix u and v :: "'z Spooled_scheme"
      assume "live crc N X v \<and> st_spool v = st_spool ?t \<and>
        (Ok u = Ok () \<longrightarrow> map_of (mc_files v) (segment_path i) = None \<and> map_of (mc_files v) = (map_of (mc_files ?t))(segment_path i := None)) \<and>
        (\<not> dropped \<longrightarrow> queue crc (mc_files v) (st_spool v) = queue crc (mc_files ?t) (st_spool ?t))"
      then have v: "live crc N X v" "st_spool v = ?bump n (st_spool s)" "map_of (mc_files v) (segment_path i) = None"
        "map_of (mc_files v) = (map_of (mc_files s))(segment_path i := None)"
        "\<not> dropped \<longrightarrow> queue crc (mc_files v) (st_spool v) = queue crc (mc_files s) (st_spool s)" using t' by auto
      have "live crc N X (on_spool (forget_segment i) v)"
        using v(1-3) inv_forget [of crc N "mc_files v" "st_spool v" i] assms(2) queue_forget [OF v(3), of crc "st_spool v"]
        by (auto simp: live_def on_spool_def)
      then show "ends (modify (forget_segment i)) ?Q v"
        using v queue_forget [OF v(3), of crc "st_spool v"]
        by (auto simp: ends_def modify_def on_spool_def forget_segment_def)
    qed (use t' in auto)
    then show ?thesis by (simp add: ends_def try_io_def modify_def)
  qed
  have count: "ends (if dropped then unwrap_or 0 (count_records crc i) else ok 0) (\<lambda>r t. t = s \<or> t = called s) s"
    using count_steady [of crc i s] by (auto intro: ends_weaken)
  show ?thesis unfolding remove_segment_def
    by (rule ends_then [OF count]) (use rest assms(1) in auto)
qed

section \<open>The size ceiling\<close>

lemma sum_lengths_steady: "ends (sum_lengths is) (\<lambda>r s'. steady s s') s"
proof (induction "is" arbitrary: s)
  case (Cons i "is")
  have size: "ends (unwrap_or 0 (metadata_len (segment_path i))) (\<lambda>r s'. steady s s') s"
    unfolding ends_unwrap metadata_len_def
    by (rule ends_reading) (auto simp: steady_intros split: reply.splits)
  show ?case unfolding sum_lengths.simps
  proof (rule ends_then [OF size])
    fix n t assume t: "steady s t"
    show "ends (try_io (sum_lengths is) (\<lambda>m. ok (n + m))) (\<lambda>r s'. steady s s') t"
      by (rule ends_then [OF Cons.IH]) (use steady_trans [OF t] in auto)
  qed
qed (simp add: steady_intros)

lemma total_bytes_steady: "ends total_bytes (\<lambda>r s'. steady s s') s"
  by (rule ends_subst [OF total_bytes_def]) (rule sum_lengths_steady)

text \<open>Passing the removed oldest segment leaves the queue as it is.\<close>

lemma inv_move_cursor:
  assumes "spool_inv crc N fs sp" "sp_segments sp \<noteq> []" "\<forall>i\<in>set (sp_segments sp). oldest < i" "cu_segment (sp_cursor sp) \<le> oldest"
  shows "spool_inv crc N fs (move_cursor_past oldest sp)" "queue crc fs (move_cursor_past oldest sp) = queue crc fs sp"
proof -
  let ?first = "hd (sp_segments sp)"
  have move: "move_cursor_past oldest sp = sp\<lparr>sp_cursor := \<lparr>cu_segment = ?first, cu_offset = 0\<rparr>\<rparr>"
    using assms(2) by (simp add: move_cursor_past_def first_or_def split: list.splits)
  have first: "?first \<in> set (sp_segments sp)" "oldest < ?first" using assms(2,3) by auto
  show "spool_inv crc N fs (move_cursor_past oldest sp)" unfolding move
    by (rule inv_set_cursor [OF assms(1)]) (use first assms(4) in \<open>auto simp: reached_def\<close>)
  have sorted: "sorted_wrt (<) (sp_segments sp)" using assms(1) by (simp add: spool_inv_def)
  have "undelivered crc fs \<lparr>cu_segment = ?first, cu_offset = 0\<rparr> j = undelivered crc fs (sp_cursor sp) j" if "j \<in> set (sp_segments sp)" for j
  proof -
    have "?first \<le> j" using that sorted assms(2) by (cases "sp_segments sp") auto
    then show ?thesis using first assms(4) by (auto simp: undelivered_eq)
  qed
  then show "queue crc fs (move_cursor_past oldest sp) = queue crc fs sp"
    unfolding move by (simp add: queue_def queued_def cong: map_cong)
qed

text \<open>Removing the oldest of several segments takes a part of the front of the queue away.\<close>

lemma queue_drop_oldest:
  assumes "sorted_wrt (<) (oldest # rest)" "sp_segments sp = oldest # rest" "map_of fs' = (map_of fs)(segment_path oldest := None)"
  shows "\<exists>zs. queue crc fs sp = zs @ queue crc fs' (forget_segment oldest (sp\<lparr>sp_dropped_records := n\<rparr>))"
proof -
  have rest: "removeAll oldest (oldest # rest) = rest" using assms(1) by (auto simp: removeAll_id)
  have "undelivered crc fs' c j = undelivered crc fs c j" if "j \<in> set rest" for c j
    using that assms(1,3) by (auto simp: undelivered_eq content_def)
  then have "queued crc fs' rest c = queued crc fs rest c" for c by (simp add: queued_def cong: map_cong)
  then show ?thesis using rest assms(2) by (auto simp: queue_def forget_segment_def queued_def)
qed

lemma ends_run: "ends m (\<lambda>r t. m s = (r, t)) s"
  by (simp add: ends_def split: prod.splits)

lemma store_cursor_live:
  fixes s :: "'z Spooled_scheme"
  assumes "live crc N X s" "N \<le> 2 ^ 64"
  shows "ends store_cursor (\<lambda>r s'. live crc N X s' \<and> queue crc (mc_files s') (st_spool s') = queue crc (mc_files s) (st_spool s)) s"
proof (rule endsI)
  fix r and s' :: "'z Spooled_scheme" assume run: "store_cursor s = (r, s')"
  have "spool_inv crc N (mc_files s) (st_spool s)" using assms(1) by (simp add: live_def)
  note stored = endsD [OF store_cursor_spec [OF this assms(2)] run]
  have "set (st_discarded s) \<subseteq> set (st_discarded s')" using confinedD [OF confined_store_cursor run] by (simp add: outside_def)
  then show "live crc N X s' \<and> queue crc (mc_files s') (st_spool s') = queue crc (mc_files s) (st_spool s)"
    using stored assms(1) unfolding live_def by auto
qed

lemma move_cursor_spec:
  assumes "live crc N X s" "N \<le> 2 ^ 64" "sp_segments (st_spool s) \<noteq> []" "\<forall>i\<in>set (sp_segments (st_spool s)). oldest < i"
  shows "ends (\<lambda>s. if cu_segment (sp_cursor (st_spool s)) \<le> oldest
      then try_io (modify (move_cursor_past oldest)) (\<lambda>_. store_cursor) s else (Ok (), s))
    (\<lambda>r s'. live crc N X s' \<and> queue crc (mc_files s') (st_spool s') = queue crc (mc_files s) (st_spool s)) s"
proof (cases "cu_segment (sp_cursor (st_spool s)) \<le> oldest")
  case True
  let ?s = "on_spool (move_cursor_past oldest) s"
  have inv: "spool_inv crc N (mc_files s) (st_spool s)" using assms(1) by (simp add: live_def)
  note moved = inv_move_cursor [OF inv assms(3,4) True]
  then have "live crc N X ?s" using assms(1) by (simp add: live_def on_spool_def)
  then have "ends store_cursor (\<lambda>r s'. live crc N X s' \<and> queue crc (mc_files s') (st_spool s') = queue crc (mc_files s) (st_spool s)) ?s"
    by (rule ends_weaken [OF store_cursor_live [OF _ assms(2)]]) (use moved(2) in \<open>simp add: on_spool_def\<close>)
  then show ?thesis using True by (simp add: ends_def try_io_def modify_def)
qed (use assms(1) in \<open>simp add: ends_def\<close>)

text \<open>One segment is evicted.\<close>

lemma evict_oldest_spec:
  fixes s :: "'z Spooled_scheme"
  assumes "live crc N X s" "N \<le> 2 ^ 64" "sp_segments (st_spool s) = oldest # rest"
    and "Some oldest \<noteq> map_option ac_index (sp_active (st_spool s))"
  shows "ends (evict_oldest crc oldest) (\<lambda>r s'. live crc N X s' \<and>
    (r = Ok () \<longrightarrow> (\<exists>zs. queue crc (mc_files s) (st_spool s) = zs @ queue crc (mc_files s') (st_spool s')))) s" (is "ends _ ?Q s")
proof -
  have inv: "spool_inv crc N (mc_files s) (st_spool s)" using assms(1) by (simp add: live_def)
  have sorted: "sorted_wrt (<) (oldest # rest)" using inv assms(3) by (simp add: spool_inv_def)
  have newest: "oldest \<noteq> last (sp_segments (st_spool s))" using inv assms(3,4) by (auto simp: spool_inv_def newest_ok_def)
  show ?thesis unfolding evict_oldest_def
  proof (rule ends_then [OF remove_segment_spec [OF assms(1)]])
    show "sp_segments (st_spool s) = [] \<or> oldest \<noteq> last (sp_segments (st_spool s))" using newest by simp
    fix u and t :: "'z Spooled_scheme"
    assume "live crc N X t \<and>
      (Ok u = Ok () \<longrightarrow> (\<exists>n. st_spool t = forget_segment oldest ((st_spool s)\<lparr>sp_dropped_records := n\<rparr>)) \<and>
         map_of (mc_files t) = (map_of (mc_files s))(segment_path oldest := None)) \<and>
      sp_cursor (st_spool t) = sp_cursor (st_spool s) \<and>
      (\<not> True \<longrightarrow> queue crc (mc_files t) (st_spool t) = queue crc (mc_files s) (st_spool s))"
    then obtain n where t: "live crc N X t" "st_spool t = forget_segment oldest ((st_spool s)\<lparr>sp_dropped_records := n\<rparr>)"
      "map_of (mc_files t) = (map_of (mc_files s))(segment_path oldest := None)" by auto
    obtain zs where zs: "queue crc (mc_files s) (st_spool s) = zs @ queue crc (mc_files t) (st_spool t)"
      using queue_drop_oldest [OF sorted assms(3) t(3), of crc n] t(2) by auto
    have left: "sp_segments (st_spool t) = rest" using t(2) assms(3) sorted by (auto simp: forget_segment_def removeAll_id)
    have "rest \<noteq> []" "\<forall>i\<in>set rest. oldest < i" using newest sorted assms(3) by auto
    then show "ends (\<lambda>s. if cu_segment (sp_cursor (st_spool s)) \<le> oldest
        then try_io (modify (move_cursor_past oldest)) (\<lambda>_. store_cursor) s else (Ok (), s)) ?Q t"
      by (intro ends_weaken [OF move_cursor_spec [OF t(1) assms(2), of oldest]]) (use left zs in auto)
  qed simp_all
qed

lemma enforce_capacity_spec:
  fixes s :: "'z Spooled_scheme"
  assumes "live crc N X s" "N \<le> 2 ^ 64"
  shows "ends (enforce_capacity crc) (\<lambda>r s'. live crc N X s' \<and>
    (r = Ok () \<longrightarrow> (\<exists>zs. queue crc (mc_files s) (st_spool s) = zs @ queue crc (mc_files s') (st_spool s')))) s"
  using assms
proof (induction crc s rule: enforce_capacity.induct)
  case (1 crc s)
  let ?Q = "\<lambda>s r s'. live crc N X s' \<and>
    (r = Ok () \<longrightarrow> (\<exists>zs. queue crc (mc_files s) (st_spool s) = zs @ queue crc (mc_files s') (st_spool s')))"
  note total = ends_conj [OF ends_run [of total_bytes s] total_bytes_steady]
  show ?case
  proof (rule ends_subst [OF enforce_capacity.simps], rule ends_then [OF total])
    fix total and s1 :: "'z Spooled_scheme" assume "total_bytes s = (Ok total, s1) \<and> steady s s1"
    then have run: "total_bytes s = (Ok total, s1)" and st: "steady s s1" by simp_all
    have live1: "live crc N X s1" and queue1: "queue crc (mc_files s1) (st_spool s1) = queue crc (mc_files s) (st_spool s)"
      using live_steady [OF st] 1(2) by simp_all
    let ?turn = "\<lambda>oldest. try_io (evict_oldest crc oldest) (\<lambda>_ s2. enforce_capacity crc s2)"
    have loop: "ends (?turn oldest) (?Q s) s1"
      if over: "\<not> total \<le> sc_max_total_bytes (sp_config (st_spool s1))" and segs: "sp_segments (st_spool s1) = oldest # rest"
        and other: "Some oldest \<noteq> map_option ac_index (sp_active (st_spool s1))" for oldest rest
    proof (rule ends_then [OF ends_conj [OF ends_run evict_oldest_spec [OF live1 1(3) segs other]]])
      fix u and t :: "'z Spooled_scheme" assume "evict_oldest crc oldest s1 = (Ok u, t) \<and> ?Q s1 (Ok u) t"
      then obtain zs where t: "evict_oldest crc oldest s1 = (Ok u, t)" "live crc N X t"
        and zs: "queue crc (mc_files s1) (st_spool s1) = zs @ queue crc (mc_files t) (st_spool t)" by auto
      have "ends (enforce_capacity crc) (?Q t) t" by (rule 1(1) [OF run over segs other t 1(3)])
      then show "ends (enforce_capacity crc) (?Q s) t"
        by (rule ends_weaken) (metis append_assoc queue1 zs)
    qed simp_all
    show "ends (\<lambda>s1. if total \<le> sc_max_total_bytes (sp_config (st_spool s1)) then (Ok (), s1)
          else case sp_segments (st_spool s1) of [] \<Rightarrow> (Ok (), s1)
               | oldest # _ \<Rightarrow> if Some oldest = map_option ac_index (sp_active (st_spool s1)) then (Ok (), s1) else ?turn oldest s1) (?Q s) s1"
      using loop live1 queue1 by (auto simp: ends_def split: list.splits)
  qed (use 1(2) in \<open>auto simp: live_steady(1)\<close>)
qed

section \<open>Appending\<close>

lemma live_subset: "live crc N X s \<Longrightarrow> Y \<subseteq> X \<Longrightarrow> live crc N Y s" "preserved crc N X s \<Longrightarrow> Y \<subseteq> X \<Longrightarrow> preserved crc N Y s"
  unfolding live_def preserved_def by blast+

lemma on_spool_simps [simp]:
  "st_spool (on_spool f s) = f (st_spool s)" "mc_files (on_spool f s) = mc_files s" "st_discarded (on_spool f s) = st_discarded s"
  by (simp_all add: on_spool_def)

text \<open>The record joins the buffer and the buffer is flushed.\<close>

lemma push_flush_spec:
  fixes s :: "'z Spooled_scheme"
  assumes "live crc N X s" "storable payload" "sp_active (st_spool s) \<noteq> None"
  shows "ends flush_buf (\<lambda>r s'. live crc N X s' \<and> (r = Ok () \<longrightarrow> live crc N (insert payload X) s' \<and> buffer (st_spool s') = [] \<and>
      (buffer (st_spool s) = [] \<longrightarrow> queue crc (mc_files s') (st_spool s') = queue crc (mc_files s) (st_spool s) @ [payload])))
    (on_spool (set_buffer (buffer (st_spool s) @ encode_record crc payload)) s)" (is "ends _ ?Q ?s")
proof (rule endsI)
  fix r s' assume run: "flush_buf ?s = (r, s')"
  let ?fs = "mc_files s" and ?sp = "st_spool s"
  obtain a where a: "sp_active ?sp = Some a" using assms(3) by blast
  have inv: "spool_inv crc N ?fs ?sp" using assms(1) by (simp add: live_def)
  have buf: "buffer ?sp = ac_buffer a" "encode_record crc payload \<noteq> []" using a assms(2) by (auto simp: buffer_def storable_def encode_record_def)
  have pushed: "live crc N X ?s" using inv_push [OF inv a assms(2)] assms(1) buf by (simp add: live_def)
  note flushed = endsD [OF flush_buf_spec [OF pushed] run]
  show "?Q r s'"
  proof (cases "r = Ok ()")
    case True
    let ?fs' = "append_bytes (segment_path (ac_index a)) (ac_buffer a @ encode_record crc payload) ?fs"
    have works: "fault_now ?s = Works" "mc_files s' = ?fs'" "st_discarded s' = st_discarded s" "st_spool s' = set_buffer [] ?sp"
      using run True a buf
      by (auto simp: flush_buf_def write_all_def syscall_def written_def active_path_def called_def on_spool_def set_buffer_def buffer_def split: fault.splits)
    obtain bytes where bytes: "map_of ?fs (segment_path (ac_index a)) = Some bytes" using inv_active(3) [OF inv a] by blast
    have "map_of ?fs' = (map_of ?fs)(segment_path (ac_index a) \<mapsto> content ?fs (segment_path (ac_index a)) @ ac_buffer a @ encode_record crc payload)"
      using bytes by (simp add: map_of_append_bytes)
    from queue_flushed [OF inv a assms(2) this] obtain ys where
      "queue crc ?fs' ?sp = queue crc ?fs ?sp @ ys @ [payload]" "ac_buffer a = [] \<longrightarrow> ys = []" by blast
    then show ?thesis using flushed works True buf by (auto simp: live_def)
  qed (use flushed in auto)
qed

lemma append_spec:
  fixes s :: "'z Spooled_scheme"
  assumes "live crc N X s" "N + 1 \<le> 2 ^ 64" "storable payload" "has_room payload (st_spool s)"
  shows "ends (spool_append crc payload) (\<lambda>r s'. safe crc (N + 1) X r s' \<and>
    (r = Ok () \<longrightarrow> live crc (N + 1) (insert payload X) s' \<and>
       (buffer (st_spool s) = [] \<longrightarrow>
          (\<exists>zs. queue crc (mc_files s) (st_spool s) @ [payload] = zs @ queue crc (mc_files s') (st_spool s'))))) s" (is "ends _ ?Q s")
proof -
  let ?count = "\<lambda>sp. sp\<lparr>sp_active := map_option (\<lambda>a. a\<lparr>ac_bytes := ac_bytes a + (RECORD_HEADER_BYTES + length payload)\<rparr>) (sp_active sp)\<rparr>"
  let ?last = "try_io flush_buf (\<lambda>_. try_io (modify ?count) (\<lambda>_. enforce_capacity crc)) :: ('z Spooled_scheme, io_error, unit) call"
  let ?rest = "\<lambda>_ :: unit. try_io (buf_write_all (to_le_bytes (int (length payload)))) (\<lambda>_. try_io (buf_write_all (to_le_bytes (uint (crc payload))))
      (\<lambda>_. try_io (buf_write_all payload) (\<lambda>_. ?last)))"
  have "ends (try_io ensure_active_segment ?rest) ?Q s"
  proof (rule ends_then [OF ensure_active_spec [OF assms(1,2)]])
    fix u and t :: "'z Spooled_scheme"
    assume "safe crc (N + 1) X (Ok u) t \<and> (Ok u = Ok () \<longrightarrow> sp_active (st_spool t) \<noteq> None \<and> buffer (st_spool t) \<in> {[], buffer (st_spool s)} \<and>
       (buffer (st_spool s) = [] \<longrightarrow> queue crc (mc_files t) (st_spool t) = queue crc (mc_files s) (st_spool s)))"
    then have t: "live crc (N + 1) X t" "sp_active (st_spool t) \<noteq> None" "has_room payload (st_spool t)"
      "buffer (st_spool s) = [] \<Longrightarrow> buffer (st_spool t) = [] \<and> queue crc (mc_files t) (st_spool t) = queue crc (mc_files s) (st_spool s)"
      using assms(4) by (auto simp: has_room_def)
    have "ends ?last ?Q (on_spool (set_buffer (buffer (st_spool t) @ encode_record crc payload)) t)"
    proof (rule ends_then [OF push_flush_spec [OF t(1) assms(3) t(2)]])
      fix v and w :: "'z Spooled_scheme"
      assume "live crc (N + 1) X w \<and> (Ok v = Ok () \<longrightarrow> live crc (N + 1) (insert payload X) w \<and> buffer (st_spool w) = [] \<and>
        (buffer (st_spool t) = [] \<longrightarrow> queue crc (mc_files w) (st_spool w) = queue crc (mc_files t) (st_spool t) @ [payload]))"
      then have w: "live crc (N + 1) (insert payload X) (on_spool ?count w)"
        "buffer (st_spool s) = [] \<Longrightarrow> queue crc (mc_files w) (?count (st_spool w)) = queue crc (mc_files s) (st_spool s) @ [payload]"
        using t(4) by (auto simp: live_def inv_counters)
      have "ends (enforce_capacity crc) ?Q (on_spool ?count w)"
      proof (rule ends_weaken [OF enforce_capacity_spec [OF w(1) assms(2)]])
        fix r :: "(io_error, unit) reply" and s' :: "'z Spooled_scheme" assume post: "live crc (N + 1) (insert payload X) s' \<and> (r = Ok () \<longrightarrow>
          (\<exists>zs. queue crc (mc_files (on_spool ?count w)) (st_spool (on_spool ?count w)) = zs @ queue crc (mc_files s') (st_spool s')))"
        have "live crc (N + 1) X s'" using post live_subset(1) by blast
        then have "safe crc (N + 1) X r s'" by (rule live_safe)
        then show "?Q r s'" using post w(2) by fastforce
      qed
      then show "ends (try_io (modify ?count) (\<lambda>_. enforce_capacity crc)) ?Q w" by (simp add: ends_def try_io_def modify_def)
    qed (auto intro: live_held)
    then show "ends (?rest u) ?Q t" unfolding ends_def push_record [OF t(3,2)] .
  qed (use assms in auto)
  then show ?thesis using assms(3) unfolding spool_append_def by (simp add: storable_def not_less)
qed

lemma append_refused:
  "spool_append crc [] s = (Ok (), s)"
  "MAX_RECORD_BYTES < int (length payload) \<Longrightarrow> spool_append crc payload s = (Err (InvalidInput ''record exceeds the maximum spool record size''), s)"
  by (auto simp: spool_append_def ok_def MAX_RECORD_BYTES_def)

end
