(* ===== verification/Edge_Spool_Restart.thy ===== *)
theory Edge_Spool_Restart
  imports Edge_Spool_Safety
begin

text \<open>
  The rest of the interface of the spool: a batch is read from the front of the queue, a commit takes it
  off, and a restart rebuilds the spool from the directory without losing a record of the queue.
\<close>

lemma ends_modify: "ends (try_io (modify f) g) Q s \<longleftrightarrow> ends (g ()) Q (on_spool f s)"
  by (simp add: ends_def try_io_def modify_def)

section \<open>Reading a batch and committing it\<close>

text \<open>A position behind the first records of the queue.\<close>

definition ahead :: "checksum \<Rightarrow> 'z Spooled_scheme \<Rightarrow> string list \<Rightarrow> Cursor \<Rightarrow> bool" where
  "ahead crc s rs c \<longleftrightarrow>
     reached (sp_cursor (st_spool s)) c \<and> on_record crc (mc_files s) c \<and>
     (c = sp_cursor (st_spool s) \<or> cu_segment c \<in> set (sp_segments (st_spool s))) \<and>
     queue crc (mc_files s) (st_spool s) = rs @ queued crc (mc_files s) (sp_segments (st_spool s)) c"

lemma read_batch_spec:
  fixes s :: "'z Spooled_scheme"
  assumes "live crc N X s"
  shows "ends (read_batch crc limit) (\<lambda>r s'. steady s s' \<and>
    (\<forall>rs c. r = Ok (rs, c) \<longrightarrow> rs = take limit (queue crc (mc_files s) (st_spool s)) \<and> ahead crc s rs c)) s"
proof (cases "limit = 0")
  case True
  then show ?thesis using assms by (simp add: ends_def read_batch_def steady_intros ahead_def live_def spool_inv_def queue_def)
next
  case False
  have inv: "sorted_wrt (<) (sp_segments (st_spool s))" "on_record crc (mc_files s) (sp_cursor (st_spool s))"
    using assms by (simp_all add: live_def spool_inv_def)
  have "ends (read_segments crc (sp_cursor (st_spool s)) limit []) (read_post crc (sp_cursor (st_spool s)) limit [] s) s"
    by (rule read_segments_spec) (use False inv in simp_all)
  then have "ends (read_segments crc (sp_cursor (st_spool s)) limit []) (\<lambda>r s'. steady s s' \<and>
      (\<forall>rs c. r = Ok (rs, c) \<longrightarrow> rs = take limit (queue crc (mc_files s) (st_spool s)) \<and> ahead crc s rs c)) s"
    by (rule ends_weaken) (auto simp: read_post_def ahead_def queue_def)
  then show ?thesis using False by (simp add: ends_def read_batch_def)
qed

text \<open>What holds of a state holds of one that differs in the count of corrupt records or outside the spool.\<close>

lemma ahead_steady:
  assumes "ahead crc s rs c" "mc_files s' = mc_files s" "sp_cursor (st_spool s') = sp_cursor (st_spool s)"
    and "sp_segments (st_spool s') = sp_segments (st_spool s)"
  shows "ahead crc s' rs c"
  using assms by (simp add: ahead_def queue_def)

lemma remove_segments_spec:
  fixes s :: "'z Spooled_scheme"
  assumes "live crc N X s" "\<forall>i\<in>set is. i < cu_segment (sp_cursor (st_spool s))"
  shows "ends (remove_segments crc is) (\<lambda>r s'. live crc N X s' \<and> sp_cursor (st_spool s') = sp_cursor (st_spool s) \<and>
    queue crc (mc_files s') (st_spool s') = queue crc (mc_files s) (st_spool s)) s"
  using assms
proof (induction "is" arbitrary: s)
  case (Cons i "is")
  have old: "sp_segments (st_spool s) = [] \<or> i \<noteq> last (sp_segments (st_spool s))"
    using Cons.prems by (auto simp: live_def spool_inv_def split: if_splits)
  have "i < cu_segment (sp_cursor (st_spool s))" using Cons.prems(2) by simp
  then have gone: "False \<or> i < cu_segment (sp_cursor (st_spool s))" by simp
  show ?case unfolding remove_segments.simps
  proof (rule ends_then [OF remove_segment_spec [OF Cons.prems(1) old gone]], goal_cases)
    case (1 u t)
    then show ?case by (intro ends_weaken [OF Cons.IH]) (use Cons.prems(2) in auto)
  qed auto
qed simp

lemma commit_spec:
  fixes s :: "'z Spooled_scheme"
  assumes "live crc N X s" "N \<le> 2 ^ 64" "ahead crc s rs c"
  shows "ends (spool_commit crc c) (\<lambda>r s'. live crc N (X - set rs) s' \<and> rs @ queue crc (mc_files s') (st_spool s') = queue crc (mc_files s) (st_spool s)) s"
    (is "ends _ ?Q s")
proof -
  let ?s = "on_spool (\<lambda>sp. sp\<lparr>sp_cursor := c\<rparr>) s"
  have inv: "spool_inv crc N (mc_files s) (st_spool s)" using assms(1) by (simp add: live_def)
  have q: "rs @ queue crc (mc_files ?s) (st_spool ?s) = queue crc (mc_files s) (st_spool s)" using assms(3) by (simp add: ahead_def queue_def)
  have "spool_inv crc N (mc_files s) ((st_spool s)\<lparr>sp_cursor := c\<rparr>)"
    by (rule inv_set_cursor [OF inv]) (use assms(3) in \<open>auto simp: ahead_def\<close>)
  then have live: "live crc N (X - set rs) ?s" using assms(1) by (auto simp: live_def q [symmetric])
  let ?is = "filter (\<lambda>i. i < cu_segment c) (sp_segments (st_spool ?s))"
  have "ends (try_io (remove_segments crc ?is) (\<lambda>_. store_cursor)) ?Q ?s"
  proof (rule ends_then [OF remove_segments_spec [OF live]], goal_cases)
    case (2 u t)
    then have t: "live crc N (X - set rs) t" "rs @ queue crc (mc_files t) (st_spool t) = queue crc (mc_files s) (st_spool s)" using q by auto
    show ?case by (rule ends_weaken [OF store_cursor_live [OF t(1) assms(2)]]) (simp add: t(2))
  qed (use q in auto)
  then have "ends (try_io (\<lambda>s. remove_segments crc (filter (\<lambda>i. i < cu_segment c) (sp_segments (st_spool s))) s) (\<lambda>_. store_cursor)) ?Q ?s"
    by (rule ends_subst [rotated]) (simp only: try_io_def)
  then show ?thesis unfolding spool_commit_def ends_modify .
qed

section \<open>Restart\<close>

definition loaded_cursor :: "files \<Rightarrow> Cursor" where
  "loaded_cursor fs =
     (case map_of fs CURSOR_FILE of
        None \<Rightarrow> default_cursor
      | Some raw \<Rightarrow> if cu_segment (parse_cursor raw) \<in> set (on_disk fs) then parse_cursor raw
                    else \<lparr>cu_segment = first_or 0 (on_disk fs), cu_offset = 0\<rparr>)"

lemma on_disk_inv:
  assumes "spool_inv crc N fs sp" "N \<le> 2 ^ 64"
  shows "i \<in> set (on_disk fs) \<longleftrightarrow> map_of fs (segment_path i) \<noteq> None" "sorted_wrt (<) (on_disk fs)"
    "set (on_disk fs) \<subseteq> set (sp_segments sp)" "on_disk fs = [] \<longleftrightarrow> sp_segments sp = []"
    "sp_segments sp \<noteq> [] \<Longrightarrow> last (on_disk fs) = last (sp_segments sp)"
    "queued crc fs (on_disk fs) c = queued crc fs (sp_segments sp) c"
proof -
  have tidy: "tidy N fs" and all: "\<And>j. map_of fs (segment_path j) \<noteq> None \<Longrightarrow> j \<in> set (sp_segments sp)" and sorted: "sorted_wrt (<) (sp_segments sp)"
    and newest: "sp_segments sp \<noteq> [] \<Longrightarrow> map_of fs (segment_path (last (sp_segments sp))) \<noteq> None"
    using assms(1) by (auto simp: spool_inv_def newest_ok_def)
  note disk = on_disk_props [OF tidy assms(2)]
  show "i \<in> set (on_disk fs) \<longleftrightarrow> map_of fs (segment_path i) \<noteq> None" and sd: "sorted_wrt (<) (on_disk fs)" by (rule disk)+
  show sub: "set (on_disk fs) \<subseteq> set (sp_segments sp)" using disk(1) all by blast
  show "on_disk fs = [] \<longleftrightarrow> sp_segments sp = []"
    using sub newest disk(1) [of "last (sp_segments sp)"] by (cases "sp_segments sp = []") auto
  show "last (on_disk fs) = last (sp_segments sp)" if "sp_segments sp \<noteq> []"
  proof (rule antisym)
    have "last (sp_segments sp) \<in> set (on_disk fs)" using newest [OF that] disk(1) by blast
    then show "last (sp_segments sp) \<le> last (on_disk fs)" by (rule strictly_last [OF sd])
    have "on_disk fs \<noteq> []" using \<open>last (sp_segments sp) \<in> set (on_disk fs)\<close> by auto
    then show "last (on_disk fs) \<le> last (sp_segments sp)" using strictly_last [OF sorted] sub last_in_set by blast
  qed
  have eq: "on_disk fs = filter (\<lambda>j. map_of fs (segment_path j) \<noteq> None) (sp_segments sp)"
    by (rule sorted_distinct_set_unique) (use sd sorted disk(1) all in \<open>auto simp: strict_sorted_iff sorted_wrt_filter\<close>)
  show "queued crc fs (on_disk fs) c = queued crc fs (sp_segments sp) c"
    unfolding eq by (rule queued_filter) (simp add: undelivered_missing)
qed

text \<open>The cursor that is loaded stands on a record and no queued record lies before it.\<close>

lemma loaded_cursor_props:
  assumes "spool_inv crc N fs sp" "N \<le> 2 ^ 64"
  shows "on_record crc fs (loaded_cursor fs)" "\<exists>xs. queued crc fs (on_disk fs) (loaded_cursor fs) = xs @ queue crc fs sp"
    "map_of fs (segment_path (cu_segment (stored_cursor fs))) \<noteq> None \<Longrightarrow> loaded_cursor fs = stored_cursor fs"
    "on_disk fs \<noteq> [] \<Longrightarrow> cu_segment (loaded_cursor fs) \<le> last (on_disk fs)" "on_disk fs = [] \<Longrightarrow> loaded_cursor fs = default_cursor"
proof -
  note disk = on_disk_inv [OF assms]
  have cases: "loaded_cursor fs = stored_cursor fs \<and> cu_segment (stored_cursor fs) \<in> set (on_disk fs) \<or> loaded_cursor fs = default_cursor \<or>
      loaded_cursor fs = \<lparr>cu_segment = first_or 0 (on_disk fs), cu_offset = 0\<rparr>"
    by (auto simp: loaded_cursor_def stored_cursor_def split: option.splits)
  have stored: "on_record crc fs (stored_cursor fs)" "reached (stored_cursor fs) (sp_cursor sp)" if "cu_segment (stored_cursor fs) \<in> set (on_disk fs)"
    using that assms(1) disk(1) by (auto simp: spool_inv_def)
  have low: "first_or 0 (on_disk fs) \<le> j" if "j \<in> set (on_disk fs)" for j using that disk(2) by (cases "on_disk fs") (auto simp: first_or_def)
  show rec: "on_record crc fs (loaded_cursor fs)" using cases stored(1) by auto
  show "loaded_cursor fs = stored_cursor fs" if "map_of fs (segment_path (cu_segment (stored_cursor fs))) \<noteq> None"
    using that disk(1) by (auto simp: loaded_cursor_def stored_cursor_def split: option.splits)
  show "on_disk fs = [] \<Longrightarrow> loaded_cursor fs = default_cursor" using cases by (auto simp: default_cursor_def first_or_def)
  show "cu_segment (loaded_cursor fs) \<le> last (on_disk fs)" if "on_disk fs \<noteq> []"
    using cases strictly_last [OF disk(2)] low that by (auto simp: default_cursor_def)
  have cur: "on_record crc fs (sp_cursor sp)" using assms(1) by (simp add: spool_inv_def)
  have same: "queued crc fs (on_disk fs) (loaded_cursor fs) = queue crc fs sp" if "\<not> reached (loaded_cursor fs) (sp_cursor sp)"
  proof -
    have "loaded_cursor fs = \<lparr>cu_segment = first_or 0 (on_disk fs), cu_offset = 0\<rparr>" using cases stored(2) that by auto
    then have "undelivered crc fs (loaded_cursor fs) j = undelivered crc fs (sp_cursor sp) j" if "j \<in> set (on_disk fs)" for j
      using low [OF that] \<open>\<not> reached _ _\<close> by (auto simp: undelivered_eq reached_def)
    then show ?thesis unfolding queue_def disk(6) [symmetric] by (auto simp: queued_def intro!: arg_cong [of _ _ concat])
  qed
  show "\<exists>xs. queued crc fs (on_disk fs) (loaded_cursor fs) = xs @ queue crc fs sp"
    using same queued_later [OF _ rec cur disk(2)] disk(6) by (cases "reached (loaded_cursor fs) (sp_cursor sp)") (auto simp: queue_def)
qed

text \<open>Cutting the unreadable tail off the newest segment changes no record and no position on one.\<close>

definition intact_part :: "checksum \<Rightarrow> string \<Rightarrow> string" where
  "intact_part crc bytes = take (sum_list (map snd (scan_records crc bytes))) bytes"

lemma intact_part_props: "intact crc (intact_part crc bytes)" "payloads crc (intact_part crc bytes) = payloads crc bytes"
  unfolding intact_part_def scan_bytes by (rule take_intact)+

lemma cut_tail:
  assumes "map_of fs' = (map_of fs)(segment_path n \<mapsto> intact_part crc (content fs (segment_path n)))" "map_of fs (segment_path n) \<noteq> None"
  shows "on_record crc fs' c = on_record crc fs c" "on_record crc fs c \<Longrightarrow> undelivered crc fs' c i = undelivered crc fs c i"
proof -
  have same: "payloads crc (content fs' (segment_path j)) = payloads crc (content fs (segment_path j))" for j
    using assms(1) by (cases "j = n") (auto simp: intact_part_props content_def)
  show "on_record crc fs' c = on_record crc fs c" using assms by (auto simp: on_record_def same)
  assume rec: "on_record crc fs c"
  show "undelivered crc fs' c i = undelivered crc fs c i"
  proof (cases "i = cu_segment c")
    case False
    then show ?thesis using same [of i] by (simp add: undelivered_eq)
  next
    case True
    show ?thesis
    proof (cases "map_of fs (segment_path i) = None")
      case True
      then have "map_of fs' (segment_path i) = None" using assms by auto
      then show ?thesis using True by (simp add: undelivered_missing)
    next
    case False
    then obtain k where k: "cu_offset c = length (encode_log crc (take k (payloads crc (content fs (segment_path i)))))"
      using rec True by (auto simp: on_record_def)
    then have "cu_offset c = length (encode_log crc (take k (payloads crc (content fs' (segment_path i)))))" by (simp add: same)
    from drop_records(1) [OF this] drop_records(1) [OF k] True show ?thesis by (simp add: undelivered_eq same)
    qed
  qed
qed

text \<open>The spool that \<open>open\<close> builds, once the tail is cut.\<close>

lemma recovered:
  assumes "spool_inv crc N fs sp" "N \<le> 2 ^ 64" "on_disk fs \<noteq> []"
    and "map_of fs' = (map_of fs)(segment_path (last (on_disk fs)) \<mapsto> intact_part crc (content fs (segment_path (last (on_disk fs)))))"
    and "sp_segments sp' = on_disk fs" "sp_cursor sp' = loaded_cursor fs"
    and "sp_active sp' = Some \<lparr>ac_index = last (on_disk fs), ac_buffer = [], ac_bytes = n\<rparr>"
  shows "spool_inv crc N fs' sp'" "\<exists>xs. queue crc fs' sp' = xs @ queue crc fs sp"
proof -
  note disk = on_disk_inv [OF assms(1,2)] and cursor = loaded_cursor_props [OF assms(1,2)]
  have there: "map_of fs (segment_path (last (on_disk fs))) \<noteq> None" using disk(1) assms(3) last_in_set by blast
  note cut_tail = cut_tail [OF assms(4) there]
  have entry: "map_of fs' (segment_path j) \<noteq> None \<longleftrightarrow> map_of fs (segment_path j) \<noteq> None" for j using assms(4) there by auto
  have "stored_cursor fs' = stored_cursor fs" by (simp add: stored_cursor_def assms(4))
  moreover have "tidy N fs'" using assms(1) there unfolding spool_inv_def tidy_def assms(4) by (metis fun_upd_apply)
  moreover have "\<forall>i\<in>set (on_disk fs). i < N" using disk(3) assms(1) by (auto simp: spool_inv_def)
  moreover have "newest_ok crc fs' sp'" using assms(4-7) by (simp add: newest_ok_def intact_part_props)
  moreover have "cu_segment (stored_cursor fs) \<le> last (on_disk fs)" using assms(1,3) disk(4,5) by (auto simp: spool_inv_def)
  moreover have "on_record crc fs' (stored_cursor fs) \<and> reached (stored_cursor fs) (loaded_cursor fs)"
    if "map_of fs (segment_path (cu_segment (stored_cursor fs))) \<noteq> None"
    using that assms(1) cursor(3) cut_tail(1) by (auto simp: spool_inv_def)
  ultimately show "spool_inv crc N fs' sp'"
    unfolding spool_inv_def using assms(3,5,6) disk(1,2) cursor(1,4) cut_tail(1) entry by simp
  have "queue crc fs' sp' = queued crc fs (on_disk fs) (loaded_cursor fs)"
    using cut_tail(2) [OF cursor(1)] by (simp add: queue_def queued_def assms(5,6) cong: map_cong)
  then show "\<exists>xs. queue crc fs' sp' = xs @ queue crc fs sp" using cursor(2) by simp
qed

text \<open>What \<open>open\<close> leaves: a spool when it succeeds, and in any case a directory that stands for the queue.\<close>

definition rebuilt :: "checksum \<Rightarrow> nat \<Rightarrow> string list \<Rightarrow> (io_error, unit) reply \<Rightarrow> 'z Spooled_scheme \<Rightarrow> bool" where
  "rebuilt crc N q r s \<longleftrightarrow>
     (\<exists>sp xs. spool_inv crc N (mc_files s) sp \<and> queue crc (mc_files s) sp = xs @ q \<and> (r = Ok () \<longrightarrow> sp = st_spool s \<and> buffer sp = []))"

lemma rebuiltI:
  "spool_inv crc N (mc_files s) sp \<Longrightarrow> queue crc (mc_files s) sp = xs @ q \<Longrightarrow> (r = Ok () \<Longrightarrow> sp = st_spool s \<and> buffer sp = []) \<Longrightarrow>
   rebuilt crc N q r s"
  unfolding rebuilt_def by blast

lemma ends_set_len:
  fixes s :: "'z Spooled_scheme"
  assumes "map_of (mc_files s) name = Some bytes"
  shows "ends (set_len name n) (\<lambda>r t. st_spool t = st_spool s \<and>
    (map_of (mc_files t) = (map_of (mc_files s))(name \<mapsto> resize n bytes) \<or> r \<noteq> Ok () \<and> mc_files t = mc_files s)) s"
  using assms by (auto simp: set_len_def atomic_call_def ends_syscall called_def split: fault.splits)

text \<open>The state after the unreadable tail was cut, or before.\<close>

definition tail_cut :: "checksum \<Rightarrow> string \<Rightarrow> 'z Spooled_scheme \<Rightarrow> (io_error, unit) reply \<Rightarrow> 'z Spooled_scheme \<Rightarrow> bool" where
  "tail_cut crc name s r t \<longleftrightarrow>
     sp_segments (st_spool t) = sp_segments (st_spool s) \<and> sp_cursor (st_spool t) = sp_cursor (st_spool s) \<and>
     (map_of (mc_files t) = (map_of (mc_files s))(name \<mapsto> intact_part crc (content (mc_files s) name)) \<or> r \<noteq> Ok () \<and> mc_files t = mc_files s)"

lemma ends_cut:
  fixes s :: "'z Spooled_scheme"
  assumes "map_of (mc_files s) name = Some bytes" "valid = sum_list (map snd (scan_records crc bytes))"
  shows "ends (if valid < length bytes then try_io (set_len name valid) (\<lambda>_. modify bump_corrupt) else ok ()) (tail_cut crc name s) s"
proof (cases "valid < length bytes")
  case True
  then have "resize valid bytes = intact_part crc bytes" using assms(2) by (simp add: resize_def intact_part_def)
  then have "ends (try_io (set_len name valid) (\<lambda>_. modify bump_corrupt)) (tail_cut crc name s) s"
    using assms(1)
    by (intro ends_then [OF ends_set_len [OF assms(1), of valid]]) (auto simp: tail_cut_def ends_def modify_def bump_corrupt_def)
  then show ?thesis using True by simp
next
  case False
  then have "intact_part crc bytes = bytes" using assms(2) by (simp add: intact_part_def)
  then show ?thesis using False assms(1) by (simp add: tail_cut_def fun_upd_idem)
qed

lemma recover_spec:
  fixes s :: "'z Spooled_scheme"
  assumes "spool_inv crc N (mc_files s) sp" "N \<le> 2 ^ 64" "sp_segments (st_spool s) = on_disk (mc_files s)"
    and "sp_cursor (st_spool s) = loaded_cursor (mc_files s)" "sp_active (st_spool s) = None"
  shows "ends (recover_newest_segment crc) (rebuilt crc N (queue crc (mc_files s) sp)) s" (is "ends _ ?Q s")
proof (cases "on_disk (mc_files s) = []")
  case True
  have "sp_segments sp = []" "loaded_cursor (mc_files s) = default_cursor"
    using on_disk_inv(4) [OF assms(1,2)] loaded_cursor_props(5) [OF assms(1,2)] True by simp_all
  then have "spool_inv crc N (mc_files s) (st_spool s)" "queue crc (mc_files s) (st_spool s) = [] @ queue crc (mc_files s) sp"
    using assms True by (auto simp: spool_inv_def queue_def queued_def)
  then show ?thesis using assms True by (simp add: ends_def recover_newest_segment_def rebuiltI buffer_def)
next
  case False
  let ?fs = "mc_files s" let ?n = "last (on_disk ?fs)"
  let ?name = "segment_path ?n" let ?bytes = "content ?fs (segment_path ?n)"
  let ?valid = "\<lambda>bytes. sum_list (map snd (scan_records crc bytes))"
  let ?final = "\<lambda>valid sp. sp\<lparr>sp_active := Some \<lparr>ac_index = ?n, ac_buffer = [], ac_bytes = valid\<rparr>\<rparr>"
  have "map_of ?fs ?name \<noteq> None" using on_disk_inv(1) [OF assms(1,2)] False last_in_set by blast
  then have there: "map_of ?fs ?name = Some ?bytes" by auto
  have kept: "?Q r t" if "mc_files t = ?fs" "r \<noteq> Ok ()" for r and t :: "'z Spooled_scheme"
    using that assms(1) by (intro rebuiltI [of crc N t sp "[]"]) simp_all
  have complete: "?Q r t" if "map_of (mc_files t) = (map_of ?fs)(?name \<mapsto> intact_part crc ?bytes)" "r = Ok () \<Longrightarrow> st_spool t = ?final v sp'"
    "sp_segments sp' = on_disk ?fs" "sp_cursor sp' = loaded_cursor ?fs" for r sp' v and t :: "'z Spooled_scheme"
    using recovered [OF assms(1,2) False that(1), of "?final v sp'" v] that(2-) by (auto intro: rebuiltI simp: buffer_def)
  have last: "ends (try_io (open_append ?name) (\<lambda>_. modify (?final v))) ?Q t"
    if "map_of (mc_files t) = (map_of ?fs)(?name \<mapsto> intact_part crc ?bytes)" "sp_segments (st_spool t) = on_disk ?fs"
      "sp_cursor (st_spool t) = loaded_cursor ?fs" for v and t :: "'z Spooled_scheme"
  proof -
    have "ends (open_append ?name) (\<lambda>r u. mc_files u = mc_files t \<and> st_spool u = st_spool t) t"
      using that(1) by (auto simp: open_append_def atomic_call_def ends_syscall create_if_missing_def called_def split: fault.splits)
    then show ?thesis
    proof (rule ends_then, goal_cases)
      case (1 u w)
      then have "?Q (Ok ()) (on_spool (?final v) w)" using that by (intro complete [of _ _ v "st_spool t"]) simp_all
      then show ?case by (simp add: ends_def modify_def)
    qed (use that in \<open>auto intro: complete [of _ _ v "st_spool t"]\<close>)
  qed
  have "ends (try_io (read_file ?name) (\<lambda>bytes. let valid = ?valid bytes in
      try_io (if valid < length bytes then try_io (set_len ?name valid) (\<lambda>_. modify bump_corrupt) else ok ())
        (\<lambda>_. try_io (open_append ?name) (\<lambda>_. modify (?final valid))))) ?Q s"
  proof (rule ends_then [where P = "\<lambda>r t. mc_files t = ?fs \<and> st_spool t = st_spool s \<and> (\<forall>b. r = Ok b \<longrightarrow> b = ?bytes)"], goal_cases)
    case 1
    show ?case unfolding read_file_def by (rule ends_reading) (auto simp: there simp del: content_Some)
  next
    case (2 b t)
    then have t: "mc_files t = ?fs" "st_spool t = st_spool s" "b = ?bytes" by auto
    show ?case unfolding Let_def t(3)
    proof (rule ends_then [OF ends_cut [of t ?name ?bytes, OF _ refl]], goal_cases)
      case (2 u v)
      then show ?case by (intro last) (use assms(3,4) t in \<open>auto simp: tail_cut_def\<close>)
    next
      case (3 e v)
      then show ?case using kept [of v] complete [of v _ 0 "st_spool v"] assms(3,4) t by (auto simp: tail_cut_def)
    next
      case (4 v)
      then show ?case using kept [of v] complete [of v _ 0 "st_spool v"] assms(3,4) t by (auto simp: tail_cut_def)
    qed (simp only: t there)
  qed (auto intro: kept)
  then show ?thesis using False assms(3) by (simp add: ends_def recover_newest_segment_def Let_def)
qed

lemma load_cursor_spec:
  fixes s :: "'z Spooled_scheme"
  assumes "sp_segments (st_spool s) = on_disk (mc_files s)"
  shows "ends load_cursor (\<lambda>r t. mc_files t = mc_files s \<and> st_spool t = st_spool s \<and> (\<forall>c. r = Ok c \<longrightarrow> c = loaded_cursor (mc_files s))) s"
proof -
  have "ends (read_file CURSOR_FILE) (\<lambda>r t. t = called s \<and>
      (r = (case map_of (mc_files s) CURSOR_FILE of None \<Rightarrow> Err NotFound | Some raw \<Rightarrow> Ok raw) \<or> r = Err IoError \<or> r = Killed)) s"
    unfolding read_file_def by (rule ends_reading) auto
  then show ?thesis using assms
    by (cases "map_of (mc_files s) CURSOR_FILE")
       (auto simp: ends_def load_cursor_def loaded_cursor_def Let_def split: prod.splits)
qed

lemma open_spec:
  fixes s :: "'z Spooled_scheme"
  assumes "spool_inv crc N (mc_files s) sp" "N \<le> 2 ^ 64"
  shows "ends (spool_open crc config) (rebuilt crc N (queue crc (mc_files s) sp)) s" (is "ends _ ?Q s")
proof -
  let ?fs = "mc_files s"
  have kept: "?Q (Err e) t \<and> ?Q Killed t" if "mc_files t = ?fs" for e and t :: "'z Spooled_scheme"
    using that assms(1) by (auto intro!: rebuiltI [of crc N t sp "[]"])
  have dir: "ends create_dir_all (\<lambda>r t. mc_files t = ?fs) t" "ends read_dir (\<lambda>r t. mc_files t = ?fs \<and> (\<forall>names. r = Ok names \<longrightarrow> names = map fst ?fs)) t"
    if "mc_files t = ?fs" for t :: "'z Spooled_scheme"
    unfolding create_dir_all_def read_dir_def using that by (auto intro!: ends_reading)
  show ?thesis unfolding spool_open_def
  proof (rule ends_then [OF dir(1) [OF refl]], goal_cases)
    case (1 u t)
    show ?case
    proof (rule ends_then [OF dir(2) [OF 1]], goal_cases)
      case (1 names t)
      let ?new = "\<lambda>_ :: Spool. \<lparr>sp_config = config, sp_segments = segments_of names, sp_active = None, sp_cursor = default_cursor,
        sp_dropped_records = 0, sp_corrupt_records = 0\<rparr>"
      have t: "mc_files (on_spool ?new t) = ?fs" "sp_segments (st_spool (on_spool ?new t)) = on_disk (mc_files (on_spool ?new t))"
        using 1 by (simp_all add: on_disk_def)
      show ?case unfolding ends_modify
      proof (rule ends_then [OF load_cursor_spec [OF t(2)]], goal_cases)
        case (1 c v)
        then have "ends (recover_newest_segment crc) (rebuilt crc N (queue crc (mc_files (on_spool (\<lambda>sp. sp\<lparr>sp_cursor := c\<rparr>) v)) sp))
            (on_spool (\<lambda>sp. sp\<lparr>sp_cursor := c\<rparr>) v)"
          using t by (intro recover_spec [OF _ assms(2)]) (simp_all add: assms(1))
        then show ?case unfolding ends_modify using 1 t by simp
      qed (use t kept in auto)
    qed (use kept in auto)
  qed (use kept in auto)
qed

end
