(* ===== verification/Edge_Spool_Frame.thy ===== *)
theory Edge_Spool_Frame
  imports Edge_Spool_Restart
begin

text \<open>
  The operations of the spool leave the bus, the fate of calls and the rest of the agent alone.
\<close>

lemma confined_at: "(\<And>s. \<exists>m. confined m \<and> f s = m s) \<Longrightarrow> confined f"
  unfolding confined_def ends_def by metis

lemma confined_on: "(\<And>s. confined (g s)) \<Longrightarrow> confined (\<lambda>s. g s s)"
  by (rule confined_at) blast

lemma confined_flush: "confined flush_buf"
proof (unfold confined_def, intro allI)
  fix s :: "'a Spooled_scheme"
  obtain r t where run: "write_all (active_path (st_spool s)) (buffer (st_spool s)) s = (r, t)" by fastforce
  then have "outside s t" by (rule confinedD [OF confined_files(10)])
  then show "ends flush_buf (\<lambda>r s'. outside s s') s" using run by (auto simp: ends_def flush_buf_def outside_def on_spool_def)
qed

lemma confined_unlink: "confined (unlink_segment crc i dropped)"
proof (unfold confined_def, intro allI)
  fix s :: "'a Spooled_scheme"
  obtain r t where run: "remove_file (segment_path i) s = (r, t)" by fastforce
  then have "outside s t" by (rule confinedD [OF confined_files(8)])
  then show "ends (unlink_segment crc i dropped) (\<lambda>r s'. outside s s') s" using run by (auto simp: ends_def unlink_segment_def outside_def)
qed

lemma confined_buf_write: "confined (buf_write_all bs)"
proof (rule confined_at)
  fix s :: "'a Spooled_scheme"
  let ?push = "modify (\<lambda>sp. set_buffer (buffer sp @ bs) sp) :: ('a Spooled_scheme, io_error, unit) call"
  let ?spare = "BUFFER_CAPACITY - int (length (buffer (st_spool s)))"
  have "confined (\<lambda>t :: 'a Spooled_scheme. write_all (active_path (st_spool t)) bs t)" by (rule confined_on) (rule confined_files)
  then have "confined (if int (length bs) < ?spare then ?push else try_io (if ?spare < int (length bs) then flush_buf else ok ())
      (\<lambda>_. if BUFFER_CAPACITY \<le> int (length bs) then (\<lambda>t. write_all (active_path (st_spool t)) bs t) else ?push))"
    by (intro confined_calls confined_flush)
  then show "\<exists>m. confined m \<and> buf_write_all bs s = m s"
    by (intro exI conjI) (assumption, simp add: buf_write_all_def Let_def)
qed

lemma confined_ensure: "confined ensure_active_segment"
  unfolding ensure_active_segment_def Let_def
  by (rule confined_at) (metis (no_types, lifting) confined_basic(2) confined_calls confined_files(5) confined_flush ok_def)

lemma confined_remove: "confined (remove_segment crc i dropped)"
  unfolding remove_segment_def count_records_def by (intro confined_calls confined_files confined_unlink)

lemma confined_lengths: "confined (sum_lengths is)" "confined total_bytes"
proof -
  show *: "confined (sum_lengths is)" for "is"
    by (induction "is") (simp_all add: confined_basic, intro confined_calls confined_files)
  show "confined total_bytes" unfolding total_bytes_def by (rule confined_on) (rule *)
qed

lemma confined_evict: "confined (evict_oldest crc i)"
proof -
  have "confined (\<lambda>s. (if cu_segment (sp_cursor (st_spool s)) \<le> i then try_io (modify (move_cursor_past i)) (\<lambda>_. store_cursor) else (\<lambda>s. (Ok (), s))) s)"
    by (rule confined_on) (intro confined_calls confined_store_cursor)
  then show ?thesis unfolding evict_oldest_def by (intro confined_try confined_remove) (simp add: if_distribR)
qed

lemma confined_capacity: "confined (enforce_capacity crc)"
  unfolding confined_def
proof
  fix s :: "'a Spooled_scheme"
  show "ends (enforce_capacity crc) (\<lambda>r s'. outside s s') s"
  proof (induction crc s rule: enforce_capacity.induct)
    case (1 crc s)
    have total: "ends total_bytes (\<lambda>r t. total_bytes s = (r, t) \<and> outside s t) s"
      using confinedD [OF confined_lengths(2), of s] by (auto intro: endsI)
    show ?case
    proof (rule ends_subst [OF enforce_capacity.simps], rule ends_then [OF total], goal_cases)
      case total: (1 n t)
      have evict: "ends (try_io (evict_oldest crc oldest) (\<lambda>_ s2. enforce_capacity crc s2)) (\<lambda>r s'. outside s s') t"
        if over: "\<not> n \<le> sc_max_total_bytes (sp_config (st_spool t))" "sp_segments (st_spool t) = oldest # rest"
          "Some oldest \<noteq> map_option ac_index (sp_active (st_spool t))" for oldest rest
      proof (rule ends_then [where P = "\<lambda>r u. evict_oldest crc oldest t = (r, u) \<and> outside t u"], goal_cases)
        case 1
        show ?case using confinedD [OF confined_evict, of crc oldest t] by (auto intro: endsI)
      next
        case (2 u v)
        have "ends (enforce_capacity crc) (\<lambda>r s'. outside v s') v" by (rule "1.IH" [OF _ over]) (use total 2 in auto)
        then show ?case by (rule ends_weaken) (use total 2 outside_trans in blast)
      qed (use total outside_trans in blast)+
      then show ?case using total by (auto simp: ends_def split: list.splits)
    qed simp_all
  qed
qed

lemma confined_append: "confined (spool_append crc payload)"
  unfolding spool_append_def by (intro confined_calls confined_ensure confined_buf_write confined_flush confined_capacity)

lemma confined_commit: "confined (spool_commit crc c)"
proof -
  have "confined (remove_segments crc is)" for "is"
    by (induction "is") (simp_all add: confined_basic confined_try confined_remove)
  then have "confined (\<lambda>s. remove_segments crc (filter (\<lambda>i. i < cu_segment c) (sp_segments (st_spool s))) s)" by (rule confined_on [where g = "\<lambda>s. remove_segments crc (filter (\<lambda>i. i < cu_segment c) (sp_segments (st_spool s)))"])
  then show ?thesis unfolding spool_commit_def by (intro confined_calls confined_store_cursor)
qed

lemma confined_load: "confined load_cursor"
proof (unfold confined_def, intro allI)
  fix s :: "'a Spooled_scheme"
  obtain r t where run: "read_file CURSOR_FILE s = (r, t)" by fastforce
  then have "outside s t" by (rule confinedD [OF confined_files(3)])
  then show "ends load_cursor (\<lambda>r s'. outside s s') s" using run by (auto simp: ends_def load_cursor_def Let_def split: reply.splits io_error.splits)
qed

lemma confined_recover: "confined (recover_newest_segment crc)"
  unfolding recover_newest_segment_def Let_def
  by (rule confined_at) (metis (no_types, lifting) confined_basic(2) confined_calls confined_files ok_def)

lemma confined_open: "confined (spool_open crc config)"
  unfolding spool_open_def by (intro confined_calls confined_files confined_load confined_recover)

end
