(* ===== verification/Edge_Agent_Laws.thy ===== *)
theory Edge_Agent_Laws
  imports Edge_Agent Edge_Spool_Frame
begin

text \<open>
  What the forwarder needs of a sink, as an interface, and what it guarantees on top of any such sink:
  the drain returns, it takes records off the queue only once the sink has them, and it leaves the queue
  empty unless the sink refused. The sink of the agent is an instance.
\<close>

locale telemetry_sink =
  fixes pub :: "string list \<Rightarrow> ('z Spooled_scheme, string, unit) call" and delivered :: "'z Spooled_scheme \<Rightarrow> string set"
    and frame :: "'z Spooled_scheme \<Rightarrow> 'z Spooled_scheme \<Rightarrow> bool"
  assumes pub_keeps: "pub ps s = (r, s') \<Longrightarrow>
      mc_files s' = mc_files s \<and> st_spool s' = st_spool s \<and> st_discarded s' = st_discarded s \<and> delivered s \<subseteq> delivered s' \<and> frame s s'"
    and pub_ok: "pub ps s = (Ok u, s') \<Longrightarrow> set ps \<subseteq> delivered s'"
    and spool_keeps: "outside s s' \<Longrightarrow> delivered s' = delivered s \<and> frame s s'"
    and frame_trans: "frame s t \<Longrightarrow> frame t s' \<Longrightarrow> frame s s'"
begin

text \<open>What a drain leaves of a state.\<close>

definition drained :: "checksum \<Rightarrow> nat \<Rightarrow> string set \<Rightarrow> DrainOutcome \<Rightarrow> 'z Spooled_scheme \<Rightarrow> (io_error, DrainOutcome) reply \<Rightarrow> 'z Spooled_scheme \<Rightarrow> bool" where
  "drained crc N X outcome s r s' \<longleftrightarrow>
     live crc N (X - delivered s') s' \<and> delivered s \<subseteq> delivered s' \<and> frame s s' \<and>
     (\<exists>zs. queue crc (mc_files s) (st_spool s) = zs @ queue crc (mc_files s') (st_spool s') \<and> set zs \<subseteq> delivered s' \<and>
        (\<forall>out. r = Ok out \<longrightarrow> do_published out = do_published outcome + length zs \<and>
           (do_blocked out \<or> do_blocked out = do_blocked outcome \<and> queue crc (mc_files s') (st_spool s') = [])))"

lemma steady_outside: "steady s s' \<Longrightarrow> outside s s'"
  by (auto simp: steady_def outside_def on_spool_def)

lemma drainedI:
  assumes "live crc N (X - delivered s') s'" "frame s s'" "delivered s \<subseteq> delivered s'" "set zs \<subseteq> delivered s'"
    and "queue crc (mc_files s) (st_spool s) = zs @ queue crc (mc_files s') (st_spool s')"
    and "\<And>out. r = Ok out \<Longrightarrow> do_published out = do_published outcome + length zs \<and>
       (do_blocked out \<or> do_blocked out = do_blocked outcome \<and> queue crc (mc_files s') (st_spool s') = [])"
  shows "drained crc N X outcome s r s'"
  unfolding drained_def using assms by blast

lemma drained_here:
  assumes "live crc N (X - delivered s) s" "steady s s1" "mc_files t = mc_files s1" "st_spool t = st_spool s1"
    and "st_discarded t = st_discarded s1" "delivered s1 \<subseteq> delivered t" "t = s1 \<or> frame s1 t"
    and "\<forall>out. r = Ok out \<longrightarrow> do_published out = do_published outcome \<and>
      (do_blocked out \<or> out = outcome \<and> queue crc (mc_files s) (st_spool s) = [])"
  shows "drained crc N X outcome s r t"
proof -
  have d: "delivered s1 = delivered s" "frame s s1" using spool_keeps [OF steady_outside [OF assms(2)]] by simp_all
  have "live crc N (X - delivered s) s1" using live_steady(1) [OF assms(2)] assms(1) by simp
  then have "live crc N (X - delivered s) t" using assms(3-5) by (simp add: live_def)
  then have "live crc N (X - delivered t) t" by (rule live_subset(1)) (use assms(6) d in auto)
  moreover have "queue crc (mc_files s) (st_spool s) = [] @ queue crc (mc_files t) (st_spool t)"
    using live_steady(2) [OF assms(2), of crc] assms(3,4) by simp
  ultimately show ?thesis by (intro drainedI [where zs = "[]"]) (use assms(6-8) d frame_trans [of s s1 t] in auto)
qed

text \<open>One batch that the sink confirmed.\<close>

lemma confirmed_turn:
  assumes "live crc N (X - delivered s) s" "N \<le> 2 ^ 64" "read_batch crc n s = (Ok (rs, c), s1)" "pub rs s1 = (Ok u, s2)"
    and "spool_commit crc c s2 = (r, s3)"
  shows "live crc N (X - delivered s3) s3" "queue crc (mc_files s) (st_spool s) = rs @ queue crc (mc_files s3) (st_spool s3)"
    "set rs \<subseteq> delivered s3" "delivered s \<subseteq> delivered s3" "frame s s3"
proof -
  note batch = endsD [OF read_batch_spec [OF assms(1)] assms(3)]
  then have st: "steady s s1" and ah: "ahead crc s rs c" by blast+
  note keeps = pub_keeps [OF assms(4)]
  have d: "delivered s1 = delivered s" "delivered s3 = delivered s2" and f: "frame s2 s3" "frame s s1"
    using spool_keeps [OF steady_outside [OF st]] spool_keeps [OF confinedD [OF confined_commit assms(5)]] by simp_all
  show "frame s s3" using frame_trans [OF f(2) frame_trans [OF _ f(1)]] keeps by blast
  have "ahead crc s2 rs c" by (rule ahead_steady [OF ah]) (use keeps steadyD [OF st] in simp_all)
  moreover have "live crc N (X - delivered s) s2" using live_steady(1) [OF st] assms(1) keeps by (simp add: live_def)
  ultimately have committed: "live crc N (X - delivered s - set rs) s3"
    "rs @ queue crc (mc_files s3) (st_spool s3) = queue crc (mc_files s2) (st_spool s2)"
    using endsD [OF commit_spec [OF _ assms(2)] assms(5)] by blast+
  show got: "set rs \<subseteq> delivered s3" "delivered s \<subseteq> delivered s3" using pub_ok [OF assms(4)] keeps d by auto
  show "live crc N (X - delivered s3) s3" by (rule live_subset(1) [OF committed(1)]) (use got in auto)
  show "queue crc (mc_files s) (st_spool s) = rs @ queue crc (mc_files s3) (st_spool s3)"
    using committed(2) keeps live_steady(2) [OF st, of crc] by simp
qed

lemma drained_then:
  assumes "drained crc N X (outcome\<lparr>do_published := do_published outcome + length rs\<rparr>) s3 r s'"
    and "queue crc (mc_files s) (st_spool s) = rs @ queue crc (mc_files s3) (st_spool s3)" "set rs \<subseteq> delivered s3" "delivered s \<subseteq> delivered s3" "frame s s3"
  shows "drained crc N X outcome s r s'"
proof -
  let ?out = "outcome\<lparr>do_published := do_published outcome + length rs\<rparr>"
  obtain zs where zs: "queue crc (mc_files s3) (st_spool s3) = zs @ queue crc (mc_files s') (st_spool s')" "set zs \<subseteq> delivered s'"
    "live crc N (X - delivered s') s'" "delivered s3 \<subseteq> delivered s'" "frame s3 s'"
    "\<forall>out. r = Ok out \<longrightarrow> do_published out = do_published ?out + length zs \<and>
       (do_blocked out \<or> do_blocked out = do_blocked ?out \<and> queue crc (mc_files s') (st_spool s') = [])"
    using assms(1) unfolding drained_def by blast
  show ?thesis
  proof (rule drainedI [OF zs(3), where zs = "rs @ zs"])
    show "frame s s'" by (rule frame_trans [OF assms(5) zs(5)])
    show "delivered s \<subseteq> delivered s'" "set (rs @ zs) \<subseteq> delivered s'" using zs(2,4) assms(3,4) by auto
    show "queue crc (mc_files s) (st_spool s) = (rs @ zs) @ queue crc (mc_files s') (st_spool s')" using assms(2) zs(1) by simp
  qed (use zs(6) in simp)
qed

lemma drain_loop_spec:
  assumes "live crc N (X - delivered s) s" "N \<le> 2 ^ 64" "0 < n"
  shows "\<exists>r s'. drain_loop crc pub n outcome s = Some (r, s') \<and> drained crc N X outcome s r s'"
  using assms(1)
proof (induction "length (queue crc (mc_files s) (st_spool s))" arbitrary: s outcome rule: less_induct)
  case less
  obtain r1 s1 where read: "read_batch crc n s = (r1, s1)" by fastforce
  note batch = endsD [OF read_batch_spec [OF less.prems] read]
  note unfold = drain_loop.simps [of crc pub n outcome s, unfolded read]
  note here = drained_here [OF less.prems conjunct1 [OF batch]]
  show ?case
  proof (cases "\<exists>rs c. r1 = Ok (rs, c) \<and> rs \<noteq> []")
    case False
    then have "drain_loop crc pub n outcome s = Some (case r1 of Ok _ \<Rightarrow> Ok outcome | Err e \<Rightarrow> Err e | Killed \<Rightarrow> Killed, s1)"
      using unfold by (auto split: reply.splits prod.splits)
    moreover have "queue crc (mc_files s) (st_spool s) = []" if "r1 = Ok (rs, c)" for rs c using that False batch assms(3) by auto
    ultimately show ?thesis using here [of s1] by (auto split: reply.splits)
  next
    case True
    then obtain rs c where r1: "r1 = Ok (rs, c)" "rs \<noteq> []" by blast
    obtain r2 s2 where sent: "pub rs s1 = (r2, s2)" by fastforce
    show ?thesis
    proof (cases "\<exists>u. r2 = Ok u")
      case False
      then have "drain_loop crc pub n outcome s = Some (case r2 of Err e \<Rightarrow> Ok (outcome\<lparr>do_blocked := True\<rparr>) | _ \<Rightarrow> Killed, s2)"
        using unfold r1 sent by (auto split: reply.splits)
      then show ?thesis using here [of s2] pub_keeps [OF sent] by (auto split: reply.splits)
    next
      case True
      then obtain u where r2: "r2 = Ok u" by blast
      obtain r3 s3 where commit: "spool_commit crc c s2 = (r3, s3)" by fastforce
      note turn = confirmed_turn [OF less.prems assms(2) read [unfolded r1(1)] sent [unfolded r2] commit]
      show ?thesis
      proof (cases "\<exists>v. r3 = Ok v")
        case False
        then have "drain_loop crc pub n outcome s = Some (case r3 of Err e \<Rightarrow> Err e | _ \<Rightarrow> Killed, s3)"
          using unfold r1 sent r2 commit by (auto split: reply.splits)
        then show ?thesis using turn False by (auto simp: drained_def split: reply.splits)
      next
        case True
        let ?out = "outcome\<lparr>do_published := do_published outcome + length rs\<rparr>"
        have "length (queue crc (mc_files s3) (st_spool s3)) < length (queue crc (mc_files s) (st_spool s))" using turn(2) r1(2) by simp
        from less.hyps [OF this turn(1)] obtain r s' where
          end_: "drain_loop crc pub n ?out s3 = Some (r, s')" "drained crc N X ?out s3 r s'" by blast
        have "drain_loop crc pub n outcome s = Some (r, s')" using unfold r1 sent r2 commit True end_(1) by auto
        then show ?thesis using drained_then [OF end_(2) turn(2-5)] by blast
      qed
    qed
  qed
qed

end

section \<open>The sink of the agent\<close>

definition on_bus :: "string \<Rightarrow> 'z Machine_scheme \<Rightarrow> string set" where
  "on_bus subject s = {p. (subject, p) \<in> set (mc_bus s)}"

text \<open>Network calls leave the spool, the directory and the readings alone; the bus gains messages of the subject.\<close>

definition network_only :: "string \<Rightarrow> 'z Agent_scheme \<Rightarrow> 'z Agent_scheme \<Rightarrow> bool" where
  "network_only subject s s' \<longleftrightarrow>
     mc_files s' = mc_files s \<and> st_spool s' = st_spool s \<and> st_discarded s' = st_discarded s \<and> mc_faults s' = mc_faults s \<and>
     mc_stores s' = mc_stores s \<and> mc_calls s \<le> mc_calls s' \<and> mc_sent s \<le> mc_sent s' \<and> ag_running s' = ag_running s \<and> ag_channel s' = ag_channel s \<and> ag_accepted s' = ag_accepted s \<and>
     (\<exists>ps. mc_bus s' = mc_bus s @ map (Pair subject) ps)"

lemma network_refl [simp]: "network_only subject s s"
  by (auto simp: network_only_def intro: exI [of _ "[]"])

lemma network_trans: "network_only subject s t \<Longrightarrow> network_only subject t u \<Longrightarrow> network_only subject s u"
  unfolding network_only_def by clarsimp (metis append_assoc map_append order_trans)

lemma network_called [simp]: "network_only subject s (called s)"
  by (auto simp: network_only_def called_def intro: exI [of _ "[]"])

lemma network_bus: "network_only subject s s' \<Longrightarrow> on_bus subject s \<subseteq> on_bus subject s'"
  by (auto simp: network_only_def on_bus_def)

lemma network_metrics [simp]:
  "network_only subject s (on_agent_metrics f t) = network_only subject s t" "network_only subject s (publish_failed t) = network_only subject s t"
  "network_only subject s (t\<lparr>ag_connected := b\<rparr>) = network_only subject s t"
  by (simp_all add: network_only_def on_agent_metrics_def publish_failed_def mark_offline_def)

lemma on_bus_metrics [simp]: "on_bus subject (on_agent_metrics f t) = on_bus subject t" "on_bus subject (publish_failed t) = on_bus subject t"
  by (simp_all add: on_bus_def on_agent_metrics_def publish_failed_def mark_offline_def)

lemma or_offline_ends:
  fixes s :: "'z Agent_scheme"
  assumes "ends m P s" "\<And>e t. P (Err e) t \<Longrightarrow> P (Err e) (publish_failed t)"
  shows "ends (or_offline m) P s"
  using assms by (auto simp: ends_def or_offline_def split: prod.splits reply.splits)

lemma send_ends:
  fixes s :: "'z Agent_scheme"
  shows "ends (send subject p) (\<lambda>r s'. network_only subject s s' \<and> (r = Ok True \<longrightarrow> p \<in> on_bus subject s')) s"
  by (auto simp: ends_def send_def Let_def network_only_def on_bus_def called_def split: fault.splits
      intro: exI [of _ "[]"] exI [of _ "[p]"])

lemma await_ack_ends:
  fixes s :: "'z Agent_scheme"
  shows "ends (await_ack stored) (\<lambda>r s'. network_only subject s s' \<and> (r = Ok () \<longrightarrow> stored)) s"
  by (auto simp: ends_def await_ack_def split: fault.splits)

lemma send_all_ends:
  fixes s :: "'z Agent_scheme"
  shows "ends (send_all subject ps) (\<lambda>r s'. network_only subject s s' \<and>
    (\<forall>bs. r = Ok bs \<longrightarrow> list_all2 (\<lambda>b p. b \<longrightarrow> p \<in> on_bus subject s') bs ps)) s"
proof (induction ps arbitrary: s)
  case (Cons p ps)
  show ?case unfolding send_all.simps
  proof (rule ends_then [OF or_offline_ends [OF send_ends]], goal_cases)
    case (2 b t)
    show ?case
    proof (rule ends_then [OF Cons.IH], goal_cases)
      case (1 bs u)
      then show ?case using 2 network_trans network_bus [of subject t u] by auto
    qed (use 2 network_trans in blast)+
  qed auto
qed simp

lemma await_all_ends:
  fixes s :: "'z Agent_scheme"
  shows "ends (await_all bs) (\<lambda>r s'. network_only subject s s' \<and> (r = Ok () \<longrightarrow> (\<forall>b\<in>set bs. b))) s"
proof (induction bs arbitrary: s)
  case (Cons b bs)
  show ?case unfolding await_all.simps
  proof (rule ends_then [OF or_offline_ends [OF await_ack_ends [where subject = subject]]], goal_cases)
    case (2 u t)
    then show ?case by (intro ends_weaken [OF Cons.IH]) (use network_trans in auto)
  qed auto
qed simp

lemma publish_ends:
  fixes s :: "'z Agent_scheme"
  shows "ends (sink_publish subject ps) (\<lambda>r s'. network_only subject s s' \<and> (r = Ok () \<longrightarrow> set ps \<subseteq> on_bus subject s')) s" (is "ends _ ?Q s")
proof (cases "ag_connected s")
  case True
  have "ends (try_io (send_all subject ps) await_all) ?Q s"
  proof (rule ends_then [OF send_all_ends], goal_cases)
    case (1 bs t)
    then have t: "network_only subject s t" "list_all2 (\<lambda>b p. b \<longrightarrow> p \<in> on_bus subject t) bs ps" by simp_all
    have stored: "set ps \<subseteq> on_bus subject t" if "\<forall>b\<in>set bs. b"
      using t(2) that by (induction rule: list_all2_induct) auto
    show ?case
    proof (rule ends_weaken [OF await_all_ends [where subject = subject]])
      fix r :: "(string, unit) reply" and u assume u: "network_only subject t u \<and> (r = Ok () \<longrightarrow> (\<forall>b\<in>set bs. b))"
      then have "network_only subject s u" "on_bus subject t \<subseteq> on_bus subject u" using network_trans [OF t(1)] network_bus by blast+
      then show "?Q r u" using u stored by auto
    qed
  qed auto
  then show ?thesis using True by (simp add: ends_def sink_publish_def)
qed (simp add: ends_def sink_publish_def)

definition agent_frame :: "string \<Rightarrow> 'z Agent_scheme \<Rightarrow> 'z Agent_scheme \<Rightarrow> bool" where
  "agent_frame subject s s' \<longleftrightarrow>
     ag_running s' = ag_running s \<and> ag_channel s' = ag_channel s \<and> ag_accepted s' = ag_accepted s \<and>
     (\<exists>ps. mc_bus s' = mc_bus s @ map (Pair subject) ps)"

interpretation nats: telemetry_sink "sink_publish subject :: string list \<Rightarrow> ('z Agent_scheme, string, unit) call" "on_bus subject"
    "agent_frame subject" for subject
proof unfold_locales
  fix ps and s s' :: "'z Agent_scheme" and r
  assume "sink_publish subject ps s = (r, s')"
  from endsD [OF publish_ends this] show "mc_files s' = mc_files s \<and> st_spool s' = st_spool s \<and> st_discarded s' = st_discarded s \<and>
      on_bus subject s \<subseteq> on_bus subject s' \<and> agent_frame subject s s'"
    using network_bus by (auto simp: network_only_def agent_frame_def)
next
  fix ps u and s s' :: "'z Agent_scheme"
  assume "sink_publish subject ps s = (Ok u, s')"
  from endsD [OF publish_ends this] show "set ps \<subseteq> on_bus subject s'" by simp
next
  fix s s' :: "'z Agent_scheme"
  assume "outside s s'"
  then show "on_bus subject s' = on_bus subject s \<and> agent_frame subject s s'"
    by (cases s; cases s') (auto simp: outside_def on_bus_def agent_frame_def intro: exI [of _ "[]"])
next
  fix s t u :: "'z Agent_scheme"
  assume "agent_frame subject s t" "agent_frame subject t u"
  then show "agent_frame subject s u" unfolding agent_frame_def by clarsimp (metis append_assoc map_append)
qed

end
