(* ===== verification/Edge_Safety.thy ===== *)
theory Edge_Safety
  imports Edge_Agent_Laws
begin

text \<open>
  Nothing the agent accepted is lost: an invariant of every run of the process and its supervisor, over
  kills at any call, failing disks and a bus that comes and goes.
\<close>

section \<open>What a restart would deliver\<close>

definition recoverable :: "checksum \<Rightarrow> files \<Rightarrow> string list" where
  "recoverable crc fs = queued crc fs (on_disk fs) (loaded_cursor fs)"

lemma held_recoverable:
  assumes "preserved crc N X s" "N \<le> 2 ^ 64"
  shows "X \<subseteq> set (recoverable crc (mc_files s)) \<union> set (st_discarded s)"
proof -
  obtain sp where sp: "spool_inv crc N (mc_files s) sp" "X \<subseteq> set (queue crc (mc_files s) sp) \<union> set (st_discarded s)"
    using assms(1) by (auto simp: preserved_def)
  obtain xs where "recoverable crc (mc_files s) = xs @ queue crc (mc_files s) sp"
    using loaded_cursor_props(2) [OF sp(1) assms(2)] unfolding recoverable_def by blast
  then show ?thesis using sp(2) by auto
qed

lemma open_safe:
  fixes s :: "'z Spooled_scheme"
  assumes "preserved crc N X s" "N \<le> 2 ^ 64"
  shows "ends (spool_open crc config) (\<lambda>r s'. preserved crc N X s' \<and> (r = Ok () \<longrightarrow> live crc N X s') \<and> outside s s') s"
proof (rule endsI)
  fix r and s' :: "'z Spooled_scheme" assume run: "spool_open crc config s = (r, s')"
  obtain sp where sp: "spool_inv crc N (mc_files s) sp" "X \<subseteq> set (queue crc (mc_files s) sp) \<union> set (st_discarded s)"
    using assms(1) by (auto simp: preserved_def)
  have out: "outside s s'" by (rule confinedD [OF confined_open run])
  obtain sp' xs where sp': "spool_inv crc N (mc_files s') sp'" "queue crc (mc_files s') sp' = xs @ queue crc (mc_files s) sp"
    "r = Ok () \<longrightarrow> sp' = st_spool s'"
    using endsD [OF open_spec [OF sp(1) assms(2)] run] by (auto simp: rebuilt_def)
  have X: "X \<subseteq> set (queue crc (mc_files s') sp') \<union> set (st_discarded s')" using sp(2) sp'(2) out by (auto simp: outside_def)
  then have "preserved crc N X s'" by (rule heldI [OF sp'(1)])
  then show "preserved crc N X s' \<and> (r = Ok () \<longrightarrow> live crc N X s') \<and> outside s s'" using X sp'(1,3) out by (auto simp: live_def)
qed

section \<open>The handlers\<close>

text \<open>Everything the invariant speaks of, apart from metrics, counters and the connection.\<close>

lemma live_agent [simp]:
  "live crc N X (s\<lparr>ag_metrics := m\<rparr>) = live crc N X s" "live crc N X (s\<lparr>ag_sequence := q\<rparr>) = live crc N X s"
  "live crc N X (s\<lparr>ag_running := b\<rparr>) = live crc N X s" "live crc N X (s\<lparr>ag_connected := b\<rparr>) = live crc N X s"
  "live crc N X (s\<lparr>ag_channel := c\<rparr>) = live crc N X s" "live crc N X (s\<lparr>ag_accepted := a\<rparr>) = live crc N X s"
  "preserved crc N X (s\<lparr>ag_metrics := m\<rparr>) = preserved crc N X s" "preserved crc N X (s\<lparr>ag_sequence := q\<rparr>) = preserved crc N X s"
  "preserved crc N X (s\<lparr>ag_running := b\<rparr>) = preserved crc N X s" "preserved crc N X (s\<lparr>ag_connected := b\<rparr>) = preserved crc N X s"
  "preserved crc N X (s\<lparr>ag_channel := c\<rparr>) = preserved crc N X s" "preserved crc N X (s\<lparr>ag_accepted := a\<rparr>) = preserved crc N X s"
  by (simp_all add: live_def preserved_def)

lemma live_network: "network_only subject s s' \<Longrightarrow> live crc N X s' = live crc N X s" "network_only subject s s' \<Longrightarrow> preserved crc N X s' = preserved crc N X s"
  by (simp_all add: network_only_def live_def preserved_def)

definition open_readings :: "string \<Rightarrow> 'z Agent_scheme \<Rightarrow> string set" where
  "open_readings subject s = set (ag_accepted s) - on_bus subject s"

definition agent_inv :: "checksum \<Rightarrow> string \<Rightarrow> nat \<Rightarrow> 'z Agent_scheme \<Rightarrow> bool" where
  "agent_inv crc subject N s \<longleftrightarrow>
     (if ag_running s then live crc N (open_readings subject s) s else preserved crc N (open_readings subject s) s)"

lemma agent_inv_held: "agent_inv crc subject N s \<Longrightarrow> preserved crc N (open_readings subject s) s"
  by (auto simp: agent_inv_def intro: live_held split: if_splits)

lemma agent_inv_running: "agent_inv crc subject N s \<Longrightarrow> ag_running s \<Longrightarrow> live crc N (open_readings subject s) s"
  by (simp add: agent_inv_def)

lemma agent_inv_live: "live crc N (open_readings subject s) s \<Longrightarrow> agent_inv crc subject N s"
  by (auto simp: agent_inv_def intro: live_held)

lemma agent_inv_stop: "preserved crc N (open_readings subject s) s \<Longrightarrow> agent_inv crc subject N (process_exit s)"
  by (simp add: agent_inv_def process_exit_def open_readings_def on_bus_def)

lemma agent_inv_mono: "agent_inv crc subject N s \<Longrightarrow> N \<le> M \<Longrightarrow> agent_inv crc subject M s"
  using live_mono by (auto simp: agent_inv_def)

lemma called_files [simp]: "(called s)\<lparr>mc_files := mc_files s\<rparr> = called s" "(called (called s))\<lparr>mc_files := mc_files s\<rparr> = called (called s)"
  by (simp_all add: called_def)

lemma connect_ends:
  fixes s :: "'z Agent_scheme"
  shows "ends (connect credentials) (\<lambda>r s'. network_only subject s s') s"
  by (auto simp: ends_def connect_def network_call_def ok_def reading_call_def syscall_def
      intro: network_trans [OF network_called network_called] split: fault.splits)

lemma report_spool_steady:
  "\<exists>t m. steady s t \<and> (report_spool s = on_agent_metrics m t \<or> report_spool s = process_exit t \<or> report_spool s = t)"
proof -
  obtain r t where total: "total_bytes s = (r, t)" by fastforce
  have "steady s t" by (rule endsD [OF total_bytes_steady total])
  moreover have "pending_bytes s = (case r of Ok n \<Rightarrow> Ok (n - cu_offset (sp_cursor (st_spool s))) | Err e \<Rightarrow> Err e | Killed \<Rightarrow> Killed, t)"
    using total by (simp add: pending_bytes_def try_io_def ok_def split: reply.splits)
  ultimately show ?thesis by (intro exI [of _ t]) (cases r; auto simp: report_spool_def)
qed

lemma open_readings_simps [simp]:
  "open_readings subject (on_agent_metrics f s) = open_readings subject s" "open_readings subject (process_exit s) = open_readings subject s"
  "open_readings subject (s\<lparr>ag_sequence := q\<rparr>) = open_readings subject s" "open_readings subject (s\<lparr>ag_channel := c\<rparr>) = open_readings subject s"
  "open_readings subject (s\<lparr>ag_running := b\<rparr>) = open_readings subject s" "open_readings subject (s\<lparr>ag_metrics := m\<rparr>) = open_readings subject s"
  "open_readings subject (s\<lparr>ag_connected := b\<rparr>) = open_readings subject s"
  by (simp_all add: open_readings_def on_agent_metrics_def process_exit_def on_bus_def)

lemma live_metrics [simp]: "live crc N X (on_agent_metrics f s) = live crc N X s" "preserved crc N X (on_agent_metrics f s) = preserved crc N X s"
  "live crc N X (process_exit s) = live crc N X s"
  by (simp_all add: on_agent_metrics_def process_exit_def)

lemma steady_agent:
  assumes "steady s t"
  shows "open_readings subject t = open_readings subject s" "ag_running t = ag_running s"
  using assms by (auto simp: steady_def on_spool_def open_readings_def on_bus_def)

lemma outside_agent:
  assumes "outside s t"
  shows "open_readings subject t = open_readings subject s" "ag_running t = ag_running s" "ag_accepted t = ag_accepted s"
  using nats.spool_keeps [OF assms, of subject] by (simp_all add: open_readings_def agent_frame_def)

lemma network_readings: "network_only subject s t \<Longrightarrow> open_readings subject t \<subseteq> open_readings subject s"
  using network_bus [of subject s t] by (auto simp: open_readings_def network_only_def)

lemma report_spool_inv:
  "live crc N (open_readings subject s) s \<Longrightarrow> agent_inv crc subject N (report_spool s) \<and>
     ag_accepted (report_spool s) = ag_accepted s \<and> mc_bus (report_spool s) = mc_bus s"
proof -
  assume live: "live crc N (open_readings subject s) s"
  obtain t m where t: "steady s t" "report_spool s = on_agent_metrics m t \<or> report_spool s = process_exit t \<or> report_spool s = t"
    using report_spool_steady by blast
  have "live crc N (open_readings subject t) t" using live live_steady(1) [OF t(1)] steady_agent [OF t(1)] by simp
  moreover have "ag_accepted t = ag_accepted s" "mc_bus t = mc_bus s" using t(1) by (auto simp: steady_def on_spool_def)
  ultimately show ?thesis using t(2) by (auto intro!: agent_inv_live agent_inv_stop live_held simp: on_agent_metrics_def process_exit_def)
qed

lemma drain_inv:
  assumes "agent_inv (lb_crc lib) (own_subject config) N s" "ag_running s" "N \<le> 2 ^ 64"
  shows "\<exists>s'. main_drain lib config s = Some s' \<and> agent_inv (lb_crc lib) (own_subject config) N s' \<and>
    ag_accepted s' = ag_accepted s \<and> (\<exists>ps. mc_bus s' = mc_bus s @ map (Pair (own_subject config)) ps)"
proof -
  let ?crc = "lb_crc lib" and ?subject = "own_subject config" and ?X = "set (ag_accepted s)"
  let ?n = "max (cf_batch_size config) 1"
  have n: "0 < ?n" by simp
  have "live ?crc N (?X - on_bus ?subject s) s" using agent_inv_running [OF assms(1,2)] by (simp add: open_readings_def)
  from nats.drain_loop_spec [OF this assms(3) n, of default_outcome] obtain r s1
    where run: "forwarder_drain ?crc (sink_publish ?subject) (cf_batch_size config) s = Some (r, s1)"
      and end_: "nats.drained ?subject ?crc N ?X default_outcome s r s1"
    unfolding forwarder_drain_def by blast
  have live1: "live ?crc N (open_readings ?subject s1) s1" and same: "ag_accepted s1 = ag_accepted s" "\<exists>ps. mc_bus s1 = mc_bus s @ map (Pair ?subject) ps"
    using end_ by (auto simp: nats.drained_def agent_frame_def open_readings_def)
  show ?thesis
  proof (cases r)
    case (Ok outcome)
    define s2 where "s2 = (if 0 < do_published outcome
      then on_agent_metrics (\<lambda>m. m\<lparr>am_published := am_published m + of_nat (do_published outcome)\<rparr>) s1 else s1)"
    have live2: "live ?crc N (open_readings ?subject s2) s2" using live1 by (simp add: s2_def)
    obtain r3 s3 where connect: "connect (cf_credentials config) s2 = (r3, s3)" by fastforce
    have net: "network_only ?subject s2 s3" by (rule endsD [OF connect_ends connect])
    have live3: "live ?crc N (open_readings ?subject s3) s3"
      using live_network(1) [OF net] live_subset(1) [OF live2 network_readings [OF net]] by simp
    have "main_drain lib config s = Some (if do_blocked outcome then (if r3 = Killed then process_exit s3 else report_spool s3) else report_spool s2)"
      using run Ok connect unfolding main_drain_def by (cases r3) (simp_all add: Let_def s2_def)
    moreover have "ag_accepted s2 = ag_accepted s" "mc_bus s2 = mc_bus s1" "ag_accepted s3 = ag_accepted s"
      using same net by (simp_all add: s2_def on_agent_metrics_def network_only_def)
    moreover have "\<exists>ps. mc_bus s3 = mc_bus s @ map (Pair ?subject) ps"
      using same(2) net \<open>mc_bus s2 = mc_bus s1\<close> unfolding network_only_def by (metis append_assoc map_append)
    ultimately show ?thesis
      using report_spool_inv [OF live2] report_spool_inv [OF live3] agent_inv_stop [OF live_held [OF live3]] same(2) by (simp add: process_exit_def)
  next
    case (Err e)
    then have "main_drain lib config s = Some (report_spool s1)" using run by (simp add: main_drain_def)
    then show ?thesis using report_spool_inv [OF live1] same by simp
  next
    case Killed
    then have "main_drain lib config s = Some (process_exit s1)" using run by (simp add: main_drain_def)
    then show ?thesis using agent_inv_stop [OF live_held [OF live1]] same by (simp add: process_exit_def)
  qed
qed

lemma start_inv:
  assumes "agent_inv (lb_crc lib) (own_subject config) N s" "N \<le> 2 ^ 64"
  shows "agent_inv (lb_crc lib) (own_subject config) N (start lib config s)"
proof -
  let ?crc = "lb_crc lib" and ?subject = "own_subject config"
  let ?s = "s\<lparr>ag_running := True, ag_connected := False, ag_metrics := default_metrics, ag_sequence := 0\<rparr>"
  have "preserved ?crc N (open_readings ?subject ?s) ?s" using agent_inv_held [OF assms(1)] by simp
  note opened = open_safe [OF this assms(2), of "cf_spool config"]
  obtain r s1 where run: "spool_open ?crc (cf_spool config) ?s = (r, s1)" by fastforce
  have s1: "preserved ?crc N (open_readings ?subject ?s) s1" "r = Ok () \<Longrightarrow> live ?crc N (open_readings ?subject ?s) s1"
    using endsD [OF opened run] by auto
  have same: "open_readings ?subject s1 = open_readings ?subject ?s"
    by (rule outside_agent(1)) (use endsD [OF opened run] in simp)
  obtain r2 s2 where connect: "connect (cf_credentials config) s1 = (r2, s2)" by fastforce
  have net: "network_only ?subject s1 s2" by (rule endsD [OF connect_ends connect])
  have held2: "preserved ?crc N (open_readings ?subject s2) s2"
    using s1(1) same live_network(2) [OF net] live_subset(2) network_readings [OF net] by metis
  have live2: "r = Ok () \<Longrightarrow> live ?crc N (open_readings ?subject s2) s2"
    using s1(2) same live_network(1) [OF net] live_subset(1) network_readings [OF net] by metis
  have "start lib config s \<in> {process_exit s1, process_exit s2} \<or> r = Ok () \<and> start lib config s = s2"
    using run connect by (auto simp: start_def split: reply.splits sum.splits)
  moreover have "agent_inv ?crc ?subject N (process_exit s1)" by (rule agent_inv_stop) (use s1(1) same in simp)
  moreover have "agent_inv ?crc ?subject N (process_exit s2)" by (rule agent_inv_stop [OF held2])
  ultimately show ?thesis using live2 agent_inv_live by auto
qed

text \<open>Validation touches only counters; what it returns depends on the sequence number alone.\<close>

lemma accept_frame:
  "\<exists>m q. snd (accept lib config now raw s) = s\<lparr>ag_metrics := m, ag_sequence := q\<rparr>"
  "ag_sequence s = ag_sequence t \<Longrightarrow> fst (accept lib config now raw s) = fst (accept lib config now raw t)"
proof -
  let ?t = "snd (accept lib config now raw s)"
  have "?t = s\<lparr>ag_metrics := ag_metrics ?t, ag_sequence := ag_sequence ?t\<rparr>"
  proof (cases "lb_parse lib raw")
    case (Inl err)
    then show ?thesis by (simp add: accept_def on_agent_metrics_def)
  next
    case (Inr reading)
    let ?ctx = "\<lparr>ec_edge_id = cf_edge_id config, ec_site_id = cf_site_id config, ec_received_at_ms = now_ms now,
      ec_sequence = ag_sequence s + 1, ec_clock = assess (now_ms now)\<rparr>"
    show ?thesis using Inr
      by (cases "normalize_reading reading ?ctx"; cases "assess (now_ms now)")
         (simp_all add: accept_def Let_def on_agent_metrics_def sequence_next_def)
  qed
  then show "\<exists>m q. ?t = s\<lparr>ag_metrics := m, ag_sequence := q\<rparr>" by blast
  show "ag_sequence s = ag_sequence t \<Longrightarrow> fst (accept lib config now raw s) = fst (accept lib config now raw t)"
    by (auto simp: accept_def Let_def on_agent_metrics_def sequence_next_def split: sum.splits)
qed

lemma fits_channel [simp]: "fits_spool lib config now raw (s\<lparr>ag_channel := c\<rparr>) = fits_spool lib config now raw s"
  using accept_frame(2) [of "s\<lparr>ag_channel := c\<rparr>" s lib config now raw] by (simp add: fits_spool_def split: option.splits)

lemma receive_inv:
  assumes "agent_inv (lb_crc lib) (own_subject config) N s" "ag_running s" "N + 1 \<le> 2 ^ 64" "fits_spool lib config now raw s"
  shows "agent_inv (lb_crc lib) (own_subject config) (N + 1) (main_receive lib config now raw s)"
proof -
  let ?crc = "lb_crc lib" and ?subject = "own_subject config"
  let ?s = "on_agent_metrics (\<lambda>m. m\<lparr>am_received := am_received m + 1\<rparr>) s"
  obtain encoded s1 where accept: "accept lib config now raw ?s = (encoded, s1)" by fastforce
  obtain m q where s1: "s1 = ?s\<lparr>ag_metrics := m, ag_sequence := q\<rparr>"
    using accept_frame(1) [of lib config now raw ?s] accept by auto
  have live1: "live ?crc N (open_readings ?subject s1) s1" using agent_inv_running [OF assms(1,2)] by (simp add: s1)
  show ?thesis
  proof (cases encoded)
    case None
    then have "main_receive lib config now raw s = s1" using accept by (simp add: main_receive_def)
    then show ?thesis using agent_inv_live [OF live_mono(1) [OF live1]] by simp
  next
    case (Some p)
    have "fst (accept lib config now raw s) = Some p"
      using accept_frame(2) [of s ?s] accept Some by (simp add: on_agent_metrics_def)
    then have p: "p \<noteq> []" "int (length p) \<le> MAX_RECORD_BYTES \<Longrightarrow> has_room p (st_spool s1)"
      using assms(4) by (simp_all add: fits_spool_def has_room_def s1 on_agent_metrics_def)
    obtain r s2 where run: "spool_append ?crc p s1 = (r, s2)" by fastforce
    show ?thesis
    proof (cases "int (length p) \<le> MAX_RECORD_BYTES")
      case False
      then have "main_receive lib config now raw s = s1" using accept Some p(1) by (simp add: main_receive_def enqueue_def spool_append_def)
      then show ?thesis using agent_inv_live [OF live_mono(1) [OF live1]] by simp
    next
      case True
      then have p: "storable p" "has_room p (st_spool s1)" using p by (simp_all add: storable_def)
      note appended = endsD [OF append_spec [OF live1 assms(3) p] run]
      note same = outside_agent(1) [OF confinedD [OF confined_append run], of ?subject]
      show ?thesis
      proof (cases r)
        case (Ok u)
        then have "main_receive lib config now raw s = s2\<lparr>ag_accepted := ag_accepted s2 @ [p]\<rparr>"
          using accept Some run by (simp add: main_receive_def enqueue_def)
        moreover have "live ?crc (N + 1) (insert p (open_readings ?subject s1)) s2" using appended Ok by simp
        then have "live ?crc (N + 1) (open_readings ?subject (s2\<lparr>ag_accepted := ag_accepted s2 @ [p]\<rparr>)) s2"
          by (rule live_subset(1)) (use same in \<open>auto simp: open_readings_def on_bus_def\<close>)
        ultimately show ?thesis using agent_inv_live [of ?crc "N + 1" ?subject "main_receive lib config now raw s"] by simp
      next
        case (Err e)
        then have "main_receive lib config now raw s = s2" using accept Some run by (simp add: main_receive_def enqueue_def)
        then show ?thesis using appended Err same by (simp add: agent_inv_live)
      next
        case Killed
        then have "main_receive lib config now raw s = process_exit s2" using accept Some run by (simp add: main_receive_def enqueue_def)
        then show ?thesis using appended Killed same by (simp add: agent_inv_stop)
      qed
    qed
  qed
qed

section \<open>Every run\<close>

lemma edge_step_inv:
  assumes "edge_step lib config s s'" "agent_inv (lb_crc lib) (own_subject config) N s" "N + 1 \<le> 2 ^ 64"
  shows "agent_inv (lb_crc lib) (own_subject config) (N + 1) s'"
  using assms(1)
proof cases
  case (broker b)
  then show ?thesis using agent_inv_mono [OF assms(2), of "N + 1"] by (simp add: agent_inv_def) (simp add: on_agent_metrics_def)
next
  case (arrives raw)
  then show ?thesis using agent_inv_mono [OF assms(2), of "N + 1"] by (simp add: agent_inv_def)
next
  case (takes raw rest now)
  have "agent_inv (lb_crc lib) (own_subject config) N (s\<lparr>ag_channel := rest\<rparr>)" using assms(2) by (simp add: agent_inv_def)
  then show ?thesis using takes receive_inv [of lib config N "s\<lparr>ag_channel := rest\<rparr>"] assms(3) by simp
next
  case ticks
  then show ?thesis using drain_inv [OF assms(2)] assms(3) agent_inv_mono [of _ _ N s' "N + 1"] by auto
next
  case (returns t)
  then have "agent_inv (lb_crc lib) (own_subject config) N t" using drain_inv [OF assms(2)] assms(3) by auto
  then show ?thesis using agent_inv_stop [OF agent_inv_held] agent_inv_mono returns by (metis le_add1)
next
  case killed
  then show ?thesis using agent_inv_stop [OF agent_inv_held [OF assms(2)]] agent_inv_mono by (metis le_add1)
next
  case starts
  then show ?thesis using start_inv [OF assms(2)] assms(3) agent_inv_mono [of _ _ N s' "N + 1"] by auto
qed

text \<open>A charger before its first start: an empty directory, no process, nothing accepted.\<close>

definition factory :: "(nat \<Rightarrow> fault) \<Rightarrow> (nat \<Rightarrow> bool) \<Rightarrow> Agent" where
  "factory faults stores =
     \<lparr>mc_files = [], mc_faults = faults, mc_calls = 0, mc_bus = [], mc_sent = 0, mc_stores = stores,
      st_spool = \<lparr>sp_config = \<lparr>sc_segment_bytes = 0, sc_max_total_bytes = 0\<rparr>, sp_segments = [], sp_active = None, sp_cursor = default_cursor,
                  sp_dropped_records = 0, sp_corrupt_records = 0\<rparr>,
      st_discarded = [], ag_running = False, ag_channel = [], ag_connected = False, ag_metrics = default_metrics,
      ag_sequence = 0, ag_accepted = []\<rparr>"

lemma factory_inv: "agent_inv crc subject 0 (factory faults stores)"
proof -
  let ?sp = "st_spool (factory faults stores)"
  have "spool_inv crc 0 [] ?sp"
    by (auto simp: spool_inv_def tidy_def factory_def stored_cursor_def)
  then show ?thesis by (auto simp: agent_inv_def preserved_def factory_def open_readings_def)
qed

lemma edge_runs_inv:
  "(edge_step lib config ^^ n) (factory faults stores) s \<Longrightarrow> n \<le> 2 ^ 64 \<Longrightarrow> agent_inv (lb_crc lib) (own_subject config) n s"
proof (induction n arbitrary: s)
  case 0
  then have "s = factory faults stores" by simp
  then show ?case by (simp add: factory_inv)
next
  case (Suc n)
  then obtain t where "(edge_step lib config ^^ n) (factory faults stores) t" "edge_step lib config t s" by auto
  then show ?case using Suc edge_step_inv [of lib config t s n] by simp
qed

end
