(* ===== verification/Edge_Delivery.thy ===== *)
theory Edge_Delivery
  imports Edge_Safety
begin

text \<open>
  When the disk works, the link is up and the broker stores what it is sent, one drain moves the whole
  queue to the bus, in order; and after an append the spool is within its ceiling or down to the segment
  it writes.
\<close>

section \<open>Calls that succeed\<close>

definition smooth :: "'z Machine_scheme \<Rightarrow> bool" where
  "smooth s \<longleftrightarrow> (\<forall>n\<ge>mc_calls s. mc_faults s n = Works)"

definition succeeds :: "('z Spooled_scheme, 'e, 'a) call \<Rightarrow> bool" where
  "succeeds m \<longleftrightarrow> (\<forall>s. smooth s \<longrightarrow> (\<exists>x s'. m s = (Ok x, s')))"

lemma smooth_now: "smooth s \<Longrightarrow> fault_now s = Works"
  by (simp add: smooth_def fault_now_def)

lemma smooth_outside: "smooth s \<Longrightarrow> outside s s' \<Longrightarrow> smooth s'"
  by (simp add: smooth_def outside_def)

lemma smooth_called [simp]: "smooth s \<Longrightarrow> smooth (called s)"
  by (simp add: smooth_def called_def)

lemma succeedsD: "succeeds m \<Longrightarrow> smooth s \<Longrightarrow> m s = (r, s') \<Longrightarrow> \<exists>x. r = Ok x"
  unfolding succeeds_def by (metis prod.inject)

lemma succeeds_try:
  fixes m :: "('z Spooled_scheme, 'e, 'a) call"
  assumes "succeeds m" "confined m" "\<And>x. succeeds (f x)"
  shows "succeeds (try_io m f)"
  unfolding succeeds_def
proof (intro allI impI)
  fix s :: "'z Spooled_scheme" assume s: "smooth s"
  then obtain x t where t: "m s = (Ok x, t)" using assms(1) unfolding succeeds_def by blast
  then have "smooth t" using smooth_outside [OF s confinedD [OF assms(2)]] by blast
  then obtain y u where "f x t = (Ok y, u)" using assms(3) unfolding succeeds_def by blast
  then show "\<exists>y s'. try_io m f s = (Ok y, s')" using t by (auto simp: try_io_def)
qed

lemma succeeds_basic: "succeeds (ok x)" "succeeds (modify g)"
  by (simp_all add: succeeds_def ok_def modify_def)

lemma succeeds_unlink: "succeeds (unlink_segment crc i dropped)"
  by (auto simp: succeeds_def unlink_segment_def remove_file_def atomic_call_def syscall_def smooth_now)

lemma rename_works: "fault_now s = Works \<Longrightarrow> map_of (mc_files s) a = Some c \<Longrightarrow> \<exists>t. rename a b s = (Ok (), t)"
  by (simp add: rename_def atomic_call_def syscall_def)

lemma succeeds_store_cursor: "succeeds store_cursor"
proof (unfold succeeds_def, intro allI impI)
  fix s :: "'z Spooled_scheme" assume s: "smooth s"
  let ?text = "render_cursor (sp_cursor (st_spool s))"
  let ?s1 = "(called s)\<lparr>mc_files := AList.update CURSOR_TMP [] (mc_files s)\<rparr>"
  let ?s2 = "(called ?s1)\<lparr>mc_files := append_bytes CURSOR_TMP ?text (mc_files ?s1)\<rparr>"
  have w: "fault_now s = Works" "fault_now ?s1 = Works" "fault_now ?s2 = Works"
    using s by (simp_all add: smooth_def fault_now_def called_def)
  have "map_of (mc_files ?s2) CURSOR_TMP = Some ?text" by (simp add: map_of_append_bytes)
  then have "\<exists>t. rename CURSOR_TMP CURSOR_FILE ?s2 = (Ok (), t)" by (rule rename_works [OF w(3)])
  moreover have "create_file CURSOR_TMP s = (Ok (), ?s1)" by (simp add: create_file_def atomic_call_def syscall_def w(1))
  moreover have "write_all CURSOR_TMP ?text ?s1 = (Ok (), ?s2)" by (simp add: write_all_def syscall_def w(2))
  ultimately show "\<exists>x s'. store_cursor s = (Ok x, s')" by (auto simp: store_cursor_def try_io_def)
qed

lemma succeeds_commit: "succeeds (spool_commit crc c)"
proof -
  have "succeeds (remove_segment crc i False)" for i
    unfolding remove_segment_def
    by (simp add: succeeds_try succeeds_basic succeeds_unlink confined_calls confined_unlink)
  then have removes: "succeeds (remove_segments crc is)" for "is"
    by (induction "is") (simp add: succeeds_basic, auto intro!: succeeds_try confined_remove)
  have keeps: "confined (remove_segments crc is)" for "is"
    by (induction "is") (simp_all add: confined_basic confined_try confined_remove)
  have "succeeds (\<lambda>s. remove_segments crc (filter (\<lambda>i. i < cu_segment c) (sp_segments (st_spool s))) s)"
    using removes unfolding succeeds_def by blast
  moreover have "confined (\<lambda>s. remove_segments crc (filter (\<lambda>i. i < cu_segment c) (sp_segments (st_spool s))) s)"
    by (rule confined_at) (use keeps in blast)
  ultimately show ?thesis unfolding spool_commit_def
    by (intro succeeds_try succeeds_basic succeeds_store_cursor confined_basic)
qed

lemma read_segment_succeeds:
  fixes s :: "'z Spooled_scheme"
  assumes "smooth s"
  obtains ex c' rs s' where "read_from_segment crc i c limit records s = (Ok (ex, c', rs), s')" "smooth s'"
proof -
  obtain r s' where run: "read_from_segment crc i c limit records s = (r, s')" by fastforce
  have "s' = called s \<or> s' = on_spool bump_corrupt (called s)" "\<exists>ex c' rs. r = Ok (ex, c', rs)"
    using run assms by (auto simp: read_from_segment_def read_file_def reading_call_def syscall_def smooth_now split: option.splits prod.splits if_splits)
  moreover have "smooth (called s)" "smooth (on_spool bump_corrupt (called s))" using assms by (simp_all add: smooth_def called_def on_spool_def)
  ultimately show ?thesis using that run by blast
qed

lemma read_segments_succeeds: "smooth s \<Longrightarrow> \<exists>x s'. read_segments crc c limit records s = (Ok x, s')"
proof (induction crc c limit records s rule: read_segments.induct)
  case (1 crc c limit records s)
  show ?case
  proof (cases "segment_at_or_after (st_spool s) (cu_segment c)")
    case None
    then show ?thesis by (simp add: read_segments.simps [of crc c])
  next
    case (Some i)
    define d where "d = (if i \<noteq> cu_segment c then \<lparr>cu_segment = i, cu_offset = 0\<rparr> else c)"
    obtain ex e rs s' where read: "read_from_segment crc i d limit records s = (Ok (ex, e, rs), s')" and s': "smooth s'"
      by (rule read_segment_succeeds [OF 1(2)])
    note unfold = read_segments.simps [of crc c limit records s, unfolded Some, simplified, folded d_def, simplified, unfolded read]
    show ?thesis
    proof (cases "limit \<le> length rs \<or> \<not> ex \<or> segment_after (st_spool s) i = None")
      case True
      then show ?thesis using unfold by (auto split: option.splits)
    next
      case False
      then obtain j where j: "segment_after (st_spool s) i = Some j" by auto
      have "\<exists>x t. read_segments crc \<lparr>cu_segment = j, cu_offset = 0\<rparr> limit rs s' = (Ok x, t)"
        by (rule "1.IH" [OF Some, of "Ok (ex, e, rs)" s' "(ex, e, rs)" ex "(e, rs)" e]) (use read d_def False j s' in auto)
      then show ?thesis using unfold False j by auto
    qed
  qed
qed

lemma succeeds_read: "succeeds (read_batch crc n)"
  using read_segments_succeeds by (auto simp: succeeds_def read_batch_def)

section \<open>A healthy link\<close>

definition healthy :: "'z Agent_scheme \<Rightarrow> bool" where
  "healthy s \<longleftrightarrow> smooth s \<and> ag_connected s \<and> (\<forall>n\<ge>mc_sent s. mc_stores s n)"

lemma healthy_outside: "healthy s \<Longrightarrow> outside s s' \<Longrightarrow> healthy s'"
  unfolding healthy_def using smooth_outside [of s s'] by (cases s; cases s') (auto simp: outside_def)

lemma healthy_send:
  fixes s :: "'z Agent_scheme"
  assumes "healthy s"
  shows "\<exists>s'. send subject p s = (Ok True, s') \<and> healthy s' \<and> mc_bus s' = mc_bus s @ [(subject, p)]"
  using assms by (auto simp: send_def healthy_def smooth_def fault_now_def reaches_broker_def called_def)

lemma healthy_send_all:
  fixes s :: "'z Agent_scheme"
  assumes "healthy s"
  shows "\<exists>s'. send_all subject ps s = (Ok (replicate (length ps) True), s') \<and> healthy s' \<and> mc_bus s' = mc_bus s @ map (Pair subject) ps"
  using assms
proof (induction ps arbitrary: s)
  case (Cons p ps)
  obtain t where t: "send subject p s = (Ok True, t)" "healthy t" "mc_bus t = mc_bus s @ [(subject, p)]"
    using healthy_send [OF Cons.prems] by blast
  obtain u where "send_all subject ps t = (Ok (replicate (length ps) True), u)" "healthy u" "mc_bus u = mc_bus t @ map (Pair subject) ps"
    using Cons.IH [OF t(2)] by blast
  then show ?case using t by (simp add: try_io_def or_offline_def ok_def)
qed (simp add: ok_def)

lemma healthy_await:
  fixes s :: "'z Agent_scheme"
  assumes "healthy s"
  shows "\<exists>s'. await_all (replicate n True) s = (Ok (), s') \<and> healthy s' \<and> mc_bus s' = mc_bus s"
  using assms
proof (induction n arbitrary: s)
  case (Suc n)
  have "await_ack True s = (Ok (), called s)" "healthy (called s)"
    using Suc.prems by (simp_all add: await_ack_def healthy_def smooth_now) (simp add: called_def)
  then show ?case using Suc.IH [of "called s"] by (simp add: try_io_def or_offline_def)
qed (simp add: ok_def)

lemma healthy_publish:
  fixes s :: "'z Agent_scheme"
  assumes "healthy s"
  shows "\<exists>s'. sink_publish subject ps s = (Ok (), s') \<and> healthy s' \<and> mc_bus s' = mc_bus s @ map (Pair subject) ps"
proof -
  obtain t where t: "send_all subject ps s = (Ok (replicate (length ps) True), t)" "healthy t" "mc_bus t = mc_bus s @ map (Pair subject) ps"
    using healthy_send_all [OF assms] by blast
  obtain u where "await_all (replicate (length ps) True) t = (Ok (), u)" "healthy u" "mc_bus u = mc_bus t"
    using healthy_await [OF t(2)] by blast
  then show ?thesis using t assms by (simp add: sink_publish_def healthy_def try_io_def)
qed

lemma healthy_drain_loop:
  fixes s :: "'z Agent_scheme"
  assumes "live crc N (X - on_bus subject s) s" "N \<le> 2 ^ 64" "0 < n" "healthy s"
  shows "\<exists>s'. drain_loop crc (sink_publish subject) n outcome s =
      Some (Ok (outcome\<lparr>do_published := do_published outcome + length (queue crc (mc_files s) (st_spool s))\<rparr>), s') \<and>
    queue crc (mc_files s') (st_spool s') = [] \<and>
    mc_bus s' = mc_bus s @ map (Pair subject) (queue crc (mc_files s) (st_spool s)) \<and> healthy s'"
  using assms(1,4)
proof (induction "length (queue crc (mc_files s) (st_spool s))" arbitrary: s outcome rule: less_induct)
  case less
  let ?q = "queue crc (mc_files s) (st_spool s)"
  obtain r s1 where read: "read_batch crc n s = (r, s1)" by fastforce
  have "\<exists>x. r = Ok x" by (rule succeedsD [OF succeeds_read _ read]) (use less.prems(2) in \<open>simp add: healthy_def\<close>)
  then obtain rs c where r: "r = Ok (rs, c)" by auto
  note batch = endsD [OF read_batch_spec [OF less.prems(1)] read]
  have st: "steady s s1" and rs: "rs = take n ?q" using batch r by simp_all
  have out: "outside s s1" by (rule nats.steady_outside [OF st])
  have bus1: "mc_bus s1 = mc_bus s" using out by (simp add: outside_def)
  have healthy1: "healthy s1" by (rule healthy_outside [OF less.prems(2) out])
  note unfold = drain_loop.simps [of crc "sink_publish subject" n outcome s, unfolded read r]
  show ?case
  proof (cases "rs = []")
    case True
    then have "?q = []" using rs assms(3) by simp
    then show ?thesis using unfold True bus1 healthy1 live_steady(2) [OF st, of crc] by simp
  next
    case False
    obtain s2 where sent: "sink_publish subject rs s1 = (Ok (), s2)" "healthy s2" "mc_bus s2 = mc_bus s1 @ map (Pair subject) rs"
      using healthy_publish [OF healthy1] by blast
    obtain r3 s3 where commit: "spool_commit crc c s2 = (r3, s3)" by fastforce
    have "\<exists>x. r3 = Ok x" by (rule succeedsD [OF succeeds_commit _ commit]) (use sent(2) in \<open>simp add: healthy_def\<close>)
    then have r3: "r3 = Ok ()" by auto
    note turn = nats.confirmed_turn [OF less.prems(1) assms(2) read [unfolded r] sent(1) commit]
    have out3: "outside s2 s3" by (rule confinedD [OF confined_commit commit])
    have shorter: "length (queue crc (mc_files s3) (st_spool s3)) < length ?q" using turn(2) False by simp
    let ?out = "outcome\<lparr>do_published := do_published outcome + length rs\<rparr>"
    from less.hyps [OF shorter turn(1) healthy_outside [OF sent(2) out3], of ?out] obtain s' where
      "drain_loop crc (sink_publish subject) n ?out s3 =
        Some (Ok (?out\<lparr>do_published := do_published ?out + length (queue crc (mc_files s3) (st_spool s3))\<rparr>), s')"
      "queue crc (mc_files s') (st_spool s') = []" "healthy s'"
      "mc_bus s' = mc_bus s3 @ map (Pair subject) (queue crc (mc_files s3) (st_spool s3))" by blast
    moreover have "mc_bus s3 = mc_bus s @ map (Pair subject) rs" using out3 sent(3) bus1 by (simp add: outside_def)
    ultimately show ?thesis using unfold False sent(1) commit r3 turn(2) by (auto simp: add.assoc)
  qed
qed

section \<open>The ceiling\<close>

definition disk_bytes :: "files \<Rightarrow> nat list \<Rightarrow> nat" where
  "disk_bytes fs segs = sum_list (map (\<lambda>i. length (content fs (segment_path i))) segs)"

lemma sum_lengths_works:
  fixes s :: "'z Spooled_scheme"
  shows "smooth s \<Longrightarrow> \<exists>s'. sum_lengths is s = (Ok (disk_bytes (mc_files s) is), s')"
proof (induction "is" arbitrary: s)
  case Nil
  then show ?case by (simp add: ok_def disk_bytes_def)
next
  case (Cons i "is")
  have "(unwrap_or 0 (metadata_len (segment_path i)) :: ('z Spooled_scheme, io_error, nat) call) s = (Ok (length (content (mc_files s) (segment_path i))), called s)"
    using Cons.prems by (cases "map_of (mc_files s) (segment_path i)")
      (simp_all add: unwrap_or_def metadata_len_def reading_call_def syscall_def smooth_now)
  moreover obtain t where "sum_lengths is (called s) = (Ok (disk_bytes (mc_files s) is), t)"
    using Cons.IH [of "called s"] Cons.prems by auto
  ultimately show ?case by (simp add: try_io_def ok_def disk_bytes_def)
qed

lemma total_bytes_works:
  "smooth s \<Longrightarrow> total_bytes s = (r, s') \<Longrightarrow> r = Ok (disk_bytes (mc_files s) (sp_segments (st_spool s)))"
  using sum_lengths_works [of s "sp_segments (st_spool s)"] by (auto simp: total_bytes_def)

lemma succeeds_evict: "succeeds (evict_oldest crc i)"
proof -
  have "succeeds (unwrap_or 0 (count_records crc i))"
    by (auto simp: succeeds_def unwrap_or_def count_records_def try_io_def ok_def read_file_def reading_call_def syscall_def smooth_now split: option.splits)
  then have "succeeds (remove_segment crc i True)" unfolding remove_segment_def count_records_def
    by (auto intro!: succeeds_try succeeds_basic succeeds_unlink confined_calls confined_unlink confined_files)
  moreover have "succeeds (\<lambda>s. if cu_segment (sp_cursor (st_spool s)) \<le> i then try_io (modify (move_cursor_past i)) (\<lambda>_. store_cursor) s else (Ok (), s))"
    using succeeds_try [OF succeeds_basic(2) confined_basic(3) succeeds_store_cursor, of "move_cursor_past i"] by (auto simp: succeeds_def)
  ultimately show ?thesis unfolding evict_oldest_def by (intro succeeds_try confined_remove)
qed

lemma evict_config: "evict_oldest crc i s = (r, s') \<Longrightarrow> sp_config (st_spool s') = sp_config (st_spool s)"
  by (auto simp: evict_oldest_def remove_segment_def try_io_def modify_def on_spool_def move_cursor_past_def forget_segment_def unwrap_or_def ok_def
      dest!: store_cursor_spool unlink_segment_spool count_records_spool
      split: if_splits prod.splits reply.splits)

lemma enforce_capacity_bound:
  fixes s :: "'z Spooled_scheme"
  assumes "live crc N X s" "N \<le> 2 ^ 64" "smooth s"
  shows "ends (enforce_capacity crc) (\<lambda>r s'. r = Ok () \<and>
    (disk_bytes (mc_files s') (sp_segments (st_spool s')) \<le> sc_max_total_bytes (sp_config (st_spool s)) \<or> length (sp_segments (st_spool s')) \<le> 1)) s"
  using assms(1,3)
proof (induction crc s rule: enforce_capacity.induct)
  case (1 crc s)
  let ?Q = "\<lambda>s r s'. r = Ok () \<and> (disk_bytes (mc_files s') (sp_segments (st_spool s')) \<le> sc_max_total_bytes (sp_config (st_spool s)) \<or>
    length (sp_segments (st_spool s')) \<le> 1)"
  obtain r s1 where run: "total_bytes s = (r, s1)" by fastforce
  have r: "r = Ok (disk_bytes (mc_files s) (sp_segments (st_spool s)))" by (rule total_bytes_works [OF 1(3) run])
  have st: "steady s s1" by (rule endsD [OF total_bytes_steady run])
  have out: "outside s s1" by (rule confinedD [OF confined_lengths(2) run])
  note same = steadyD [OF st]
  have live1: "live crc N X s1" using live_steady(1) [OF st] 1(2) by simp
  have inv: "spool_inv crc N (mc_files s1) (st_spool s1)" using live1 by (simp add: live_def)
  have newest: "sp_segments (st_spool s1) \<noteq> [] \<Longrightarrow> map_option ac_index (sp_active (st_spool s1)) = Some (last (sp_segments (st_spool s1)))"
    using inv by (auto simp: spool_inv_def newest_ok_def)
  note unfold = enforce_capacity.simps [of crc s, unfolded try_io_def run r, simplified]
  show ?case
  proof (cases "disk_bytes (mc_files s) (sp_segments (st_spool s)) \<le> sc_max_total_bytes (sp_config (st_spool s)) \<or> length (sp_segments (st_spool s)) \<le> 1")
    case True
    then have "enforce_capacity crc s = (Ok (), s1)"
      using unfold same(5,8) newest True by (cases "sp_segments (st_spool s)") auto
    then show ?thesis using True same(1,5) by (simp add: ends_def)
  next
    case False
    then obtain oldest j rest where segs: "sp_segments (st_spool s1) = oldest # j # rest"
      unfolding same(5) by (metis One_nat_def le_Suc_eq length_0_conv length_Suc_conv list.exhaust not_less_eq_eq)
    have "oldest < last (j # rest)" using inv segs strictly_last [of "j # rest"] by (auto simp: spool_inv_def)
    then have other: "Some oldest \<noteq> map_option ac_index (sp_active (st_spool s1))" using newest segs by auto
    obtain r2 s2 where evict: "evict_oldest crc oldest s1 = (r2, s2)" by fastforce
    have r2: "r2 = Ok ()" using succeedsD [OF succeeds_evict smooth_outside [OF 1(3) out] evict] by auto
    have live2: "live crc N X s2" using endsD [OF evict_oldest_spec [OF live1 assms(2) segs other] evict] by simp
    have smooth2: "smooth s2" by (rule smooth_outside [OF smooth_outside [OF 1(3) out] confinedD [OF confined_evict evict]])
    have over: "\<not> disk_bytes (mc_files s) (sp_segments (st_spool s)) \<le> sc_max_total_bytes (sp_config (st_spool s1))"
      using False same(8) by simp
    have "ends (enforce_capacity crc) (?Q s2) s2"
      by (rule 1(1) [OF run [unfolded r] over segs other evict [unfolded r2] live2 smooth2])
    moreover have "sp_config (st_spool s2) = sp_config (st_spool s)" using evict_config [OF evict] same(8) by simp
    moreover have "enforce_capacity crc s = enforce_capacity crc s2" using unfold over segs other evict r2 by simp
    ultimately show ?thesis by (simp add: ends_def)
  qed
qed

lemma succeeds_flush: "succeeds flush_buf"
  by (auto simp: succeeds_def flush_buf_def write_all_def syscall_def smooth_now)

lemma flush_config: "flush_buf s = (r, s') \<Longrightarrow> sp_config (st_spool s') = sp_config (st_spool s)"
  using flush_files by fastforce

lemma succeeds_ensure: "succeeds ensure_active_segment"
proof (unfold succeeds_def, intro allI impI)
  fix s :: "'z Spooled_scheme" assume s: "smooth s"
  let ?create = "\<lambda>index. try_io (open_append (segment_path index)) (\<lambda>_. try_io (modify (\<lambda>sp. sp\<lparr>sp_segments := insort_insert index (sp_segments sp)\<rparr>))
      (\<lambda>_. try_io (unwrap_or () flush_buf) (\<lambda>_. modify (\<lambda>sp. sp\<lparr>sp_active := Some \<lparr>ac_index = index, ac_buffer = [], ac_bytes = 0\<rparr>\<rparr>))))
      :: ('z Spooled_scheme, io_error, unit) call"
  have "succeeds (open_append name :: ('z Spooled_scheme, io_error, unit) call)" for name
    by (simp add: succeeds_def open_append_def atomic_call_def syscall_def smooth_now)
  moreover have "succeeds (unwrap_or () flush_buf :: ('z Spooled_scheme, io_error, unit) call)"
    using succeeds_flush by (fastforce simp: succeeds_def unwrap_or_def split: prod.splits reply.splits)
  ultimately have "succeeds (?create index)" for index
    by (intro succeeds_try succeeds_basic confined_calls confined_files confined_flush)
  then have "\<exists>x t. ?create index s = (Ok x, t)" for index using s unfolding succeeds_def by blast
  then show "\<exists>x t. ensure_active_segment s = (Ok x, t)" by (simp add: ensure_active_segment_def Let_def)
qed

lemma ensure_config: "ensure_active_segment s = (r, s') \<Longrightarrow> sp_config (st_spool s') = sp_config (st_spool s)"
  by (auto simp: ensure_active_segment_def Let_def try_io_def modify_def on_spool_def unwrap_or_def open_append_def atomic_call_def
      dest!: flush_config syscall_spool split: if_splits prod.splits reply.splits option.splits)

lemma try_io_Ok: "m s = (Ok x, t) \<Longrightarrow> try_io m f s = f x t"
  and try_io_modify: "try_io (modify g) f s = f () (on_spool g s)"
  by (simp_all add: try_io_def modify_def)

text \<open>An append on a disk that works: the record is written and the ceiling enforced behind it.\<close>

lemma append_works:
  fixes s :: "'z Spooled_scheme"
  assumes "live crc N X s" "N + 1 \<le> 2 ^ 64" "storable payload" "has_room payload (st_spool s)" "smooth s"
  shows "\<exists>t. live crc (N + 1) (insert payload X) t \<and> smooth t \<and> sp_config (st_spool t) = sp_config (st_spool s) \<and>
    spool_append crc payload s = enforce_capacity crc t"
proof -
  let ?count = "\<lambda>sp. sp\<lparr>sp_active := map_option (\<lambda>a. a\<lparr>ac_bytes := ac_bytes a + (RECORD_HEADER_BYTES + length payload)\<rparr>) (sp_active sp)\<rparr>"
  obtain r1 s1 where ensure: "ensure_active_segment s = (r1, s1)" by fastforce
  have r1: "r1 = Ok ()" using succeedsD [OF succeeds_ensure assms(5) ensure] by auto
  note first = endsD [OF ensure_active_spec [OF assms(1,2)] ensure]
  have s1: "live crc (N + 1) X s1" "sp_active (st_spool s1) \<noteq> None" "has_room payload (st_spool s1)"
    using first assms(4) r1 by (auto simp: has_room_def)
  have smooth1: "smooth s1" by (rule smooth_outside [OF assms(5) confinedD [OF confined_ensure ensure]])
  let ?s2 = "on_spool (set_buffer (buffer (st_spool s1) @ encode_record crc payload)) s1"
  have smooth2: "smooth ?s2" using smooth1 by (simp add: smooth_def on_spool_def)
  obtain r3 s3 where flush: "flush_buf ?s2 = (r3, s3)" by fastforce
  have r3: "r3 = Ok ()" using succeedsD [OF succeeds_flush smooth2 flush] by auto
  have "live crc (N + 1) (insert payload X) s3" using endsD [OF push_flush_spec [OF s1(1) assms(3) s1(2)] flush] r3 by simp
  then have live: "live crc (N + 1) (insert payload X) (on_spool ?count s3)" by (simp add: live_def inv_counters)
  have "smooth s3" by (rule smooth_outside [OF smooth2 confinedD [OF confined_flush flush]])
  then have smooth3: "smooth (on_spool ?count s3)" by (simp add: smooth_def on_spool_def)
  have config: "sp_config (st_spool (on_spool ?count s3)) = sp_config (st_spool s)"
    using ensure_config [OF ensure] flush_config [OF flush] by simp
  have "spool_append crc payload s = enforce_capacity crc (on_spool ?count s3)"
    using assms(3) unfolding spool_append_def
    by (simp add: storable_def not_less try_io_Ok [of ensure_active_segment, OF ensure [unfolded r1]] push_record [OF s1(3,2)] try_io_Ok [of flush_buf, OF flush [unfolded r3]] try_io_modify)
  then show ?thesis using live smooth3 config by blast
qed

end
