(* ===== verification/Edge_Theorems.thy ===== *)
theory Edge_Theorems
  imports Edge_Delivery
begin

text \<open>
  The properties of the edge agent, on the laws of its spool, its sink and its process, with concrete
  runs as witnesses, and the situations in which the code does not do what its comments promise.
\<close>

section \<open>An example\<close>

definition charger_crc :: checksum where
  "charger_crc p = word_of_int (sum_list (map of_char p))"

definition charger_reading :: RawTelemetry where
  "charger_reading =
     \<lparr>rt_station_id = ''cp-1'', rt_connector_id = ''1'', rt_timestamp_ms = 1800000000000, rt_state = ''Charging'', rt_voltage = Fin 400,
      rt_current = Fin 100, rt_power_kw = Fin 40, rt_energy_kwh = Fin 12, rt_soc = Fin 55, rt_temperature_c = Fin 30\<rparr>"

definition charger_message :: ChargingTelemetry where
  "charger_message =
     \<lparr>ct_station_id = ''cp-1'', ct_connector_id = ''1'', ct_timestamp_ms = 1800000000000, ct_voltage = Fin 400, ct_current = Fin 100,
      ct_power_kw = Fin 40, ct_energy_kwh = Fin 12, ct_soc = Fin 55, ct_temperature_c = Fin 30, ct_state = CHARGING_STATE_CHARGING,
      ct_edge = Some \<lparr>em_edge_id = ''edge-1'', em_site_id = ''site-1'', em_received_at_ms = 1800000000000, em_sequence = 1,
        em_clock_sync = CLOCK_SYNC_SYNCHRONIZED\<rparr>\<rparr>"

definition charger_lib :: Libraries where
  "charger_lib =
     \<lparr>lb_crc = charger_crc, lb_parse = (\<lambda>raw. if raw = ''reading'' then Inr charger_reading else Inl ''malformed''),
      lb_encode = (\<lambda>m. if m = charger_message then ''telemetry'' else ''other'')\<rparr>"

definition charger_agent :: AgentConfig where
  "charger_agent =
     \<lparr>cf_nats_subject = ''t'', cf_credentials = False, cf_edge_id = ''edge-1'', cf_site_id = ''site-1'',
      cf_spool = \<lparr>sc_segment_bytes = 30, sc_max_total_bytes = 60\<rparr>, cf_batch_size = 2\<rparr>"

definition charger_now :: time where
  "charger_now = 1800000000000000000"

definition charger_factory :: Agent where
  "charger_factory = factory (\<lambda>n. Works) (\<lambda>n. True)"

definition charger_started :: Agent where
  "charger_started = start charger_lib charger_agent charger_factory"

definition charger_recorded :: Agent where
  "charger_recorded = main_receive charger_lib charger_agent charger_now ''reading'' charger_started"

lemma charger_start: "edge_step charger_lib charger_agent charger_factory charger_started" "ag_running charger_started"
proof -
  have "\<not> ag_running charger_factory" by code_simp
  then show "edge_step charger_lib charger_agent charger_factory charger_started" unfolding charger_started_def by (rule edge_step.starts)
  show "ag_running charger_started" by code_simp
qed

lemma charger_record:
  "\<exists>t. edge_step charger_lib charger_agent charger_started t \<and> edge_step charger_lib charger_agent t charger_recorded"
proof -
  let ?t = "charger_started\<lparr>ag_channel := ag_channel charger_started @ [''reading'']\<rparr>"
  have empty: "ag_channel charger_started = []" by code_simp
  have fits: "fits_spool charger_lib charger_agent charger_now ''reading'' charger_started" by code_simp
  have "edge_step charger_lib charger_agent charger_started ?t"
    by (rule edge_step.arrives) (simp_all add: charger_start(2) empty CHANNEL_CAPACITY_def)
  moreover have "edge_step charger_lib charger_agent ?t (main_receive charger_lib charger_agent charger_now ''reading'' (?t\<lparr>ag_channel := []\<rparr>))"
    by (rule edge_step.takes) (simp_all add: fits charger_start(2) empty)
  moreover have "?t\<lparr>ag_channel := []\<rparr> = charger_started" using empty by simp
  ultimately show ?thesis by (auto simp: charger_recorded_def)
qed

lemma charger_run: "(edge_step charger_lib charger_agent ^^ 3) charger_factory charger_recorded"
  using charger_start(1) charger_record by (auto simp: numeral_3_eq_3)

section \<open>Nothing that was accepted is lost\<close>

text \<open>
  Telemetry the edge agent accepted is never lost. Let anything happen to a charger, in any order:
  readings arrive, the spool is drained, the bus is down or loses messages, every call to the disk may
  fail or write short, the process is killed at any call or between two, and a supervisor starts it
  again. Then every reading whose \<open>enqueue\<close> returned success is stored on the bus under the device's
  subject, or was discarded by the spool's size ceiling, or lies on flash where the next start reads it.
  And a drain always returns. (A reading is taken while the writer's buffer has room for it, and segment
  numbers do not wrap.)
\<close>

theorem accepted_reading_is_never_lost:
  assumes "(edge_step lib config ^^ n) (factory faults stores) s" "n \<le> 2 ^ 64" "p \<in> set (ag_accepted s)"
  shows "((own_subject config, p) \<in> set (mc_bus s) \<or> p \<in> set (st_discarded s) \<or> p \<in> set (recoverable (lb_crc lib) (mc_files s))) \<and>
    (ag_running s \<longrightarrow> (\<exists>s'. main_drain lib config s = Some s'))"
proof -
  have inv: "agent_inv (lb_crc lib) (own_subject config) n s" by (rule edge_runs_inv [OF assms(1,2)])
  have "open_readings (own_subject config) s \<subseteq> set (recoverable (lb_crc lib) (mc_files s)) \<union> set (st_discarded s)"
    by (rule held_recoverable [OF agent_inv_held [OF inv] assms(2)])
  then show ?thesis using assms(3) drain_inv [OF inv _ assms(2)] by (auto simp: open_readings_def on_bus_def)
qed

text \<open>A process killed right after it recorded a reading.\<close>

theorem accepted_reading_is_never_lost_witness:
  "\<exists>s :: Agent. ag_accepted s = [''telemetry''] \<and> \<not> ag_running s \<and> mc_bus s = [] \<and> st_discarded s = [] \<and>
     ''telemetry'' \<in> set (recoverable (lb_crc charger_lib) (mc_files s))"
proof -
  let ?s = "process_exit charger_recorded"
  have state: "ag_running charger_recorded" "ag_accepted ?s = [''telemetry'']" "mc_bus ?s = []" "st_discarded ?s = []" "\<not> ag_running ?s"
    by code_simp+
  have "(edge_step charger_lib charger_agent ^^ 4) charger_factory ?s"
    using charger_run edge_step.killed [OF state(1)] by (auto simp: eval_nat_numeral)
  from accepted_reading_is_never_lost [OF this [unfolded charger_factory_def], of "''telemetry''"] show ?thesis
    using state(2-) by (intro exI [of _ ?s]) simp
qed

section \<open>Delivery\<close>



text \<open>No handler changes the fate of calls to come.\<close>

lemma receive_fate:
  "mc_faults (main_receive lib config now raw s) = mc_faults s" "mc_stores (main_receive lib config now raw s) = mc_stores s"
proof -
  let ?s = "on_agent_metrics (\<lambda>m. m\<lparr>am_received := am_received m + 1\<rparr>) s"
  obtain encoded s1 where accept: "accept lib config now raw ?s = (encoded, s1)" by fastforce
  obtain m q where s1: "s1 = ?s\<lparr>ag_metrics := m, ag_sequence := q\<rparr>" using accept_frame(1) [of lib config now raw ?s] accept by auto
  have "outside s1 s2" if "spool_append (lb_crc lib) p s1 = (r, s2)" for p r s2 using confinedD [OF confined_append that] .
  then have "mc_faults s2 = mc_faults s \<and> mc_stores s2 = mc_stores s" if "spool_append (lb_crc lib) p s1 = (r, s2)" for p r s2
    using that by (simp add: outside_def s1 on_agent_metrics_def)
  then show "mc_faults (main_receive lib config now raw s) = mc_faults s" "mc_stores (main_receive lib config now raw s) = mc_stores s"
    using accept by (auto simp: main_receive_def enqueue_def s1 on_agent_metrics_def process_exit_def split: option.splits prod.splits reply.splits)
qed

lemma start_fate: "mc_faults (start lib config s) = mc_faults s" "mc_stores (start lib config s) = mc_stores s"
proof -
  let ?s = "s\<lparr>ag_running := True, ag_connected := False, ag_metrics := default_metrics, ag_sequence := 0\<rparr>"
  obtain r s1 where opened: "spool_open (lb_crc lib) (cf_spool config) ?s = (r, s1)" by fastforce
  obtain r2 s2 where connect: "connect (cf_credentials config) s1 = (r2, s2)" by fastforce
  have "outside ?s s1" "network_only [] s1 s2" using confinedD [OF confined_open opened] endsD [OF connect_ends connect] by blast+
  then have "mc_faults s1 = mc_faults s \<and> mc_stores s1 = mc_stores s" "mc_faults s2 = mc_faults s \<and> mc_stores s2 = mc_stores s"
    by (simp_all add: outside_def network_only_def)
  then show "mc_faults (start lib config s) = mc_faults s" "mc_stores (start lib config s) = mc_stores s"
    using opened connect by (auto simp: start_def process_exit_def split: reply.splits sum.splits)
qed


section \<open>The spool as a queue\<close>

text \<open>
  The spool refines a queue. While its directory and its memory fit together, a batch that is read
  is the front of the queue and reading changes nothing; committing the batch removes exactly it,
  whatever the disk does; an append that succeeds puts its payload at the end, and all it may take away
  in exchange is a part of the front, which the ceiling discarded; and a restart after a crash gives
  back the queue, with at most records in front of it that had been delivered but not committed to disk.
\<close>

theorem spool_refines_queue:
  fixes s s' t :: "'z Spooled_scheme"
  assumes "spool_inv crc N (mc_files s) (st_spool s)" "N + 1 \<le> 2 ^ 64"
  defines "q \<equiv> queue crc (mc_files s) (st_spool s)"
  shows "(read_batch crc n s = (Ok (rs, c), s') \<longrightarrow>
       rs = take n q \<and> queue crc (mc_files s') (st_spool s') = q \<and>
       (spool_commit crc c s' = (r, t) \<longrightarrow> queue crc (mc_files t) (st_spool t) = drop n q \<and> spool_inv crc N (mc_files t) (st_spool t))) \<and>
    (storable p \<and> has_room p (st_spool s) \<and> buffer (st_spool s) = [] \<and> spool_append crc p s = (Ok (), s') \<longrightarrow>
       (\<exists>zs. q @ [p] = zs @ queue crc (mc_files s') (st_spool s')) \<and>
       set q \<union> {p} \<subseteq> set (queue crc (mc_files s') (st_spool s')) \<union> set (st_discarded s') \<and>
       spool_inv crc (N + 1) (mc_files s') (st_spool s')) \<and>
    (mc_files t = mc_files s \<and> spool_open crc config t = (Ok (), s') \<longrightarrow>
       (\<exists>xs. queue crc (mc_files s') (st_spool s') = xs @ q) \<and> spool_inv crc N (mc_files s') (st_spool s'))"
proof (intro conjI impI)
  have live: "live crc N (set q) s" "live crc N {} s" using assms(1) by (simp_all add: live_def q_def)
  have N: "N \<le> 2 ^ 64" using assms(2) by simp
  { assume read: "read_batch crc n s = (Ok (rs, c), s')"
    note batch = endsD [OF read_batch_spec [OF live(2)] read]
    then have st: "steady s s'" by blast
    show "rs = take n q" using batch by (simp add: q_def)
    show "queue crc (mc_files s') (st_spool s') = q" using live_steady(2) [OF st] by (simp add: q_def)
    assume commit: "spool_commit crc c s' = (r, t)"
    have "ahead crc s' rs c" by (rule ahead_steady [of crc s]) (use batch steadyD [OF st] in blast)+
    moreover have "live crc N {} s'" using live_steady(1) [OF st] live(2) by simp
    ultimately have "live crc N ({} - set rs) t" "rs @ queue crc (mc_files t) (st_spool t) = queue crc (mc_files s') (st_spool s')"
      using endsD [OF commit_spec [OF _ N] commit] by blast+
    then show "queue crc (mc_files t) (st_spool t) = drop n q" "spool_inv crc N (mc_files t) (st_spool t)"
      using \<open>rs = take n q\<close> \<open>queue crc (mc_files s') (st_spool s') = q\<close> append_take_drop_id [of n q] same_append_eq by (metis, simp add: live_def)
  next
    assume *: "storable p \<and> has_room p (st_spool s) \<and> buffer (st_spool s) = [] \<and> spool_append crc p s = (Ok (), s')"
    note appended = endsD [OF append_spec [OF live(1) assms(2)], of p "Ok ()" s']
    show "\<exists>zs. q @ [p] = zs @ queue crc (mc_files s') (st_spool s')" using appended * by (simp add: q_def)
    show "set q \<union> {p} \<subseteq> set (queue crc (mc_files s') (st_spool s')) \<union> set (st_discarded s')"
      "spool_inv crc (N + 1) (mc_files s') (st_spool s')" using appended * by (simp_all add: live_def)
  next
    assume *: "mc_files t = mc_files s \<and> spool_open crc config t = (Ok (), s')"
    have "spool_inv crc N (mc_files t) (st_spool s)" using assms(1) * by simp
    from endsD [OF open_spec [OF this N, of config], of "Ok ()" s'] *
    show "\<exists>xs. queue crc (mc_files s') (st_spool s') = xs @ q" "spool_inv crc N (mc_files s') (st_spool s')"
      by (auto simp: rebuilt_def q_def)
  }
qed

text \<open>The spool of the example: read, committed, appended to, and opened again.\<close>

lemma charger_spool_inv: "spool_inv charger_crc 3 (mc_files charger_recorded) (st_spool charger_recorded)"
proof -
  have "ag_running charger_recorded" by code_simp
  then show ?thesis using edge_runs_inv [OF charger_run [unfolded charger_factory_def]]
    by (simp add: agent_inv_def live_def charger_lib_def)
qed

theorem spool_refines_queue_witness:
  "fst (read_batch charger_crc 1 charger_recorded) = Ok (take 1 [''telemetry''], \<lparr>cu_segment = 0, cu_offset = 17\<rparr>) \<and>
   (\<exists>xs. queue charger_crc (mc_files (snd (spool_open charger_crc (cf_spool charger_agent) charger_recorded)))
      (st_spool (snd (spool_open charger_crc (cf_spool charger_agent) charger_recorded))) = xs @ [''telemetry''])"
proof -
  have reply: "fst (read_batch charger_crc 1 charger_recorded) = Ok (take 1 [''telemetry''], \<lparr>cu_segment = 0, cu_offset = 17\<rparr>)"
    "fst (spool_open charger_crc (cf_spool charger_agent) charger_recorded) = Ok ()"
    "queue charger_crc (mc_files charger_recorded) (st_spool charger_recorded) = [''telemetry'']" by code_simp+
  define s' where "s' = snd (spool_open charger_crc (cf_spool charger_agent) charger_recorded)"
  have "spool_open charger_crc (cf_spool charger_agent) charger_recorded = (Ok (), s')" using reply(2) unfolding s'_def by (metis prod.collapse)
  then have "\<exists>xs. queue charger_crc (mc_files s') (st_spool s') = xs @ [''telemetry'']"
    using spool_refines_queue [OF charger_spool_inv, where t = charger_recorded and config = "cf_spool charger_agent"] reply(3) by simp
  then show ?thesis using reply(1) unfolding s'_def by blast
qed

section \<open>The ceiling\<close>

text \<open>
  The spool stays bounded. On a disk that works an append always succeeds, and afterwards the
  segments on flash take no more than the configured total, or there is only the segment being written.
\<close>

theorem spool_within_ceiling:
  fixes s :: "'z Spooled_scheme"
  assumes "spool_inv crc N (mc_files s) (st_spool s)" "N + 1 \<le> 2 ^ 64" "smooth s" "storable p" "has_room p (st_spool s)"
  shows "\<exists>s'. spool_append crc p s = (Ok (), s') \<and>
    (disk_bytes (mc_files s') (sp_segments (st_spool s')) \<le> sc_max_total_bytes (sp_config (st_spool s)) \<or>
     length (sp_segments (st_spool s')) \<le> 1)"
proof -
  have "live crc N {} s" using assms(1) by (simp add: live_def)
  then obtain t where t: "live crc (N + 1) (insert p {}) t" "smooth t" "sp_config (st_spool t) = sp_config (st_spool s)"
    "spool_append crc p s = enforce_capacity crc t" using append_works [OF _ assms(2,4,5,3)] by blast
  show ?thesis using enforce_capacity_bound [OF t(1) assms(2) t(2)] t(3,4) by (auto simp: ends_def split: prod.splits)
qed

theorem spool_within_ceiling_witness:
  "\<exists>s'. spool_append charger_crc ''more'' charger_recorded = (Ok (), s') \<and>
    (disk_bytes (mc_files s') (sp_segments (st_spool s')) \<le> 60 \<or> length (sp_segments (st_spool s')) \<le> 1)"
proof -
  have "smooth charger_recorded"
    by (simp add: smooth_def charger_recorded_def charger_started_def receive_fate start_fate charger_factory_def factory_def)
  moreover have "has_room ''more'' (st_spool charger_recorded)" "sc_max_total_bytes (sp_config (st_spool charger_recorded)) = 60" by code_simp+
  ultimately show ?thesis using spool_within_ceiling [OF charger_spool_inv, of "''more''"] by (simp add: storable_def MAX_RECORD_BYTES_def)
qed

section \<open>The log\<close>

text \<open>
  What was written is what is read, also when the last record was cut short. A file that holds
  records followed by any proper beginning of another yields exactly those records and reports exactly
  their length as valid, whatever the checksum function is; and the record is there once it is complete.
\<close>

theorem torn_log_reads_back:
  assumes "list_all storable ps" "storable p" "k < length (encode_record crc p)"
  shows "map fst (scan_records crc (encode_log crc ps @ take k (encode_record crc p))) = ps \<and>
    sum_list (map snd (scan_records crc (encode_log crc ps @ take k (encode_record crc p)))) = length (encode_log crc ps) \<and>
    map fst (scan_records crc (encode_log crc ps @ encode_record crc p)) = ps @ [p]"
proof -
  have "encode_record crc p = take k (encode_record crc p) @ drop k (encode_record crc p)" "drop k (encode_record crc p) \<noteq> []"
    using assms(3) by simp_all
  from cut_unreadable [OF assms(2) this] have torn: "payloads crc (encode_log crc ps @ take k (encode_record crc p)) = ps"
    by (simp add: payloads_log [OF assms(1)] unreadable_def)
  have "payloads crc (encode_log crc ps @ encode_record crc p) = ps @ [p]"
    using payloads_Cons [OF assms(2), of crc "[]"] by (simp add: payloads_log [OF assms(1)])
  then show ?thesis using torn scan_bytes [of crc "encode_log crc ps @ take k (encode_record crc p)"] by (simp add: payloads_def)
qed

theorem torn_log_reads_back_witness:
  "map fst (scan_records charger_crc (encode_log charger_crc [''first'', ''second''] @ take 11 (encode_record charger_crc ''third''))) = [''first'', ''second'']"
  using torn_log_reads_back [of "[''first'', ''second'']" "''third''" 11 charger_crc]
  by (simp add: storable_def MAX_RECORD_BYTES_def RECORD_HEADER_BYTES_def)

end
