(* ===== verification/Edge_Readings.thy ===== *)
theory Edge_Readings
  imports Edge_Theorems Ingest
begin

text \<open>
  What the edge lets through and what the cloud makes of it, and the situations in which the agent's code
  falls short of its comments.
\<close>

section \<open>Validation\<close>

lemma own_subject_verified:
  "device_subject base identity = Inr subject \<Longrightarrow> tm_EdgeID t = identity \<Longrightarrow> VerifyTelemetryOrigin base required subject t = None"
  using device_subject_Inr [of base identity subject] TrimPrefix_append [of "base @ ''.''" identity] HasPrefix_append [of "base @ ''.''" identity]
  by (auto simp: VerifyTelemetryOrigin_def)

text \<open>
  The edge lets exactly the plausible readings through: named station, connector, edge and site of at
  most 128 bytes, positive instants, every quantity finite and inside its range, and one of the five
  states. What it lets through the control plane decodes into a reading with the same figures and the
  edge's provenance, and under the subject the agent computes from its identity the origin check
  accepts it, with or without required identities.
\<close>

theorem edge_and_cloud_agree_on_readings:
  "((\<exists>m. normalize_reading raw context = Inr m) \<longleftrightarrow> acceptable raw context) \<and>
   (normalize_reading raw context = Inr m \<and> unmarshal payload = Inr m \<longrightarrow>
      (\<exists>t. DecodeChargingTelemetry unmarshal payload ingestedAt = Inr t \<and> carries raw context t \<and>
         (device_subject base (ec_edge_id context) = Inr subject \<longrightarrow> VerifyTelemetryOrigin base required subject t = None)))"
proof (intro conjI impI)
  show "(\<exists>m. normalize_reading raw context = Inr m) \<longleftrightarrow> acceptable raw context"
  proof
    assume ok: "acceptable raw context"
    then have "map_of state_names (rt_state raw) \<noteq> None" by (auto simp: acceptable_def state_names_def)
    then obtain state where "state_from_str (rt_state raw) = Inr state"
      using state_from_str_cases [of "rt_state raw"] by (auto split: sum.splits)
    then show "\<exists>m. normalize_reading raw context = Inr m" using ok by (auto simp: normalize_Inr)
  qed (auto simp: normalize_Inr)
  assume "normalize_reading raw context = Inr m \<and> unmarshal payload = Inr m"
  then obtain t where "DecodeChargingTelemetry unmarshal payload ingestedAt = Inr t" "carries raw context t"
    using decode_normalized [of raw "context" m unmarshal payload ingestedAt] by blast
  then show "\<exists>t. DecodeChargingTelemetry unmarshal payload ingestedAt = Inr t \<and> carries raw context t \<and>
       (device_subject base (ec_edge_id context) = Inr subject \<longrightarrow> VerifyTelemetryOrigin base required subject t = None)"
    using own_subject_verified [of base "ec_edge_id context" subject t required] by (auto simp: carries_def)
qed

definition charger_context :: EdgeContext where
  "charger_context = \<lparr>ec_edge_id = ''edge-1'', ec_site_id = ''site-1'', ec_received_at_ms = 1800000000000, ec_sequence = 1, ec_clock = Synchronized\<rparr>"

lemma charger_normalized: "normalize_reading charger_reading charger_context = Inr charger_message"
  by code_simp

theorem edge_and_cloud_agree_on_readings_witness:
  "\<exists>t. DecodeChargingTelemetry (\<lambda>_. Inr charger_message) ''telemetry'' 0 = Inr t \<and> tm_PowerKW t = Fin 40 \<and> tm_EdgeID t = ''edge-1'' \<and>
     VerifyTelemetryOrigin ''t'' True ''t.edge-1'' t = None"
proof -
  have subject: "device_subject ''t'' ''edge-1'' = Inr ''t.edge-1''" by code_simp
  have fields: "rt_power_kw charger_reading = Fin 40" "ec_edge_id charger_context = ''edge-1''" by (simp_all add: charger_reading_def charger_context_def)
  obtain t where "DecodeChargingTelemetry (\<lambda>_. Inr charger_message) ''telemetry'' 0 = Inr t" "carries charger_reading charger_context t"
    "VerifyTelemetryOrigin ''t'' True ''t.edge-1'' t = None"
    using edge_and_cloud_agree_on_readings [of charger_reading charger_context charger_message "\<lambda>_. Inr charger_message" "''telemetry''" 0 "''t''" "''t.edge-1''" True]
      charger_normalized subject fields(2) by auto
  then show ?thesis using fields by (intro exI [of _ t]) (simp add: carries_def)
qed

section \<open>Where the code falls short\<close>

lemma flush_fails:
  assumes "fault_now s = Fails 0" "buffer (st_spool s) \<noteq> []" "sp_active (st_spool s) \<noteq> None"
  shows "\<exists>s'. flush_buf s = (Err IoError, s') \<and> buffer (st_spool s') = buffer (st_spool s)"
  using assms by (auto simp: flush_buf_def write_all_def syscall_def written_def called_def)

text \<open>
  An append whose flush fails because the buffer is full leaves the header of its record in the buffer
  without the payload. Whatever is appended later lies behind it.
\<close>

theorem failed_append_leaves_a_header:
  assumes "storable p" "sp_active (st_spool s) = Some a" "ac_bytes a < sc_segment_bytes (sp_config (st_spool s))" "fault_now s = Fails 0"
    and "int (length (ac_buffer a) + RECORD_HEADER_BYTES) < BUFFER_CAPACITY" "int (length p) < BUFFER_CAPACITY"
    and "BUFFER_CAPACITY < int (length (ac_buffer a) + RECORD_HEADER_BYTES + length p)"
  shows "\<exists>s'. spool_append crc p s = (Err IoError, s') \<and>
    buffer (st_spool s') = ac_buffer a @ take RECORD_HEADER_BYTES (encode_record crc p)"
proof -
  let ?push = "\<lambda>bs sp. set_buffer (buffer sp @ bs) sp"
  let ?len = "to_le_bytes (int (length p))" and ?crc = "to_le_bytes (uint (crc p))"
  let ?s1 = "on_spool (?push ?len) s" let ?s2 = "on_spool (?push ?crc) ?s1"
  have buf: "buffer (st_spool s) = ac_buffer a" using assms(2) by (simp add: buffer_def)
  have buf2: "buffer (st_spool ?s2) = ac_buffer a @ ?len @ ?crc" using assms(2) buf by simp
  have active: "ensure_active_segment s = (Ok (), s)" using assms(2,3) by (simp add: ensure_active_segment_def)
  have first: "buf_write_all ?len s = (Ok (), ?s1)" by (rule buf_write_room) (use assms(5) buf in \<open>simp add: RECORD_HEADER_BYTES_def\<close>)
  have second: "buf_write_all ?crc ?s1 = (Ok (), ?s2)"
    by (rule buf_write_room) (use assms(2,5) buf in \<open>simp add: RECORD_HEADER_BYTES_def\<close>)
  have "fault_now ?s2 = Fails 0" using assms(4) by (simp add: fault_now_def on_spool_def)
  moreover have "buffer (st_spool ?s2) \<noteq> []" "sp_active (st_spool ?s2) \<noteq> None"
    unfolding buf2 using assms(2) by (auto simp: to_le_bytes_def)
  ultimately obtain s' where flush: "flush_buf ?s2 = (Err IoError, s')" "buffer (st_spool s') = buffer (st_spool ?s2)"
    using flush_fails by blast
  have "buf_write_all p ?s2 = (Err IoError, s')"
    using flush(1) buf2 assms(7) by (simp add: buf_write_all_def Let_def try_io_def RECORD_HEADER_BYTES_def)
  then have "spool_append crc p s = (Err IoError, s')"
    using assms(1) active first second by (simp add: spool_append_def storable_def not_less try_io_def)
  then show ?thesis using flush(2) buf2 by (simp add: encode_record_def RECORD_HEADER_BYTES_def)
qed

theorem record_behind_a_header_is_not_read:
  "map fst (scan_records charger_crc (take 8 (encode_record charger_crc ''lost'') @ encode_record charger_crc ''stored'')) = []"
  by code_simp

text \<open>
  A directory after a power cut that lost the unsynced end of the newest segment but kept the cursor: the
  spool opens, the append succeeds, and the record is never read.
\<close>

theorem reading_behind_the_cursor_is_never_delivered:
  "(case spool_open charger_crc (cf_spool charger_agent)
          (charger_factory\<lparr>mc_files := [(segment_path 0, []), (CURSOR_FILE, ''0 17'')]\<rparr>) of
      (r, s) \<Rightarrow> r = Ok () \<and>
        (case spool_append charger_crc ''telemetry'' s of
           (r', s') \<Rightarrow> r' = Ok () \<and> fst (read_batch charger_crc 5 s') = Ok ([], \<lparr>cu_segment = 0, cu_offset = 17\<rparr>)))"
  by code_simp

text \<open>
  The drop counter also counts records that were delivered: the one record of the removed segment lies
  before the cursor.
\<close>

theorem dropped_records_counts_delivered_ones:
  "(case remove_segment charger_crc 0 True
          (charger_recorded\<lparr>st_spool := (st_spool charger_recorded)\<lparr>sp_cursor := \<lparr>cu_segment = 0, cu_offset = 17\<rparr>\<rparr>\<rparr>) of
      (r, s) \<Rightarrow> r = Ok () \<and> sp_dropped_records (st_spool s) = 1 \<and> st_discarded s = [])"
  by code_simp

text \<open>Every read of the same torn tail counts as another corrupt record.\<close>

theorem corrupt_records_counts_every_read:
  "(case read_batch charger_crc 5 (charger_recorded\<lparr>mc_files := [(segment_path 0, replicate 9 (CHR 0x00))]\<rparr>) of
      (_, s) \<Rightarrow> sp_corrupt_records (st_spool s) = 1 \<and> sp_corrupt_records (st_spool (snd (read_batch charger_crc 5 s))) = 2)"
  by code_simp

text \<open>A shutdown drains the spool and forgets the readings that wait in the channel.\<close>

theorem shutdown_forgets_the_channel:
  "\<exists>s s'. edge_step charger_lib charger_agent s s' \<and> ag_channel s = [''reading''] \<and> \<not> ag_running s' \<and> ag_channel s' = [] \<and>
     ag_accepted s' = [] \<and> mc_bus s' = [] \<and> recoverable charger_crc (mc_files s') = []"
proof -
  let ?s = "charger_started\<lparr>ag_channel := [''reading'']\<rparr>"
  let ?s' = "the (main_drain charger_lib charger_agent ?s)"
  have "ag_running ?s" "main_drain charger_lib charger_agent ?s \<noteq> None" by code_simp+
  then have "edge_step charger_lib charger_agent ?s (process_exit ?s')" by (intro edge_step.returns) auto
  moreover have "ag_accepted (process_exit ?s') = []" "mc_bus (process_exit ?s') = []" "recoverable charger_crc (mc_files (process_exit ?s')) = []"
    by code_simp+
  ultimately show ?thesis by (intro exI [of _ ?s] exI [of _ "process_exit ?s'"]) (simp add: process_exit_def)
qed

end
