(* ===== verification/Store_Theorems.thy ===== *)
theory Store_Theorems
  imports Query_Laws
begin

text \<open>
  What the repository guarantees: batches are atomic and keep the tables consistent, a session's
  bill does not depend on delivery, and each query returns what its name says.
\<close>

section \<open>Example values\<close>

text \<open>A server that accepts everything, and the two ends of one charging session.\<close>

definition example_server :: Server where
  "example_server = \<lparr>sv_begin = None, sv_refuse = (\<lambda>_. None), sv_close = None, sv_commit = None, sv_now = 0\<rparr>"

definition example_event :: "string \<Rightarrow> int \<Rightarrow> int \<Rightarrow> SessionEvent" where
  "example_event type seconds register =
     \<lparr>se_SessionID = ''s1'', se_StationID = ''A'', se_ConnectorID = ''1'', se_SiteID = ''site'', se_Type = type,
      se_OccurredAt = seconds * second_ns, se_IngestedAt = 0, se_TokenType = ''RFID'', se_TokenHash = [],
      se_AuthorizationRef = [], se_EnergyRegisterWh = Some register, se_StopReason = [],
      se_SourceProtocol = ''OCPP_1_6'', se_TransactionReference = ''1''\<rparr>"

definition example_telemetry :: Telemetry where
  "example_telemetry =
     \<lparr>tm_StationID = ''A'', tm_ConnectorID = ''1'', tm_Timestamp = UnixMilli 1000, tm_Voltage = Fin 230,
      tm_Current = Fin 16, tm_PowerKW = Fin 11, tm_EnergyKWh = Fin 3, tm_SOC = Fin 50, tm_TemperatureC = Fin 20,
      tm_State = ''CHARGING'', tm_EdgeID = ''edge'', tm_SiteID = ''site'', tm_ReceivedAt = UnixMilli 1001,
      tm_EdgeSequence = - 1, tm_ClockSync = ClockSyncSynchronized, tm_IngestedAt = 1500000123\<rparr>"

section \<open>Reading a session back\<close>

lemma find_row: "(case filter (\<lambda>r. fst r = k) t of [] \<Rightarrow> None | r # _ \<Rightarrow> Some r) = map_option (Pair k) (map_of t k)"
  by (induction t) auto

lemma GetSession_eq: "GetSession None sid db = Inr (map_option (\<lambda>row. scanSession (sid, row)) (map_of (db_sessions db) sid))"
  by (simp add: GetSession_def query_row_def find_row option.map_comp comp_def)

lemma project_None: "fold (project now) es r = None \<longleftrightarrow> r = None \<and> es = []"
  by (induction es arbitrary: r) (auto simp: project_def)

lemma history_row:
  "e \<in> set (events_of sid (stored h)) \<Longrightarrow> map_of (db_sessions (persist_history h db)) sid \<noteq> None"
proof (induction h arbitrary: db)
  case (Cons x h)
  obtain server es where x: "x = (server, es)" by (cases x) auto
  let ?db = "snd (PersistSessionEventBatch server es db)"
  have keep: "map_of (db_sessions db) sid \<noteq> None \<Longrightarrow> map_of (db_sessions (persist_history h' db)) sid \<noteq> None" for h' db
  proof (induction h' arbitrary: db)
    case (Cons y h')
    let ?db = "snd (PersistSessionEventBatch (fst y) (snd y) db)"
    have "map_of (db_sessions ?db) sid \<noteq> None" using Cons.prems by (simp only: persist_session_projection project_None split: if_split) simp
    then show ?case using Cons.IH [of ?db] by (simp add: persist_history_def case_prod_beta)
  qed (simp add: persist_history_def)
  have "map_of (db_sessions ?db) sid \<noteq> None" if "commits server (session_batch es)" "e \<in> set (events_of sid es)"
    using that by (auto simp: persist_session_projection project_None)
  then show ?case
    using Cons.prems Cons.IH [of ?db] keep [of ?db h]
    by (auto simp: x persist_history_def stored_def events_of_def split: if_splits)
qed (simp add: stored_def events_of_def)

text \<open>The boundaries and the two readings, whatever the order.\<close>

lemma bill_fields:
  "bi_started_at (bill e b) = COALESCE (bi_started_at b) (if se_Type e = SessionStarted then Some (pg_time (se_OccurredAt e)) else None)"
  "bi_stopped_at (bill e b) = COALESCE (bi_stopped_at b) (if se_Type e = SessionStopped then Some (pg_time (se_OccurredAt e)) else None)"
  "bi_meter_start_wh (bill e b) = COALESCE (bi_meter_start_wh b) (if se_Type e = SessionStarted then se_EnergyRegisterWh e else None)"
  "bi_meter_stop_wh (bill e b) = COALESCE (bi_meter_stop_wh b) (if se_Type e = SessionStopped then se_EnergyRegisterWh e else None)"
  by (simp_all add: bill_def Let_def session_columns_defs)

lemma COALESCE_assoc: "COALESCE (COALESCE a b) c = COALESCE a (COALESCE b c)"
  by (simp add: COALESCE_def split: option.splits)

lemma fold_bill_started:
  "\<forall>e\<in>set es. consistent start stop e \<Longrightarrow> bi_started_at (fold bill es b) =
     COALESCE (bi_started_at b) (if \<exists>e\<in>set es. se_Type e = SessionStarted then Some (pg_time (fst start)) else None)"
  by (induction es arbitrary: b) (auto simp: bill_fields consistent_def COALESCE_assoc)

lemma fold_bill_stopped:
  "\<forall>e\<in>set es. consistent start stop e \<Longrightarrow> bi_stopped_at (fold bill es b) =
     COALESCE (bi_stopped_at b) (if \<exists>e\<in>set es. se_Type e = SessionStopped then Some (pg_time (fst stop)) else None)"
  by (induction es arbitrary: b) (auto simp: bill_fields consistent_def COALESCE_assoc)

lemma fold_bill_meter_start:
  "\<forall>e\<in>set es. consistent start stop e \<Longrightarrow> bi_meter_start_wh (fold bill es b) =
     COALESCE (bi_meter_start_wh b) (if \<exists>e\<in>set es. se_Type e = SessionStarted then snd start else None)"
  by (induction es arbitrary: b) (auto simp: bill_fields consistent_def COALESCE_assoc)

lemma fold_bill_meter_stop:
  "\<forall>e\<in>set es. consistent start stop e \<Longrightarrow> bi_meter_stop_wh (fold bill es b) =
     COALESCE (bi_meter_stop_wh b) (if \<exists>e\<in>set es. se_Type e = SessionStopped then snd stop else None)"
  by (induction es arbitrary: b) (auto simp: bill_fields consistent_def COALESCE_assoc)

text \<open>The row of a session whose start and stop are both stored.\<close>

lemma history_boundaries:
  assumes "map_of (db_sessions db) sid = None"
    and "\<forall>e\<in>set (events_of sid (stored h)). consistent (started, Some first) (stopped, Some final) e"
    and "\<exists>e\<in>set (events_of sid (stored h)). se_Type e = SessionStarted"
    and "\<exists>e\<in>set (events_of sid (stored h)). se_Type e = SessionStopped"
  obtains row where "map_of (db_sessions (persist_history h db)) sid = Some row"
    "sw_started_at row = Some (pg_time started)" "sw_stopped_at row = Some (pg_time stopped)"
    "sw_meter_start_wh row = Some first" "sw_meter_stop_wh row = Some final"
proof -
  let ?b = "fold bill (events_of sid (stored h)) (billing_of None)"
  obtain row where row: "map_of (db_sessions (persist_history h db)) sid = Some row"
    using assms(3) history_row by blast
  have b: "billing_of (Some row) = ?b" using history_billing [of h db sid] row assms(1) by simp
  have none: "bi_started_at (billing_of None) = None" "bi_stopped_at (billing_of None) = None"
    "bi_meter_start_wh (billing_of None) = None" "bi_meter_stop_wh (billing_of None) = None"
    by (simp_all add: billing_of_def)
  have "sw_started_at row = Some (pg_time started) \<and> sw_stopped_at row = Some (pg_time stopped) \<and>
    sw_meter_start_wh row = Some first \<and> sw_meter_stop_wh row = Some final"
    using fold_bill_started [OF assms(2), of "billing_of None"] fold_bill_stopped [OF assms(2), of "billing_of None"]
      fold_bill_meter_start [OF assms(2), of "billing_of None"] fold_bill_meter_stop [OF assms(2), of "billing_of None"]
      assms(3,4) none unfolding b [symmetric] by (simp add: billing_of_def)
  then show ?thesis using row that by blast
qed

section \<open>Properties\<close>

lemma persist_effect:
  "snd (PersistTelemetryBatch server ts db) =
     (if commits server (telemetry_batch ts) then store_batch telemetry_batch server ts db else db)"
  "snd (PersistEnergyObservationBatch server os db) =
     (if commits server (observation_batch os) then store_batch observation_batch server os db else db)"
  "snd (PersistSessionEventBatch server es db) =
     (if commits server (session_batch es) then store_batch session_batch server es db else db)"
proof -
  have "snd (if xs = [] then (None, db) else inTransaction server (execBatch server (batch xs) label) db) =
      (if commits server (batch xs) then store_batch batch server xs db else db)"
    if ok: "\<exists>db'. apply_all (sv_now server) (batch xs) db = Inr db'" and nil: "batch [] = []"
    for batch :: "'x list \<Rightarrow> SQL list" and xs label
  proof -
    obtain db' where "apply_all (sv_now server) (batch xs) db = Inr db'" using ok by blast
    then show ?thesis using nil by (cases "xs = []") (simp_all add: transaction_effect store_batch_def)
  qed
  note eff = this
  show "snd (PersistTelemetryBatch server ts db) =
      (if commits server (telemetry_batch ts) then store_batch telemetry_batch server ts db else db)"
    unfolding PersistTelemetryBatch_def by (rule eff) (simp_all add: telemetry_batch_ok, simp add: telemetry_batch_def)
  show "snd (PersistEnergyObservationBatch server os db) =
      (if commits server (observation_batch os) then store_batch observation_batch server os db else db)"
    unfolding PersistEnergyObservationBatch_def by (rule eff) (simp_all add: observation_batch_ok, simp add: observation_batch_def)
  show "snd (PersistSessionEventBatch server es db) =
      (if commits server (session_batch es) then store_batch session_batch server es db else db)"
    unfolding PersistSessionEventBatch_def by (rule eff) (simp_all add: session_batch_ok, simp add: session_batch_def)
qed

lemma persist_reports:
  "fst (PersistTelemetryBatch server ts db) = None \<longleftrightarrow> ts = [] \<or> accepts server (telemetry_batch ts)"
  "fst (PersistEnergyObservationBatch server os db) = None \<longleftrightarrow> os = [] \<or> accepts server (observation_batch os)"
  "fst (PersistSessionEventBatch server es db) = None \<longleftrightarrow> es = [] \<or> accepts server (session_batch es)"
  by (simp_all add: persist_defs transaction_accepts [OF telemetry_batch_ok] transaction_accepts [OF observation_batch_ok]
      transaction_accepts [OF session_batch_ok])

text \<open>
  C16. A batch is all or nothing. It reports success exactly when the server answers every step, and is
  then stored as a whole; a report of failure means that nothing of it took effect, except when the
  server committed and only its answer was lost, where all of it did. The statements the code queues
  never violate a key or a foreign key.
\<close>

theorem persist_all_or_nothing:
  "(fst (PersistTelemetryBatch server ts db) = None \<longleftrightarrow> ts = [] \<or> accepts server (telemetry_batch ts)) \<and>
   snd (PersistTelemetryBatch server ts db) =
     (if commits server (telemetry_batch ts) then store_batch telemetry_batch server ts db else db) \<and>
   (fst (PersistEnergyObservationBatch server os db) = None \<longleftrightarrow> os = [] \<or> accepts server (observation_batch os)) \<and>
   snd (PersistEnergyObservationBatch server os db) =
     (if commits server (observation_batch os) then store_batch observation_batch server os db else db) \<and>
   (fst (PersistSessionEventBatch server es db) = None \<longleftrightarrow> es = [] \<or> accepts server (session_batch es)) \<and>
   snd (PersistSessionEventBatch server es db) =
     (if commits server (session_batch es) then store_batch session_batch server es db else db) \<and>
   (\<exists>db'. apply_all (sv_now server) (telemetry_batch ts) db = Inr db') \<and>
   (\<exists>db'. apply_all (sv_now server) (observation_batch os) db = Inr db') \<and>
   (\<exists>db'. apply_all (sv_now server) (session_batch es) db = Inr db')"
  by (intro conjI persist_reports persist_effect telemetry_batch_ok observation_batch_ok session_batch_ok)

text \<open>
  C17. Every write keeps the tables well formed: no duplicate keys, serial ids strictly increasing,
  every connector and sample refers to a known station and every observation to a known site.
\<close>

theorem persist_keeps_tables:
  assumes "db_wf db"
  shows "db_wf (snd (PersistTelemetryBatch server ts db)) \<and>
    db_wf (snd (PersistEnergyObservationBatch server os db)) \<and>
    db_wf (snd (PersistSessionEventBatch server es db))"
  using assms telemetry_persister.persist_inv energy_persister.persist_inv session_persister.persist_inv
  by (metis prod.collapse)

theorem persist_keeps_tables_witness:
  "db_wf (snd (PersistTelemetryBatch example_server [example_telemetry] empty_db)) \<and>
   db_telemetry (snd (PersistTelemetryBatch example_server [example_telemetry] empty_db)) \<noteq> []"
proof -
  have "db_telemetry (snd (PersistTelemetryBatch example_server [example_telemetry] empty_db)) \<noteq> []" by code_simp
  then show ?thesis using persist_keeps_tables [OF empty_db_wf, of example_server "[example_telemetry]" "[]" "[]"] by blast
qed

text \<open>
  C18. A batch of session events implements the abstract projection: the row of a session afterwards
  is its row before with the session's events merged in order, and other sessions are untouched.
\<close>

theorem session_upserts_refine_projection:
  "map_of (db_sessions (snd (PersistSessionEventBatch server es db))) sid =
     (if commits server (session_batch es)
      then fold (project (sv_now server)) (events_of sid es) (map_of (db_sessions db) sid)
      else map_of (db_sessions db) sid)"
  by (rule persist_session_projection)

text \<open>
  C12. Redelivery and reordering are harmless for billing. Two histories of batches that store the
  same events of a session, in any order, split over any batches, with any repetitions and failed
  attempts between them, leave the same boundaries and meter readings, as long as the session's
  start events agree with each other and its stop events agree with each other.
\<close>

theorem session_billing_delivery_free:
  assumes "\<forall>e\<in>set (events_of sid (stored h)). consistent start stop e"
    and "set (events_of sid (stored h')) = set (events_of sid (stored h))"
  shows "billing_of (map_of (db_sessions (persist_history h' db)) sid) =
    billing_of (map_of (db_sessions (persist_history h db)) sid)"
proof -
  have "set (events_of sid (stored h)) \<subseteq> {e. consistent start stop e}" using assms(1) by blast
  then show ?thesis unfolding history_billing by (rule billing.fold_set_cong [OF _ assms(2)])
qed

theorem session_billing_delivery_free_witness:
  "billing_of (map_of (db_sessions (persist_history
     [(example_server, [example_event SessionStopped 60 1500]), (example_server\<lparr>sv_commit := Some (PlainError ''lost'', True)\<rparr>, [example_event SessionStarted 0 1000]),
      (example_server, [example_event SessionStarted 0 1000, example_event SessionStopped 60 1500])] empty_db)) ''s1'') =
   billing_of (map_of (db_sessions (persist_history
     [(example_server, [example_event SessionStarted 0 1000, example_event SessionStopped 60 1500])] empty_db)) ''s1'')"
proof (rule session_billing_delivery_free)
  let ?h = "[(example_server, [example_event SessionStarted 0 1000, example_event SessionStopped 60 1500])]"
  show "\<forall>e\<in>set (events_of ''s1'' (stored ?h)). consistent (0, Some 1000) (60 * second_ns, Some 1500) e"
    by (simp add: stored_def commits_def example_server_def events_of_def example_event_def consistent_def)
  show "set (events_of ''s1'' (stored
     [(example_server, [example_event SessionStopped 60 1500]), (example_server\<lparr>sv_commit := Some (PlainError ''lost'', True)\<rparr>, [example_event SessionStarted 0 1000]),
      (example_server, [example_event SessionStarted 0 1000, example_event SessionStopped 60 1500])])) =
    set (events_of ''s1'' (stored ?h))"
    by (auto simp: stored_def commits_def example_server_def events_of_def example_event_def)
qed

text \<open>
  Delivered energy. Once a start and a stop of a session are stored, in whatever order, reading
  the session back gives their instants, the difference of their meter readings (never below zero)
  as the delivered energy, and a closed session.
\<close>

theorem session_energy_delivered:
  assumes "map_of (db_sessions db) sid = None"
    and "\<forall>e\<in>set (events_of sid (stored h)). consistent (started, Some first) (stopped, Some final) e"
    and "\<exists>e\<in>set (events_of sid (stored h)). se_Type e = SessionStarted"
    and "\<exists>e\<in>set (events_of sid (stored h)). se_Type e = SessionStopped"
  shows "\<exists>s. GetSession None sid (persist_history h db) = Inr (Some s) \<and>
    ss_EnergyDeliveredWh s = Some (max (final - first) 0) \<and>
    ss_StartedAt s = Some (pg_time started) \<and> ss_StoppedAt s = Some (pg_time stopped) \<and> \<not> ss_Open s"
proof -
  obtain row where "map_of (db_sessions (persist_history h db)) sid = Some row"
    "sw_started_at row = Some (pg_time started)" "sw_stopped_at row = Some (pg_time stopped)"
    "sw_meter_start_wh row = Some first" "sw_meter_stop_wh row = Some final"
    by (rule history_boundaries [OF assms])
  then show ?thesis
    by (simp add: GetSession_eq scanSession_def energy_delivered_wh_def)
qed

theorem session_energy_delivered_witness:
  "\<exists>s. GetSession None ''s1'' (persist_history
     [(example_server, [example_event SessionStopped 60 1500]), (example_server, [example_event SessionStarted 0 1000])]
     empty_db) = Inr (Some s) \<and> ss_EnergyDeliveredWh s = Some 500 \<and> \<not> ss_Open s"
proof -
  let ?h = "[(example_server, [example_event SessionStopped 60 1500]), (example_server, [example_event SessionStarted 0 1000])]"
  have "events_of ''s1'' (stored ?h) = [example_event SessionStopped 60 1500, example_event SessionStarted 0 1000]"
    by (simp add: stored_def commits_def example_server_def events_of_def example_event_def)
  then have "\<exists>s. GetSession None ''s1'' (persist_history ?h empty_db) = Inr (Some s) \<and>
    ss_EnergyDeliveredWh s = Some (max (1500 - 1000) 0) \<and>
    ss_StartedAt s = Some (pg_time 0) \<and> ss_StoppedAt s = Some (pg_time (60 * second_ns)) \<and> \<not> ss_Open s"
    by (intro session_energy_delivered) (auto simp: empty_db_def consistent_def example_event_def)
  then show ?thesis by auto
qed

text \<open>
  What the query of the site demand really lists, under the byte collation: every connector with a recent
  reading in a charging state, once, with the charging reading that arrived last. The state is filtered
  before \<open>DISTINCT ON\<close>, so a connector is listed even when a later reading says that it is free.
\<close>

lemma site_demand_latest:
  "\<exists>rs. ListSiteDemand (<) no_faults now siteID window db = Inr (map demand_of rs) \<and>
     distinct (map tr_connector rs) \<and> set rs \<subseteq> set (demand_rows now siteID window db) \<and>
     tr_connector ` set rs = tr_connector ` set (demand_rows now siteID window db) \<and>
     (\<forall>r\<in>set rs. \<forall>x\<in>set (demand_rows now siteID window db).
        tr_connector x = tr_connector r \<longrightarrow> \<not> newer_telemetry x r)"
proof -
  obtain rs where rs: "ListSiteDemand (<) no_faults now siteID window db = Inr (map demand_of rs)"
    "distinct (map tr_connector rs)" "set rs \<subseteq> set (demand_rows now siteID window db)"
    "\<forall>x\<in>set (demand_rows now siteID window db).
       \<exists>r\<in>set rs. tr_connector r = tr_connector x \<and> \<not> newer_telemetry x r"
    by (rule byte_collation.demand_latest)
  have "\<not> newer_telemetry x r"
    if r: "r \<in> set rs" and x: "x \<in> set (demand_rows now siteID window db)" "tr_connector x = tr_connector r" for r x
  proof -
    obtain r' where "r' \<in> set rs" "tr_connector r' = tr_connector x" "\<not> newer_telemetry x r'" using rs(4) x(1) by blast
    moreover from this have "r' = r" using rs(2) r x(2) by (auto simp: distinct_map dest: inj_onD)
    ultimately show ?thesis by simp
  qed
  moreover have "tr_connector ` set rs = tr_connector ` set (demand_rows now siteID window db)"
    using rs(3,4) by (auto simp: image_iff) (metis subsetD)
  ultimately show ?thesis using rs by blast
qed

definition example_db :: Database where
  "example_db = snd (PersistTelemetryBatch example_server [example_telemetry] empty_db)"

text \<open>
  C22. A stored sample can be read back. After a new sample is accepted that did not arrive before
  any other sample of its station, the latest telemetry of the station is that sample, with every
  field unchanged (the unsigned edge sequence survives its signed column), except that the arrival
  stamp is cut to microseconds.
\<close>

theorem latest_telemetry_roundtrip:
  assumes "accepts server (telemetry_batch [t])" and "db_wf db"
    and "tm_Timestamp t = UnixMilli device" and "tm_ReceivedAt t = UnixMilli received"
    and "telemetry_key (telemetry_row t) \<notin> telemetry_key ` set (db_telemetry db)"
    and "\<forall>r\<in>set (db_telemetry db). tr_station_id r = tm_StationID t \<longrightarrow> tr_ingested_at r \<le> pg_time (tm_IngestedAt t)"
  shows "LatestTelemetry None (tm_StationID t) (snd (PersistTelemetryBatch server [t] db)) =
    Inr (Some (t\<lparr>tm_IngestedAt := pg_time (tm_IngestedAt t)\<rparr>))"
proof -
  let ?new = "(telemetry_row t)\<lparr>tr_id := db_telemetry_serial db\<rparr>"
  let ?rows = "filter (\<lambda>row. tr_station_id row = tm_StationID t) (db_telemetry db @ [?new])"
  have st: "tr_station_id ?new = tm_StationID t" by (simp add: telemetry_row_def)
  have "newer_telemetry ?new y" if "y \<in> set ?rows" "y \<noteq> ?new" for y
  proof -
    have y: "y \<in> set (db_telemetry db)" "tr_station_id y = tm_StationID t" using that by (auto split: if_splits)
    have "tr_id y < db_telemetry_serial db" using y(1) assms(2) by (auto simp: db_wf_def sorted_wrt_append)
    moreover have "tr_ingested_at y \<le> pg_time (tm_IngestedAt t)" using y assms(6) by blast
    ultimately show ?thesis by (auto simp: newer_telemetry_def telemetry_row_def)
  qed
  then have "take 1 (sort_Slice newer_telemetry ?rows) = [?new]"
    using st by (intro telemetry_age.hd_least) auto
  then show ?thesis
    using assms(3,4)
    by (simp add: LatestTelemetry_def persist_one_telemetry [OF assms(1,5)] query_row_def telemetry_row_roundtrip
        del: filter_append take_Suc_Cons)
qed

theorem latest_telemetry_roundtrip_witness:
  "LatestTelemetry None ''A'' (snd (PersistTelemetryBatch example_server [example_telemetry] empty_db)) =
    Inr (Some (example_telemetry\<lparr>tm_IngestedAt := 1500000000\<rparr>))"
proof -
  have "accepts example_server (telemetry_batch [example_telemetry])"
    by (simp add: accepts_def example_server_def)
  moreover have "tm_Timestamp example_telemetry = UnixMilli 1000" "tm_ReceivedAt example_telemetry = UnixMilli 1001"
    "tm_StationID example_telemetry = ''A''" "pg_time (tm_IngestedAt example_telemetry) = 1500000000"
    by (simp_all add: example_telemetry_def pg_time_def)
  ultimately show ?thesis
    using latest_telemetry_roundtrip [of example_server example_telemetry empty_db 1000 1001] empty_db_wf
    by (simp add: empty_db_def)
qed

text \<open>
  C23. The silence report is exact: it lists precisely the stations not seen within the threshold,
  each once, longest silence first, with the true time since the station was last seen.
\<close>

theorem silent_stations_exact:
  assumes "db_wf db" and "pg_time now = now" and "0 \<le> threshold"
    and "\<forall>(station, row)\<in>set (db_stations db). pg_time (sr_last_seen_at row) = sr_last_seen_at row \<and>
           now - sr_last_seen_at row \<le> max_int64"
  shows "\<exists>rows. mset rows = mset (filter (\<lambda>(station, row). sr_last_seen_at row < now - pg_interval threshold) (db_stations db)) \<and>
    distinct (map fst rows) \<and> sorted_wrt (\<lambda>x y. sr_last_seen_at (snd x) \<le> sr_last_seen_at (snd y)) rows \<and>
    ListSilentStations no_faults now threshold db = Inr (map (\<lambda>(station, row).
      \<lparr>sh_StationID = station, sh_LastSeenAt = sr_last_seen_at row, sh_SilentFor = now - sr_last_seen_at row,
       sh_SilentForS = Seconds (now - sr_last_seen_at row)\<rparr>) rows)"
proof -
  let ?lt = "\<lambda>x y. sr_last_seen_at (snd x) < sr_last_seen_at (snd (y :: string \<times> StationRow))"
  let ?sel = "filter (\<lambda>row. sr_last_seen_at (snd row) < now - pg_interval threshold) (db_stations db)"
  let ?rows = "sort_Slice ?lt ?sel"
  have swo: "strict_weak_order ?lt UNIV" by unfold_locales auto
  have "sorted_wrt (\<lambda>x y. \<not> ?lt y x) ?rows" by (rule strict_weak_order.sort_sorted [OF swo]) simp
  then have sorted: "sorted_wrt (\<lambda>x y. sr_last_seen_at (snd x) \<le> sr_last_seen_at (snd y)) ?rows"
    by (simp add: not_less)
  have "distinct (map fst ?sel)" using assms(1) by (simp add: db_wf_def distinct_map_filter)
  then have dist: "distinct (map fst ?rows)" by (simp add: distinct_map_sort_Slice)
  have "0 \<le> pg_interval threshold"
    using assms(3) by (simp add: pg_interval_def signed_divide_int_def sgn_if)
  then have "silent_of now (s, r) = \<lparr>sh_StationID = s, sh_LastSeenAt = sr_last_seen_at r,
      sh_SilentFor = now - sr_last_seen_at r, sh_SilentForS = Seconds (now - sr_last_seen_at r)\<rparr>"
    if "(s, r) \<in> set ?rows" for s r
  proof -
    have m: "(s, r) \<in> set (db_stations db)" "sr_last_seen_at r < now - pg_interval threshold" using that by simp_all
    have seen: "pg_time (sr_last_seen_at r) = sr_last_seen_at r" "now - sr_last_seen_at r \<le> max_int64"
      using bspec [OF assms(4) m(1)] by simp_all
    have "0 \<le> now - sr_last_seen_at r" using m(2) \<open>0 \<le> pg_interval threshold\<close> by simp
    then have "intervalDuration (pg_difference now (sr_last_seen_at r)) = now - sr_last_seen_at r"
      using seen(2) assms(2) seen(1) by (rule silence_exact)
    then show ?thesis by (simp add: silent_of_def Let_def)
  qed
  then have "ListSilentStations no_faults now threshold db = Inr (map (\<lambda>(s, r).
      \<lparr>sh_StationID = s, sh_LastSeenAt = sr_last_seen_at r, sh_SilentFor = now - sr_last_seen_at r,
       sh_SilentForS = Seconds (now - sr_last_seen_at r)\<rparr>) ?rows)"
    by (auto simp: ListSilentStations_def)
  moreover have "mset ?rows = mset (filter (\<lambda>(s, r). sr_last_seen_at r < now - pg_interval threshold) (db_stations db))"
    by (simp add: case_prod_beta)
  ultimately show ?thesis using sorted dist by blast
qed

theorem silent_stations_exact_witness:
  "\<exists>rows :: (string \<times> StationRow) list. map fst rows = [''A''] \<and>
    ListSilentStations no_faults 62000000000 (60 * second_ns) example_db = Inr (map (\<lambda>(station, row).
      \<lparr>sh_StationID = station, sh_LastSeenAt = sr_last_seen_at row, sh_SilentFor = 62000000000 - sr_last_seen_at row,
       sh_SilentForS = Seconds (62000000000 - sr_last_seen_at row)\<rparr>) rows)"
proof -
  let ?now = "62000000000 :: int"
  have stations: "db_stations example_db = [(''A'', \<lparr>sr_last_seen_at = 1500000000, sr_last_device_time = Some 1000000000, sr_updated_at = 0\<rparr>)]"
    by code_simp
  have wf: "db_wf example_db"
    using telemetry_persister.persist_inv [OF prod.collapse [symmetric] empty_db_wf] by (simp add: example_db_def)
  have p: "pg_time ?now = ?now" "0 \<le> 60 * second_ns"
    "\<forall>(station, row)\<in>set (db_stations example_db). pg_time (sr_last_seen_at row) = sr_last_seen_at row \<and>
       ?now - sr_last_seen_at row \<le> max_int64"
    by (simp_all add: stations pg_time_def max_int64_def second_ns_def)
  obtain rows where rows:
    "mset rows = mset (filter (\<lambda>(station, row). sr_last_seen_at row < ?now - pg_interval (60 * second_ns)) (db_stations example_db))"
    "ListSilentStations no_faults ?now (60 * second_ns) example_db = Inr (map (\<lambda>(station, row).
      \<lparr>sh_StationID = station, sh_LastSeenAt = sr_last_seen_at row, sh_SilentFor = ?now - sr_last_seen_at row,
       sh_SilentForS = Seconds (?now - sr_last_seen_at row)\<rparr>) rows)"
    using silent_stations_exact [OF wf p] by blast
  have "pg_interval (60 * second_ns) = 60000000000" by code_simp
  with rows(1) have a: "map fst rows = [''A'']" by (simp add: stations)
  show ?thesis by (intro exI [of _ rows] conjI a rows(2))
qed

end
