(* ===== verification/Ingest_Theorems.thy ===== *)
theory Ingest_Theorems
  imports Ingest Store_Theorems
begin

text \<open>
  What the path from the broker to the database guarantees: decoders accept valid values only,
  every message is settled exactly once, a message is acknowledged only when its value is stored,
  nothing is lost silently and a device cannot speak for another one.
\<close>

section \<open>Runners over the repository\<close>

text \<open>A runner whose persister keeps the repository's contract.\<close>

locale repository_runner = runner_decoder dec valid stamp runner + persister "ru_persist runner" store inv
  for dec :: "string \<Rightarrow> time \<Rightarrow> 'a result" and valid and stamp and runner :: "('a, 'db) Runner"
    and store :: "'a list \<Rightarrow> 'db \<Rightarrow> 'db" and inv :: "'db \<Rightarrow> bool"
begin

lemma ProcessBatch_db:
  "ig_db (ProcessBatch runner env ms st) = snd (ru_persist runner (accepted_values dec runner env ms) (ig_db st))"
proof -
  obtain new where "ig_db (ProcessBatch runner env ms st) =
       (if accepted_values dec runner env ms = [] then ig_db st
        else snd (ru_persist runner (accepted_values dec runner env ms) (ig_db st)))"
    by (rule ProcessBatch_outcome)
  then show ?thesis by (simp add: persist_empty)
qed

lemma ProcessBatch_inv: "inv (ig_db st) \<Longrightarrow> inv (ig_db (ProcessBatch runner env ms st))"
  unfolding ProcessBatch_db using persist_inv by (metis prod.collapse)

lemma Run_inv: "inv (ig_db st) \<Longrightarrow> inv (ig_db (Run runner its st))"
proof (induction its arbitrary: st)
  case (Cons it its)
  have "inv (ig_db (run_step runner it st))"
    using Cons.prems by (cases "(runner, it, st)" rule: run_step.cases) (auto intro: ProcessBatch_inv)
  then show ?case using Cons.IH by (simp add: Run_def)
qed (simp add: Run_def)

lemma accepted_values_valid: "v \<in> set (accepted_values dec runner env ms) \<Longrightarrow> valid v \<and> stamp v = en_now env"
  using verdict_valid by (fastforce simp: accepted_values_def accepted_messages_def isl_def split: sum.splits)

text \<open>The whole account of a batch.\<close>

lemma batch_account:
  "\<exists>new. ig_settled (ProcessBatch runner env ms st) =
      ig_settled st @ new @ map (\<lambda>m. (m, answer dec runner env ms (ig_db st))) (accepted_messages dec runner env ms) \<and>
    map fst new = rejected_messages dec runner env ms \<and>
    (\<forall>s\<in>set new. evidence_kept dec runner env (ig_dlq (ProcessBatch runner env ms st)) s)"
  by (rule ProcessBatch_outcome [of env ms st]) blast

end

interpretation telemetry_ingest: repository_runner "DecodeChargingTelemetry unmarshal" valid_telemetry tm_IngestedAt
    "new_runner TelemetryStreamName (telemetry_decode unmarshal) (PersistTelemetryBatch server)
       (Some (VerifyTelemetryOrigin subject required)) deadLetter batchSize batchWait" "store_batch telemetry_batch server" db_wf
  for unmarshal server subject required deadLetter batchSize batchWait
  by (intro repository_runner.intro telemetry_runner.runner_decoder_axioms) (simp add: telemetry_persister.persister_axioms)

interpretation session_ingest: repository_runner "DecodeChargingSessionEvent unmarshal" valid_session_event se_IngestedAt
    "new_runner SessionStreamName (pure_decode (DecodeChargingSessionEvent unmarshal)) (PersistSessionEventBatch server)
       None deadLetter batchSize batchWait" "store_batch session_batch server" db_wf
  for unmarshal server deadLetter batchSize batchWait
  by (intro repository_runner.intro session_runner.runner_decoder_axioms) (simp add: session_persister.persister_axioms)

interpretation energy_ingest: repository_runner "DecodeEnergySiteObservation unmarshal" valid_observation eo_IngestedAt
    "new_runner EnergyStreamName (pure_decode (DecodeEnergySiteObservation unmarshal)) (PersistEnergyObservationBatch server)
       None deadLetter batchSize batchWait" "store_batch observation_batch server" db_wf
  for unmarshal server deadLetter batchSize batchWait
  by (intro repository_runner.intro energy_runner.runner_decoder_axioms) (simp add: energy_persister.persister_axioms)

section \<open>Example messages\<close>

text \<open>A broker that accepts every configuration, an environment whose dead-letter stream works, one valid payload.\<close>

definition example_js :: "(StreamConfig list) JetStream" where
  "example_js = \<lparr>js_CreateOrUpdateStream = (\<lambda>c b. (None, c # b)), js_CreateOrUpdateConsumer = (\<lambda>n c b. (None, b))\<rparr>"

definition example_env :: Env where
  "example_env = \<lparr>en_now = 7, en_elapsed = 1, en_publish = (\<lambda>_. None), en_clock = (\<lambda>_. [])\<rparr>"

definition example_metrics :: Metrics where
  "example_metrics = \<lparr>me_Messages = (\<lambda>_ _. 0), me_BatchSize = (\<lambda>_. []), me_PersistDuration = (\<lambda>_. []),
     me_UnsynchronizedClock = 0, me_SilentStations = 0, me_HTTPRequests = (\<lambda>_ _. 0)\<rparr>"

definition example_ingest :: "Database Ingest" where
  "example_ingest = \<lparr>ig_db = empty_db, ig_dlq = [], ig_attempts = 0, ig_settled = [], ig_metrics = example_metrics\<rparr>"

definition example_session_payload :: "string \<Rightarrow> string + ChargingSessionEvent" where
  "example_session_payload payload =
     (if payload = ''start''
      then Inr \<lparr>cs_session_id = ''s1'', cs_station_id = ''A'', cs_connector_id = ''1'', cs_site_id = ''site'',
                cs_type = SESSION_EVENT_TYPE_STARTED, cs_occurred_at_ms = 1000, cs_authorization = None,
                cs_meter = None, cs_stop_reason = STOP_REASON_UNSPECIFIED, cs_source = SOURCE_PROTOCOL_OCPP_1_6,
                cs_transaction_reference = ''1''\<rparr>
      else Inl ''invalid wire format'')"

definition example_telemetry_payload :: "string \<Rightarrow> string + ChargingTelemetry" where
  "example_telemetry_payload payload =
     (if payload = ''sample''
      then Inr \<lparr>ct_station_id = ''A'', ct_connector_id = ''1'', ct_timestamp_ms = 1000, ct_voltage = Fin 230,
                ct_current = Fin 16, ct_power_kw = Fin 11, ct_energy_kwh = Fin 3, ct_soc = Fin 50,
                ct_temperature_c = Fin 20, ct_state = CHARGING_STATE_CHARGING,
                ct_edge = Some \<lparr>em_edge_id = ''edge-1'', em_site_id = ''site'', em_received_at_ms = 1001,
                                em_sequence = 1, em_clock_sync = CLOCK_SYNC_SYNCHRONIZED\<rparr>\<rparr>
      else Inl ''invalid wire format'')"

definition example_message :: "string \<Rightarrow> string \<Rightarrow> Message" where
  "example_message subject payload = \<lparr>ms_id = 0, ms_Subject = subject, ms_Data = payload\<rparr>"

definition example_session_runner :: "(SessionEvent, Database) Runner" where
  "example_session_runner = new_runner SessionStreamName (pure_decode (DecodeChargingSessionEvent example_session_payload))
     (PersistSessionEventBatch example_server) None (Some \<lparr>dl_subject = ''dlq''\<rparr>) 10 second_ns"

definition example_telemetry_runner :: "(Telemetry, Database) Runner" where
  "example_telemetry_runner = new_runner TelemetryStreamName (telemetry_decode example_telemetry_payload)
     (PersistTelemetryBatch example_server) (Some (VerifyTelemetryOrigin ''orvolt'' True)) None 10 second_ns"

definition example_energy_runner :: "(EnergyObservation, Database) Runner" where
  "example_energy_runner = new_runner EnergyStreamName (pure_decode (DecodeEnergySiteObservation (\<lambda>_. Inl ''invalid'')))
     (PersistEnergyObservationBatch example_server) None None 10 second_ns"

section \<open>Properties of the decoders\<close>

text \<open>
  C20. The telemetry decoder rejects a bad payload for good (so it is parked, never retried), and what
  it accepts has all identities, a positive device time, a known state and clock status, and the
  arrival stamp it was given.
\<close>

theorem telemetry_contract:
  "case DecodeChargingTelemetry unmarshal payload ingestedAt of
     Inl err \<Rightarrow> IsPermanent err
   | Inr t \<Rightarrow> valid_telemetry t \<and> tm_IngestedAt t = ingestedAt"
  using telemetry_decoder.rejection_permanent telemetry_decoder.accepted_valid telemetry_decoder.accepted_stamp
  by (fastforce split: sum.splits)

text \<open>
  C19. The session decoder rejects for good, and what it accepts carries no raw token: the token field
  is empty or a 64-digit lowercase hex hash; ids, type, protocol and time are present and the meter
  reading is not negative.
\<close>

theorem session_contract:
  "case DecodeChargingSessionEvent unmarshal payload ingestedAt of
     Inl err \<Rightarrow> IsPermanent err
   | Inr e \<Rightarrow> valid_session_event e \<and> se_IngestedAt e = ingestedAt"
  using session_decoder.rejection_permanent session_decoder.accepted_valid session_decoder.accepted_stamp
  by (fastforce split: sum.splits)

text \<open>
  C21. The energy decoder rejects for good, and what it accepts has consent and provenance, and only
  finite, non-negative figures (the state of charge at most 100), and the batch's arrival stamp.
\<close>

theorem energy_contract:
  "case DecodeEnergySiteObservation unmarshal payload ingestedAt of
     Inl err \<Rightarrow> IsPermanent err
   | Inr o' \<Rightarrow> valid_observation o' \<and> eo_IngestedAt o' = ingestedAt"
  using energy_decoder.rejection_permanent energy_decoder.accepted_valid energy_decoder.accepted_stamp
  by (fastforce split: sum.splits)

section \<open>Properties of the runners\<close>

text \<open>
  C15. Whatever the decoder, the repository, the dead-letter stream and the broker answer, over any
  sequence of fetches every fetched message is settled exactly once: acknowledged, given back or
  terminated, never forgotten and never answered twice.
\<close>

theorem run_settles_every_message_once:
  "mset (map fst (ig_settled (Run runner iterations st))) = mset (map fst (ig_settled st)) + mset (fetched iterations)"
  by (rule Run_settles)

text \<open>
  C13. Sessions are never acknowledged unstored. For the session runner as it is built, every value
  handed to the repository is valid and stamped; accepted messages are acknowledged exactly when the
  repository reports success, so only after their events are stored, and are otherwise all given back
  with the database unchanged or, if the commit's answer was lost, with all of them stored; a rejected message
  is parked with its bytes and reason (or, if parking failed, given back), with a dead-letter
  stream configured.
\<close>

theorem session_batch_account:
  assumes "NewSessionRunner unmarshal stream (PersistSessionEventBatch server) subject deadLetter maxAge maxBytes
      batchSize batchWait broker = (Inr runner, broker')"
    and "events = accepted_values (DecodeChargingSessionEvent unmarshal) runner env ms" and "events \<noteq> []"
  shows "(\<forall>e\<in>set events. valid_session_event e \<and> se_IngestedAt e = en_now env) \<and>
    (\<exists>new. ig_settled (ProcessBatch runner env ms st) = ig_settled st @ new @
        map (\<lambda>m. (m, if accepts server (session_batch events) then Ack else NakWithDelay (5 * second_ns)))
          (accepted_messages (DecodeChargingSessionEvent unmarshal) runner env ms) \<and>
      map fst new = rejected_messages (DecodeChargingSessionEvent unmarshal) runner env ms \<and>
      (\<forall>s\<in>set new. evidence_kept (DecodeChargingSessionEvent unmarshal) runner env
         (ig_dlq (ProcessBatch runner env ms st)) s)) \<and>
    ig_db (ProcessBatch runner env ms st) = snd (PersistSessionEventBatch server events (ig_db st)) \<and>
    ig_db (ProcessBatch runner env ms st) =
      (if commits server (session_batch events) then store_batch session_batch server events (ig_db st) else ig_db st)"
proof -
  note r = NewSessionRunner_Inr [OF assms(1)]
  have stored: "fst (PersistSessionEventBatch server events db) = None \<longleftrightarrow> accepts server (session_batch events)" for db
    using assms(3) persist_reports(3) by blast
  have "answer (DecodeChargingSessionEvent unmarshal) runner env ms (ig_db st) =
      (if accepts server (session_batch events) then Ack else NakWithDelay (5 * second_ns))"
    using stored by (simp add: answer_def assms(2) r)
  moreover have "ig_db (ProcessBatch runner env ms st) = snd (PersistSessionEventBatch server events (ig_db st))"
    using session_ingest.ProcessBatch_db assms(2) unfolding r by simp
  moreover note persist_effect(3) [of server events "ig_db st"]
  moreover have "\<forall>e\<in>set events. valid_session_event e \<and> se_IngestedAt e = en_now env"
    using session_ingest.accepted_values_valid assms(2) unfolding r by blast
  ultimately show ?thesis
    using session_ingest.batch_account [of unmarshal server deadLetter batchSize batchWait env ms st]
    unfolding r [symmetric] by simp
qed

theorem session_batch_account_witness:
  "\<exists>new. ig_settled (ProcessBatch example_session_runner example_env
       [example_message ''s'' ''start'', example_message ''s'' ''junk''] example_ingest) =
     new @ [(example_message ''s'' ''start'', Ack)] \<and> map fst new = [example_message ''s'' ''junk'']"
proof -
  let ?dec = "DecodeChargingSessionEvent example_session_payload"
  let ?ms = "[example_message ''s'' ''start'', example_message ''s'' ''junk'']"
  let ?es = "accepted_values ?dec example_session_runner example_env ?ms"
  have new: "NewSessionRunner example_session_payload example_js (PersistSessionEventBatch example_server) ''s''
      (Some \<lparr>dl_subject = ''dlq''\<rparr>) 1 1 10 second_ns [] =
    (Inr example_session_runner, snd (NewSessionRunner example_session_payload example_js
       (PersistSessionEventBatch example_server) ''s'' (Some \<lparr>dl_subject = ''dlq''\<rparr>) 1 1 10 second_ns []))"
    by (simp add: NewSessionRunner_def NewRunner_def example_js_def example_session_runner_def new_runner_def)
  have a: "?es \<noteq> []" "accepted_messages ?dec example_session_runner example_env ?ms = [example_message ''s'' ''start'']"
    "rejected_messages ?dec example_session_runner example_env ?ms = [example_message ''s'' ''junk'']"
    "ig_settled example_ingest = []"
    by code_simp+
  have "accepts example_server (session_batch ?es)" by (simp add: accepts_def example_server_def)
  then show ?thesis using session_batch_account [OF new refl a(1), of example_ingest] a by auto
qed

text \<open>
  The origin check accepts a sample exactly when it arrived on the subject of the edge it claims
  to be, or, where identities are not required, on a subject that names no device at all.
\<close>

theorem origin_check_exact:
  "VerifyTelemetryOrigin baseSubject required subject t = None \<longleftrightarrow>
   subject = baseSubject @ ''.'' @ tm_EdgeID t \<or> (\<not> required \<and> (\<nexists>device. subject = baseSubject @ ''.'' @ device))"
  unfolding VerifyTelemetryOrigin_None by simp

text \<open>
  C14. No impersonation reaches the database: with device identities required, every sample the
  telemetry runner stores came from a message on the subject of its own edge, and is valid.
\<close>

theorem stored_telemetry_is_authentic:
  assumes "NewTelemetryRunner unmarshal stream (PersistTelemetryBatch server) subject deadLetter maxAge maxBytes
      batchSize batchWait True broker = (Inr runner, broker')"
  shows "ig_db (ProcessBatch runner env ms st) =
      snd (PersistTelemetryBatch server (accepted_values (DecodeChargingTelemetry unmarshal) runner env ms) (ig_db st)) \<and>
    (\<forall>t\<in>set (accepted_values (DecodeChargingTelemetry unmarshal) runner env ms).
       valid_telemetry t \<and> (\<exists>m\<in>set ms. ms_Subject m = subject @ ''.'' @ tm_EdgeID t \<and>
         DecodeChargingTelemetry unmarshal (ms_Data m) (en_now env) = Inr t))"
proof -
  note r = NewTelemetryRunner_Inr [OF assms]
  have "ig_db (ProcessBatch runner env ms st) =
      snd (PersistTelemetryBatch server (accepted_values (DecodeChargingTelemetry unmarshal) runner env ms) (ig_db st))"
    using telemetry_ingest.ProcessBatch_db unfolding r by simp
  moreover have "valid_telemetry t \<and> (\<exists>m\<in>set ms. ms_Subject m = subject @ ''.'' @ tm_EdgeID t \<and>
         DecodeChargingTelemetry unmarshal (ms_Data m) (en_now env) = Inr t)"
    if t: "t \<in> set (accepted_values (DecodeChargingTelemetry unmarshal) runner env ms)" for t
  proof -
    obtain m where m: "m \<in> set ms" "verdict (DecodeChargingTelemetry unmarshal) runner env m = Inr t"
      using t by (auto simp: accepted_values_def accepted_messages_def isl_def)
    then have d: "DecodeChargingTelemetry unmarshal (ms_Data m) (en_now env) = Inr t"
      "VerifyTelemetryOrigin subject True (ms_Subject m) t = None"
      by (auto simp: verdict_def check_origin_def r split: sum.splits option.splits)
    then show ?thesis using m(1) telemetry_ingest.accepted_values_valid t unfolding r
      by (auto simp: VerifyTelemetryOrigin_None)
  qed
  ultimately show ?thesis by blast
qed

theorem stored_telemetry_is_authentic_witness:
  "map tm_EdgeID (accepted_values (DecodeChargingTelemetry example_telemetry_payload) example_telemetry_runner example_env
     [example_message ''orvolt.edge-1'' ''sample'', example_message ''orvolt.edge-2'' ''sample'']) = [''edge-1''] \<and>
   list_all valid_telemetry (accepted_values (DecodeChargingTelemetry example_telemetry_payload) example_telemetry_runner example_env
       [example_message ''orvolt.edge-1'' ''sample'', example_message ''orvolt.edge-2'' ''sample''])"
proof -
  have new: "NewTelemetryRunner example_telemetry_payload example_js (PersistTelemetryBatch example_server) ''orvolt''
      None 1 1 10 second_ns True [] =
    (Inr example_telemetry_runner, snd (NewTelemetryRunner example_telemetry_payload example_js
       (PersistTelemetryBatch example_server) ''orvolt'' None 1 1 10 second_ns True []))"
    by (simp add: NewTelemetryRunner_def NewRunner_def example_js_def example_telemetry_runner_def new_runner_def WithVerifier_def)
  have "map tm_EdgeID (accepted_values (DecodeChargingTelemetry example_telemetry_payload) example_telemetry_runner example_env
     [example_message ''orvolt.edge-1'' ''sample'', example_message ''orvolt.edge-2'' ''sample'']) = [''edge-1'']"
    by code_simp
  then show ?thesis using stored_telemetry_is_authentic [OF new] by (simp only: list_all_iff) blast
qed

text \<open>
  The message counters account for every message: over a batch the persisted, dead-lettered and
  retried counts of a stream grow together by exactly the number of messages, and the tables stay
  well formed.
\<close>

theorem energy_batch_counted:
  assumes "NewEnergyRunner unmarshal stream (PersistEnergyObservationBatch server) subject deadLetter maxAge maxBytes
      batchSize batchWait broker = (Inr runner, broker')" and "db_wf (ig_db st)"
  shows "messages_total EnergyStreamName (ig_metrics (ProcessBatch runner env ms st)) =
      messages_total EnergyStreamName (ig_metrics st) + length ms \<and>
    db_wf (ig_db (ProcessBatch runner env ms st))"
proof -
  note r = NewEnergyRunner_Inr [OF assms(1)]
  have "messages_total (ru_name runner) (ig_metrics (ProcessBatch runner env ms st)) =
      messages_total (ru_name runner) (ig_metrics st) + length ms"
    unfolding r by (rule energy_runner.ProcessBatch_outcome) blast
  then show ?thesis using energy_ingest.ProcessBatch_inv [OF assms(2)] unfolding r by simp
qed

theorem energy_batch_counted_witness:
  "messages_total EnergyStreamName (ig_metrics (ProcessBatch example_energy_runner example_env
     [example_message ''e'' ''junk''] example_ingest)) = 1"
proof -
  have new: "NewEnergyRunner (\<lambda>_. Inl ''invalid'') example_js (PersistEnergyObservationBatch example_server) ''e''
      None 1 1 10 second_ns [] =
    (Inr example_energy_runner, snd (NewEnergyRunner (\<lambda>_. Inl ''invalid'') example_js
       (PersistEnergyObservationBatch example_server) ''e'' None 1 1 10 second_ns []))"
    by (simp add: NewEnergyRunner_def NewRunner_def example_js_def example_energy_runner_def new_runner_def)
  have "db_wf (ig_db example_ingest)" by (simp add: example_ingest_def empty_db_wf)
  moreover have "messages_total EnergyStreamName (ig_metrics example_ingest) = 0"
    by (simp add: messages_total_def example_ingest_def example_metrics_def)
  ultimately show ?thesis using energy_batch_counted [OF new] by simp
qed

text \<open>
  Streams are bounded: a runner comes into being only with a positive retention age and size,
  on a stream created with exactly these limits that drops its oldest messages, covers the base
  subject and the device subjects below it, and has a consumer that must acknowledge explicitly.
\<close>

lemma new_runner_is_bounded:
  assumes "NewRunner stream spec decode persist deadLetter batchSize batchWait broker = (Inr runner, broker')"
  shows "\<exists>config b. js_CreateOrUpdateStream stream config broker = (None, b) \<and>
    js_CreateOrUpdateConsumer stream (sp_Stream spec) (consumer_config spec batchSize) b = (None, broker') \<and>
    0 < sc_MaxAge config \<and> 0 < sc_MaxBytes config \<and> sc_Discard config = DiscardOld \<and>
    sc_MaxAge config = sp_MaxAge spec \<and> sc_MaxBytes config = sp_MaxBytes spec \<and>
    sc_Subjects config = [sp_Subject spec, sp_Subject spec @ ''.>''] \<and>
    cc_AckPolicy (consumer_config spec batchSize) = AckExplicitPolicy"
  using assms unfolding NewRunner_Inr by (fastforce simp: stream_config_def consumer_config_def)

end
