(* ===== verification/Delivery.thy ===== *)
theory Delivery
  imports Ingest_Theorems
begin

text \<open>
  A durable stream consumed by a runner, with everything that can happen on the way: settlements that
  never reach the broker, redelivery of whatever the broker still holds, a process that dies in the
  middle of a batch, a commit whose answer is lost, and messages that the retention limits drop. The
  broker keeps a message until it hears that it was acknowledged or terminated, as JetStream documents
  for a consumer with explicit acknowledgement.
\<close>

section \<open>The consumer\<close>

record 'db Consumer =
  dv_stream :: "(string \<times> string) list"
  dv_settled :: "nat set"
  dv_evicted :: "nat set"
  dv_ingest :: "'db Ingest"

definition message_at :: "(string \<times> string) list \<Rightarrow> nat \<Rightarrow> Message" where
  "message_at stream i = \<lparr>ms_id = i, ms_Subject = fst (stream ! i), ms_Data = snd (stream ! i)\<rparr>"

definition deliverable :: "'db Consumer \<Rightarrow> nat set" where
  "deliverable c = {i. i < length (dv_stream c) \<and> i \<notin> dv_settled c \<and> i \<notin> dv_evicted c}"

fun closes :: "Disposition \<Rightarrow> bool" where
  "closes Ack = True"
| "closes Term = True"
| "closes (NakWithDelay delay) = False"

text \<open>The messages whose delivery a set of settlements ends.\<close>

definition closed :: "(Message \<times> Disposition) set \<Rightarrow> nat set" where
  "closed heard = {ms_id m |m d. (m, d) \<in> heard \<and> closes d}"

definition new_settlements :: "'db Ingest \<Rightarrow> 'db Ingest \<Rightarrow> (Message \<times> Disposition) set" where
  "new_settlements st st' = set (drop (length (ig_settled st)) (ig_settled st'))"

text \<open>The state a process leaves that dies while it decodes the messages of a batch.\<close>

definition interrupted :: "('a, 'db) Runner \<Rightarrow> Env \<Rightarrow> Message list \<Rightarrow> 'db Ingest \<Rightarrow> 'db Ingest" where
  "interrupted runner env ms st = fst (fold (receive runner env) ms (st, [], []))"

text \<open>
  One step of the stream and its consumer. A batch is what one fetch returns: at most the batch size of
  the runner, in any order, of whatever the broker still holds.
\<close>

inductive delivery_step :: "('s \<Rightarrow> ('a, 'db) Runner) \<Rightarrow> 'db Consumer \<Rightarrow> 'db Consumer \<Rightarrow> bool" for runner where
  published: "delivery_step runner c (c\<lparr>dv_stream := dv_stream c @ [m]\<rparr>)"
| evicted: "i < length (dv_stream c) \<Longrightarrow> delivery_step runner c (c\<lparr>dv_evicted := insert i (dv_evicted c)\<rparr>)"
| processed: "set ids \<subseteq> deliverable c \<Longrightarrow> int (length ids) \<le> ru_batchSize (runner server) \<Longrightarrow>
    st = ProcessBatch (runner server) env (map (message_at (dv_stream c)) ids) (dv_ingest c) \<Longrightarrow>
    heard \<subseteq> new_settlements (dv_ingest c) st \<Longrightarrow>
    delivery_step runner c (c\<lparr>dv_ingest := st, dv_settled := dv_settled c \<union> closed heard\<rparr>)"
| died: "set ids \<subseteq> deliverable c \<Longrightarrow> int (length ids) \<le> ru_batchSize (runner server) \<Longrightarrow>
    st = interrupted (runner server) env (map (message_at (dv_stream c)) ids) (dv_ingest c) \<Longrightarrow>
    heard \<subseteq> new_settlements (dv_ingest c) st \<Longrightarrow>
    delivery_step runner c (c\<lparr>dv_ingest := st\<lparr>ig_metrics := metrics\<rparr>, dv_settled := dv_settled c \<union> closed heard\<rparr>)"

inductive_cases delivery_stepE: "delivery_step runner c c'"

definition empty_consumer :: "'db Ingest \<Rightarrow> 'db Consumer" where
  "empty_consumer st = \<lparr>dv_stream = [], dv_settled = {}, dv_evicted = {}, dv_ingest = st\<rparr>"

lemma closed_Un [simp]: "closed (A \<union> B) = closed A \<union> closed B"
  by (auto simp: closed_def)

lemma closed_mono: "A \<subseteq> B \<Longrightarrow> closed A \<subseteq> closed B"
  by (auto simp: closed_def)

lemma new_settlements_append: "ig_settled st' = ig_settled st @ new \<Longrightarrow> new_settlements st st' = set new"
  by (simp add: new_settlements_def)

lemma message_at_append [simp]: "i < length stream \<Longrightarrow> message_at (stream @ rest) i = message_at stream i"
  by (simp add: message_at_def nth_append)

lemma ms_id_message_at [simp]: "ms_id (message_at stream i) = i"
  by (simp add: message_at_def)

section \<open>What happened to a settled message\<close>

text \<open>
  Runners that differ only in the answers their repository gets, with the batches that took effect as a
  history. A settled message is accounted for when a batch of the history holds its value, or the
  decoder rejected it and its bytes and the reason are parked.
\<close>

definition parked :: "ParkedMessage list \<Rightarrow> Message \<Rightarrow> go_error \<Rightarrow> bool" where
  "parked dlq m err \<longleftrightarrow> (\<exists>p\<in>set dlq. pk_Data p = ms_Data m \<and> pk_Reason p = Error err)"

definition replay :: "('s \<Rightarrow> 'a list \<Rightarrow> 'db \<Rightarrow> 'db) \<Rightarrow> ('s \<times> 'a list) list \<Rightarrow> 'db \<Rightarrow> 'db" where
  "replay store h db = fold (\<lambda>(server, xs). store server xs) h db"

definition held :: "('s \<times> 'a list) list \<Rightarrow> 'a set" where
  "held h = (\<Union>(server, xs)\<in>set h. set xs)"

lemma replay_snoc: "replay store (h @ [(server, xs)]) db = store server xs (replay store h db)"
  by (simp add: replay_def)

lemma replay_simps [simp]: "replay store [] db = db" "replay store [(server, xs)] db = store server xs db"
  by (simp_all add: replay_def)

lemma held_snoc [simp]: "held (h @ [(server, xs)]) = held h \<union> set xs"
  by (auto simp: held_def)

definition judged ::
  "(string \<Rightarrow> time \<Rightarrow> 'a result) \<Rightarrow> (string \<Rightarrow> 'a \<Rightarrow> go_error option) option \<Rightarrow> time \<Rightarrow> Message \<Rightarrow> 'a result" where
  "judged dec verify t m =
     (case dec (ms_Data m) t of
        Inl err \<Rightarrow> Inl err
      | Inr v \<Rightarrow> (case verify of
                    None \<Rightarrow> Inr v
                  | Some check \<Rightarrow> (case check (ms_Subject m) v of None \<Rightarrow> Inr v | Some err \<Rightarrow> Inl err)))"

definition accounted ::
  "(time \<Rightarrow> Message \<Rightarrow> 'a result) \<Rightarrow> ('s \<times> 'a list) list \<Rightarrow> ParkedMessage list \<Rightarrow> Message \<Rightarrow> bool" where
  "accounted judge h dlq m \<longleftrightarrow>
     (\<exists>t v. judge t m = Inr v \<and> v \<in> held h) \<or> (\<exists>t err. judge t m = Inl err \<and> parked dlq m err)"

definition delivery_inv ::
  "(time \<Rightarrow> Message \<Rightarrow> 'a result) \<Rightarrow> ('s \<Rightarrow> 'a list \<Rightarrow> 'db \<Rightarrow> 'db) \<Rightarrow> 'db \<Rightarrow> ('s \<times> 'a list) list \<Rightarrow> 'db Consumer \<Rightarrow> bool" where
  "delivery_inv judge store db0 h c \<longleftrightarrow>
     ig_db (dv_ingest c) = replay store h db0 \<and>
     (\<forall>v\<in>held h. \<exists>i<length (dv_stream c). \<exists>t. judge t (message_at (dv_stream c) i) = Inr v) \<and>
     (\<forall>i\<in>dv_settled c. i < length (dv_stream c) \<and> accounted judge h (ig_dlq (dv_ingest c)) (message_at (dv_stream c) i))"

lemma accounted_mono:
  "accounted judge h dlq m \<Longrightarrow> held h \<subseteq> held h' \<Longrightarrow> set dlq \<subseteq> set dlq' \<Longrightarrow> accounted judge h' dlq' m"
  unfolding accounted_def parked_def by blast

locale stream_consumer =
  fixes dec :: "string \<Rightarrow> time \<Rightarrow> 'a result" and valid and stamp
    and verify :: "(string \<Rightarrow> 'a \<Rightarrow> go_error option) option"
    and runner :: "'s \<Rightarrow> ('a, 'db) Runner"
    and store :: "'s \<Rightarrow> 'a list \<Rightarrow> 'db \<Rightarrow> 'db" and inv :: "'db \<Rightarrow> bool"
  assumes runs: "repository_runner dec valid stamp (runner server) (store server) inv"
    and verifies: "ru_verify (runner server) = verify"
    and evidence: "ru_deadLetter (runner server) \<noteq> None"
begin

abbreviation "judge \<equiv> judged dec verify"

lemma decodes: "runner_decoder dec valid stamp (runner server)"
  using runs by (rule repository_runner.axioms)

lemma persists: "persister (ru_persist (runner server)) (store server) inv"
  using runs by (rule repository_runner.axioms)

lemma verdict_judged: "verdict dec (runner server) env m = judge (en_now env) m"
  by (auto simp: verdict_def check_origin_def judged_def verifies split: sum.splits option.splits)

lemma accepted_value:
  "v \<in> set (accepted_values dec (runner server) env ms) \<longleftrightarrow> (\<exists>m\<in>set ms. judge (en_now env) m = Inr v)"
  by (force simp: accepted_values_def accepted_messages_def verdict_judged isl_def split: sum.splits)

text \<open>A rejected message that is closed is parked with the reason.\<close>

lemma rejected_accounted:
  assumes "evidence_kept dec (runner server) env dlq (m, d)" "closes d" "isl (verdict dec (runner server) env m)"
  shows "accounted judge h dlq m"
  using assms evidence [of server]
  by (cases d) (auto simp: evidence_kept_def accounted_def parked_def verdict_judged isl_def split: sum.splits)

lemma rejections_accounted:
  assumes "map fst new = rejected_messages dec (runner server) env ms"
    and "\<forall>s\<in>set new. evidence_kept dec (runner server) env dlq s" and "(m, d) \<in> set new" "closes d"
  shows "m \<in> set ms \<and> accounted judge h dlq m"
proof -
  have "m \<in> set (rejected_messages dec (runner server) env ms)" using assms(1,3) by (metis fst_conv image_eqI set_map)
  then show ?thesis using assms(2-4) rejected_accounted by (fastforce simp: rejected_messages_def)
qed

text \<open>A batch, whichever of its settlements are heard.\<close>

lemma processed_account:
  fixes env ms server st
  defines "st' \<equiv> ProcessBatch (runner server) env ms st"
  shows "\<exists>h. (h = [] \<or> h = [(server, accepted_values dec (runner server) env ms)]) \<and>
    ig_db st' = replay store h (ig_db st) \<and> set (ig_dlq st) \<subseteq> set (ig_dlq st') \<and>
    (\<forall>m d. (m, d) \<in> new_settlements st st' \<longrightarrow> closes d \<longrightarrow> m \<in> set ms \<and> accounted judge h (ig_dlq st') m)"
proof -
  let ?vs = "accepted_values dec (runner server) env ms"
  obtain new where out: "ig_settled st' = ig_settled st @ new @
       map (\<lambda>m. (m, answer dec (runner server) env ms (ig_db st))) (accepted_messages dec (runner server) env ms)"
    "map fst new = rejected_messages dec (runner server) env ms"
    "\<forall>s\<in>set new. evidence_kept dec (runner server) env (ig_dlq st') s" "set (ig_dlq st) \<subseteq> set (ig_dlq st')"
    unfolding st'_def by (rule runner_decoder.ProcessBatch_outcome [OF decodes, of server env ms st]) auto
  have db: "ig_db st' = snd (ru_persist (runner server) ?vs (ig_db st))"
    unfolding st'_def by (rule repository_runner.ProcessBatch_db [OF runs])
  have rej: "m \<in> set ms \<and> accounted judge h (ig_dlq st') m" if "(m, d) \<in> set new" "closes d" for m d and h :: "('s \<times> 'a list) list"
    using rejections_accounted [OF out(2,3) that] .
  show ?thesis
  proof (cases "fst (ru_persist (runner server) ?vs (ig_db st))")
    case None
    have "ig_db st' = store server ?vs (ig_db st)"
      using persister.persist_stores [OF persists] db None by (metis prod.collapse)
    moreover have "m \<in> set ms \<and> accounted judge [(server, ?vs)] (ig_dlq st') m"
      if "m \<in> set (accepted_messages dec (runner server) env ms)" for m
    proof -
      obtain v where v: "judge (en_now env) m = Inr v" "m \<in> set ms"
        using \<open>m \<in> _\<close> by (cases "judge (en_now env) m") (auto simp: accepted_messages_def verdict_judged)
      then have "v \<in> held [(server, ?vs)]" using accepted_value by (auto simp: held_def)
      then show ?thesis using v by (auto simp: accounted_def)
    qed
    ultimately show ?thesis using rej out(1,4)
      by (intro exI [of _ "[(server, ?vs)]"]) (auto simp: replay_def new_settlements_append)
  next
    case (Some err)
    then have nak: "\<not> closes (answer dec (runner server) env ms (ig_db st))" by (simp add: answer_def)
    have "ig_db st' = ig_db st \<or> ig_db st' = store server ?vs (ig_db st)"
      using persister.persist_whole [OF persists] db by simp
    then obtain h where "h = [] \<or> h = [(server, ?vs)]" "ig_db st' = replay store h (ig_db st)"
      by (metis replay_simps)
    then show ?thesis using rej out(1,4) nak by (intro exI [of _ h]) (auto simp: new_settlements_append)
  qed
qed

lemma interrupted_account:
  fixes env ms server st
  defines "st' \<equiv> interrupted (runner server) env ms st"
  shows "ig_db st' = ig_db st" "set (ig_dlq st) \<subseteq> set (ig_dlq st')"
    "\<And>m d. (m, d) \<in> new_settlements st st' \<Longrightarrow> closes d \<Longrightarrow> m \<in> set ms \<and> accounted judge h (ig_dlq st') m"
proof -
  obtain new where out: "ig_db st' = ig_db st" "ig_settled st' = ig_settled st @ new"
    "map fst new = rejected_messages dec (runner server) env ms"
    "set (ig_dlq st) \<subseteq> set (ig_dlq st')" "\<forall>s\<in>set new. evidence_kept dec (runner server) env (ig_dlq st') s"
    unfolding st'_def interrupted_def
    by (rule runner_decoder.receive_all [OF decodes, of server env ms st "[]" "[]"]) auto
  show "ig_db st' = ig_db st" "set (ig_dlq st) \<subseteq> set (ig_dlq st')" by (rule out(1), rule out(4))
  show "\<And>m d. (m, d) \<in> new_settlements st st' \<Longrightarrow> closes d \<Longrightarrow> m \<in> set ms \<and> accounted judge h (ig_dlq st') m"
    using rejections_accounted [OF out(3,5)] out(2) by (simp add: new_settlements_append)
qed

text \<open>The invariant of every state that deliveries can reach.\<close>

lemma delivery_inv_closed:
  assumes "delivery_inv judge store db0 h c" and "set ids \<subseteq> deliverable c" and "ms = map (message_at (dv_stream c)) ids"
    and "h' = [] \<or> h' = [(server, accepted_values dec (runner server) env ms)]"
    and "ig_db st = replay store h' (ig_db (dv_ingest c))" and "set (ig_dlq (dv_ingest c)) \<subseteq> set (ig_dlq st)"
    and "\<And>m d. (m, d) \<in> heard \<Longrightarrow> closes d \<Longrightarrow> m \<in> set ms \<and> accounted judge h' (ig_dlq st) m"
    and "ig_db st' = ig_db st" "ig_dlq st' = ig_dlq st"
  shows "delivery_inv judge store db0 (h @ h') (c\<lparr>dv_ingest := st', dv_settled := dv_settled c \<union> closed heard\<rparr>)"
proof -
  have held: "held (h @ h') = held h \<union> held h'" by (auto simp: held_def)
  have known: "\<exists>i<length (dv_stream c). \<exists>t. judge t (message_at (dv_stream c) i) = Inr v" if "v \<in> held h'" for v
    using that assms(2-4) accepted_value by (fastforce simp: held_def deliverable_def)
  have "i < length (dv_stream c) \<and> accounted judge (h @ h') (ig_dlq st) (message_at (dv_stream c) i)" if i: "i \<in> closed heard" for i
  proof -
    obtain m d where m: "(m, d) \<in> heard" "closes d" "ms_id m = i" using i by (auto simp: closed_def)
    then have "m \<in> set ms" "accounted judge h' (ig_dlq st) m" using assms(7) by blast+
    moreover have "m = message_at (dv_stream c) i" "i < length (dv_stream c)"
      using \<open>m \<in> set ms\<close> m(3) assms(2,3) by (auto simp: deliverable_def)
    ultimately show ?thesis using accounted_mono [of judge h' "ig_dlq st" m "h @ h'" "ig_dlq st"] held by simp
  qed
  moreover have "accounted judge (h @ h') (ig_dlq st) m" if "accounted judge h (ig_dlq (dv_ingest c)) m" for m
    by (rule accounted_mono [OF that]) (simp_all add: held assms(6))
  ultimately show ?thesis using assms(1,5,8,9) known
    by (auto simp: delivery_inv_def held) (auto simp: replay_def)
qed

lemma delivery_inv_step:
  assumes "delivery_step runner c c'" and "delivery_inv judge store db0 h c"
  shows "\<exists>h'. delivery_inv judge store db0 (h @ h') c'"
  using assms
proof (induction rule: delivery_step.induct)
  case (published c m)
  have "\<exists>i<Suc (length (dv_stream c)). \<exists>t. judge t (message_at (dv_stream c @ [m]) i) = Inr v"
    if "\<exists>i<length (dv_stream c). \<exists>t. judge t (message_at (dv_stream c) i) = Inr v" for v
    using that by (metis less_SucI message_at_append)
  then show ?case using published by (intro exI [of _ "[]"]) (auto simp: delivery_inv_def less_SucI)
next
  case (evicted i c)
  then show ?case by (intro exI [of _ "[]"]) (simp add: delivery_inv_def)
next
  case (processed ids c server st env heard)
  obtain h' where h': "h' = [] \<or> h' = [(server, accepted_values dec (runner server) env (map (message_at (dv_stream c)) ids))]"
    "ig_db st = replay store h' (ig_db (dv_ingest c))" "set (ig_dlq (dv_ingest c)) \<subseteq> set (ig_dlq st)"
    "\<forall>m d. (m, d) \<in> new_settlements (dv_ingest c) st \<longrightarrow> closes d \<longrightarrow>
       m \<in> set (map (message_at (dv_stream c)) ids) \<and> accounted judge h' (ig_dlq st) m"
    using processed_account [of server env "map (message_at (dv_stream c)) ids" "dv_ingest c", folded processed.hyps(3)] by blast
  show ?case
    by (intro exI [of _ h'] delivery_inv_closed [OF processed.prems processed.hyps(1) refl h'(1-3) _ refl refl])
       (use processed.hyps(4) h'(4) in blast)
next
  case (died ids c server st env heard metrics)
  note a = interrupted_account [where server = server and env = env and ms = "map (message_at (dv_stream c)) ids" and st = "dv_ingest c",
      folded died.hyps(3)]
  have "ig_db st = replay store [] (ig_db (dv_ingest c))" using a(1) by (simp add: replay_def)
  then show ?case
    by (intro exI [of _ "[]"] delivery_inv_closed [OF died.prems died.hyps(1) refl disjI1 [OF refl] _ a(2)])
       (use died.hyps(4) a(3) in auto)
qed

lemma delivery_inv_reachable:
  assumes "(delivery_step runner)\<^sup>*\<^sup>* (empty_consumer st0) c"
  shows "\<exists>h. delivery_inv judge store (ig_db st0) h c"
  using assms
proof (induction rule: rtranclp_induct)
  case base
  show ?case by (intro exI [of _ "[]"]) (simp add: delivery_inv_def empty_consumer_def replay_def held_def)
next
  case (step c c')
  then show ?case using delivery_inv_step by blast
qed

text \<open>A healthy delivery settles every message it takes.\<close>

lemma receive_terminates:
  assumes "\<And>n. en_publish env n = None"
  shows "\<exists>new. ig_settled (fst (fold (receive (runner server) env) ms (st, ds, as))) = ig_settled st @ new \<and>
    list_all (closes \<circ> snd) new"
proof (induction ms arbitrary: st ds as)
  case (Cons m ms)
  show ?case
  proof (cases "judge (en_now env) m")
    case (Inl err)
    then have "verdict dec (runner server) env m = Inl err" by (simp add: verdict_judged)
    then obtain metrics where one: "receive (runner server) env m (st, ds, as) =
        (park (runner server) env m err (st\<lparr>ig_metrics := metrics\<rparr>), ds, as)"
      by (rule runner_decoder.receive_rejected [OF decodes])
    have "ig_settled (park (runner server) env m err (st\<lparr>ig_metrics := metrics\<rparr>)) = ig_settled st @ [(m, Term)]"
      by (rule park_cases [of "runner server" env m err "st\<lparr>ig_metrics := metrics\<rparr>"]) (auto simp: assms)
    then show ?thesis using Cons [of "park (runner server) env m err (st\<lparr>ig_metrics := metrics\<rparr>)" ds as] by (auto simp: one)
  next
    case (Inr v)
    then have "verdict dec (runner server) env m = Inr v" by (simp add: verdict_judged)
    then obtain st1 where "receive (runner server) env m (st, ds, as) = (st1, ds @ [v], as @ [m])"
      "ig_settled st1 = ig_settled st"
      by (rule runner_decoder.receive_accepted [OF decodes])
    then show ?thesis using Cons [of st1 "ds @ [v]" "as @ [m]"] by simp
  qed
qed simp

lemma healthy_batch:
  assumes "\<And>n. en_publish env n = None" and "\<And>xs db. fst (ru_persist (runner server) xs db) = None"
  obtains new where "ig_settled (ProcessBatch (runner server) env ms st) = ig_settled st @ new"
    "list_all (closes \<circ> snd) new" "mset (map fst new) = mset ms"
proof -
  obtain st1 ds as where loop: "fold (receive (runner server) env) ms (st, [], []) = (st1, ds, as)" by (metis prod_cases3)
  then obtain new where new: "ig_settled st1 = ig_settled st @ new" "list_all (closes \<circ> snd) new"
    using receive_terminates [OF assms(1), of server ms st "[]" "[]"] by auto
  obtain db where db: "ru_persist (runner server) ds (ig_db st1) = (None, db)" using assms(2) by (metis prod.collapse)
  let ?new = "if ds = [] then new else new @ map (\<lambda>m. (m, Ack)) as"
  have settled: "ig_settled (ProcessBatch (runner server) env ms st) = ig_settled st @ ?new"
    using new(1) by (simp add: ProcessBatch_def loop persist_decoded_def db settle_all)
  moreover have "list_all (closes \<circ> snd) ?new" using new(2) by (auto simp: list_all_iff)
  moreover have "mset (map fst ?new) = mset ms"
    using ProcessBatch_settles [of "runner server" env ms st] unfolding settled map_append mset_append by simp
  ultimately show ?thesis by (rule that)
qed

lemma healthy_delivery:
  fixes env :: Env
  assumes "\<And>n. en_publish env n = None" and "\<And>xs db. fst (ru_persist (runner server) xs db) = None"
  defines "st \<equiv> \<lambda>c ids. ProcessBatch (runner server) env (map (message_at (dv_stream c)) ids) (dv_ingest c)"
  shows "set ids \<subseteq> closed (new_settlements (dv_ingest c) (st c ids))"
proof
  fix i assume i: "i \<in> set ids"
  let ?ms = "map (message_at (dv_stream c)) ids"
  obtain new where new: "ig_settled (st c ids) = ig_settled (dv_ingest c) @ new" "list_all (closes \<circ> snd) new"
    "mset (map fst new) = mset ?ms"
    unfolding st_def by (rule healthy_batch [OF assms(1,2)])
  have "message_at (dv_stream c) i \<in> set (map fst new)" using mset_eq_setD [OF new(3)] i by simp
  then show "i \<in> closed (new_settlements (dv_ingest c) (st c ids))"
    using new(2) unfolding new_settlements_append [OF new(1)] by (force simp: closed_def list_all_iff)
qed

end

section \<open>The three streams\<close>

text \<open>
  What remains of a stored value is a row under its conflict key, which later batches never remove; for a
  session event also a session row with the boundary it reports and a register not below its own.
\<close>

definition telemetry_filed :: "Telemetry \<Rightarrow> Database \<Rightarrow> bool" where
  "telemetry_filed t db \<longleftrightarrow> telemetry_key (telemetry_row t) \<in> telemetry_key ` set (db_telemetry db)"

definition observation_filed :: "EnergyObservation \<Rightarrow> Database \<Rightarrow> bool" where
  "observation_filed x db \<longleftrightarrow> observation_key (observation_row x) \<in> observation_key ` set (db_observations db)"

definition in_session :: "SessionEvent \<Rightarrow> SessionRow option \<Rightarrow> bool" where
  "in_session e r =
     (case r of
        None \<Rightarrow> False
      | Some row \<Rightarrow>
          (se_Type e = SessionStarted \<longrightarrow> sw_started_at row \<noteq> None) \<and>
          (se_Type e = SessionStopped \<longrightarrow> sw_stopped_at row \<noteq> None) \<and>
          (case se_EnergyRegisterWh e of
             None \<Rightarrow> True
           | Some reading \<Rightarrow> (case sw_meter_last_wh row of None \<Rightarrow> False | Some highest \<Rightarrow> reading \<le> highest)))"

definition session_recorded :: "SessionEvent \<Rightarrow> Database \<Rightarrow> bool" where
  "session_recorded e db \<longleftrightarrow>
     event_key (session_event_row e) \<in> event_key ` set (db_session_events db) \<and>
     in_session e (map_of (db_sessions db) (se_SessionID e))"

locale evidence_store =
  fixes now :: time and batch :: "'a list \<Rightarrow> SQL list" and recorded :: "'a \<Rightarrow> Database \<Rightarrow> bool"
  assumes batch_Cons: "batch (x # xs) = batch [x] @ batch xs" and batch_Nil: "batch [] = []"
    and batch_total: "\<exists>db'. apply_all now (batch xs) db = Inr db'"
    and records: "apply_all now (batch [x]) db = Inr db' \<Longrightarrow> recorded x db'"
    and keeps_record: "apply_all now (batch [x]) db = Inr db' \<Longrightarrow> recorded y db \<Longrightarrow> recorded y db'"
begin

lemma apply_records:
  "apply_all now (batch xs) db = Inr db' \<Longrightarrow> x \<in> set xs \<or> recorded x db \<Longrightarrow> recorded x db'"
proof (induction xs arbitrary: db)
  case Nil
  then show ?case by (simp add: batch_Nil)
next
  case (Cons y ys)
  obtain db1 where db1: "apply_all now (batch [y]) db = Inr db1" using batch_total by blast
  then have "apply_all now (batch ys) db1 = Inr db'"
    using Cons.prems(1) by (subst (asm) batch_Cons) (simp add: apply_all_append)
  then show ?case using Cons.IH Cons.prems(2) records [OF db1] keeps_record [OF db1] by auto
qed

end

lemma replay_records:
  assumes "\<And>now. evidence_store now batch recorded" and "x \<in> held h"
  shows "recorded x (replay (store_batch batch) h db)"
  using assms(2)
proof (induction h rule: rev_induct)
  case Nil
  then show ?case by (simp add: held_def)
next
  case (snoc a h)
  obtain server xs where a: "a = (server, xs)" by (cases a) simp
  let ?db = "replay (store_batch batch) h db"
  obtain db' where db': "apply_all (sv_now server) (batch xs) ?db = Inr db'"
    using evidence_store.batch_total [OF assms(1)] by blast
  then have "store_batch batch server xs ?db = db'" by (simp add: store_batch_def)
  then show ?case using snoc evidence_store.apply_records [OF assms(1) db', of x] by (auto simp: a replay_snoc)
qed

interpretation telemetry_evidence: evidence_store now telemetry_batch telemetry_filed for now
  by unfold_locales
     (auto simp: telemetry_batch_def telemetry_batch_ok [unfolded telemetry_batch_def] telemetry_filed_def execute_defs Let_def
        map_of_upsert telemetry_key_def split: if_splits)

interpretation observation_evidence: evidence_store now observation_batch observation_filed for now
  by unfold_locales
     (auto simp: observation_batch_def observation_batch_ok [unfolded observation_batch_def] observation_filed_def execute_defs
        Let_def map_of_upsert observation_key_def split: if_splits)

lemma in_session_project: "in_session e (project now e r)"
  by (cases r) (auto simp: in_session_def project_def new_session_def merge_session_def session_columns_defs greatest_of_def
      COALESCE_def split: option.splits)

lemma in_session_kept: "in_session e r \<Longrightarrow> in_session e (project now e' r)"
  by (cases r) (auto simp: in_session_def project_def merge_session_def session_columns_defs greatest_of_def COALESCE_def
      split: option.splits)

interpretation session_evidence: evidence_store now session_batch session_recorded for now
proof
  show "\<exists>db'. apply_all now (session_batch xs) db = Inr db'" for xs db by (rule session_batch_ok)
  show "session_recorded e db'" if "apply_all now (session_batch [e]) db = Inr db'" for e db db'
    using session_batch_projection [OF that, of "se_SessionID e"] that in_session_project
    by (auto simp: session_recorded_def events_of_def session_batch_def execute_defs Let_def event_key_def split: if_splits)
  show "session_recorded y db'" if "apply_all now (session_batch [e]) db = Inr db'" "session_recorded y db" for e y db db'
    using session_batch_projection [OF that(1), of "se_SessionID y"] that in_session_kept
    by (auto simp: session_recorded_def events_of_def session_batch_def execute_defs Let_def event_key_def split: if_splits)
qed (simp_all add: session_batch_def)

section \<open>Whose row it is\<close>

text \<open>
  The insertions do nothing on a conflict: of several values with one key the first that is stored wins,
  and the row holds its columns. So a value is either stored column by column, or a rival with its key
  was there before. The surrogate key, which the table assigns, is left out of the comparison.
\<close>

definition telemetry_rows :: "Database \<Rightarrow> TelemetryRow set" where
  "telemetry_rows db = (\<lambda>row. row\<lparr>tr_id := 0\<rparr>) ` set (db_telemetry db)"

definition observation_rows :: "Database \<Rightarrow> ObservationRow set" where
  "observation_rows db = (\<lambda>row. row\<lparr>or_id := 0\<rparr>) ` set (db_observations db)"

definition event_rows :: "Database \<Rightarrow> SessionEventRow set" where
  "event_rows db = (\<lambda>row. row\<lparr>vr_id := 0\<rparr>) ` set (db_session_events db)"

definition stored_or_preceded :: "('a \<Rightarrow> 'row) \<Rightarrow> ('row \<Rightarrow> 'key) \<Rightarrow> (Database \<Rightarrow> 'row set) \<Rightarrow> 'row set \<Rightarrow> 'a \<Rightarrow> Database \<Rightarrow> bool" where
  "stored_or_preceded row_of key rows rivals x db \<longleftrightarrow>
     row_of x \<in> rows db \<or> (\<exists>row\<in>rows db \<inter> rivals. key row = key (row_of x))"

definition telemetry_recorded :: "TelemetryRow set \<Rightarrow> Telemetry \<Rightarrow> Database \<Rightarrow> bool" where
  "telemetry_recorded = stored_or_preceded telemetry_row telemetry_key telemetry_rows"

definition observation_recorded :: "ObservationRow set \<Rightarrow> EnergyObservation \<Rightarrow> Database \<Rightarrow> bool" where
  "observation_recorded = stored_or_preceded observation_row observation_key observation_rows"

definition event_recorded :: "SessionEventRow set \<Rightarrow> SessionEvent \<Rightarrow> Database \<Rightarrow> bool" where
  "event_recorded = stored_or_preceded session_event_row event_key event_rows"

text \<open>The rows that the \<open>j\<close>-th message of a stream can give, and the rows that may stand before the \<open>i\<close>-th.\<close>

definition said :: "(time \<Rightarrow> Message \<Rightarrow> 'a result) \<Rightarrow> ('a \<Rightarrow> 'row) \<Rightarrow> (string \<times> string) list \<Rightarrow> nat \<Rightarrow> 'row set" where
  "said judge row_of stream j = {row_of v |t v. judge t (message_at stream j) = Inr v}"

definition rivals :: "(time \<Rightarrow> Message \<Rightarrow> 'a result) \<Rightarrow> ('a \<Rightarrow> 'row) \<Rightarrow> 'row set \<Rightarrow> (string \<times> string) list \<Rightarrow> nat \<Rightarrow> 'row set" where
  "rivals judge row_of old stream i = old \<union> (\<Union>j\<in>{..<length stream} - {i}. said judge row_of stream j)"

text \<open>The second of two samples of one connector, edge and instant leaves no trace in the table.\<close>

lemma same_instant_sample_is_dropped:
  assumes "tm_StationID t' = tm_StationID t" "tm_ConnectorID t' = tm_ConnectorID t" "tm_EdgeID t' = tm_EdgeID t"
    and "tm_Timestamp t' = tm_Timestamp t" "tm_EdgeSequence t' \<noteq> tm_EdgeSequence t"
    and "db_telemetry db = []" "apply_all now (telemetry_batch [t, t']) db = Inr db'"
  shows "telemetry_rows db' = {telemetry_row t} \<and> telemetry_row t' \<noteq> telemetry_row t"
  using assms by (auto simp: telemetry_batch_def telemetry_rows_def telemetry_key_def telemetry_row_def execute_defs Let_def
      signed_word_eqI split: if_splits)

text \<open>A table that holds one row per value of a batch.\<close>

locale table_store = evidence_store now batch recorded
  for now :: time and batch :: "'a list \<Rightarrow> SQL list" and recorded :: "'a \<Rightarrow> Database \<Rightarrow> bool" +
  fixes row_of :: "'a \<Rightarrow> 'row" and key :: "'row \<Rightarrow> 'key" and rows :: "Database \<Rightarrow> 'row set"
  assumes recorded_row: "recorded x db \<Longrightarrow> \<exists>row\<in>rows db. key row = key (row_of x)"
    and adds_row: "apply_all now (batch [x]) db = Inr db' \<Longrightarrow> rows db' \<subseteq> insert (row_of x) (rows db)"
begin

lemma apply_rows: "apply_all now (batch xs) db = Inr db' \<Longrightarrow> rows db' \<subseteq> rows db \<union> row_of ` set xs"
proof (induction xs arbitrary: db)
  case Nil
  then show ?case by (simp add: batch_Nil)
next
  case (Cons y ys)
  obtain db1 where db1: "apply_all now (batch [y]) db = Inr db1" using batch_total by blast
  then have "apply_all now (batch ys) db1 = Inr db'"
    using Cons.prems by (subst (asm) batch_Cons) (simp add: apply_all_append)
  then show ?case using Cons.IH adds_row [OF db1] by fastforce
qed

end

lemma replay_rows:
  assumes "\<And>now. table_store now batch recorded row_of key rows"
  shows "rows (replay (store_batch batch) h db) \<subseteq> rows db \<union> row_of ` held h"
proof (induction h rule: rev_induct)
  case (snoc a h)
  obtain server xs where a: "a = (server, xs)" by (cases a) simp
  let ?db = "replay (store_batch batch) h db"
  obtain db' where db': "apply_all (sv_now server) (batch xs) ?db = Inr db'"
    using evidence_store.batch_total [OF table_store.axioms(1) [OF assms]] by blast
  then have "store_batch batch server xs ?db = db'" by (simp add: store_batch_def)
  then show ?case using snoc table_store.apply_rows [OF assms db'] by (auto simp: a replay_snoc)
qed simp

interpretation telemetry_table: table_store now telemetry_batch telemetry_filed telemetry_row telemetry_key telemetry_rows for now
  by unfold_locales
     (auto simp: telemetry_filed_def telemetry_key_def telemetry_rows_def telemetry_batch_def telemetry_row_def execute_defs Let_def
        split: if_splits)

interpretation observation_table: table_store now observation_batch observation_filed observation_row observation_key observation_rows
  for now
  by unfold_locales
     (auto simp: observation_filed_def observation_key_def observation_rows_def observation_batch_def observation_row_def execute_defs
        Let_def split: if_splits)

interpretation session_table: table_store now session_batch session_recorded session_event_row event_key event_rows for now
  by unfold_locales
     (auto simp: session_recorded_def event_key_def event_rows_def session_batch_def session_event_row_def execute_defs Let_def
        split: if_splits)

section \<open>The three consumers\<close>

interpretation telemetry_delivery: stream_consumer "DecodeChargingTelemetry unmarshal" valid_telemetry tm_IngestedAt
    "Some (VerifyTelemetryOrigin subject required)"
    "\<lambda>server. new_runner TelemetryStreamName (telemetry_decode unmarshal) (PersistTelemetryBatch server)
       (Some (VerifyTelemetryOrigin subject required)) (Some deadLetter) batchSize batchWait"
    "store_batch telemetry_batch" db_wf
  for unmarshal subject required deadLetter batchSize batchWait
  by (intro stream_consumer.intro telemetry_ingest.repository_runner_axioms) simp_all

interpretation session_delivery: stream_consumer "DecodeChargingSessionEvent unmarshal" valid_session_event se_IngestedAt None
    "\<lambda>server. new_runner SessionStreamName (pure_decode (DecodeChargingSessionEvent unmarshal)) (PersistSessionEventBatch server)
       None (Some deadLetter) batchSize batchWait"
    "store_batch session_batch" db_wf
  for unmarshal deadLetter batchSize batchWait
  by (intro stream_consumer.intro session_ingest.repository_runner_axioms) simp_all

interpretation energy_delivery: stream_consumer "DecodeEnergySiteObservation unmarshal" valid_observation eo_IngestedAt None
    "\<lambda>server. new_runner EnergyStreamName (pure_decode (DecodeEnergySiteObservation unmarshal)) (PersistEnergyObservationBatch server)
       None (Some deadLetter) batchSize batchWait"
    "store_batch observation_batch" db_wf
  for unmarshal deadLetter batchSize batchWait
  by (intro stream_consumer.intro energy_ingest.repository_runner_axioms) simp_all

section \<open>What can have become of a message\<close>

text \<open>The four things that can have become of a message of the stream.\<close>

definition not_lost :: "(time \<Rightarrow> Message \<Rightarrow> 'a result) \<Rightarrow> ('a \<Rightarrow> 'db \<Rightarrow> bool) \<Rightarrow> 'db Consumer \<Rightarrow> nat \<Rightarrow> bool" where
  "not_lost judge recorded c i \<longleftrightarrow>
     i \<in> deliverable c \<or> i \<in> dv_evicted c \<or>
     (\<exists>t v. judge t (message_at (dv_stream c) i) = Inr v \<and> recorded v (ig_db (dv_ingest c))) \<or>
     (\<exists>t err. judge t (message_at (dv_stream c) i) = Inl err \<and>
        parked (ig_dlq (dv_ingest c)) (message_at (dv_stream c) i) err)"

text \<open>
  A healthy repository and dead-letter stream, and a healthy delivery: at least one message and at most a
  batch of them, with every settlement heard by the broker.
\<close>

definition healthy_server :: "Server \<Rightarrow> bool" where
  "healthy_server server \<longleftrightarrow>
     sv_begin server = None \<and> (\<forall>stmt. sv_refuse server stmt = None) \<and> sv_close server = None \<and> sv_commit server = None"

definition healthy_env :: "Env \<Rightarrow> bool" where
  "healthy_env env \<longleftrightarrow> (\<forall>n. en_publish env n = None)"

definition healthy_step :: "(Server \<Rightarrow> ('a, 'db) Runner) \<Rightarrow> 'db Consumer \<Rightarrow> 'db Consumer \<Rightarrow> bool" where
  "healthy_step runner c c' \<longleftrightarrow>
     (\<exists>ids server env st. ids \<noteq> [] \<and> set ids \<subseteq> deliverable c \<and> int (length ids) \<le> ru_batchSize (runner server) \<and>
        healthy_server server \<and> healthy_env env \<and>
        st = ProcessBatch (runner server) env (map (message_at (dv_stream c)) ids) (dv_ingest c) \<and>
        c' = c\<lparr>dv_ingest := st, dv_settled := dv_settled c \<union> closed (new_settlements (dv_ingest c) st)\<rparr>)"

lemma healthy_stepI:
  "ids \<noteq> [] \<Longrightarrow> set ids \<subseteq> deliverable c \<Longrightarrow> int (length ids) \<le> ru_batchSize (runner server) \<Longrightarrow> healthy_server server \<Longrightarrow>
   healthy_env env \<Longrightarrow> st = ProcessBatch (runner server) env (map (message_at (dv_stream c)) ids) (dv_ingest c) \<Longrightarrow>
   healthy_step runner c (c\<lparr>dv_ingest := st, dv_settled := dv_settled c \<union> closed (new_settlements (dv_ingest c) st)\<rparr>)"
  unfolding healthy_step_def by blast

lemma healthy_step_delivery: "healthy_step runner c c' \<Longrightarrow> delivery_step runner c c'"
  unfolding healthy_step_def by (elim exE conjE, simp only:) (rule delivery_step.processed; simp)

lemma healthy_persists:
  assumes "healthy_server server"
  shows "fst (PersistTelemetryBatch server ts db) = None" "fst (PersistEnergyObservationBatch server os db) = None"
    "fst (PersistSessionEventBatch server es db) = None"
  using assms by (simp_all add: persist_reports accepts_def healthy_server_def)

text \<open>
  Healthy deliveries drain a stream: as long as the broker holds a message there is a further one, and
  each takes at least one message off what the broker holds, so that no more of them are possible than
  there are messages.
\<close>

definition drains :: "(Server \<Rightarrow> ('a, 'db) Runner) \<Rightarrow> 'db Consumer \<Rightarrow> bool" where
  "drains runner c \<longleftrightarrow>
     (\<forall>k c'. (healthy_step runner ^^ k) c c' \<longrightarrow>
        k + card (deliverable c') \<le> card (deliverable c) \<and> dv_stream c' = dv_stream c \<and> dv_evicted c' = dv_evicted c \<and>
        (deliverable c' \<noteq> {} \<longrightarrow> (\<exists>c''. healthy_step runner c' c'')))"

lemma finite_deliverable [simp]: "finite (deliverable c)"
  by (simp add: deliverable_def)

lemma healthy_step_shrinks:
  assumes "stream_consumer dec valid stamp verify runner store I" and "healthy_step runner c c'"
    and "\<And>server xs db. healthy_server server \<Longrightarrow> fst (ru_persist (runner server) xs db) = None"
  shows "card (deliverable c') < card (deliverable c)" "dv_stream c' = dv_stream c" "dv_evicted c' = dv_evicted c"
proof -
  obtain ids server env st where b: "ids \<noteq> []" "set ids \<subseteq> deliverable c" "healthy_server server" "healthy_env env"
    "st = ProcessBatch (runner server) env (map (message_at (dv_stream c)) ids) (dv_ingest c)"
    "c' = c\<lparr>dv_ingest := st, dv_settled := dv_settled c \<union> closed (new_settlements (dv_ingest c) st)\<rparr>"
    using assms(2) unfolding healthy_step_def by blast
  have "set ids \<subseteq> closed (new_settlements (dv_ingest c) st)"
    unfolding b(5) by (rule stream_consumer.healthy_delivery [OF assms(1)]) (use b(3,4) assms(3) in \<open>auto simp: healthy_env_def\<close>)
  then have "deliverable c' \<subseteq> deliverable c - set ids" by (auto simp: b(6) deliverable_def)
  moreover have "deliverable c - set ids \<subset> deliverable c" using b(1,2) by (cases ids) auto
  ultimately show "card (deliverable c') < card (deliverable c)" by (intro psubset_card_mono) auto
  show "dv_stream c' = dv_stream c" "dv_evicted c' = dv_evicted c" by (simp_all add: b(6))
qed

lemma healthy_step_takes:
  assumes "ids \<noteq> []" "set ids \<subseteq> deliverable c" "\<And>server. int (length ids) \<le> ru_batchSize (runner server)"
    and "stream_consumer dec valid stamp verify runner store I"
    and "\<And>server xs db. healthy_server server \<Longrightarrow> fst (ru_persist (runner server) xs db) = None"
  shows "\<exists>c'. healthy_step runner c c' \<and> deliverable c' \<subseteq> deliverable c - set ids"
proof -
  let ?server = "\<lparr>sv_begin = None, sv_refuse = (\<lambda>_. None), sv_close = None, sv_commit = None, sv_now = 0\<rparr>"
  let ?env = "\<lparr>en_now = 0, en_elapsed = 0, en_publish = (\<lambda>_. None), en_clock = (\<lambda>_. [])\<rparr>"
  let ?st = "ProcessBatch (runner ?server) ?env (map (message_at (dv_stream c)) ids) (dv_ingest c)"
  let ?c = "c\<lparr>dv_ingest := ?st, dv_settled := dv_settled c \<union> closed (new_settlements (dv_ingest c) ?st)\<rparr>"
  have healthy: "healthy_server ?server" "healthy_env ?env" by (simp_all add: healthy_server_def healthy_env_def)
  have "healthy_step runner c ?c" by (rule healthy_stepI [OF assms(1-3) healthy refl])
  moreover have "set ids \<subseteq> closed (new_settlements (dv_ingest c) ?st)"
    by (rule stream_consumer.healthy_delivery [OF assms(4)]) (simp_all add: assms(5) healthy(1))
  ultimately show ?thesis by (intro exI [of _ ?c]) (auto simp: deliverable_def)
qed

lemma healthy_drains:
  assumes "stream_consumer dec valid stamp verify runner store I"
    and "\<And>server xs db. healthy_server server \<Longrightarrow> fst (ru_persist (runner server) xs db) = None"
    and "\<And>server. 0 < ru_batchSize (runner server)"
  shows "drains runner c"
proof -
  have "k + card (deliverable c') \<le> card (deliverable c) \<and> dv_stream c' = dv_stream c \<and> dv_evicted c' = dv_evicted c"
    if "(healthy_step runner ^^ k) c c'" for k c'
    using that
  proof (induction k arbitrary: c')
    case (Suc k)
    then obtain d where d: "(healthy_step runner ^^ k) c d" "healthy_step runner d c'" by auto
    then show ?case using Suc.IH [OF d(1)] healthy_step_shrinks [OF assms(1) d(2) assms(2)] by simp
  qed simp
  moreover have "\<exists>c''. healthy_step runner c' c''" if nonempty: "deliverable c' \<noteq> {}" for c'
  proof -
    obtain i where "i \<in> deliverable c'" using nonempty by blast
    moreover have "int (length [i]) \<le> ru_batchSize (runner server)" for server using assms(3) [of server] by simp
    ultimately show ?thesis using healthy_step_takes [of "[i]" c' runner, OF _ _ _ assms(1,2)] by auto
  qed
  ultimately show ?thesis unfolding drains_def by blast
qed

text \<open>One delivery is enough when a batch holds what is left.\<close>

lemma healthy_batch_empties:
  assumes "stream_consumer dec valid stamp verify runner store I"
    and "\<And>server xs db. healthy_server server \<Longrightarrow> fst (ru_persist (runner server) xs db) = None"
    and "deliverable c \<noteq> {}" "\<And>server. int (card (deliverable c)) \<le> ru_batchSize (runner server)"
  shows "\<exists>c'. healthy_step runner c c' \<and> deliverable c' = {}"
  using healthy_step_takes [of "sorted_list_of_set (deliverable c)" c runner, OF _ _ _ assms(1,2)] assms(3,4) by simp

text \<open>In general some number of healthy deliveries leaves nothing to deliver.\<close>

lemma drains_empties: "drains runner c \<Longrightarrow> \<exists>k\<le>card (deliverable c). \<exists>c'. (healthy_step runner ^^ k) c c' \<and> deliverable c' = {}"
proof (rule ccontr)
  assume d: "drains runner c" and none: "\<not> (\<exists>k\<le>card (deliverable c). \<exists>c'. (healthy_step runner ^^ k) c c' \<and> deliverable c' = {})"
  have "\<exists>c'. (healthy_step runner ^^ k) c c'" if "k \<le> Suc (card (deliverable c))" for k
    using that
  proof (induction k)
    case (Suc k)
    then obtain c' where c': "(healthy_step runner ^^ k) c c'" by auto
    then have "deliverable c' \<noteq> {}" using none Suc.prems by auto
    then show ?case using d c' unfolding drains_def by fastforce
  qed simp
  from this [OF order_refl] show False using d unfolding drains_def by fastforce
qed

text \<open>The constructors determine a runner up to the repository behind it.\<close>

lemma session_family:
  assumes "\<And>server. \<exists>broker broker'. NewSessionRunner unmarshal stream (PersistSessionEventBatch server) subject (Some deadLetter) maxAge maxBytes
      batchSize batchWait broker = (Inr (runner server), broker')"
  shows "runner = (\<lambda>server. new_runner SessionStreamName (pure_decode (DecodeChargingSessionEvent unmarshal))
    (PersistSessionEventBatch server) None (Some deadLetter) batchSize batchWait)"
proof
  fix server
  obtain broker broker' where "NewSessionRunner unmarshal stream (PersistSessionEventBatch server) subject (Some deadLetter) maxAge maxBytes
      batchSize batchWait broker = (Inr (runner server), broker')" using assms by blast
  then show "runner server = new_runner SessionStreamName (pure_decode (DecodeChargingSessionEvent unmarshal))
    (PersistSessionEventBatch server) None (Some deadLetter) batchSize batchWait" by (rule NewSessionRunner_Inr)
qed

lemma telemetry_family:
  assumes "\<And>server. \<exists>broker broker'. NewTelemetryRunner unmarshal stream (PersistTelemetryBatch server) subject (Some deadLetter) maxAge maxBytes
      batchSize batchWait required broker = (Inr (runner server), broker')"
  shows "runner = (\<lambda>server. new_runner TelemetryStreamName (telemetry_decode unmarshal) (PersistTelemetryBatch server)
    (Some (VerifyTelemetryOrigin subject required)) (Some deadLetter) batchSize batchWait)"
proof
  fix server
  obtain broker broker' where "NewTelemetryRunner unmarshal stream (PersistTelemetryBatch server) subject (Some deadLetter) maxAge maxBytes
      batchSize batchWait required broker = (Inr (runner server), broker')" using assms by blast
  then show "runner server = new_runner TelemetryStreamName (telemetry_decode unmarshal) (PersistTelemetryBatch server)
    (Some (VerifyTelemetryOrigin subject required)) (Some deadLetter) batchSize batchWait" by (rule NewTelemetryRunner_Inr)
qed

lemma energy_family:
  assumes "\<And>server. \<exists>broker broker'. NewEnergyRunner unmarshal stream (PersistEnergyObservationBatch server) subject (Some deadLetter) maxAge maxBytes
      batchSize batchWait broker = (Inr (runner server), broker')"
  shows "runner = (\<lambda>server. new_runner EnergyStreamName (pure_decode (DecodeEnergySiteObservation unmarshal))
    (PersistEnergyObservationBatch server) None (Some deadLetter) batchSize batchWait)"
proof
  fix server
  obtain broker broker' where "NewEnergyRunner unmarshal stream (PersistEnergyObservationBatch server) subject (Some deadLetter) maxAge maxBytes
      batchSize batchWait broker = (Inr (runner server), broker')" using assms by blast
  then show "runner server = new_runner EnergyStreamName (pure_decode (DecodeEnergySiteObservation unmarshal))
    (PersistEnergyObservationBatch server) None (Some deadLetter) batchSize batchWait" by (rule NewEnergyRunner_Inr)
qed

end
