(* ===== verification/Platform.thy ===== *)
theory Platform
  imports Delivery
begin

text \<open>
  The control plane's three consumers on one database and one dead-letter stream: each step is a step of
  one consumer of \<open>Delivery\<close> on the shared state. What a batch of one stream has recorded survives the
  batches of the others, because they write different tables.
\<close>

record Platform =
  pf_telemetry :: "Database Consumer"
  pf_energy :: "Database Consumer"
  pf_sessions :: "Database Consumer"
  pf_ingest :: "Database Ingest"

text \<open>A consumer as it sees the shared state.\<close>

definition seated :: "'db Ingest \<Rightarrow> 'db Consumer \<Rightarrow> 'db Consumer" where
  "seated st c = c\<lparr>dv_ingest := st\<rparr>"

lemma seated_simps [simp]:
  "dv_stream (seated st c) = dv_stream c" "dv_settled (seated st c) = dv_settled c" "dv_evicted (seated st c) = dv_evicted c"
  "dv_ingest (seated st c) = st" "deliverable (seated st c) = deliverable c" "seated (dv_ingest c) c = c"
  by (simp_all add: seated_def deliverable_def)

inductive platform_step ::
  "(Server \<Rightarrow> (Telemetry, Database) Runner) \<Rightarrow> (Server \<Rightarrow> (EnergyObservation, Database) Runner) \<Rightarrow>
   (Server \<Rightarrow> (SessionEvent, Database) Runner) \<Rightarrow> Platform \<Rightarrow> Platform \<Rightarrow> bool" for telemetry energy sessions where
  on_telemetry: "delivery_step telemetry (seated (pf_ingest p) (pf_telemetry p)) c \<Longrightarrow>
    platform_step telemetry energy sessions p (p\<lparr>pf_telemetry := c, pf_ingest := dv_ingest c\<rparr>)"
| on_energy: "delivery_step energy (seated (pf_ingest p) (pf_energy p)) c \<Longrightarrow>
    platform_step telemetry energy sessions p (p\<lparr>pf_energy := c, pf_ingest := dv_ingest c\<rparr>)"
| on_sessions: "delivery_step sessions (seated (pf_ingest p) (pf_sessions p)) c \<Longrightarrow>
    platform_step telemetry energy sessions p (p\<lparr>pf_sessions := c, pf_ingest := dv_ingest c\<rparr>)"

definition empty_platform :: "Database Ingest \<Rightarrow> Platform" where
  "empty_platform st =
     \<lparr>pf_telemetry = empty_consumer st, pf_energy = empty_consumer st, pf_sessions = empty_consumer st, pf_ingest = st\<rparr>"

section \<open>What one step does to the shared state\<close>

lemma delivery_stream_grows: "delivery_step runner c c' \<Longrightarrow> \<exists>ms. dv_stream c' = dv_stream c @ ms"
  by (induction rule: delivery_step.induct) auto

text \<open>A step depends on what was settled before only through what it may deliver.\<close>

lemma delivery_step_unsettled:
  assumes "delivery_step runner c c'"
  shows "\<exists>new. dv_settled c' = dv_settled c \<union> new \<and> delivery_step runner (c\<lparr>dv_settled := {}\<rparr>) (c'\<lparr>dv_settled := new\<rparr>)"
  using assms
proof cases
  case (published m)
  then show ?thesis using delivery_step.published [of runner "c\<lparr>dv_settled := {}\<rparr>" m] by (intro exI [of _ "{}"]) (cases c; simp)
next
  case (evicted i)
  then show ?thesis using delivery_step.evicted [of i "c\<lparr>dv_settled := {}\<rparr>" runner] by (intro exI [of _ "{}"]) (cases c; simp)
next
  case (processed ids server st env heard)
  then show ?thesis using delivery_step.processed [of ids "c\<lparr>dv_settled := {}\<rparr>" runner server st env heard]
    by (intro exI [of _ "closed heard"]) (cases c; auto simp: deliverable_def)
next
  case (died ids server st env heard metrics)
  then show ?thesis using delivery_step.died [of ids "c\<lparr>dv_settled := {}\<rparr>" runner server st env heard metrics]
    by (intro exI [of _ "closed heard"]) (cases c; auto simp: deliverable_def)
qed

context stream_consumer
begin

lemma step_dlq: "delivery_step runner c c' \<Longrightarrow> set (ig_dlq (dv_ingest c)) \<subseteq> set (ig_dlq (dv_ingest c'))"
proof (induction rule: delivery_step.induct)
  case (processed ids c server st env heard)
  then show ?case using processed_account [of server env "map (message_at (dv_stream c)) ids" "dv_ingest c"] by auto
next
  case (died ids c server st env heard metrics)
  then show ?case using interrupted_account(2) [of "dv_ingest c" server env "map (message_at (dv_stream c)) ids"] by simp
qed simp_all

text \<open>The batches a step stored, and what it settled accounted for by them.\<close>

lemma step_effect:
  assumes "delivery_step runner c c'"
  obtains h new where "dv_settled c' = dv_settled c \<union> new"
    "delivery_inv judge store (ig_db (dv_ingest c)) h (c'\<lparr>dv_settled := new\<rparr>)"
proof -
  obtain new where new: "dv_settled c' = dv_settled c \<union> new" "delivery_step runner (c\<lparr>dv_settled := {}\<rparr>) (c'\<lparr>dv_settled := new\<rparr>)"
    using delivery_step_unsettled [OF assms] by blast
  have "delivery_inv judge store (ig_db (dv_ingest c)) [] (c\<lparr>dv_settled := {}\<rparr>)"
    by (simp add: delivery_inv_def held_def)
  then obtain h where "delivery_inv judge store (ig_db (dv_ingest c)) ([] @ h) (c'\<lparr>dv_settled := new\<rparr>)"
    using delivery_inv_step [OF new(2)] by blast
  then show ?thesis using that new(1) by simp
qed

end

section \<open>Evidence survives every step of the platform\<close>

text \<open>A settled message is recorded, or rejected and parked.\<close>

definition evident :: "(time \<Rightarrow> Message \<Rightarrow> 'a result) \<Rightarrow> ('a \<Rightarrow> 'db \<Rightarrow> bool) \<Rightarrow> 'db Ingest \<Rightarrow> Message \<Rightarrow> bool" where
  "evident judge recorded st m \<longleftrightarrow>
     (\<exists>t v. judge t m = Inr v \<and> recorded v (ig_db st)) \<or> (\<exists>t err. judge t m = Inl err \<and> parked (ig_dlq st) m err)"

definition kept :: "(time \<Rightarrow> Message \<Rightarrow> 'a result) \<Rightarrow> ('a \<Rightarrow> 'db \<Rightarrow> bool) \<Rightarrow> 'db Consumer \<Rightarrow> bool" where
  "kept judge recorded c \<longleftrightarrow>
     (\<forall>i\<in>dv_settled c. i < length (dv_stream c) \<and> evident judge recorded (dv_ingest c) (message_at (dv_stream c) i))"

lemma evident_grows:
  "evident judge recorded st m \<Longrightarrow> (\<And>v. recorded v (ig_db st) \<Longrightarrow> recorded v (ig_db st')) \<Longrightarrow>
   set (ig_dlq st) \<subseteq> set (ig_dlq st') \<Longrightarrow> evident judge recorded st' m"
  unfolding evident_def parked_def by blast

text \<open>Batches of a kind that leave a record alone.\<close>

definition spares :: "('a list \<Rightarrow> SQL list) \<Rightarrow> ('b \<Rightarrow> Database \<Rightarrow> bool) \<Rightarrow> bool" where
  "spares batch recorded \<longleftrightarrow> (\<forall>server xs db y. recorded y db \<longrightarrow> recorded y (store_batch batch server xs db))"

lemma replay_spares: "spares batch recorded \<Longrightarrow> recorded y db \<Longrightarrow> recorded y (replay (store_batch batch) h db)"
proof (induction h arbitrary: db)
  case (Cons a h)
  then show ?case by (cases a) (simp add: replay_def spares_def)
qed simp

lemma evidence_spares:
  assumes "\<And>now. evidence_store now batch recorded"
  shows "spares batch recorded"
  unfolding spares_def
proof (intro allI impI)
  fix server :: Server and xs db y assume y: "recorded y db"
  obtain db' where "apply_all (sv_now server) (batch xs) db = Inr db'" using evidence_store.batch_total [OF assms] by blast
  then show "recorded y (store_batch batch server xs db)"
    using evidence_store.apply_records [OF assms, of "sv_now server"] y by (simp add: store_batch_def)
qed

lemma own_step_kept:
  assumes consumer: "stream_consumer dec valid stamp verify runner (store_batch batch) I"
    and evidence: "\<And>now. evidence_store now batch recorded"
    and step: "delivery_step runner c c'" and kept: "kept (judged dec verify) recorded c"
  shows "kept (judged dec verify) recorded c'"
proof -
  obtain h new where new: "dv_settled c' = dv_settled c \<union> new"
    and inv: "delivery_inv (judged dec verify) (store_batch batch) (ig_db (dv_ingest c)) h (c'\<lparr>dv_settled := new\<rparr>)"
    by (rule stream_consumer.step_effect [OF consumer step])
  obtain ms where ms: "dv_stream c' = dv_stream c @ ms" using delivery_stream_grows [OF step] by blast
  have db: "ig_db (dv_ingest c') = replay (store_batch batch) h (ig_db (dv_ingest c))" using inv by (simp add: delivery_inv_def)
  have "i < length (dv_stream c') \<and> evident (judged dec verify) recorded (dv_ingest c') (message_at (dv_stream c') i)"
    if "i \<in> dv_settled c" for i
  proof -
    have i: "i < length (dv_stream c)" "evident (judged dec verify) recorded (dv_ingest c) (message_at (dv_stream c) i)"
      using kept that by (simp_all add: kept_def)
    have "evident (judged dec verify) recorded (dv_ingest c') (message_at (dv_stream c) i)"
      by (rule evident_grows [OF i(2)])
         (simp_all add: db replay_spares [OF evidence_spares [OF evidence]] stream_consumer.step_dlq [OF consumer step])
    then show ?thesis using i(1) ms by simp
  qed
  moreover have "i < length (dv_stream c') \<and> evident (judged dec verify) recorded (dv_ingest c') (message_at (dv_stream c') i)"
    if "i \<in> new" for i
    using inv that replay_records [OF evidence, of _ h "ig_db (dv_ingest c)"] db
    by (fastforce simp: delivery_inv_def evident_def accounted_def)
  ultimately show ?thesis unfolding kept_def new by blast
qed

lemma foreign_step_kept:
  assumes consumer: "stream_consumer dec valid stamp verify runner (store_batch batch) I" and "spares batch recorded"
    and step: "delivery_step runner (seated st c) c'" and kept: "kept judge recorded (seated st d)"
  shows "kept judge recorded (seated (dv_ingest c') d)"
proof -
  obtain h new where
    "delivery_inv (judged dec verify) (store_batch batch) (ig_db st) h (c'\<lparr>dv_settled := new\<rparr>)"
    by (rule stream_consumer.step_effect [OF consumer step]) simp
  then have db: "ig_db (dv_ingest c') = replay (store_batch batch) h (ig_db st)" by (simp add: delivery_inv_def)
  have "set (ig_dlq st) \<subseteq> set (ig_dlq (dv_ingest c'))" using stream_consumer.step_dlq [OF consumer step] by simp
  then have "evident judge recorded (dv_ingest c') m" if "evident judge recorded st m" for m
    using evident_grows [OF that] replay_spares [OF assms(2)] db by metis
  then show ?thesis using kept by (simp add: kept_def)
qed

section \<open>The batches of one stream spare the records of the others\<close>

text \<open>Statements that leave a part of the database alone.\<close>

definition leaves :: "(Database \<Rightarrow> 'c) \<Rightarrow> SQL \<Rightarrow> bool" where
  "leaves part stmt \<longleftrightarrow> (\<forall>now db db'. execute now stmt db = Inr db' \<longrightarrow> part db' = part db)"

lemma leaves_all: "\<forall>stmt\<in>set stmts. leaves part stmt \<Longrightarrow> apply_all now stmts db = Inr db' \<Longrightarrow> part db' = part db"
  by (induction stmts arbitrary: db) (auto simp: leaves_def split: sum.splits)

lemma store_leaves: "\<forall>stmt\<in>set (batch xs). leaves part stmt \<Longrightarrow> part (store_batch batch server xs db) = part db"
  by (auto simp: store_batch_def leaves_all split: sum.splits)

lemma telemetry_leaves: "stmt \<in> set (telemetry_batch xs) \<Longrightarrow>
    leaves db_sessions stmt \<and> leaves db_session_events stmt \<and> leaves db_observations stmt"
  by (auto simp: telemetry_batch_def leaves_def execute_defs Let_def split: if_splits)

lemma observation_leaves: "stmt \<in> set (observation_batch xs) \<Longrightarrow>
    leaves db_sessions stmt \<and> leaves db_session_events stmt \<and> leaves db_telemetry stmt"
  by (auto simp: observation_batch_def leaves_def execute_defs Let_def split: if_splits)

lemma session_leaves: "stmt \<in> set (session_batch xs) \<Longrightarrow> leaves db_telemetry stmt \<and> leaves db_observations stmt"
  by (auto simp: session_batch_def leaves_def execute_defs Let_def split: if_splits)

lemma foreign_parts:
  "db_sessions (store_batch telemetry_batch server ts db) = db_sessions db"
  "db_session_events (store_batch telemetry_batch server ts db) = db_session_events db"
  "db_observations (store_batch telemetry_batch server ts db) = db_observations db"
  "db_sessions (store_batch observation_batch server os db) = db_sessions db"
  "db_session_events (store_batch observation_batch server os db) = db_session_events db"
  "db_telemetry (store_batch observation_batch server os db) = db_telemetry db"
  "db_telemetry (store_batch session_batch server es db) = db_telemetry db"
  "db_observations (store_batch session_batch server es db) = db_observations db"
  using telemetry_leaves [of _ ts] observation_leaves [of _ os] session_leaves [of _ es] by (blast intro: store_leaves)+

lemma foreign_spares:
  "spares telemetry_batch session_recorded" "spares telemetry_batch observation_filed"
  "spares observation_batch session_recorded" "spares observation_batch telemetry_filed"
  "spares session_batch telemetry_filed" "spares session_batch observation_filed"
  by (simp_all add: spares_def session_recorded_def telemetry_filed_def observation_filed_def foreign_parts)

lemma foreign_rows:
  "event_rows (store_batch telemetry_batch server ts db) = event_rows db"
  "observation_rows (store_batch telemetry_batch server ts db) = observation_rows db"
  "event_rows (store_batch observation_batch server os db) = event_rows db"
  "telemetry_rows (store_batch observation_batch server os db) = telemetry_rows db"
  "telemetry_rows (store_batch session_batch server es db) = telemetry_rows db"
  "observation_rows (store_batch session_batch server es db) = observation_rows db"
  by (simp_all add: event_rows_def observation_rows_def telemetry_rows_def foreign_parts)

section \<open>Every row was there or was said by a message\<close>

definition traced ::
  "(time \<Rightarrow> Message \<Rightarrow> 'a result) \<Rightarrow> ('a \<Rightarrow> 'row) \<Rightarrow> ('db \<Rightarrow> 'row set) \<Rightarrow> 'row set \<Rightarrow> 'db Consumer \<Rightarrow> bool" where
  "traced judge row_of rows old c \<longleftrightarrow>
     rows (ig_db (dv_ingest c)) \<subseteq> old \<union> (\<Union>j<length (dv_stream c). said judge row_of (dv_stream c) j)"

lemma said_append: "j < length stream \<Longrightarrow> said judge row_of (stream @ ms) j = said judge row_of stream j"
  by (simp add: said_def)

lemma own_step_traced:
  assumes consumer: "stream_consumer dec valid stamp verify runner (store_batch batch) I"
    and table: "\<And>now. table_store now batch recorded row_of key rows"
    and step: "delivery_step runner c c'" and traced: "traced (judged dec verify) row_of rows old c"
  shows "traced (judged dec verify) row_of rows old c'"
proof -
  let ?said = "said (judged dec verify) row_of"
  obtain h new where inv: "delivery_inv (judged dec verify) (store_batch batch) (ig_db (dv_ingest c)) h (c'\<lparr>dv_settled := new\<rparr>)"
    by (rule stream_consumer.step_effect [OF consumer step])
  obtain ms where ms: "dv_stream c' = dv_stream c @ ms" using delivery_stream_grows [OF step] by blast
  have "ig_db (dv_ingest c') = replay (store_batch batch) h (ig_db (dv_ingest c))" using inv by (simp add: delivery_inv_def)
  then have new: "rows (ig_db (dv_ingest c')) \<subseteq> rows (ig_db (dv_ingest c)) \<union> row_of ` held h" using replay_rows [OF table] by simp
  have fresh: "row_of ` held h \<subseteq> (\<Union>j<length (dv_stream c'). ?said (dv_stream c') j)"
    using inv by (fastforce simp: delivery_inv_def said_def)
  have grows: "(\<Union>j<length (dv_stream c). ?said (dv_stream c) j) \<subseteq> (\<Union>j<length (dv_stream c'). ?said (dv_stream c') j)"
    unfolding ms by (rule SUP_subset_mono) (auto simp: said_append)
  show ?thesis unfolding traced_def
    by (rule order_trans [OF new Un_least [OF order_trans [OF traced [unfolded traced_def] Un_mono [OF order_refl grows]]
          order_trans [OF fresh Un_upper2]]])
qed

lemma foreign_step_traced:
  assumes consumer: "stream_consumer dec valid stamp verify runner (store_batch batch) I"
    and leaves: "\<And>server xs db. rows (store_batch batch server xs db) = rows db"
    and step: "delivery_step runner (seated st c) c'" and traced: "traced judge row_of rows old (seated st d)"
  shows "traced judge row_of rows old (seated (dv_ingest c') d)"
proof -
  obtain h new where
    "delivery_inv (judged dec verify) (store_batch batch) (ig_db st) h (c'\<lparr>dv_settled := new\<rparr>)"
    by (rule stream_consumer.step_effect [OF consumer step]) simp
  then have db: "ig_db (dv_ingest c') = replay (store_batch batch) h (ig_db st)" by (simp add: delivery_inv_def)
  have "rows (replay (store_batch batch) h db) = rows db" for db
    by (induction h arbitrary: db) (auto simp: replay_def leaves)
  then show ?thesis using traced by (simp add: traced_def db)
qed

section \<open>Nothing is lost\<close>

text \<open>The runners of the platform, as the constructors build them.\<close>

definition telemetry_runners ::
  "(string \<Rightarrow> string + ChargingTelemetry) \<Rightarrow> string \<Rightarrow> bool \<Rightarrow> DeadLetter \<Rightarrow> int \<Rightarrow> duration \<Rightarrow>
   Server \<Rightarrow> (Telemetry, Database) Runner" where
  "telemetry_runners unmarshal subject required deadLetter batchSize batchWait =
     (\<lambda>server. new_runner TelemetryStreamName (telemetry_decode unmarshal) (PersistTelemetryBatch server)
        (Some (VerifyTelemetryOrigin subject required)) (Some deadLetter) batchSize batchWait)"

definition energy_runners ::
  "(string \<Rightarrow> string + EnergySiteObservation) \<Rightarrow> DeadLetter \<Rightarrow> int \<Rightarrow> duration \<Rightarrow>
   Server \<Rightarrow> (EnergyObservation, Database) Runner" where
  "energy_runners unmarshal deadLetter batchSize batchWait =
     (\<lambda>server. new_runner EnergyStreamName (pure_decode (DecodeEnergySiteObservation unmarshal)) (PersistEnergyObservationBatch server)
        None (Some deadLetter) batchSize batchWait)"

definition session_runners ::
  "(string \<Rightarrow> string + ChargingSessionEvent) \<Rightarrow> DeadLetter \<Rightarrow> int \<Rightarrow> duration \<Rightarrow>
   Server \<Rightarrow> (SessionEvent, Database) Runner" where
  "session_runners unmarshal deadLetter batchSize batchWait =
     (\<lambda>server. new_runner SessionStreamName (pure_decode (DecodeChargingSessionEvent unmarshal)) (PersistSessionEventBatch server)
        None (Some deadLetter) batchSize batchWait)"

lemmas telemetry_consumer = telemetry_delivery.stream_consumer_axioms [folded telemetry_runners_def]
lemmas energy_consumer = energy_delivery.stream_consumer_axioms [folded energy_runners_def]
lemmas session_consumer = session_delivery.stream_consumer_axioms [folded session_runners_def]

definition platform_kept ::
  "(time \<Rightarrow> Message \<Rightarrow> Telemetry result) \<Rightarrow> (time \<Rightarrow> Message \<Rightarrow> EnergyObservation result) \<Rightarrow>
   (time \<Rightarrow> Message \<Rightarrow> SessionEvent result) \<Rightarrow> Platform \<Rightarrow> bool" where
  "platform_kept jt je js p \<longleftrightarrow>
     kept jt telemetry_filed (seated (pf_ingest p) (pf_telemetry p)) \<and>
     kept je observation_filed (seated (pf_ingest p) (pf_energy p)) \<and>
     kept js session_recorded (seated (pf_ingest p) (pf_sessions p))"

lemma platform_kept_step:
  fixes p p' :: Platform
  defines "st \<equiv> pf_ingest p"
  assumes step: "platform_step (telemetry_runners ut subject required dl n w) (energy_runners ue dl n w)
      (session_runners us dl n w) p p'"
    and kept: "platform_kept (judged (DecodeChargingTelemetry ut) (Some (VerifyTelemetryOrigin subject required)))
      (judged (DecodeEnergySiteObservation ue) None) (judged (DecodeChargingSessionEvent us) None) p"
  shows "platform_kept (judged (DecodeChargingTelemetry ut) (Some (VerifyTelemetryOrigin subject required)))
      (judged (DecodeEnergySiteObservation ue) None) (judged (DecodeChargingSessionEvent us) None) p'"
proof -
  note k = kept [unfolded platform_kept_def, folded st_def]
  note own = own_step_kept [OF telemetry_consumer telemetry_evidence.evidence_store_axioms]
    own_step_kept [OF energy_consumer observation_evidence.evidence_store_axioms]
    own_step_kept [OF session_consumer session_evidence.evidence_store_axioms]
  note foreign = foreign_step_kept [OF telemetry_consumer] foreign_step_kept [OF energy_consumer] foreign_step_kept [OF session_consumer]
  from step show ?thesis
  proof cases
    case (on_telemetry c)
    then show ?thesis using k own(1) [OF on_telemetry(2)] foreign(1) [OF foreign_spares(1) on_telemetry(2)]
        foreign(1) [OF foreign_spares(2) on_telemetry(2)] by (simp add: platform_kept_def st_def)
  next
    case (on_energy c)
    then show ?thesis using k own(2) [OF on_energy(2)] foreign(2) [OF foreign_spares(3) on_energy(2)]
        foreign(2) [OF foreign_spares(4) on_energy(2)] by (simp add: platform_kept_def st_def)
  next
    case (on_sessions c)
    then show ?thesis using k own(3) [OF on_sessions(2)] foreign(3) [OF foreign_spares(5) on_sessions(2)]
        foreign(3) [OF foreign_spares(6) on_sessions(2)] by (simp add: platform_kept_def st_def)
  qed
qed

lemma platform_kept_reachable:
  assumes "(platform_step (telemetry_runners ut subject required dl n w) (energy_runners ue dl n w) (session_runners us dl n w))\<^sup>*\<^sup>*
      (empty_platform st) p"
  shows "platform_kept (judged (DecodeChargingTelemetry ut) (Some (VerifyTelemetryOrigin subject required)))
      (judged (DecodeEnergySiteObservation ue) None) (judged (DecodeChargingSessionEvent us) None) p"
  using assms
proof (induction rule: rtranclp_induct)
  case base
  show ?case by (simp add: platform_kept_def kept_def empty_platform_def empty_consumer_def)
next
  case (step p p')
  then show ?case using platform_kept_step by blast
qed

text \<open>The rows of the three tables, traced to the messages of their streams or to the database at the start.\<close>

definition platform_traced ::
  "(time \<Rightarrow> Message \<Rightarrow> Telemetry result) \<Rightarrow> (time \<Rightarrow> Message \<Rightarrow> EnergyObservation result) \<Rightarrow>
   (time \<Rightarrow> Message \<Rightarrow> SessionEvent result) \<Rightarrow> Database \<Rightarrow> Platform \<Rightarrow> bool" where
  "platform_traced jt je js db0 p \<longleftrightarrow>
     traced jt telemetry_row telemetry_rows (telemetry_rows db0) (seated (pf_ingest p) (pf_telemetry p)) \<and>
     traced je observation_row observation_rows (observation_rows db0) (seated (pf_ingest p) (pf_energy p)) \<and>
     traced js session_event_row event_rows (event_rows db0) (seated (pf_ingest p) (pf_sessions p))"

lemma platform_traced_step:
  fixes p p' :: Platform
  defines "st \<equiv> pf_ingest p"
  assumes step: "platform_step (telemetry_runners ut subject required dl n w) (energy_runners ue dl n w)
      (session_runners us dl n w) p p'"
    and traced: "platform_traced (judged (DecodeChargingTelemetry ut) (Some (VerifyTelemetryOrigin subject required)))
      (judged (DecodeEnergySiteObservation ue) None) (judged (DecodeChargingSessionEvent us) None) db0 p"
  shows "platform_traced (judged (DecodeChargingTelemetry ut) (Some (VerifyTelemetryOrigin subject required)))
      (judged (DecodeEnergySiteObservation ue) None) (judged (DecodeChargingSessionEvent us) None) db0 p'"
proof -
  note k = traced [unfolded platform_traced_def, folded st_def]
  note own = own_step_traced [OF telemetry_consumer telemetry_table.table_store_axioms]
    own_step_traced [OF energy_consumer observation_table.table_store_axioms]
    own_step_traced [OF session_consumer session_table.table_store_axioms]
  note foreign = foreign_step_traced [OF telemetry_consumer] foreign_step_traced [OF energy_consumer]
    foreign_step_traced [OF session_consumer]
  from step show ?thesis
  proof cases
    case (on_telemetry c)
    then show ?thesis using k own(1) [OF on_telemetry(2)] foreign(1) [OF foreign_rows(1) on_telemetry(2)]
        foreign(1) [OF foreign_rows(2) on_telemetry(2)] by (auto simp: platform_traced_def st_def)
  next
    case (on_energy c)
    then show ?thesis using k own(2) [OF on_energy(2)] foreign(2) [OF foreign_rows(3) on_energy(2)]
        foreign(2) [OF foreign_rows(4) on_energy(2)] by (auto simp: platform_traced_def st_def)
  next
    case (on_sessions c)
    then show ?thesis using k own(3) [OF on_sessions(2)] foreign(3) [OF foreign_rows(5) on_sessions(2)]
        foreign(3) [OF foreign_rows(6) on_sessions(2)] by (auto simp: platform_traced_def st_def)
  qed
qed

lemma platform_traced_reachable:
  assumes "(platform_step (telemetry_runners ut subject required dl n w) (energy_runners ue dl n w) (session_runners us dl n w))\<^sup>*\<^sup>*
      (empty_platform st) p"
  shows "platform_traced (judged (DecodeChargingTelemetry ut) (Some (VerifyTelemetryOrigin subject required)))
      (judged (DecodeEnergySiteObservation ue) None) (judged (DecodeChargingSessionEvent us) None) (ig_db st) p"
  using assms
proof (induction rule: rtranclp_induct)
  case base
  show ?case by (simp add: platform_traced_def traced_def empty_platform_def empty_consumer_def)
next
  case (step p p')
  then show ?case using platform_traced_step by blast
qed

lemma kept_not_lost: "kept judge recorded c \<Longrightarrow> i < length (dv_stream c) \<Longrightarrow> not_lost judge recorded c i"
  by (cases "i \<in> dv_settled c") (auto simp: kept_def not_lost_def deliverable_def evident_def)

text \<open>
  A settled message whose value has a row under its key: the row is its own, or one that was there at the
  start or that another message of the stream said.
\<close>

lemma traced_not_lost:
  assumes "kept judge filed c" "traced judge row_of rows old c" "i < length (dv_stream c)"
    and filed: "\<And>v db. filed v db \<Longrightarrow> \<exists>row\<in>rows db. key row = key (row_of v)"
  shows "not_lost judge (stored_or_preceded row_of key rows (rivals judge row_of old (dv_stream c) i)) c i"
proof -
  let ?db = "ig_db (dv_ingest c)" and ?m = "message_at (dv_stream c) i" and ?rivals = "rivals judge row_of old (dv_stream c) i"
  have "\<exists>t v. judge t ?m = Inr v \<and> stored_or_preceded row_of key rows ?rivals v ?db"
    if v: "judge t ?m = Inr v" "filed v ?db" for t v
  proof -
    obtain row where row: "row \<in> rows ?db" "key row = key (row_of v)" using filed [OF v(2)] by blast
    show ?thesis
    proof (cases "row \<in> ?rivals")
      case True
      then show ?thesis using v(1) row by (auto simp: stored_or_preceded_def)
    next
      case False
      then have "row \<in> said judge row_of (dv_stream c) i" using assms(2) row(1) by (force simp: traced_def rivals_def)
      then show ?thesis using row(1) by (auto simp: said_def stored_or_preceded_def)
    qed
  qed
  then show ?thesis using kept_not_lost [OF assms(1,3)] unfolding not_lost_def by blast
qed

text \<open>The constructors determine the runners of a platform up to the repository behind them.\<close>

definition builds_platform ::
  "'b JetStream \<Rightarrow> DeadLetter \<Rightarrow> int \<Rightarrow> duration \<Rightarrow> (string \<Rightarrow> string + ChargingTelemetry) \<Rightarrow> string \<Rightarrow> bool \<Rightarrow>
   (string \<Rightarrow> string + EnergySiteObservation) \<Rightarrow> (string \<Rightarrow> string + ChargingSessionEvent) \<Rightarrow>
   (Server \<Rightarrow> (Telemetry, Database) Runner) \<Rightarrow> (Server \<Rightarrow> (EnergyObservation, Database) Runner) \<Rightarrow>
   (Server \<Rightarrow> (SessionEvent, Database) Runner) \<Rightarrow> bool" where
  "builds_platform stream dl n w ut subject required ue us telemetry energy sessions \<longleftrightarrow>
     (\<exists>maxAge maxBytes. \<forall>server. \<exists>b b'. NewTelemetryRunner ut stream (PersistTelemetryBatch server) subject (Some dl)
        maxAge maxBytes n w required b = (Inr (telemetry server), b')) \<and>
     (\<exists>esubject maxAge maxBytes. \<forall>server. \<exists>b b'. NewEnergyRunner ue stream (PersistEnergyObservationBatch server) esubject (Some dl)
        maxAge maxBytes n w b = (Inr (energy server), b')) \<and>
     (\<exists>ssubject maxAge maxBytes. \<forall>server. \<exists>b b'. NewSessionRunner us stream (PersistSessionEventBatch server) ssubject (Some dl)
        maxAge maxBytes n w b = (Inr (sessions server), b'))"

lemma builds_platform_runners:
  assumes "builds_platform stream dl n w ut subject required ue us telemetry energy sessions"
  shows "telemetry = telemetry_runners ut subject required dl n w" "energy = energy_runners ue dl n w"
    "sessions = session_runners us dl n w"
proof -
  obtain a m where t: "\<And>server. \<exists>b b'. NewTelemetryRunner ut stream (PersistTelemetryBatch server) subject (Some dl)
        a m n w required b = (Inr (telemetry server), b')"
    using assms unfolding builds_platform_def by blast
  obtain es ea em where e: "\<And>server. \<exists>b b'. NewEnergyRunner ue stream (PersistEnergyObservationBatch server) es (Some dl)
        ea em n w b = (Inr (energy server), b')"
    using assms unfolding builds_platform_def by blast
  obtain ss sa sm where s: "\<And>server. \<exists>b b'. NewSessionRunner us stream (PersistSessionEventBatch server) ss (Some dl)
        sa sm n w b = (Inr (sessions server), b')"
    using assms unfolding builds_platform_def by blast
  show "telemetry = telemetry_runners ut subject required dl n w" unfolding telemetry_runners_def by (rule telemetry_family [OF t])
  show "energy = energy_runners ue dl n w" unfolding energy_runners_def by (rule energy_family [OF e])
  show "sessions = session_runners us dl n w" unfolding session_runners_def by (rule session_family [OF s])
qed

lemma runners_batchSize [simp]:
  "ru_batchSize (telemetry_runners ut subject required dl n w server) = n" "ru_batchSize (energy_runners ue dl n w server) = n"
  "ru_batchSize (session_runners us dl n w server) = n"
  by (simp_all add: telemetry_runners_def energy_runners_def session_runners_def new_runner_def)

lemma platform_drains:
  assumes "0 < n"
  shows "drains (telemetry_runners ut subject required dl n w) c" "drains (energy_runners ue dl n w) c"
    "drains (session_runners us dl n w) c"
proof -
  show "drains (telemetry_runners ut subject required dl n w) c"
    by (rule healthy_drains [OF telemetry_consumer]) (simp_all add: assms telemetry_runners_def [abs_def] healthy_persists new_runner_def)
  show "drains (energy_runners ue dl n w) c"
    by (rule healthy_drains [OF energy_consumer]) (simp_all add: assms energy_runners_def [abs_def] healthy_persists new_runner_def)
  show "drains (session_runners us dl n w) c"
    by (rule healthy_drains [OF session_consumer]) (simp_all add: assms session_runners_def [abs_def] healthy_persists new_runner_def)
qed

text \<open>
  C2. Nothing is lost between the broker and the database. Start the three consumers on one database with
  empty streams and let anything happen, in any order: messages published by anyone, batches of at most
  the batch size delivered in any order and as often as the broker likes, settlements that never arrive,
  processes that die at any point, commits whose answer is lost, messages dropped by the retention limits.
  Then every message of every stream is still held by the broker for delivery, was dropped by the
  retention limits, was rejected and lies in the dead-letter stream with its bytes and the reason, or is
  recorded: the table holds its row column by column, or a row under the same conflict key that was there
  at the start or that another message of the stream reported before it (a second sample of a connector
  from one edge with the same timestamp is not kept). Of a session event the session moreover has the
  boundary it reports and a register not below its own. And at any moment the streams drain: while the
  broker holds a message of one, a healthy delivery of one batch is possible, and each takes at least one
  message off, so that there are at most as many of them as messages held.
\<close>

theorem no_message_is_lost:
  assumes built: "builds_platform stream dl n w ut subject required ue us telemetry energy sessions" and batch: "0 < n"
    and reach: "(platform_step telemetry energy sessions)\<^sup>*\<^sup>* (empty_platform st) p"
    and view: "t = seated (pf_ingest p) (pf_telemetry p)" "e = seated (pf_ingest p) (pf_energy p)"
      "s = seated (pf_ingest p) (pf_sessions p)"
    and judges: "jt = judged (DecodeChargingTelemetry ut) (Some (VerifyTelemetryOrigin subject required))"
      "je = judged (DecodeEnergySiteObservation ue) None" "js = judged (DecodeChargingSessionEvent us) None"
  shows "(\<forall>i<length (dv_stream t). not_lost jt
        (telemetry_recorded (rivals jt telemetry_row (telemetry_rows (ig_db st)) (dv_stream t) i)) t i) \<and>
    (\<forall>i<length (dv_stream e). not_lost je
        (observation_recorded (rivals je observation_row (observation_rows (ig_db st)) (dv_stream e) i)) e i) \<and>
    (\<forall>i<length (dv_stream s). not_lost js
        (event_recorded (rivals js session_event_row (event_rows (ig_db st)) (dv_stream s) i)) s i \<and>
        not_lost js session_recorded s i) \<and>
    drains telemetry t \<and> drains energy e \<and> drains sessions s"
proof -
  note reached = reach [unfolded builds_platform_runners [OF built]]
  note kept = platform_kept_reachable [OF reached, unfolded platform_kept_def, folded view judges]
  note traced = platform_traced_reachable [OF reached, unfolded platform_traced_def, folded view judges]
  have "not_lost jt (telemetry_recorded (rivals jt telemetry_row (telemetry_rows (ig_db st)) (dv_stream t) i)) t i"
    if "i < length (dv_stream t)" for i
    unfolding telemetry_recorded_def by (rule traced_not_lost [OF _ _ that telemetry_table.recorded_row]) (use kept traced in auto)
  moreover have "not_lost je (observation_recorded (rivals je observation_row (observation_rows (ig_db st)) (dv_stream e) i)) e i"
    if "i < length (dv_stream e)" for i
    unfolding observation_recorded_def by (rule traced_not_lost [OF _ _ that observation_table.recorded_row]) (use kept traced in auto)
  moreover have "not_lost js (event_recorded (rivals js session_event_row (event_rows (ig_db st)) (dv_stream s) i)) s i"
    if "i < length (dv_stream s)" for i
    unfolding event_recorded_def by (rule traced_not_lost [OF _ _ that session_table.recorded_row]) (use kept traced in auto)
  moreover have "not_lost js session_recorded s i" if "i < length (dv_stream s)" for i
    by (rule kept_not_lost [OF _ that]) (use kept in auto)
  ultimately show ?thesis unfolding builds_platform_runners [OF built] using platform_drains [OF batch] by blast
qed

text \<open>A start that was stored although its acknowledgement never reached the broker.\<close>

theorem no_message_is_lost_witness:
  "\<exists>(p :: Platform) sessions. dv_stream (pf_sessions p) = [(''s'', ''start'')] \<and> dv_settled (pf_sessions p) = {} \<and>
     db_sessions (ig_db (pf_ingest p)) \<noteq> [] \<and>
     not_lost (judged (DecodeChargingSessionEvent example_session_payload) None) session_recorded
       (seated (pf_ingest p) (pf_sessions p)) 0 \<and>
     deliverable (pf_sessions p) = {0} \<and>
     drains (sessions :: Server \<Rightarrow> (SessionEvent, Database) Runner) (seated (pf_ingest p) (pf_sessions p))"
proof -
  let ?dl = "\<lparr>dl_subject = ''dlq''\<rparr>"
  let ?t = "telemetry_runners example_telemetry_payload ''t'' True ?dl 10 second_ns"
  let ?e = "energy_runners (\<lambda>_. Inl []) ?dl 10 second_ns"
  let ?s = "session_runners example_session_payload ?dl 10 second_ns"
  have built: "builds_platform example_js ?dl 10 second_ns example_telemetry_payload ''t'' True (\<lambda>_. Inl []) example_session_payload ?t ?e ?s"
    unfolding builds_platform_def
    by (intro conjI exI [of _ 1] exI [of _ "''e''"])
       (simp_all add: NewSessionRunner_def NewTelemetryRunner_def NewEnergyRunner_def NewRunner_def example_js_def new_runner_def
          WithVerifier_def telemetry_runners_def energy_runners_def session_runners_def)
  let ?c1 = "(empty_consumer example_ingest)\<lparr>dv_stream := [(''s'', ''start'')]\<rparr>"
  let ?st = "ProcessBatch (?s example_server) example_env (map (message_at (dv_stream ?c1)) [0]) (dv_ingest ?c1)"
  let ?c = "?c1\<lparr>dv_ingest := ?st, dv_settled := dv_settled ?c1 \<union> closed {}\<rparr>"
  let ?p = "empty_platform example_ingest"
  let ?p1 = "?p\<lparr>pf_sessions := ?c1, pf_ingest := dv_ingest ?c1\<rparr>"
  let ?p2 = "?p1\<lparr>pf_sessions := ?c, pf_ingest := dv_ingest ?c\<rparr>"
  have "delivery_step ?s (empty_consumer example_ingest) ?c1"
    using delivery_step.published [of ?s "empty_consumer example_ingest" "(''s'', ''start'')"] by (simp add: empty_consumer_def)
  then have 1: "platform_step ?t ?e ?s ?p ?p1"
    using platform_step.on_sessions [of ?s ?p ?c1 ?t ?e] by (simp add: empty_platform_def seated_def empty_consumer_def)
  have "delivery_step ?s ?c1 ?c"
    by (rule delivery_step.processed [where ids = "[0]" and server = example_server and env = example_env])
       (auto simp: deliverable_def empty_consumer_def)
  then have 2: "platform_step ?t ?e ?s ?p1 ?p2"
    using platform_step.on_sessions [of ?s ?p1 ?c ?t ?e] by (simp add: seated_def)
  from 1 2 have "(platform_step ?t ?e ?s)\<^sup>*\<^sup>* ?p ?p2" by (rule rtranclp_trans [OF r_into_rtranclp r_into_rtranclp])
  note lost = no_message_is_lost [OF built _ this refl refl refl refl refl refl]
  have "db_sessions (ig_db ?st) \<noteq> []" by code_simp
  then show ?thesis using lost by (intro exI [of _ ?p2] exI [of _ ?s]) (auto simp: empty_consumer_def closed_def deliverable_def)
qed

end
