(* ===== verification/Csms_Mapping.thy ===== *)
theory Csms_Mapping
  imports Contract GoParse
begin

text \<open>
  File \<open>mapping.go\<close> of package \<open>csms\<close>: the pure translation of OCPP 1.6 values into the canonical
  messages. The string constants of the OCPP library are constructors (the Go compiler refuses two
  equal constants in one map or switch, so they are distinct), an unset field is a constructor of
  its own, and any other text is kept in the last one.
\<close>

section \<open>OCPP values\<close>

datatype ChargePointStatus =
    ChargePointStatusAvailable | ChargePointStatusPreparing | ChargePointStatusCharging
  | ChargePointStatusFinishing | ChargePointStatusFaulted | ChargePointStatusReserved
  | ChargePointStatusUnavailable | ChargePointStatusSuspendedEV | ChargePointStatusSuspendedEVSE
  | ChargePointStatusOther string

datatype Reason =
    ReasonLocal | ReasonRemote | ReasonEVDisconnected | ReasonEmergencyStop | ReasonPowerLoss
  | ReasonDeAuthorized | ReasonHardReset | ReasonSoftReset | ReasonReboot | ReasonUnlockCommand
  | ReasonOther | ReasonUnknown string

datatype Measurand =
    MeasurandUnset | MeasurandVoltage | MeasurandCurrentImport | MeasurandPowerActiveImport
  | MeasurandEnergyActiveImportRegister | MeasurandSoC | MeasurandTemperature | MeasurandOther string

datatype UnitOfMeasure =
    UnitUnset | UnitOfMeasureV | UnitOfMeasureA | UnitOfMeasureW | UnitOfMeasureKW
  | UnitOfMeasureWh | UnitOfMeasureKWh | UnitOfMeasureCelsius | UnitOfMeasureCelcius
  | UnitOfMeasureFahrenheit | UnitOfMeasureK | UnitOther string

record SampledValue =
  sv_Value :: string
  sv_Measurand :: Measurand
  sv_Unit :: UnitOfMeasure

record MeterValue =
  mv_Timestamp :: "time option"
  mv_SampledValue :: "SampledValue list"

section \<open>Identity, states, reasons and clocks\<close>

definition PlausibleEpochMs :: int where
  "PlausibleEpochMs = 1735689600000"

record Origin =
  og_GatewayID :: string
  og_SiteID :: string

definition SessionID :: "string \<Rightarrow> int \<Rightarrow> string" where
  "SessionID chargePointID transactionID = ''ocpp16:'' @ chargePointID @ '':'' @ Itoa transactionID"

fun chargePointStates :: "ChargePointStatus \<Rightarrow> ChargingState option" where
  "chargePointStates ChargePointStatusAvailable = Some CHARGING_STATE_AVAILABLE"
| "chargePointStates ChargePointStatusPreparing = Some CHARGING_STATE_PREPARING"
| "chargePointStates ChargePointStatusCharging = Some CHARGING_STATE_CHARGING"
| "chargePointStates ChargePointStatusFinishing = Some CHARGING_STATE_FINISHING"
| "chargePointStates ChargePointStatusFaulted = Some CHARGING_STATE_FAULTED"
| "chargePointStates ChargePointStatusReserved = Some CHARGING_STATE_RESERVED"
| "chargePointStates ChargePointStatusUnavailable = Some CHARGING_STATE_UNAVAILABLE"
| "chargePointStates ChargePointStatusSuspendedEV = Some CHARGING_STATE_SUSPENDED"
| "chargePointStates ChargePointStatusSuspendedEVSE = Some CHARGING_STATE_SUSPENDED"
| "chargePointStates (ChargePointStatusOther _) = None"

definition ChargingStateOf :: "ChargePointStatus \<Rightarrow> ChargingState" where
  "ChargingStateOf status =
     (case chargePointStates status of Some state \<Rightarrow> state | None \<Rightarrow> CHARGING_STATE_UNSPECIFIED)"

fun csms_stopReasons :: "Reason \<Rightarrow> StopReason option" where
  "csms_stopReasons ReasonLocal = Some STOP_REASON_LOCAL"
| "csms_stopReasons ReasonRemote = Some STOP_REASON_REMOTE"
| "csms_stopReasons ReasonEVDisconnected = Some STOP_REASON_EV_DISCONNECTED"
| "csms_stopReasons ReasonEmergencyStop = Some STOP_REASON_EMERGENCY_STOP"
| "csms_stopReasons ReasonPowerLoss = Some STOP_REASON_POWER_LOSS"
| "csms_stopReasons ReasonDeAuthorized = Some STOP_REASON_DE_AUTHORIZED"
| "csms_stopReasons ReasonHardReset = Some STOP_REASON_OTHER"
| "csms_stopReasons ReasonSoftReset = Some STOP_REASON_OTHER"
| "csms_stopReasons ReasonReboot = Some STOP_REASON_OTHER"
| "csms_stopReasons ReasonUnlockCommand = Some STOP_REASON_OTHER"
| "csms_stopReasons ReasonOther = Some STOP_REASON_OTHER"
| "csms_stopReasons (ReasonUnknown _) = None"

definition StopReasonOf :: "Reason \<Rightarrow> StopReason" where
  "StopReasonOf reason =
     (case csms_stopReasons reason of Some mapped \<Rightarrow> mapped | None \<Rightarrow> STOP_REASON_UNSPECIFIED)"

definition ClockSyncOf :: "int \<Rightarrow> ClockSync" where
  "ClockSyncOf reportedAtMs =
     (if PlausibleEpochMs \<le> reportedAtMs then CLOCK_SYNC_SYNCHRONIZED else CLOCK_SYNC_UNSYNCHRONIZED)"

section \<open>Readings\<close>

record Reading =
  rd_Voltage :: "float64 option"
  rd_Current :: "float64 option"
  rd_PowerKW :: "float64 option"
  rd_EnergyKWh :: "float64 option"
  rd_SOC :: "float64 option"
  rd_TemperatureC :: "float64 option"

definition empty_reading :: Reading where
  "empty_reading = \<lparr>rd_Voltage = None, rd_Current = None, rd_PowerKW = None, rd_EnergyKWh = None,
     rd_SOC = None, rd_TemperatureC = None\<rparr>"

definition measurandOf :: "SampledValue \<Rightarrow> Measurand" where
  "measurandOf sample =
     (if sv_Measurand sample = MeasurandUnset then MeasurandEnergyActiveImportRegister
      else sv_Measurand sample)"

fun toVolts :: "float64 \<Rightarrow> UnitOfMeasure \<Rightarrow> float64 option" where
  "toVolts value UnitUnset = Some value"
| "toVolts value UnitOfMeasureV = Some value"
| "toVolts value _ = None"

fun toKilowatts :: "float64 \<Rightarrow> UnitOfMeasure \<Rightarrow> float64 option" where
  "toKilowatts value UnitUnset = Some (fdiv value (Fin 1000))"
| "toKilowatts value UnitOfMeasureW = Some (fdiv value (Fin 1000))"
| "toKilowatts value UnitOfMeasureKW = Some value"
| "toKilowatts value _ = None"

fun toKilowattHours :: "float64 \<Rightarrow> UnitOfMeasure \<Rightarrow> float64 option" where
  "toKilowattHours value UnitUnset = Some (fdiv value (Fin 1000))"
| "toKilowattHours value UnitOfMeasureWh = Some (fdiv value (Fin 1000))"
| "toKilowattHours value UnitOfMeasureKWh = Some value"
| "toKilowattHours value _ = None"

text \<open>The constant \<open>273.15\<close> is rounded to binary64 when it is compiled.\<close>

fun toCelsius :: "float64 \<Rightarrow> UnitOfMeasure \<Rightarrow> float64 option" where
  "toCelsius value UnitUnset = Some value"
| "toCelsius value UnitOfMeasureCelsius = Some value"
| "toCelsius value UnitOfMeasureCelcius = Some value"
| "toCelsius value UnitOfMeasureFahrenheit = Some (fdiv (fmul (fsub value (Fin 32)) (Fin 5)) (Fin 9))"
| "toCelsius value UnitOfMeasureK = Some (fsub value (pack64 False (27315 / 100)))"
| "toCelsius value _ = None"

definition sample_number :: "SampledValue \<Rightarrow> float64 option" where
  "sample_number sample = ParseFloat (TrimSpace (sv_Value sample))"

definition read_sample :: "SampledValue \<Rightarrow> Reading \<Rightarrow> Reading" where
  "read_sample sample reading =
     (case sample_number sample of
        None \<Rightarrow> reading
      | Some number \<Rightarrow>
          (case measurandOf sample of
             MeasurandVoltage \<Rightarrow>
               (case toVolts number (sv_Unit sample) of
                  Some converted \<Rightarrow> reading\<lparr>rd_Voltage := Some converted\<rparr> | None \<Rightarrow> reading)
           | MeasurandCurrentImport \<Rightarrow>
               (if sv_Unit sample = UnitUnset \<or> sv_Unit sample = UnitOfMeasureA
                then reading\<lparr>rd_Current := Some number\<rparr> else reading)
           | MeasurandPowerActiveImport \<Rightarrow>
               (case toKilowatts number (sv_Unit sample) of
                  Some converted \<Rightarrow> reading\<lparr>rd_PowerKW := Some converted\<rparr> | None \<Rightarrow> reading)
           | MeasurandEnergyActiveImportRegister \<Rightarrow>
               (case toKilowattHours number (sv_Unit sample) of
                  Some converted \<Rightarrow> reading\<lparr>rd_EnergyKWh := Some converted\<rparr> | None \<Rightarrow> reading)
           | MeasurandSoC \<Rightarrow> reading\<lparr>rd_SOC := Some number\<rparr>
           | MeasurandTemperature \<Rightarrow>
               (case toCelsius number (sv_Unit sample) of
                  Some converted \<Rightarrow> reading\<lparr>rd_TemperatureC := Some converted\<rparr> | None \<Rightarrow> reading)
           | _ \<Rightarrow> reading))"

definition MeterValueToReading :: "MeterValue \<Rightarrow> Reading" where
  "MeterValueToReading v = fold read_sample (mv_SampledValue v) empty_reading"

text \<open>
  The register in watt-hours: the first sample that is a readable register in a known unit. What
  \<open>int64\<close> makes of a value it cannot hold is the parameter \<open>oob\<close>.
\<close>

definition register_of :: "(float64 \<Rightarrow> int) \<Rightarrow> SampledValue \<Rightarrow> int option" where
  "register_of oob sample =
     (if measurandOf sample \<noteq> MeasurandEnergyActiveImportRegister then None
      else case sample_number sample of
             None \<Rightarrow> None
           | Some number \<Rightarrow>
               (case sv_Unit sample of
                  UnitUnset \<Rightarrow> Some (int64_of oob number)
                | UnitOfMeasureWh \<Rightarrow> Some (int64_of oob number)
                | UnitOfMeasureKWh \<Rightarrow> Some (int64_of oob (fmul number (Fin 1000)))
                | _ \<Rightarrow> None))"

fun first_register :: "(float64 \<Rightarrow> int) \<Rightarrow> SampledValue list \<Rightarrow> int option" where
  "first_register oob [] = None"
| "first_register oob (sample # samples) =
     (case register_of oob sample of Some r \<Rightarrow> Some r | None \<Rightarrow> first_register oob samples)"

definition EnergyRegisterWh :: "(float64 \<Rightarrow> int) \<Rightarrow> MeterValue \<Rightarrow> int option" where
  "EnergyRegisterWh oob v = first_register oob (mv_SampledValue v)"

section \<open>Canonical messages\<close>

definition csms_valueOr :: "float64 option \<Rightarrow> float64" where
  "csms_valueOr value = (case value of None \<Rightarrow> Fin 0 | Some v \<Rightarrow> v)"

definition TelemetryFrom ::
  "Origin \<Rightarrow> string \<Rightarrow> int \<Rightarrow> ChargingState \<Rightarrow> Reading \<Rightarrow> time \<Rightarrow> time \<Rightarrow> u64 \<Rightarrow> ChargingTelemetry" where
  "TelemetryFrom origin chargePointID connectorID state reading reportedAt observedAt sequence =
     (let reportedAtMs = to_UnixMilli reportedAt
      in \<lparr>ct_station_id = chargePointID,
          ct_connector_id = Itoa connectorID,
          ct_timestamp_ms = reportedAtMs,
          ct_voltage = csms_valueOr (rd_Voltage reading),
          ct_current = csms_valueOr (rd_Current reading),
          ct_power_kw = csms_valueOr (rd_PowerKW reading),
          ct_energy_kwh = csms_valueOr (rd_EnergyKWh reading),
          ct_soc = csms_valueOr (rd_SOC reading),
          ct_temperature_c = csms_valueOr (rd_TemperatureC reading),
          ct_state = state,
          ct_edge = Some \<lparr>em_edge_id = og_GatewayID origin,
                          em_site_id = og_SiteID origin,
                          em_received_at_ms = to_UnixMilli observedAt,
                          em_sequence = sequence,
                          em_clock_sync = ClockSyncOf reportedAtMs\<rparr>\<rparr>)"

definition csms_SessionEvent ::
  "Origin \<Rightarrow> string \<Rightarrow> int \<Rightarrow> int \<Rightarrow> SessionEventType \<Rightarrow> time \<Rightarrow> Authorization option \<Rightarrow> int option \<Rightarrow>
   StopReason \<Rightarrow> ChargingSessionEvent" where
  "csms_SessionEvent origin chargePointID connectorID transactionID eventType occurredAt authorization
       registerWh stopReason =
     \<lparr>cs_session_id = SessionID chargePointID transactionID,
      cs_station_id = chargePointID,
      cs_connector_id = Itoa connectorID,
      cs_site_id = og_SiteID origin,
      cs_type = eventType,
      cs_occurred_at_ms = to_UnixMilli occurredAt,
      cs_authorization = authorization,
      cs_meter = (case registerWh of
                    None \<Rightarrow> None
                  | Some r \<Rightarrow> Some \<lparr>ms_energy_register_wh = r, ms_measured_at_ms = to_UnixMilli occurredAt\<rparr>),
      cs_stop_reason = stopReason,
      cs_source = SOURCE_PROTOCOL_OCPP_1_6,
      cs_transaction_reference = Itoa transactionID\<rparr>"

section \<open>Session identifiers join the two ends of one transaction\<close>

lemma Itoa_no_colon: "CHR '':'' \<notin> set (Itoa i)"
  using nat_digits_digits [of "CHR '':''"] by (auto simp: Itoa_def is_digit_def less_eq_char_def)

lemma split_at_first: "c \<notin> set s \<Longrightarrow> c \<notin> set t \<Longrightarrow> s @ c # a = t @ c # b \<longleftrightarrow> s = t \<and> a = b"
proof (induction s arbitrary: t)
  case Nil
  then show ?case by (cases t) auto
next
  case (Cons x s)
  then show ?case by (cases t) auto
qed

lemma split_at_last: "c \<notin> set s \<Longrightarrow> c \<notin> set t \<Longrightarrow> a @ c # s = b @ c # t \<longleftrightarrow> a = b \<and> s = t"
  using split_at_first [of c "rev s" "rev t" "rev a" "rev b"] rev_is_rev_conv [of "a @ c # s" "b @ c # t"] by auto

lemma SessionID_inject [simp]: "SessionID a i = SessionID b j \<longleftrightarrow> a = b \<and> i = j"
  using split_at_last [OF Itoa_no_colon Itoa_no_colon, of a i b j] by (simp add: SessionID_def)

lemma SessionID_nonempty [simp]: "SessionID a i \<noteq> []"
  by (simp add: SessionID_def)

section \<open>A reading is the last usable sample of each measurand\<close>

text \<open>
  The reference reads each measurand on its own: the samples of that measurand that parse and
  convert, and of those the last one.
\<close>

definition converted :: "Measurand \<Rightarrow> (float64 \<Rightarrow> UnitOfMeasure \<Rightarrow> float64 option) \<Rightarrow> SampledValue \<Rightarrow> float64 option" where
  "converted measurand convert sample =
     (if measurandOf sample = measurand
      then Option.bind (sample_number sample) (\<lambda>number. convert number (sv_Unit sample)) else None)"

definition last_of :: "(SampledValue \<Rightarrow> 'a option) \<Rightarrow> SampledValue list \<Rightarrow> 'a option" where
  "last_of f samples = (case filter (\<lambda>s. f s \<noteq> None) samples of [] \<Rightarrow> None | usable \<Rightarrow> f (last usable))"

definition toAmperes :: "float64 \<Rightarrow> UnitOfMeasure \<Rightarrow> float64 option" where
  "toAmperes value unit = (if unit \<in> {UnitUnset, UnitOfMeasureA} then Some value else None)"

definition toPercent :: "float64 \<Rightarrow> UnitOfMeasure \<Rightarrow> float64 option" where
  "toPercent value unit = Some value"

definition reading_spec :: "SampledValue list \<Rightarrow> Reading" where
  "reading_spec samples =
     \<lparr>rd_Voltage = last_of (converted MeasurandVoltage toVolts) samples,
      rd_Current = last_of (converted MeasurandCurrentImport toAmperes) samples,
      rd_PowerKW = last_of (converted MeasurandPowerActiveImport toKilowatts) samples,
      rd_EnergyKWh = last_of (converted MeasurandEnergyActiveImportRegister toKilowattHours) samples,
      rd_SOC = last_of (converted MeasurandSoC toPercent) samples,
      rd_TemperatureC = last_of (converted MeasurandTemperature toCelsius) samples\<rparr>"

lemma last_of_snoc:
  "last_of f (samples @ [s]) = (case f s of Some x \<Rightarrow> Some x | None \<Rightarrow> last_of f samples)"
  by (cases "f s"; cases "filter (\<lambda>s. f s \<noteq> None) samples") (simp_all add: last_of_def)

lemma read_sample_spec: "read_sample s (reading_spec samples) = reading_spec (samples @ [s])"
  by (cases "sample_number s"; cases "measurandOf s")
     (auto simp: read_sample_def reading_spec_def last_of_snoc converted_def toAmperes_def toPercent_def
        split: option.splits)

lemma fold_read_sample: "fold read_sample samples empty_reading = reading_spec samples"
proof (induction samples rule: rev_induct)
  case Nil
  then show ?case by (simp add: empty_reading_def reading_spec_def last_of_def)
next
  case (snoc s samples)
  then show ?case by (simp add: read_sample_spec)
qed

lemma first_register_find:
  "first_register oob samples = Option.bind (find (\<lambda>s. register_of oob s \<noteq> None) samples) (register_of oob)"
  by (induction samples) (auto split: option.splits)

section \<open>The register in watt-hours\<close>

text \<open>A decimal with at most three digits behind the point, as thousandths.\<close>

definition thousandths :: "string \<Rightarrow> string \<Rightarrow> nat" where
  "thousandths a b = digits_value (a @ b) * 10 ^ (3 - length b)"

lemma thousandths_value:
  assumes "length b \<le> 3"
  shows "(of_nat (digits_value (a @ b)) / 10 ^ length b :: rat) = of_nat (thousandths a b) / 1000"
proof -
  have "(10 :: rat) ^ length b * 10 ^ (3 - length b) = 10 ^ 3" using assms by (metis le_add_diff_inverse power_add)
  then show ?thesis by (simp add: thousandths_def field_simps)
qed

lemma thousandths_bounds:
  assumes "list_all is_digit b" "length b \<le> 3"
  shows "1000 * digits_value a \<le> thousandths a b" "thousandths a b < 1000 * digits_value a + 1000"
proof -
  have p: "(10 :: nat) ^ length b * 10 ^ (3 - length b) = 1000"
    using power_add [of "10 :: nat" "length b" "3 - length b"] assms(2) by simp
  have t: "thousandths a b = 1000 * digits_value a + digits_value b * 10 ^ (3 - length b)"
    using p by (simp add: thousandths_def digits_value_append add_mult_distrib mult.assoc)
  have "digits_value b * 10 ^ (3 - length b) < 10 ^ length b * 10 ^ (3 - length b)"
    using digits_value_less [OF assms(1)] by simp
  then show "1000 * digits_value a \<le> thousandths a b" "thousandths a b < 1000 * digits_value a + 1000"
    using p by (simp_all add: t)
qed

text \<open>
  Rounding to binary64 moves such a number by less than an eighth of a thousandth; the rounded product with
  a thousand is less than one away from the number of thousandths.
\<close>

lemma decimal_rounding:
  assumes "m \<le> 1000 * 2 ^ 39 + 1000"
  shows "\<bar>round64 (of_nat m / 1000) - of_nat m / 1000\<bar> < 1 / 8000"
    "\<bar>round64 (1000 * round64 (of_nat m / 1000)) - of_nat m\<bar> < 1"
proof -
  let ?q = "of_nat m / 1000 :: rat"
  have "(of_nat m :: rat) \<le> of_nat (1000 * 2 ^ 39 + 1000)" using assms by (simp only: of_nat_le_iff)
  then have m: "(of_nat m :: rat) \<le> 1000 * 2 ^ 39 + 1000" by simp
  have e1: "\<bar>round64 ?q - ?q\<bar> \<le> ?q / 2 ^ 53 + eta64" using round64_error [of ?q] by simp
  then show a: "\<bar>round64 ?q - ?q\<bar> < 1 / 8000" using m eta64_small by simp
  let ?y = "1000 * round64 ?q"
  have "round64 ?q \<le> ?q + 1 / 8000" using a by linarith
  then have y: "0 \<le> ?y" "?y \<le> of_nat m + 1 / 8" by (simp, linarith)
  have "\<bar>round64 ?y - ?y\<bar> \<le> ?y / 2 ^ 53 + eta64" using round64_error [of ?y] y(1) by simp
  then have "\<bar>round64 ?y - ?y\<bar> < 1 / 8" using y m eta64_small by simp
  moreover have "\<bar>?y - of_nat m\<bar> < 1 / 8" using a by linarith
  ultimately show "\<bar>round64 ?y - of_nat m\<bar> < 1" by linarith
qed

lemma int64_of_near:
  assumes "is_fin x" "0 \<le> fval x" "fval x \<le> 2 ^ 62"
  shows "int64_of oob x = \<lfloor>fval x\<rfloor>"
proof -
  have "0 \<le> \<lfloor>fval x\<rfloor>" "\<lfloor>fval x\<rfloor> \<le> 2 ^ 62" using assms(2,3) by (simp_all add: floor_le_iff)
  then show ?thesis using assms by (simp add: int64_of_def trunc_def in_int64_def min_int64_def max_int64_def)
qed

lemma int64_of_watt_hours:
  assumes "is_fin x" "fval x = round64 (of_nat m / 1000)" "1000 * w \<le> m" "m < 1000 * w + 1000" "w \<le> 2 ^ 39"
  shows "int64_of oob x = int w"
proof -
  have le: "m \<le> 1000 * 2 ^ 39 + 1000" using assms(4,5) by simp
  have w: "(of_nat w :: rat) \<le> 2 ^ 39" using assms(5) by (metis of_nat_le_iff of_nat_numeral of_nat_power)
  have "(of_nat (1000 * w) :: rat) \<le> of_nat m" "(of_nat m :: rat) \<le> of_nat (1000 * w + 999)"
    using assms(3,4) by (simp_all only: of_nat_le_iff)
  then have q: "of_nat w \<le> (of_nat m / 1000 :: rat)" "of_nat m / 1000 \<le> (of_nat w + 999 / 1000 :: rat)" by simp_all
  have "\<bar>int w\<bar> \<le> 2 ^ 53" using assms(5) by simp
  then have "of_nat w \<le> fval x" using round64_mono [OF q(1)] round64_of_int [of "int w"] assms(2) by simp
  moreover have "fval x < of_nat w + 1" using decimal_rounding(1) [OF le] q(2) assms(2) by linarith
  ultimately show ?thesis using w int64_of_near [OF assms(1), of oob] by (simp add: floor_eq_iff)
qed

lemma int64_of_kilowatt_hours:
  assumes "is_fin x" "fval x = round64 (of_nat m / 1000)" "m \<le> 1000 * 2 ^ 39 + 1000"
  shows "int64_of oob (fmul x (Fin 1000)) \<in> {int m, int m - 1}"
    "m mod 1000 = 0 \<Longrightarrow> int64_of oob (fmul x (Fin 1000)) = int m"
proof -
  let ?y = "1000 * round64 (of_nat m / 1000) :: rat"
  note near = decimal_rounding(2) [OF assms(3)]
  have "(of_nat m :: rat) \<le> of_nat (1000 * 2 ^ 39 + 1000)" using assms(3) by (simp only: of_nat_le_iff)
  then have m: "(of_nat m :: rat) \<le> 1000 * 2 ^ 39 + 1000" by simp
  have pos: "0 \<le> round64 ?y" by simp
  have fin: "is_fin (pack64 s ?y)" for s
    unfolding is_fin_pack64 using near m max_finite64_ge pos by (simp add: abs_if split: if_splits)
  have x: "fmul x (Fin 1000) = pack64 (Signbit x) ?y" using assms(1,2) by (simp add: fmul_fin mult.commute)
  have val: "is_fin (fmul x (Fin 1000))" "fval (fmul x (Fin 1000)) = round64 ?y" using fin by (simp_all add: x fval_pack64)
  have int: "int64_of oob (fmul x (Fin 1000)) = \<lfloor>round64 ?y\<rfloor>"
    using int64_of_near [OF val(1), of oob] pos near m val(2) by simp
  have "of_int (int m - 1) < round64 ?y" "round64 ?y < of_int (int m + 1)" using near by simp_all
  then have "int m - 1 \<le> \<lfloor>round64 ?y\<rfloor>" "\<lfloor>round64 ?y\<rfloor> \<le> int m" by (simp_all add: le_floor_iff floor_less_iff floor_le_iff)
  then show "int64_of oob (fmul x (Fin 1000)) \<in> {int m, int m - 1}" using int by auto
  assume "m mod 1000 = 0"
  then obtain k where k: "m = 1000 * k" by auto
  have "\<bar>int k\<bar> \<le> 2 ^ 53" "\<bar>int m\<bar> \<le> 2 ^ 53" using assms(3) k by simp_all
  then have "round64 (of_nat m / 1000) = of_nat k" "round64 (of_nat m) = (of_nat m :: rat)"
    using round64_of_int [of "int k"] round64_of_int [of "int m"] by (simp_all add: k)
  then have "round64 ?y = of_int (int m)" by (simp add: k)
  then show "int64_of oob (fmul x (Fin 1000)) = int m" using int by simp
qed

end
