(* ===== verification/Gateway_Publisher.thy ===== *)
theory Gateway_Publisher
  imports Csms_Mapping
begin

text \<open>
  Package \<open>publisher\<close> of the gateway, and the state its handlers change: the two atomic counters,
  the clock reads and the broker's store. The broker, the clock, the Protobuf encoder, the Unicode
  tables and out-of-range float conversions are the fields of an environment.
\<close>

text \<open>
  What the broker answers a publication: an acknowledgement, an error, or neither. A publication
  that is not acknowledged may have been stored all the same, which the flag says.
\<close>

datatype PublishAnswer = Acknowledged | Refused go_error bool | Unacknowledged bool

record GatewayEnv =
  ge_clock :: "nat \<Rightarrow> time"
  ge_publish :: "nat \<Rightarrow> PublishAnswer"
  ge_marshal_telemetry :: "ChargingTelemetry \<Rightarrow> string result"
  ge_marshal_session :: "ChargingSessionEvent \<Rightarrow> string result"
  ge_unicode_upper :: "string \<Rightarrow> string"
  ge_out_of_range :: "float64 \<Rightarrow> int"

record Gateway =
  gw_sequence :: u64
  gw_counter :: int
  gw_reads :: nat
  gw_attempts :: nat
  gw_bus :: "(string \<times> string) list"

record Publisher =
  pb_telemetrySubject :: string
  pb_sessionSubject :: string

definition publisher_New :: "string \<Rightarrow> string \<Rightarrow> Publisher" where
  "publisher_New telemetrySubject sessionSubject =
     \<lparr>pb_telemetrySubject = telemetrySubject, pb_sessionSubject = sessionSubject\<rparr>"

definition publish ::
  "GatewayEnv \<Rightarrow> string \<Rightarrow> string result \<Rightarrow> string \<Rightarrow> Gateway \<Rightarrow> go_error option \<times> Gateway" where
  "publish env subject marshalled label st =
     (case marshalled of
        Inl err \<Rightarrow> (Some (Wrapped (''encode '' @ label) err), st)
      | Inr payload \<Rightarrow>
          (let tried = st\<lparr>gw_attempts := gw_attempts st + 1\<rparr>;
               stored = tried\<lparr>gw_bus := gw_bus st @ [(subject, payload)]\<rparr>
           in case ge_publish env (gw_attempts st) of
                Acknowledged \<Rightarrow> (None, stored)
              | Refused err kept \<Rightarrow>
                  (Some (Wrapped (''publish '' @ label @ '' to '' @ subject) err), if kept then stored else tried)
              | Unacknowledged kept \<Rightarrow>
                  (Some (PlainError (''publish '' @ label @ '' to '' @ subject @ '': no acknowledgement'')),
                   if kept then stored else tried)))"

definition publish_Telemetry ::
  "GatewayEnv \<Rightarrow> Publisher \<Rightarrow> ChargingTelemetry \<Rightarrow> Gateway \<Rightarrow> go_error option \<times> Gateway" where
  "publish_Telemetry env publisher telemetry =
     publish env (pb_telemetrySubject publisher) (ge_marshal_telemetry env telemetry) ''telemetry''"

definition publish_Session ::
  "GatewayEnv \<Rightarrow> Publisher \<Rightarrow> ChargingSessionEvent \<Rightarrow> Gateway \<Rightarrow> go_error option \<times> Gateway" where
  "publish_Session env publisher event =
     publish env (pb_sessionSubject publisher) (ge_marshal_session env event) ''session event''"

section \<open>What a publication does\<close>

lemma publish_frame:
  "gw_sequence (snd (publish env subject p label st)) = gw_sequence st"
  "gw_counter (snd (publish env subject p label st)) = gw_counter st"
  "gw_reads (snd (publish env subject p label st)) = gw_reads st"
  by (auto simp: publish_def Let_def split: sum.splits PublishAnswer.splits)

lemma publish_frames [simp]:
  "gw_sequence (snd (publish_Telemetry env pub t st)) = gw_sequence st"
  "gw_counter (snd (publish_Telemetry env pub t st)) = gw_counter st"
  "gw_reads (snd (publish_Telemetry env pub t st)) = gw_reads st"
  "gw_sequence (snd (publish_Session env pub e st)) = gw_sequence st"
  "gw_counter (snd (publish_Session env pub e st)) = gw_counter st"
  "gw_reads (snd (publish_Session env pub e st)) = gw_reads st"
  by (simp_all add: publish_Telemetry_def publish_Session_def publish_frame)

text \<open>The bus only grows, by at most the message published.\<close>

lemma publish_bus:
  "gw_bus (snd (publish env subject p label st)) = gw_bus st \<or>
   (\<exists>payload. p = Inr payload \<and> gw_bus (snd (publish env subject p label st)) = gw_bus st @ [(subject, payload)])"
  by (auto simp: publish_def Let_def split: sum.splits PublishAnswer.splits)

lemma publish_acknowledged:
  "publish env subject p label st = (None, st') \<Longrightarrow>
   \<exists>payload. p = Inr payload \<and> gw_bus st' = gw_bus st @ [(subject, payload)] \<and>
     ge_publish env (gw_attempts st) = Acknowledged"
  by (auto simp: publish_def Let_def split: sum.splits PublishAnswer.splits)

end
