(* ===== verification/Sha256.thy ===== *)
theory Sha256
  imports GoLib "HOL-Library.Word"
begin

unbundle bit_operations_syntax

text \<open>
  Packages \<open>crypto/sha256\<close>, \<open>crypto/hmac\<close> and \<open>encoding/hex\<close> as the token hasher uses them: the
  SHA-256 compression function on 32-bit words, the keyed construction of RFC 2104 over it, and the
  lowercase hexadecimal encoding of the digest.
\<close>

type_synonym u32 = "32 word"

section \<open>SHA-256\<close>

definition initial_hash :: "u32 list" where
  "initial_hash =
     [1779033703, 3144134277, 1013904242, 2773480762, 1359893119, 2600822924, 528734635, 1541459225]"

definition round_constants :: "u32 list" where
  "round_constants =
     [1116352408, 1899447441, 3049323471, 3921009573, 961987163, 1508970993, 2453635748, 2870763221,
      3624381080, 310598401, 607225278, 1426881987, 1925078388, 2162078206, 2614888103, 3248222580,
      3835390401, 4022224774, 264347078, 604807628, 770255983, 1249150122, 1555081692, 1996064986,
      2554220882, 2821834349, 2952996808, 3210313671, 3336571891, 3584528711, 113926993, 338241895,
      666307205, 773529912, 1294757372, 1396182291, 1695183700, 1986661051, 2177026350, 2456956037,
      2730485921, 2820302411, 3259730800, 3345764771, 3516065817, 3600352804, 4094571909, 275423344,
      430227734, 506948616, 659060556, 883997877, 958139571, 1322822218, 1537002063, 1747873779,
      1955562222, 2024104815, 2227730452, 2361852424, 2428436474, 2756734187, 3204031479, 3329325298]"

definition char_word :: "char \<Rightarrow> u32" where
  "char_word c = word_of_nat (of_char c)"

definition word_char :: "u32 \<Rightarrow> char" where
  "word_char w = char_of (unat (w AND 0xFF))"

definition be_bytes :: "u32 \<Rightarrow> string" where
  "be_bytes w = [word_char (drop_bit 24 w), word_char (drop_bit 16 w), word_char (drop_bit 8 w), word_char w]"

fun be_words :: "string \<Rightarrow> u32 list" where
  "be_words (a # b # c # d # rest) =
     (push_bit 24 (char_word a) OR push_bit 16 (char_word b) OR push_bit 8 (char_word c) OR char_word d) # be_words rest"
| "be_words _ = []"

text \<open>The message, one bit, zeros up to 56 modulo 64, and the length in bits on eight bytes.\<close>

definition pad_message :: "string \<Rightarrow> string" where
  "pad_message s =
     (let bits = 8 * int (length s)
      in s @ [char_of (128 :: nat)] @ replicate (nat ((55 - int (length s)) mod 64)) (char_of (0 :: nat)) @
         be_bytes (word_of_int (bits div 2 ^ 32)) @ be_bytes (word_of_int bits))"

definition big_sigma0 :: "u32 \<Rightarrow> u32" where
  "big_sigma0 x = word_rotr 2 x XOR word_rotr 13 x XOR word_rotr 22 x"

definition big_sigma1 :: "u32 \<Rightarrow> u32" where
  "big_sigma1 x = word_rotr 6 x XOR word_rotr 11 x XOR word_rotr 25 x"

definition small_sigma0 :: "u32 \<Rightarrow> u32" where
  "small_sigma0 x = word_rotr 7 x XOR word_rotr 18 x XOR drop_bit 3 x"

definition small_sigma1 :: "u32 \<Rightarrow> u32" where
  "small_sigma1 x = word_rotr 17 x XOR word_rotr 19 x XOR drop_bit 10 x"

text \<open>The message schedule is kept latest first, so the four taps are at fixed positions.\<close>

fun extend_schedule :: "nat \<Rightarrow> u32 list \<Rightarrow> u32 list" where
  "extend_schedule 0 w = rev w"
| "extend_schedule (Suc n) w =
     extend_schedule n ((small_sigma1 (w ! 1) + w ! 6 + small_sigma0 (w ! 14) + w ! 15) # w)"

fun sha_round :: "u32 \<times> u32 \<Rightarrow> u32 list \<Rightarrow> u32 list" where
  "sha_round (k, w) [a, b, c, d, e, f, g, h] =
     (let t1 = h + big_sigma1 e + ((e AND f) XOR (NOT e AND g)) + k + w;
          t2 = big_sigma0 a + ((a AND b) XOR (a AND c) XOR (b AND c))
      in [t1 + t2, a, b, c, d + t1, e, f, g])"
| "sha_round _ v = v"

definition compress :: "u32 list \<Rightarrow> u32 list \<Rightarrow> u32 list" where
  "compress block state =
     map2 (+) state (fold sha_round (zip round_constants (extend_schedule 48 (rev block))) state)"

fun blocks :: "nat \<Rightarrow> u32 list \<Rightarrow> u32 list list" where
  "blocks 0 ws = []"
| "blocks (Suc n) ws = take 16 ws # blocks n (drop 16 ws)"

definition sha256 :: "string \<Rightarrow> string" where
  "sha256 s =
     (let ws = be_words (pad_message s)
      in concat (map be_bytes (fold compress (blocks (length ws div 16) ws) initial_hash)))"

lemma length_sha_round: "length v = 8 \<Longrightarrow> length (sha_round kw v) = 8"
  by (induction kw v rule: sha_round.induct) (simp_all add: Let_def)

lemma length_sha_rounds: "length v = 8 \<Longrightarrow> length (fold sha_round kws v) = 8"
  by (induction kws arbitrary: v) (simp_all add: length_sha_round)

lemma length_compress: "length state = 8 \<Longrightarrow> length (compress block state) = 8"
  by (simp add: compress_def length_sha_rounds)

lemma length_compresses: "length state = 8 \<Longrightarrow> length (fold compress bs state) = 8"
  by (induction bs arbitrary: state) (simp_all add: length_compress)

lemma length_concat_be_bytes: "length (concat (map be_bytes ws)) = 4 * length ws"
  by (induction ws) (simp_all add: be_bytes_def)

lemma length_sha256 [simp]: "length (sha256 s) = 32"
  by (simp add: sha256_def Let_def length_concat_be_bytes length_compresses initial_hash_def)

section \<open>HMAC\<close>

definition xor_char :: "nat \<Rightarrow> char \<Rightarrow> char" where
  "xor_char n c = char_of (of_char c XOR n :: nat)"

definition hmac_sha256 :: "string \<Rightarrow> string \<Rightarrow> string" where
  "hmac_sha256 key message =
     (let key = (if 64 < length key then sha256 key else key);
          padded = key @ replicate (64 - length key) (char_of (0 :: nat))
      in sha256 (map (xor_char 0x5C) padded @ sha256 (map (xor_char 0x36) padded @ message)))"

lemma length_hmac_sha256 [simp]: "length (hmac_sha256 key message) = 32"
  by (simp add: hmac_sha256_def Let_def)

section \<open>Hexadecimal encoding\<close>

definition hex_digit :: "nat \<Rightarrow> char" where
  "hex_digit n = (if n < 10 then char_of (48 + n) else char_of (87 + n))"

definition EncodeToString :: "string \<Rightarrow> string" where
  "EncodeToString bytes = concat (map (\<lambda>c. [hex_digit (of_char c div 16), hex_digit (of_char c mod 16)]) bytes)"

lemma length_EncodeToString [simp]: "length (EncodeToString bytes) = 2 * length bytes"
  unfolding EncodeToString_def by (induction bytes) simp_all

lemma hex_digit_inject: "a < 16 \<Longrightarrow> b < 16 \<Longrightarrow> hex_digit a = hex_digit b \<longleftrightarrow> a = b"
  by (auto simp: hex_digit_def char_of_eq_iff take_bit_eq_mod split: if_splits)

text \<open>Two different digests never print alike.\<close>

lemma EncodeToString_inject: "EncodeToString a = EncodeToString b \<longleftrightarrow> a = b"
proof (induction a arbitrary: b)
  case Nil
  then show ?case by (cases b) (simp_all add: EncodeToString_def)
next
  case (Cons x a)
  show ?case
  proof (cases b)
    case (Cons y b')
    have nib: "hex_digit (of_char x div 16) = hex_digit (of_char y div 16) \<and>
        hex_digit (of_char x mod 16) = hex_digit (of_char y mod 16) \<longleftrightarrow> x = y"
    proof -
      have "(of_char c :: nat) div 16 < 16" for c :: char
        using nat_of_char_less_256 [of c] by (simp add: less_mult_imp_div_less)
      then show ?thesis
        by (simp add: hex_digit_inject) (metis div_mult_mod_eq of_char_eq_iff)
    qed
    then show ?thesis using Cons Cons.IH by (auto simp: EncodeToString_def)
  qed (simp add: EncodeToString_def)
qed

end
