(* ===== verification/Identity.thy ===== *)
theory Identity
  imports Sha256 GoParse Contract
begin

text \<open>
  Package \<open>identity\<close> of the gateway: the keyed hash that replaces the credential presented at a
  charge point. The Unicode case tables that \<open>strings.ToUpper\<close> consults for a token with a
  non-ASCII byte are the parameter \<open>unicode_upper\<close>.
\<close>

definition MinimumKeyBytes :: nat where
  "MinimumKeyBytes = 32"

record Hasher =
  ha_key :: string

definition NewHasher :: "string \<Rightarrow> Hasher result" where
  "NewHasher key =
     (if length key < MinimumKeyBytes
      then Inl (PlainError ''token pepper must be at least 32 bytes; refusing to store weakly protected identifiers'')
      else Inr \<lparr>ha_key = key\<rparr>)"

definition Hash :: "(string \<Rightarrow> string) \<Rightarrow> Hasher \<Rightarrow> string \<Rightarrow> string" where
  "Hash unicode_upper hasher token =
     (let token = TrimSpace token
      in if token = [] then []
         else EncodeToString (hmac_sha256 (ha_key hasher) (ToUpper unicode_upper token)))"

section \<open>What leaves the gateway is a keyed digest or nothing\<close>

lemma hex_digit_isHex: "n < 16 \<Longrightarrow> isHex (hex_digit n)"
  by (auto simp: isHex_def hex_digit_def less_eq_char_def take_bit_eq_mod)

lemma EncodeToString_isHex: "list_all isHex (EncodeToString bytes)"
proof (induction bytes)
  case (Cons c bytes)
  have "(of_char c :: nat) div 16 < 16"
    using nat_of_char_less_256 [of c] by (simp add: less_mult_imp_div_less)
  then show ?case using Cons by (simp add: EncodeToString_def hex_digit_isHex)
qed (simp add: EncodeToString_def)

lemma Hash_shape: "Hash u hasher token = [] \<or> length (Hash u hasher token) = hexHashLength \<and> list_all isHex (Hash u hasher token)"
  by (simp add: Hash_def Let_def EncodeToString_isHex hexHashLength_def)

lemma Hash_empty_iff: "Hash u hasher token = [] \<longleftrightarrow> TrimSpace token = []"
proof -
  have "EncodeToString (hmac_sha256 k m) \<noteq> []" for k m
    using length_EncodeToString [of "hmac_sha256 k m"] length_hmac_sha256 [of k m]
    by (metis length_0_conv mult_eq_0_iff zero_neq_numeral)
  then show ?thesis by (simp add: Hash_def Let_def)
qed

lemma Hash_accepted [simp]: "rejectRawToken (Hash u hasher token) = None"
  using Hash_shape [of u hasher token] by (auto simp: rejectRawToken_def)

text \<open>Two presentations of a card agree when they differ in letter case or outer spaces only.\<close>

lemma Hash_cong:
  "ToUpper u (TrimSpace a) = ToUpper u (TrimSpace b) \<Longrightarrow> (TrimSpace a = [] \<longleftrightarrow> TrimSpace b = []) \<Longrightarrow>
   Hash u hasher a = Hash u hasher b"
  by (simp add: Hash_def Let_def)

text \<open>Different digests give different hashes: a collision of hashes is one of HMAC-SHA256.\<close>

lemma Hash_collision:
  "Hash u hasher a = Hash u hasher b \<Longrightarrow> TrimSpace a \<noteq> [] \<Longrightarrow> TrimSpace b \<noteq> [] \<Longrightarrow>
   hmac_sha256 (ha_key hasher) (ToUpper u (TrimSpace a)) = hmac_sha256 (ha_key hasher) (ToUpper u (TrimSpace b))"
  by (simp add: Hash_def Let_def EncodeToString_inject)

end
