(* ===== verification/Csms_Handler.thy ===== *)
theory Csms_Handler
  imports Gateway_Publisher Identity
begin

text \<open>
  File \<open>handler.go\<close> of package \<open>csms\<close>: the OCPP 1.6 core profile as functions on the gateway's
  state. A handler answers an error or a confirmation; logging is left out, and a request has the
  fields the handlers read.
\<close>

section \<open>Options and allocators\<close>

datatype AuthorizationMode = DenyAll | AllowAll | ModeUnset | ModeOther string

record HandlerOptions =
  ho_Origin :: Origin
  ho_AuthorizationMode :: AuthorizationMode
  ho_HeartbeatInterval :: duration
  ho_PublishTimeout :: duration

record Handler =
  hd_options :: HandlerOptions
  hd_publisher :: Publisher
  hd_hasher :: Hasher

definition NewMonotonicIDs :: "time \<Rightarrow> int" where
  "NewMonotonicIDs started = wrap64 (started div second_ns)"

definition Next :: "Gateway \<Rightarrow> int \<times> Gateway" where
  "Next st = (let next = wrap64 (gw_counter st + 1) in (next, st\<lparr>gw_counter := next\<rparr>))"

definition next_sequence :: "Gateway \<Rightarrow> u64 \<times> Gateway" where
  "next_sequence st = (let next = gw_sequence st + 1 in (next, st\<lparr>gw_sequence := next\<rparr>))"

definition gateway_now :: "GatewayEnv \<Rightarrow> Gateway \<Rightarrow> time \<times> Gateway" where
  "gateway_now env st = (ge_clock env (gw_reads st), st\<lparr>gw_reads := gw_reads st + 1\<rparr>)"

definition NewHandler :: "HandlerOptions \<Rightarrow> Publisher \<Rightarrow> Hasher \<Rightarrow> Handler" where
  "NewHandler options publisher hasher =
     (let options = (if ho_HeartbeatInterval options \<le> 0
                     then options\<lparr>ho_HeartbeatInterval := 5 * 60 * second_ns\<rparr> else options);
          options = (if ho_PublishTimeout options \<le> 0
                     then options\<lparr>ho_PublishTimeout := 10 * second_ns\<rparr> else options);
          options = (if ho_AuthorizationMode options = ModeUnset
                     then options\<lparr>ho_AuthorizationMode := DenyAll\<rparr> else options)
      in \<lparr>hd_options = options, hd_publisher = publisher, hd_hasher = hasher\<rparr>)"

definition initial_gateway :: "time \<Rightarrow> Gateway" where
  "initial_gateway started =
     \<lparr>gw_sequence = 0, gw_counter = NewMonotonicIDs started, gw_reads = 0, gw_attempts = 0, gw_bus = []\<rparr>"

text \<open>The zero \<open>time.Time\<close>: the first instant of the year 1.\<close>

definition zero_time :: time where
  "zero_time = - 62135596800 * second_ns"

definition timestampOr :: "time option \<Rightarrow> time \<Rightarrow> time" where
  "timestampOr value fallback =
     (case value of None \<Rightarrow> fallback | Some t \<Rightarrow> if t = zero_time then fallback else t)"

definition connectorUnknown :: int where
  "connectorUnknown = 0"

definition ConnectorLabel :: "int \<Rightarrow> string" where
  "ConnectorLabel connectorID = Itoa connectorID"

section \<open>Requests and confirmations\<close>

datatype AuthorizationStatus = AuthorizationStatusAccepted | AuthorizationStatusInvalid
datatype RegistrationStatus = RegistrationStatusAccepted
datatype DataTransferStatus = DataTransferStatusUnknownVendorId

record BootNotificationConfirmation =
  bc_CurrentTime :: time
  bc_Interval :: int
  bc_Status :: RegistrationStatus

record StatusNotificationRequest =
  sn_ConnectorId :: int
  sn_Status :: ChargePointStatus
  sn_Timestamp :: "time option"

record MeterValuesRequest =
  mr_ConnectorId :: int
  mr_TransactionId :: "int option"
  mr_MeterValue :: "MeterValue list"

record StartTransactionRequest =
  sr_ConnectorId :: int
  sr_IdTag :: string
  sr_MeterStart :: int
  sr_Timestamp :: "time option"

record StartTransactionConfirmation =
  sc_IdTagInfo :: AuthorizationStatus
  sc_TransactionId :: int

record StopTransactionRequest =
  sp_IdTag :: string
  sp_MeterStop :: int
  sp_Timestamp :: "time option"
  sp_TransactionId :: int
  sp_Reason :: Reason
  sp_TransactionData :: "MeterValue list"

section \<open>Boot, heartbeat, authorization\<close>

definition OnBootNotification :: "GatewayEnv \<Rightarrow> Handler \<Rightarrow> string \<Rightarrow> Gateway \<Rightarrow> BootNotificationConfirmation result \<times> Gateway" where
  "OnBootNotification env handler chargePointID st =
     (case gateway_now env st of (t, st) \<Rightarrow>
        (Inr \<lparr>bc_CurrentTime = t,
              bc_Interval = int64_of (ge_out_of_range env) (Seconds (ho_HeartbeatInterval (hd_options handler))),
              bc_Status = RegistrationStatusAccepted\<rparr>, st))"

definition OnHeartbeat :: "GatewayEnv \<Rightarrow> Handler \<Rightarrow> string \<Rightarrow> Gateway \<Rightarrow> time result \<times> Gateway" where
  "OnHeartbeat env handler chargePointID st = (case gateway_now env st of (t, st) \<Rightarrow> (Inr t, st))"

definition OnAuthorize :: "Handler \<Rightarrow> string \<Rightarrow> string \<Rightarrow> AuthorizationStatus result" where
  "OnAuthorize handler chargePointID idTag =
     Inr (if ho_AuthorizationMode (hd_options handler) = AllowAll
          then AuthorizationStatusAccepted else AuthorizationStatusInvalid)"

definition OnDataTransfer :: "Handler \<Rightarrow> string \<Rightarrow> string \<Rightarrow> DataTransferStatus result" where
  "OnDataTransfer handler chargePointID vendorId = Inr DataTransferStatusUnknownVendorId"

section \<open>Observations\<close>

text \<open>Publishing telemetry never fails the call: the error is logged and dropped.\<close>

definition publish_reading ::
  "GatewayEnv \<Rightarrow> Handler \<Rightarrow> string \<Rightarrow> int \<Rightarrow> ChargingState \<Rightarrow> Reading \<Rightarrow> time \<Rightarrow> time \<Rightarrow> Gateway \<Rightarrow> Gateway" where
  "publish_reading env handler chargePointID connectorID state reading reportedAt observedAt st =
     (case next_sequence st of (sequence, st) \<Rightarrow>
        snd (publish_Telemetry env (hd_publisher handler)
               (TelemetryFrom (ho_Origin (hd_options handler)) chargePointID connectorID state reading
                  reportedAt observedAt sequence) st))"

definition OnStatusNotification ::
  "GatewayEnv \<Rightarrow> Handler \<Rightarrow> string \<Rightarrow> StatusNotificationRequest \<Rightarrow> Gateway \<Rightarrow> unit result \<times> Gateway" where
  "OnStatusNotification env handler chargePointID request st =
     (let state = ChargingStateOf (sn_Status request)
      in if state = CHARGING_STATE_UNSPECIFIED then (Inr (), st)
         else case gateway_now env st of (observedAt, st) \<Rightarrow>
           (Inr (), publish_reading env handler chargePointID (sn_ConnectorId request) state empty_reading
                      (timestampOr (sn_Timestamp request) observedAt) observedAt st))"

definition meter_value_step ::
  "GatewayEnv \<Rightarrow> Handler \<Rightarrow> string \<Rightarrow> MeterValuesRequest \<Rightarrow> time \<Rightarrow> MeterValue \<Rightarrow> Gateway \<Rightarrow> Gateway" where
  "meter_value_step env handler chargePointID request observedAt v st =
     (let reading = MeterValueToReading v;
          reportedAt = timestampOr (mv_Timestamp v) observedAt;
          st = publish_reading env handler chargePointID (mr_ConnectorId request) CHARGING_STATE_CHARGING
                 reading reportedAt observedAt st
      in case mr_TransactionId request of
           None \<Rightarrow> st
         | Some transactionID \<Rightarrow>
             (case EnergyRegisterWh (ge_out_of_range env) v of
                None \<Rightarrow> st
              | Some register \<Rightarrow>
                  snd (publish_Session env (hd_publisher handler)
                         (csms_SessionEvent (ho_Origin (hd_options handler)) chargePointID
                            (mr_ConnectorId request) transactionID SESSION_EVENT_TYPE_UPDATED reportedAt
                            None (Some register) STOP_REASON_UNSPECIFIED) st)))"

definition OnMeterValues ::
  "GatewayEnv \<Rightarrow> Handler \<Rightarrow> string \<Rightarrow> MeterValuesRequest \<Rightarrow> Gateway \<Rightarrow> unit result \<times> Gateway" where
  "OnMeterValues env handler chargePointID request st =
     (case gateway_now env st of (observedAt, st) \<Rightarrow>
        (Inr (), fold (meter_value_step env handler chargePointID request observedAt) (mr_MeterValue request) st))"

section \<open>Transactions\<close>

text \<open>The event that opens a session, and the part of the handler after the allocation of its id.\<close>

definition start_event ::
  "GatewayEnv \<Rightarrow> Handler \<Rightarrow> string \<Rightarrow> StartTransactionRequest \<Rightarrow> int \<Rightarrow> time \<Rightarrow> ChargingSessionEvent" where
  "start_event env handler chargePointID request transactionID occurredAt =
     csms_SessionEvent (ho_Origin (hd_options handler)) chargePointID (sr_ConnectorId request) transactionID
       SESSION_EVENT_TYPE_STARTED occurredAt
       (Some \<lparr>au_token_type = TOKEN_TYPE_RFID,
              au_token_hash = Hash (ge_unicode_upper env) (hd_hasher handler) (sr_IdTag request),
              au_authorization_reference = []\<rparr>)
       (Some (sr_MeterStart request)) STOP_REASON_UNSPECIFIED"

definition start_record ::
  "GatewayEnv \<Rightarrow> Handler \<Rightarrow> string \<Rightarrow> StartTransactionRequest \<Rightarrow> int \<Rightarrow> Gateway \<Rightarrow>
   StartTransactionConfirmation result \<times> Gateway" where
  "start_record env handler chargePointID request transactionID st =
     (case gateway_now env st of (fallback, st) \<Rightarrow>
        (case publish_Session env (hd_publisher handler)
                (start_event env handler chargePointID request transactionID
                   (timestampOr (sr_Timestamp request) fallback)) st of
           (Some err, st) \<Rightarrow> (Inl (PlainError ''session could not be recorded''), st)
         | (None, st) \<Rightarrow>
             (Inr \<lparr>sc_IdTagInfo = AuthorizationStatusAccepted, sc_TransactionId = transactionID\<rparr>, st)))"

definition OnStartTransaction ::
  "GatewayEnv \<Rightarrow> Handler \<Rightarrow> string \<Rightarrow> StartTransactionRequest \<Rightarrow> Gateway \<Rightarrow>
   StartTransactionConfirmation result \<times> Gateway" where
  "OnStartTransaction env handler chargePointID request st =
     (if ho_AuthorizationMode (hd_options handler) = DenyAll
      then (Inr \<lparr>sc_IdTagInfo = AuthorizationStatusInvalid, sc_TransactionId = 0\<rparr>, st)
      else case Next st of (transactionID, st) \<Rightarrow>
             start_record env handler chargePointID request transactionID st)"

definition stop_event ::
  "GatewayEnv \<Rightarrow> Handler \<Rightarrow> string \<Rightarrow> StopTransactionRequest \<Rightarrow> time \<Rightarrow> ChargingSessionEvent" where
  "stop_event env handler chargePointID request occurredAt =
     csms_SessionEvent (ho_Origin (hd_options handler)) chargePointID connectorUnknown (sp_TransactionId request)
       SESSION_EVENT_TYPE_STOPPED occurredAt
       (if sp_IdTag request \<noteq> []
        then Some \<lparr>au_token_type = TOKEN_TYPE_RFID,
                   au_token_hash = Hash (ge_unicode_upper env) (hd_hasher handler) (sp_IdTag request),
                   au_authorization_reference = []\<rparr>
        else None)
       (Some (sp_MeterStop request)) (StopReasonOf (sp_Reason request))"

definition transaction_data_step ::
  "GatewayEnv \<Rightarrow> Handler \<Rightarrow> string \<Rightarrow> time \<Rightarrow> MeterValue \<Rightarrow> Gateway \<Rightarrow> Gateway" where
  "transaction_data_step env handler chargePointID occurredAt v st =
     (case gateway_now env st of (observedAt, st) \<Rightarrow>
        publish_reading env handler chargePointID 0 CHARGING_STATE_FINISHING (MeterValueToReading v)
          (timestampOr (mv_Timestamp v) occurredAt) observedAt st)"

definition OnStopTransaction ::
  "GatewayEnv \<Rightarrow> Handler \<Rightarrow> string \<Rightarrow> StopTransactionRequest \<Rightarrow> Gateway \<Rightarrow> unit result \<times> Gateway" where
  "OnStopTransaction env handler chargePointID request st =
     (case gateway_now env st of (fallback, st) \<Rightarrow>
        (let occurredAt = timestampOr (sp_Timestamp request) fallback
         in case publish_Session env (hd_publisher handler)
                   (stop_event env handler chargePointID request occurredAt) st of
              (Some err, st) \<Rightarrow> (Inl (PlainError ''session could not be recorded''), st)
            | (None, st) \<Rightarrow>
                (Inr (), fold (transaction_data_step env handler chargePointID occurredAt)
                           (sp_TransactionData request) st)))"

end
