(* ===== verification/Gateway_Config.thy ===== *)
theory Gateway_Config
  imports Config Csms_Handler
begin

text \<open>
  Package \<open>config\<close> of the gateway. Its readers of the environment are copies of the control
  plane's, which the lemmas at the end state.
\<close>

record GatewayConfig =
  gc_ListenPort :: int
  gc_ListenPath :: string
  gc_HTTPAddr :: string
  gc_NATSURL :: string
  gc_NATSCredentials :: string
  gc_NATSCAFile :: string
  gc_TelemetrySubject :: string
  gc_SessionSubject :: string
  gc_GatewayID :: string
  gc_SiteID :: string
  gc_TokenPepper :: string
  gc_AuthorizationMode :: AuthorizationMode
  gc_HeartbeatInterval :: duration
  gc_PublishTimeout :: duration

definition authorizationMode :: "environment \<Rightarrow> AuthorizationMode" where
  "authorizationMode getenv =
     (let mode = getenv ''AUTHORIZATION_MODE''
      in if mode = ''allow-all'' then AllowAll
         else if mode = [] \<or> mode = ''deny-all'' then DenyAll
         else DenyAll)"

definition gateway_env :: "environment \<Rightarrow> string \<Rightarrow> string \<Rightarrow> string" where
  "gateway_env getenv name fallback = (let value = getenv name in if value \<noteq> [] then value else fallback)"

definition gateway_envInt :: "environment \<Rightarrow> string \<Rightarrow> int \<Rightarrow> int" where
  "gateway_envInt getenv name fallback =
     (let raw = getenv name
      in if raw = [] then fallback
         else case Atoi raw of None \<Rightarrow> fallback | Some v \<Rightarrow> if v \<le> 0 then fallback else v)"

definition gateway_envDuration :: "environment \<Rightarrow> string \<Rightarrow> duration \<Rightarrow> duration" where
  "gateway_envDuration getenv name fallback =
     (let raw = getenv name
      in if raw = [] then fallback
         else case ParseDuration raw of None \<Rightarrow> fallback | Some v \<Rightarrow> if v \<le> 0 then fallback else v)"

definition gateway_Load :: "environment \<Rightarrow> GatewayConfig" where
  "gateway_Load getenv =
     \<lparr>gc_ListenPort = gateway_envInt getenv ''OCPP_LISTEN_PORT'' 8887,
      gc_ListenPath = gateway_env getenv ''OCPP_LISTEN_PATH'' ''/ocpp/{ws}'',
      gc_HTTPAddr = gateway_env getenv ''HTTP_ADDR'' '':8081'',
      gc_NATSURL = gateway_env getenv ''NATS_URL'' ''nats://localhost:4222'',
      gc_NATSCredentials = gateway_env getenv ''NATS_CREDENTIALS'' '''',
      gc_NATSCAFile = gateway_env getenv ''NATS_CA_FILE'' '''',
      gc_TelemetrySubject = gateway_env getenv ''NATS_SUBJECT'' ''orvolt.telemetry.evse.v1'',
      gc_SessionSubject = gateway_env getenv ''SESSION_NATS_SUBJECT'' ''orvolt.session.evse.v1'',
      gc_GatewayID = gateway_env getenv ''GATEWAY_ID'' ''ocpp-gateway-001'',
      gc_SiteID = gateway_env getenv ''SITE_ID'' ''site-dev-001'',
      gc_TokenPepper = getenv ''TOKEN_PEPPER'',
      gc_AuthorizationMode = authorizationMode getenv,
      gc_HeartbeatInterval = gateway_envDuration getenv ''HEARTBEAT_INTERVAL'' (5 * minute_ns),
      gc_PublishTimeout = gateway_envDuration getenv ''PUBLISH_TIMEOUT'' (10 * second_ns)\<rparr>"

lemma gateway_env_eq: "gateway_env = config_env" "gateway_envInt = envInt" "gateway_envDuration = envDuration"
  by (simp_all add: fun_eq_iff gateway_env_def config_env_def gateway_envInt_def envInt_def gateway_envDuration_def envDuration_def)

lemma authorizationMode_cases: "authorizationMode getenv = (if getenv ''AUTHORIZATION_MODE'' = ''allow-all'' then AllowAll else DenyAll)"
  by (simp add: authorizationMode_def Let_def)

end
