(* ===== verification/Bus.thy ===== *)
theory Bus
  imports GoLib
begin

text \<open>
  Package \<open>bus\<close>: the subjects below which a publisher speaks under its own name, and the policy
  with which both services connect to NATS. \<open>nats.Connect\<close> and the context are parameters: what
  the n-th dial answers, and whether the context ends while the loop waits after it.
\<close>

section \<open>Retry loops\<close>

text \<open>
  \<open>for attempt := n; ; attempt++\<close>: the body says how the loop returns, or \<open>None\<close> for the next
  attempt. A loop that never returns has the value \<open>None\<close>.
\<close>

partial_function (option) retry :: "(nat \<Rightarrow> 'a option) \<Rightarrow> nat \<Rightarrow> 'a option" where
  [code]: "retry body attempt =
     (case body attempt of Some r \<Rightarrow> Some r | None \<Rightarrow> retry body (Suc attempt))"

lemma retry_reaches: "body (n + k) = Some r \<Longrightarrow> (\<And>j. j < k \<Longrightarrow> body (n + j) = None) \<Longrightarrow> retry body n = Some r"
proof (induction k arbitrary: n)
  case 0
  then show ?case by (subst retry.simps) simp
next
  case (Suc k)
  have "retry body (Suc n) = Some r"
    using Suc.IH [of "Suc n"] Suc.prems by (metis Suc_less_eq add_Suc_right add_Suc_shift)
  moreover have "body n = None" using Suc.prems(2) [of 0] by simp
  ultimately show ?case by (subst retry.simps) simp
qed

definition exits_with :: "(nat \<Rightarrow> 'a option) \<Rightarrow> nat \<Rightarrow> 'a \<Rightarrow> bool" where
  "exits_with body n r \<longleftrightarrow> (\<exists>k. body (n + k) = Some r \<and> (\<forall>j<k. body (n + j) = None))"

lemma exits_with_step:
  "exits_with body n r \<longleftrightarrow> (case body n of Some r' \<Rightarrow> r' = r | None \<Rightarrow> exits_with body (Suc n) r)"
proof (cases "body n")
  case None
  have "(\<exists>k. body (n + k) = Some r \<and> (\<forall>j<k. body (n + j) = None)) \<longleftrightarrow>
      (\<exists>k. body (n + Suc k) = Some r \<and> (\<forall>j<Suc k. body (n + j) = None))" (is "(\<exists>k. ?P k) \<longleftrightarrow> _")
  proof
    assume "\<exists>k. ?P k"
    then obtain k where "?P k" ..
    moreover have "k \<noteq> 0" using \<open>?P k\<close> None by (cases k) auto
    ultimately show "\<exists>k. ?P (Suc k)" by (metis not0_implies_Suc)
  qed blast
  then show ?thesis using None by (simp add: exits_with_def All_less_Suc2)
next
  case (Some a)
  have first: "k = 0" if "\<forall>j<k. body (n + j) = None" for k
    using Some that by (cases k) auto
  have "exits_with body n r \<longleftrightarrow> body (n + 0) = Some r"
    unfolding exits_with_def
  proof
    assume "\<exists>k. body (n + k) = Some r \<and> (\<forall>j<k. body (n + j) = None)"
    then obtain k where "body (n + k) = Some r" "\<forall>j<k. body (n + j) = None" by blast
    then show "body (n + 0) = Some r" using first [of k] by simp
  next
    assume "body (n + 0) = Some r"
    then show "\<exists>k. body (n + k) = Some r \<and> (\<forall>j<k. body (n + j) = None)" by (intro exI [of _ 0]) simp
  qed
  then show ?thesis using Some by simp
qed

lemma retry_exits: "retry body n = Some r \<Longrightarrow> exits_with body n r"
proof (rule retry.raw_induct [of exits_with])
  fix self :: "(nat \<Rightarrow> 'a option) \<Rightarrow> nat \<Rightarrow> 'a option" and body n r
  assume "\<And>body n r. self body n = Some r \<Longrightarrow> exits_with body n r"
    and "(case body n of None \<Rightarrow> self body (Suc n) | Some r \<Rightarrow> Some r) = Some r"
  then show "exits_with body n r" by (subst exits_with_step) (auto split: option.splits)
qed

theorem retry_Some_iff:
  "retry body n = Some r \<longleftrightarrow> (\<exists>k. body (n + k) = Some r \<and> (\<forall>j<k. body (n + j) = None))"
  using retry_exits [of body n r] retry_reaches [of body n _ r] unfolding exits_with_def by blast

text \<open>The loop returns exactly when some attempt does, with what the first such attempt returns.\<close>

theorem retry_returns_iff: "(\<exists>r. retry body n = Some r) \<longleftrightarrow> (\<exists>k\<ge>n. body k \<noteq> None)"
proof
  assume "\<exists>k\<ge>n. body k \<noteq> None"
  then obtain k where k: "body (n + k) \<noteq> None" by (auto simp: le_iff_add)
  define m where "m = (LEAST j. body (n + j) \<noteq> None)"
  have "body (n + m) \<noteq> None" using k unfolding m_def by (rule LeastI)
  then obtain r where r: "body (n + m) = Some r" by (cases "body (n + m)") simp_all
  have "body (n + j) = None" if "j < m" for j
    using not_less_Least [OF that [unfolded m_def]] by simp
  then show "\<exists>r. retry body n = Some r" by (intro exI [of _ r] retry_reaches [of body n m r] r)
next
  assume "\<exists>r. retry body n = Some r"
  then obtain r k where "body (n + k) = Some r" by (auto simp: retry_Some_iff)
  then show "\<exists>k\<ge>n. body k \<noteq> None" by (intro exI [of _ "n + k"]) simp
qed

section \<open>Subjects\<close>

definition MaxIdentityBytes :: nat where
  "MaxIdentityBytes = 128"

text \<open>
  The code ranges over code points; a byte above 127 belongs to a code point above 127 or to the
  replacement character, neither of which is allowed, so the first offending byte decides. The
  error prints the offending character quoted by \<open>%q\<close>, which is a parameter of the text only.
\<close>

abbreviation char_between :: "char \<Rightarrow> char \<Rightarrow> char \<Rightarrow> bool" where
  "char_between lo hi c \<equiv> lo \<le> c \<and> c \<le> hi"

definition identity_char :: "char \<Rightarrow> bool" where
  "identity_char c \<longleftrightarrow>
     char_between (CHR ''a'') (CHR ''z'') c \<or> char_between (CHR ''A'') (CHR ''Z'') c \<or>
     char_between (CHR ''0'') (CHR ''9'') c \<or> c = CHR ''-'' \<or> c = CHR ''_''"

definition ValidateIdentity :: "(string \<Rightarrow> string) \<Rightarrow> string \<Rightarrow> go_error option" where
  "ValidateIdentity quote identity =
     (if identity = [] then Some (PlainError ''identity must not be empty'')
      else if MaxIdentityBytes < length identity
      then Some (PlainError (''identity must be at most '' @ Itoa (int MaxIdentityBytes) @ '' bytes''))
      else if \<not> list_all identity_char identity
      then Some (PlainError (''identity may only contain letters, digits, '' @ [CHR 39] @ ''-'' @ [CHR 39] @
             '' and '' @ [CHR 39] @ ''_'' @ [CHR 39] @ '': found '' @ quote (dropWhile identity_char identity)))
      else None)"

definition DeviceSubject :: "(string \<Rightarrow> string) \<Rightarrow> string \<Rightarrow> string \<Rightarrow> string result" where
  "DeviceSubject quote base identity =
     (case ValidateIdentity quote identity of
        Some err \<Rightarrow> Inl err
      | None \<Rightarrow> Inr (base @ ''.'' @ identity))"

lemma ValidateIdentity_None:
  "ValidateIdentity quote identity = None \<longleftrightarrow>
     identity \<noteq> [] \<and> length identity \<le> MaxIdentityBytes \<and> list_all identity_char identity"
  by (auto simp: ValidateIdentity_def)

lemma identity_char_plain:
  "identity_char c \<Longrightarrow> c \<noteq> CHR ''.'' \<and> c \<noteq> CHR ''*'' \<and> c \<noteq> CHR ''>''"
  by (auto simp: identity_char_def less_eq_char_def)

lemma DeviceSubject_Inr:
  "DeviceSubject quote base identity = Inr subject \<longleftrightarrow>
     subject = base @ ''.'' @ identity \<and> ValidateIdentity quote identity = None"
  by (auto simp: DeviceSubject_def split: option.splits)

text \<open>A device subject has exactly one token below its base, and it is the identity.\<close>

lemma DeviceSubject_token:
  assumes "DeviceSubject quote base identity = Inr subject"
  shows "subject = base @ CHR ''.'' # identity" "CHR ''.'' \<notin> set identity"
    "CHR ''*'' \<notin> set identity" "CHR ''>'' \<notin> set identity" "identity \<noteq> []"
  using assms identity_char_plain
  by (auto simp: DeviceSubject_Inr ValidateIdentity_None list_all_iff)

section \<open>Connecting\<close>

record Options =
  op_URL :: string
  op_CredentialsFile :: string
  op_CAFile :: string
  op_Name :: string

datatype DialOption =
    OptName string | MaxReconnects int | ReconnectWait duration
  | DisconnectErrHandler | ReconnectHandler
  | UserCredentials string | RootCAs string

definition dialOptions :: "Options \<Rightarrow> DialOption list" where
  "dialOptions options =
     [OptName (op_Name options), MaxReconnects (- 1), ReconnectWait (2 * second_ns),
      DisconnectErrHandler, ReconnectHandler] @
     (if op_CredentialsFile options \<noteq> [] then [UserCredentials (op_CredentialsFile options)] else []) @
     (if op_CAFile options \<noteq> [] then [RootCAs (op_CAFile options)] else [])"

definition context_canceled :: go_error where
  "context_canceled = PlainError ''context canceled''"

definition connect_attempt ::
  "(nat \<Rightarrow> string \<Rightarrow> DialOption list \<Rightarrow> 'conn result) \<Rightarrow> (nat \<Rightarrow> bool) \<Rightarrow> Options \<Rightarrow> nat \<Rightarrow> 'conn result option" where
  "connect_attempt dial cancelled options attempt =
     (case dial attempt (op_URL options) (dialOptions options) of
        Inr connection \<Rightarrow> Some (Inr connection)
      | Inl err \<Rightarrow>
          if cancelled attempt
          then Some (Inl (Wrapped (''connect to NATS at '' @ op_URL options) context_canceled))
          else None)"

definition Connect ::
  "(nat \<Rightarrow> string \<Rightarrow> DialOption list \<Rightarrow> 'conn result) \<Rightarrow> (nat \<Rightarrow> bool) \<Rightarrow> Options \<Rightarrow> 'conn result option" where
  "Connect dial cancelled options = retry (connect_attempt dial cancelled options) 1"

section \<open>Connecting ends exactly when it can\<close>

text \<open>
  C31. The connection loop returns if and only if some attempt is answered or the context ends after a
  failed one. Its result is that of the first such attempt: the connection, or the context's error;
  no attempt after it is made and none before it is skipped.
\<close>

theorem connect_returns_iff:
  "Connect dial cancelled options = Some r \<longleftrightarrow>
     (\<exists>k. (\<forall>j<k. isl (dial (Suc j) (op_URL options) (dialOptions options)) \<and> \<not> cancelled (Suc j)) \<and>
        (case dial (Suc k) (op_URL options) (dialOptions options) of
           Inr connection \<Rightarrow> r = Inr connection
         | Inl err \<Rightarrow> cancelled (Suc k) \<and>
             r = Inl (Wrapped (''connect to NATS at '' @ op_URL options) context_canceled)))"
proof -
  have none: "connect_attempt dial cancelled options a = None \<longleftrightarrow>
      isl (dial a (op_URL options) (dialOptions options)) \<and> \<not> cancelled a" for a
    by (simp add: connect_attempt_def isl_def split: sum.splits)
  have some: "connect_attempt dial cancelled options a = Some r \<longleftrightarrow>
      (case dial a (op_URL options) (dialOptions options) of
         Inr connection \<Rightarrow> r = Inr connection
       | Inl err \<Rightarrow> cancelled a \<and> r = Inl (Wrapped (''connect to NATS at '' @ op_URL options) context_canceled))" for a
    by (auto simp: connect_attempt_def split: sum.splits)
  show ?thesis unfolding Connect_def retry_Some_iff One_nat_def plus_nat.add_Suc plus_nat.add_0 some none by blast
qed

definition example_options :: Options where
  "example_options = \<lparr>op_URL = ''nats://bus'', op_CredentialsFile = ''svc.creds'', op_CAFile = [], op_Name = ''svc''\<rparr>"

theorem connect_returns_iff_witness:
  "Connect (\<lambda>attempt url options. if attempt < 4 then Inl (PlainError ''refused'') else Inr attempt) (\<lambda>attempt. False)
     example_options = Some (Inr 4)"
  by (subst connect_returns_iff) (auto intro!: exI [of _ 3])

text \<open>Some attempt succeeds and the context never ends: the loop connects.\<close>

lemma Connect_succeeds:
  assumes "\<exists>k\<ge>1. \<not> isl (dial k (op_URL options) (dialOptions options))" and "\<forall>k. \<not> cancelled k"
  obtains connection where "Connect dial cancelled options = Some (Inr connection)"
proof -
  obtain k where "1 \<le> k" and dialled: "\<not> isl (dial k (op_URL options) (dialOptions options))" using assms(1) by blast
  moreover have "connect_attempt dial cancelled options k \<noteq> None"
    using dialled by (auto simp: connect_attempt_def split: sum.splits)
  ultimately obtain r where r: "Connect dial cancelled options = Some r"
    unfolding Connect_def using retry_returns_iff [of "connect_attempt dial cancelled options" 1] by blast
  then obtain j where "connect_attempt dial cancelled options j = Some r"
    unfolding Connect_def retry_Some_iff by blast
  then have "\<not> isl r" using assms(2)
    by (cases "dial j (op_URL options) (dialOptions options)") (auto simp: connect_attempt_def)
  then show ?thesis using r that by (cases r) auto
qed

end
