(* ===== verification/Gateway_Main.thy ===== *)
theory Gateway_Main
  imports Gateway_Config Bus
begin

text \<open>
  Command \<open>ocpp-gateway\<close>: the start-up sequence up to the call that serves charge points, the wait
  for the streams, and the health endpoints. What the bus and the context answer is a record of
  functions; a start-up that waits forever has the value \<open>None\<close>.
\<close>

section \<open>Waiting for the streams\<close>

text \<open>
  The answers for the i-th subject: \<open>StreamNameBySubject\<close> in an attempt, whether the context has
  ended right after it, and whether it ends during the wait.
\<close>

record StreamLookup =
  sl_StreamNameBySubject :: "nat \<Rightarrow> string \<Rightarrow> nat \<Rightarrow> go_error option"
  sl_done :: "nat \<Rightarrow> nat \<Rightarrow> bool"
  sl_cancelled :: "nat \<Rightarrow> nat \<Rightarrow> bool"

definition wait_attempt :: "StreamLookup \<Rightarrow> nat \<Rightarrow> string \<Rightarrow> nat \<Rightarrow> go_error option option" where
  "wait_attempt lookup i subject attempt =
     (case sl_StreamNameBySubject lookup i subject attempt of
        None \<Rightarrow> Some None
      | Some err \<Rightarrow>
          if sl_done lookup i attempt then Some (Some context_canceled)
          else if sl_cancelled lookup i attempt then Some (Some context_canceled)
          else None)"

fun wait_from :: "StreamLookup \<Rightarrow> nat \<Rightarrow> string list \<Rightarrow> go_error option option" where
  "wait_from lookup i [] = Some None"
| "wait_from lookup i (subject # subjects) =
     (case retry (wait_attempt lookup i subject) 1 of
        None \<Rightarrow> None
      | Some (Some err) \<Rightarrow> Some (Some err)
      | Some None \<Rightarrow> wait_from lookup (Suc i) subjects)"

definition waitForSubjects :: "StreamLookup \<Rightarrow> string list \<Rightarrow> go_error option option" where
  "waitForSubjects lookup subjects = wait_from lookup 0 subjects"

section \<open>Start-up\<close>

record 'conn GatewayWorld =
  gx_dial :: "nat \<Rightarrow> string \<Rightarrow> DialOption list \<Rightarrow> 'conn result"
  gx_cancelled :: "nat \<Rightarrow> bool"
  gx_jetstream :: "'conn \<Rightarrow> go_error option"
  gx_lookup :: StreamLookup
  gx_quote :: "string \<Rightarrow> string"

definition gateway_options :: "GatewayConfig \<Rightarrow> Options" where
  "gateway_options settings =
     \<lparr>op_URL = gc_NATSURL settings, op_CredentialsFile = gc_NATSCredentials settings,
      op_CAFile = gc_NATSCAFile settings, op_Name = ''orvolt-ocpp-gateway''\<rparr>"

definition gateway_handler :: "GatewayConfig \<Rightarrow> Hasher \<Rightarrow> string \<Rightarrow> string \<Rightarrow> Handler" where
  "gateway_handler settings hasher telemetrySubject sessionSubject =
     NewHandler
       \<lparr>ho_Origin = \<lparr>og_GatewayID = gc_GatewayID settings, og_SiteID = gc_SiteID settings\<rparr>,
        ho_AuthorizationMode = gc_AuthorizationMode settings,
        ho_HeartbeatInterval = gc_HeartbeatInterval settings,
        ho_PublishTimeout = gc_PublishTimeout settings\<rparr>
       (publisher_New telemetrySubject sessionSubject) hasher"

definition gateway_subjects :: "'conn GatewayWorld \<Rightarrow> GatewayConfig \<Rightarrow> (string \<times> string) result" where
  "gateway_subjects world settings =
     (case DeviceSubject (gx_quote world) (gc_TelemetrySubject settings) (gc_GatewayID settings) of
        Inl err \<Rightarrow> Inl (Wrapped ''GATEWAY_ID cannot address a subject'' err)
      | Inr telemetrySubject \<Rightarrow>
          (case DeviceSubject (gx_quote world) (gc_SessionSubject settings) (gc_GatewayID settings) of
             Inl err \<Rightarrow> Inl (Wrapped ''GATEWAY_ID cannot address a subject'' err)
           | Inr sessionSubject \<Rightarrow> Inr (telemetrySubject, sessionSubject)))"

text \<open>The steps of \<open>run\<close> in order; \<open>Inr\<close> is the handler with which the central system starts.\<close>

definition gateway_run :: "'conn GatewayWorld \<Rightarrow> environment \<Rightarrow> Handler result option" where
  "gateway_run world getenv =
     (let settings = gateway_Load getenv
      in case NewHasher (gc_TokenPepper settings) of
           Inl err \<Rightarrow> Some (Inl (Wrapped ''TOKEN_PEPPER'' err))
         | Inr hasher \<Rightarrow>
             (case Connect (gx_dial world) (gx_cancelled world) (gateway_options settings) of
                None \<Rightarrow> None
              | Some (Inl err) \<Rightarrow> Some (Inl err)
              | Some (Inr connection) \<Rightarrow>
                  (case gx_jetstream world connection of
                     Some err \<Rightarrow> Some (Inl err)
                   | None \<Rightarrow>
                       (case gateway_subjects world settings of
                          Inl err \<Rightarrow> Some (Inl err)
                        | Inr (telemetrySubject, sessionSubject) \<Rightarrow>
                            (case waitForSubjects (gx_lookup world) [telemetrySubject, sessionSubject] of
                               None \<Rightarrow> None
                             | Some (Some err) \<Rightarrow> Some (Inl err)
                             | Some None \<Rightarrow>
                                 Some (Inr (gateway_handler settings hasher telemetrySubject sessionSubject)))))))"

section \<open>Health endpoints\<close>

record HealthResponse =
  hr_Status :: int
  hr_ContentType :: string
  hr_Body :: string

definition gateway_health :: HealthResponse where
  \<open>gateway_health = \<lparr>hr_Status = 200, hr_ContentType = ''application/json'', hr_Body = ''{"status":"ok"}''\<rparr>\<close>

definition gateway_ready :: "bool \<Rightarrow> HealthResponse" where
  \<open>gateway_ready isConnected =
     (if \<not> isConnected
      then \<lparr>hr_Status = 503, hr_ContentType = ''application/json'',
            hr_Body = ''{"status":"not_ready","reason":"event bus is unreachable"}''\<rparr>
      else \<lparr>hr_Status = 200, hr_ContentType = ''application/json'', hr_Body = ''{"status":"ready"}''\<rparr>)\<close>

text \<open>The two patterns of the router; a \<open>GET\<close> pattern also serves \<open>HEAD\<close>. \<open>None\<close> is a request the router refuses itself.\<close>

definition healthHandler :: "bool \<Rightarrow> string \<Rightarrow> string \<Rightarrow> HealthResponse option" where
  "healthHandler isConnected verb path =
     (if verb \<noteq> ''GET'' \<and> verb \<noteq> ''HEAD'' then None
      else if path = ''/health'' then Some gateway_health
      else if path = ''/ready'' then Some (gateway_ready isConnected)
      else None)"

section \<open>What a started gateway has\<close>

lemma gateway_run_Inr:
  assumes "gateway_run world getenv = Some (Inr handler)"
  obtains hasher where
    "NewHasher (getenv ''TOKEN_PEPPER'') = Inr hasher"
    "ValidateIdentity (gx_quote world) (gc_GatewayID (gateway_Load getenv)) = None"
    "handler = gateway_handler (gateway_Load getenv) hasher
       (gc_TelemetrySubject (gateway_Load getenv) @ ''.'' @ gc_GatewayID (gateway_Load getenv))
       (gc_SessionSubject (gateway_Load getenv) @ ''.'' @ gc_GatewayID (gateway_Load getenv))"
    "waitForSubjects (gx_lookup world) [pb_telemetrySubject (hd_publisher handler), pb_sessionSubject (hd_publisher handler)] = Some None"
proof -
  have "gc_TokenPepper (gateway_Load getenv) = getenv ''TOKEN_PEPPER''" by (simp add: gateway_Load_def)
  then show ?thesis using assms that unfolding gateway_run_def Let_def gateway_subjects_def
    by (auto simp: DeviceSubject_Inr gateway_handler_def NewHandler_def publisher_New_def Let_def
        split: sum.splits option.splits prod.splits)
qed

text \<open>Waiting ends when every subject is found or the context ends while one is missing.\<close>

lemma wait_attempt_None:
  "wait_attempt lookup i subject attempt = Some None \<longleftrightarrow> sl_StreamNameBySubject lookup i subject attempt = None"
  by (simp add: wait_attempt_def split: option.splits)

end
