(* ===== verification/Csms_Laws.thy ===== *)
theory Csms_Laws
  imports Csms_Handler "HOL-Library.Multiset"
begin

text \<open>
  The gateway as a transition system. Handlers of different charge points run concurrently, so a
  StartTransaction is two steps (allocating the id, recording and answering) between which any other
  call may run; the invariant of its reachable states says what a confirmed transaction guarantees.
\<close>

section \<open>Frame laws of the handlers\<close>

text \<open>
  The messages the gateway puts on the bus: telemetry under its own origin, and session events under
  its site whose authorization, when there is one, is a keyed hash.
\<close>

definition gateway_telemetry :: "Handler \<Rightarrow> ChargingTelemetry \<Rightarrow> bool" where
  "gateway_telemetry handler t \<longleftrightarrow>
     (\<exists>cp connector state reading reported observed sequence.
        t = TelemetryFrom (ho_Origin (hd_options handler)) cp connector state reading reported observed sequence)"

definition gateway_session :: "GatewayEnv \<Rightarrow> Handler \<Rightarrow> ChargingSessionEvent \<Rightarrow> bool" where
  "gateway_session env handler e \<longleftrightarrow>
     (\<exists>cp connector tx type t auth register reason.
        e = csms_SessionEvent (ho_Origin (hd_options handler)) cp connector tx type t auth (Some register) reason \<and>
        (auth = None \<or> (\<exists>token. auth = Some \<lparr>au_token_type = TOKEN_TYPE_RFID,
           au_token_hash = Hash (ge_unicode_upper env) (hd_hasher handler) token, au_authorization_reference = []\<rparr>)))"

definition canonical :: "GatewayEnv \<Rightarrow> Handler \<Rightarrow> string \<times> string \<Rightarrow> bool" where
  "canonical env handler m \<longleftrightarrow>
     fst m = pb_telemetrySubject (hd_publisher handler) \<and>
       (\<exists>t. gateway_telemetry handler t \<and> ge_marshal_telemetry env t = Inr (snd m)) \<or>
     fst m = pb_sessionSubject (hd_publisher handler) \<and>
       (\<exists>e. gateway_session env handler e \<and> ge_marshal_session env e = Inr (snd m))"

text \<open>
  No handler but StartTransaction touches the transaction counter; none removes a message from the
  bus or adds one that is not canonical.
\<close>

definition keeps :: "GatewayEnv \<Rightarrow> Handler \<Rightarrow> Gateway \<Rightarrow> Gateway \<Rightarrow> bool" where
  "keeps env handler st st' \<longleftrightarrow> gw_counter st' = gw_counter st \<and>
     (\<exists>new. gw_bus st' = gw_bus st @ new \<and> list_all (canonical env handler) new)"

lemma keeps_refl [simp]: "keeps env handler st st"
  by (simp add: keeps_def)

lemma keeps_trans [trans]: "keeps env handler st st' \<Longrightarrow> keeps env handler st' st'' \<Longrightarrow> keeps env handler st st''"
  by (auto simp: keeps_def)

lemma keeps_bus: "keeps env handler st st' \<Longrightarrow> set (gw_bus st) \<subseteq> set (gw_bus st')"
  by (auto simp: keeps_def)

lemma keeps_fold: "(\<And>x st. keeps env handler st (f x st)) \<Longrightarrow> keeps env handler st (fold f xs st)"
  by (induction xs arbitrary: st) (auto intro: keeps_trans)

lemma keeps_now: "keeps env handler st (snd (gateway_now env st))"
  by (simp add: gateway_now_def keeps_def)

lemma keeps_publish:
  "(\<And>payload. p = Inr payload \<Longrightarrow> canonical env handler (subject, payload)) \<Longrightarrow>
   keeps env handler st (snd (publish env subject p label st))"
  using publish_bus [of env subject p label st] by (auto simp: keeps_def publish_frame)

lemma keeps_publish_Session:
  "gateway_session env handler e \<Longrightarrow> keeps env handler st (snd (publish_Session env (hd_publisher handler) e st))"
  by (auto simp: publish_Session_def canonical_def intro!: keeps_publish)

lemma gateway_telemetry_from:
  "gateway_telemetry handler
     (TelemetryFrom (ho_Origin (hd_options handler)) cp connector state reading reported observed sequence)"
  unfolding gateway_telemetry_def by blast

lemma keeps_reading:
  "keeps env handler st (publish_reading env handler cp connector state reading reported observed st)"
proof -
  have "keeps env handler st (snd (next_sequence st))" by (simp add: next_sequence_def Let_def keeps_def)
  moreover have "keeps env handler st' (snd (publish_Telemetry env (hd_publisher handler)
      (TelemetryFrom (ho_Origin (hd_options handler)) cp connector state reading reported observed sequence) st'))"
    for st' sequence
    unfolding publish_Telemetry_def by (rule keeps_publish) (auto simp: canonical_def intro: gateway_telemetry_from)
  ultimately show ?thesis
    by (auto simp: publish_reading_def split: prod.splits intro: keeps_trans)
qed

lemma gateway_session_plain [simp]:
  "gateway_session env handler
     (csms_SessionEvent (ho_Origin (hd_options handler)) cp connector tx type t None (Some register) reason)"
  unfolding gateway_session_def by blast

lemma gateway_session_start [simp]: "gateway_session env handler (start_event env handler cp request tx t)"
  unfolding gateway_session_def start_event_def by blast

lemma gateway_session_stop [simp]: "gateway_session env handler (stop_event env handler cp request t)"
proof (cases "sp_IdTag request = []")
  case False
  then show ?thesis unfolding gateway_session_def stop_event_def by (simp only: if_True not_False_eq_True) blast
qed (simp add: stop_event_def)

lemmas keeps_intros = keeps_trans [OF _ keeps_publish_Session] keeps_trans [OF _ keeps_reading]

lemma keeps_meter_value: "keeps env handler st (meter_value_step env handler cp request observed v st)"
  by (auto simp: meter_value_step_def Let_def split: option.splits intro!: keeps_intros)

lemma keeps_transaction_data: "keeps env handler st (transaction_data_step env handler cp occurred v st)"
  using keeps_now [of env handler st]
  by (auto simp: transaction_data_step_def split: prod.splits intro: keeps_trans keeps_reading)

lemma keeps_start_record: "keeps env handler st (snd (start_record env handler cp request tx st))"
proof -
  have "keeps env handler st (snd (publish_Session env (hd_publisher handler)
      (start_event env handler cp request tx t) (snd (gateway_now env st))))" for t
    using keeps_now keeps_publish_Session [OF gateway_session_start] keeps_trans by blast
  then show ?thesis by (auto simp: start_record_def split: prod.splits option.splits) (metis snd_conv)+
qed

section \<open>Calls and steps\<close>

datatype Call =
    BootNotification string | Heartbeat string
  | StatusNotification string StatusNotificationRequest
  | MeterValues string MeterValuesRequest
  | StopTransaction string StopTransactionRequest

fun serve :: "GatewayEnv \<Rightarrow> Handler \<Rightarrow> Call \<Rightarrow> Gateway \<Rightarrow> Gateway" where
  "serve env handler (BootNotification cp) st = snd (OnBootNotification env handler cp st)"
| "serve env handler (Heartbeat cp) st = snd (OnHeartbeat env handler cp st)"
| "serve env handler (StatusNotification cp request) st = snd (OnStatusNotification env handler cp request st)"
| "serve env handler (MeterValues cp request) st = snd (OnMeterValues env handler cp request st)"
| "serve env handler (StopTransaction cp request) st = snd (OnStopTransaction env handler cp request st)"

lemma keeps_serve: "keeps env handler st (serve env handler call st)"
proof (cases call)
  case (BootNotification cp)
  then show ?thesis by (simp add: OnBootNotification_def gateway_now_def keeps_def)
next
  case (Heartbeat cp)
  then show ?thesis by (simp add: OnHeartbeat_def gateway_now_def keeps_def)
next
  case (StatusNotification cp request)
  then show ?thesis
    using keeps_now [of env handler st] by (auto simp: OnStatusNotification_def Let_def split: prod.splits intro: keeps_trans keeps_reading)
next
  case (MeterValues cp request)
  then show ?thesis
    using keeps_now [of env handler st] keeps_trans [OF _ keeps_fold [OF keeps_meter_value]]
    by (auto simp: OnMeterValues_def split: prod.splits)
next
  case (StopTransaction cp request)
  have pub: "keeps env handler st (snd (publish_Session env (hd_publisher handler)
      (stop_event env handler cp request t) (snd (gateway_now env st))))" for t
    using keeps_now keeps_publish_Session [OF gateway_session_stop] keeps_trans by blast
  have data: "keeps env handler st' (fold (transaction_data_step env handler cp t) vs st')" for t vs st'
    by (intro keeps_fold keeps_transaction_data)
  show ?thesis using StopTransaction
    by (auto simp: OnStopTransaction_def Let_def split: prod.splits option.splits)
       (metis pub snd_conv data keeps_trans, metis pub snd_conv)
qed

text \<open>
  The calls of many charge points on one gateway. A start is split where it waits for the broker, because
  the transaction id it allocated must stay unique while others are served; any other call is one step.
\<close>

record Fleet =
  fl_state :: Gateway
  fl_issued :: "int list"
  fl_inflight :: "(string \<times> StartTransactionRequest \<times> int) list"
  fl_confirmed :: "(string \<times> int) list"

definition initial_fleet :: "time \<Rightarrow> Fleet" where
  "initial_fleet started =
     \<lparr>fl_state = initial_gateway started, fl_issued = [], fl_inflight = [], fl_confirmed = []\<rparr>"

inductive gateway_step :: "GatewayEnv \<Rightarrow> Handler \<Rightarrow> Fleet \<Rightarrow> Fleet \<Rightarrow> bool" for env handler where
  allocate: "ho_AuthorizationMode (hd_options handler) \<noteq> DenyAll \<Longrightarrow> Next (fl_state f) = (tx, st) \<Longrightarrow>
    gateway_step env handler f
      (f\<lparr>fl_state := st, fl_issued := fl_issued f @ [tx], fl_inflight := (cp, request, tx) # fl_inflight f\<rparr>)"
| confirm: "fl_inflight f = before @ (cp, request, tx) # after \<Longrightarrow>
    start_record env handler cp request tx (fl_state f) = (Inr answer, st) \<Longrightarrow>
    gateway_step env handler f
      (f\<lparr>fl_state := st, fl_inflight := before @ after,
         fl_confirmed := (cp, sc_TransactionId answer) # fl_confirmed f\<rparr>)"
| fail: "fl_inflight f = before @ (cp, request, tx) # after \<Longrightarrow>
    start_record env handler cp request tx (fl_state f) = (Inl err, st) \<Longrightarrow>
    gateway_step env handler f (f\<lparr>fl_state := st, fl_inflight := before @ after\<rparr>)"
| other: "gateway_step env handler f (f\<lparr>fl_state := serve env handler call (fl_state f)\<rparr>)"

inductive_cases gateway_stepE: "gateway_step env handler f f'"

text \<open>A start that runs undisturbed is \<open>OnStartTransaction\<close>.\<close>

lemma undisturbed_start:
  "ho_AuthorizationMode (hd_options handler) \<noteq> DenyAll \<Longrightarrow>
   OnStartTransaction env handler cp request st =
     start_record env handler cp request (fst (Next st)) (snd (Next st))"
  by (simp add: OnStartTransaction_def split: prod.splits)

section \<open>Recording a start\<close>

definition recorded_start :: "GatewayEnv \<Rightarrow> Handler \<Rightarrow> Gateway \<Rightarrow> string \<times> int \<Rightarrow> bool" where
  "recorded_start env handler st = (\<lambda>(cp, tx). \<exists>request t payload.
     ge_marshal_session env (start_event env handler cp request tx t) = Inr payload \<and>
     (pb_sessionSubject (hd_publisher handler), payload) \<in> set (gw_bus st))"

lemma recorded_start_keeps: "recorded_start env handler st x \<Longrightarrow> keeps env handler st st' \<Longrightarrow> recorded_start env handler st' x"
  using keeps_bus [of env handler st st'] unfolding recorded_start_def by blast

lemma start_record_Inr:
  assumes "start_record env handler cp request tx st = (Inr answer, st')"
  obtains payload where
    "answer = \<lparr>sc_IdTagInfo = AuthorizationStatusAccepted, sc_TransactionId = tx\<rparr>"
    "ge_marshal_session env (start_event env handler cp request tx
        (timestampOr (sr_Timestamp request) (ge_clock env (gw_reads st)))) = Inr payload"
    "gw_bus st' = gw_bus st @ [(pb_sessionSubject (hd_publisher handler), payload)]"
  using assms
  by (auto simp: start_record_def publish_Session_def gateway_now_def split: prod.splits option.splits
      dest!: publish_acknowledged)

section \<open>The invariant\<close>

definition ids_from :: "int \<Rightarrow> nat \<Rightarrow> int list" where
  "ids_from seed n = map (\<lambda>i. wrap64 (seed + int i + 1)) [0..<n]"

lemma wrap64_add: "wrap64 (wrap64 a + b) = wrap64 (a + b)"
  by (simp add: wrap64_def algebra_simps mod_add_right_eq)

lemma ids_from_distinct: "n \<le> 2 ^ 64 \<Longrightarrow> distinct (ids_from seed n)"
proof -
  assume n: "n \<le> 2 ^ 64"
  have "i = j" if "wrap64 (seed + int i + 1) = wrap64 (seed + int j + 1)" "i < n" "j < n" for i j
  proof -
    have "(seed + int i + 1 + 2 ^ 63) mod 2 ^ 64 = (seed + int j + 1 + 2 ^ 63) mod 2 ^ 64"
      using that(1) by (simp add: wrap64_def)
    then have "(2 ^ 64) dvd (int i - int j)" by (simp add: mod_eq_dvd_iff)
    moreover have "\<bar>int i - int j\<bar> < 2 ^ 64" using that n by simp
    ultimately have "int i - int j = 0" using dvd_imp_le_int [of "int i - int j" "2 ^ 64"] by auto
    then show ?thesis by simp
  qed
  then show ?thesis by (auto simp: ids_from_def distinct_map inj_on_def)
qed

definition fleet_inv :: "GatewayEnv \<Rightarrow> Handler \<Rightarrow> int \<Rightarrow> Fleet \<Rightarrow> bool" where
  "fleet_inv env handler seed f \<longleftrightarrow>
     fl_issued f = ids_from seed (length (fl_issued f)) \<and>
     gw_counter (fl_state f) = wrap64 (seed + int (length (fl_issued f))) \<and>
     mset (map snd (fl_confirmed f)) + mset (map (snd \<circ> snd) (fl_inflight f)) \<subseteq># mset (fl_issued f) \<and>
     list_all (recorded_start env handler (fl_state f)) (fl_confirmed f) \<and>
     list_all (canonical env handler) (gw_bus (fl_state f))"

lemma fleet_inv_initial: "fleet_inv env handler (NewMonotonicIDs started) (initial_fleet started)"
  by (simp add: fleet_inv_def initial_fleet_def initial_gateway_def ids_from_def NewMonotonicIDs_def
      wrap64_id wrap64_range)

lemma recorded_starts_keep:
  "list_all (recorded_start env handler st) xs \<Longrightarrow> keeps env handler st st' \<Longrightarrow> list_all (recorded_start env handler st') xs"
  using recorded_start_keeps by (auto simp: list_all_iff)

lemma fleet_inv_step: "gateway_step env handler f f' \<Longrightarrow> fleet_inv env handler seed f \<Longrightarrow> fleet_inv env handler seed f'"
proof (induction rule: gateway_step.induct)
  case (allocate f tx st cp request)
  let ?n = "length (fl_issued f)"
  have st: "gw_bus st = gw_bus (fl_state f)" "gw_counter st = tx" "tx = wrap64 (gw_counter (fl_state f) + 1)"
    using allocate.hyps(2) by (auto simp: Next_def Let_def)
  have tx: "tx = wrap64 (seed + int ?n + 1)"
    using st(3) allocate.prems by (simp add: fleet_inv_def wrap64_add)
  have "recorded_start env handler st x" if "recorded_start env handler (fl_state f) x" for x
    using that st(1) by (simp add: recorded_start_def)
  then show ?case using allocate.prems tx st(1,2)
    by (auto simp: fleet_inv_def ids_from_def list_all_iff algebra_simps)
next
  case (confirm f before cp request tx after answer st)
  have keep: "keeps env handler (fl_state f) st"
    using keeps_start_record [of env handler "fl_state f" cp request tx] confirm.hyps(2) by simp
  have "sc_TransactionId answer = tx" and "recorded_start env handler st (cp, tx)"
    by (rule start_record_Inr [OF confirm.hyps(2)], simp,
        rule start_record_Inr [OF confirm.hyps(2)], auto simp: recorded_start_def)
  then show ?case using confirm.prems confirm.hyps(1) keep recorded_starts_keep [OF _ keep]
    by (auto simp: fleet_inv_def keeps_def ac_simps)
next
  case (fail f before cp request tx after err st)
  have keep: "keeps env handler (fl_state f) st"
    using keeps_start_record [of env handler "fl_state f" cp request tx] fail.hyps(2) by simp
  have "mset (map snd (fl_confirmed f)) + mset (map (snd \<circ> snd) (before @ after)) \<subseteq># mset (fl_issued f)"
    using fail.prems fail.hyps(1) by (auto simp: fleet_inv_def intro: subset_mset.trans [rotated])
  then show ?case using fail.prems keep recorded_starts_keep [OF _ keep]
    by (auto simp: fleet_inv_def keeps_def)
next
  case (other f call)
  show ?case using other.prems keeps_serve [of env handler "fl_state f" call] recorded_starts_keep
    by (auto simp: fleet_inv_def keeps_def)
qed

lemma fleet_inv_reachable:
  "(gateway_step env handler)\<^sup>*\<^sup>* (initial_fleet started) f \<Longrightarrow>
   fleet_inv env handler (NewMonotonicIDs started) f"
  by (induction rule: rtranclp_induct) (auto intro: fleet_inv_initial fleet_inv_step)

lemma distinct_submset: "mset xs \<subseteq># mset ys \<Longrightarrow> distinct ys \<Longrightarrow> distinct xs"
proof -
  assume le: "mset xs \<subseteq># mset ys" and "distinct ys"
  have "count (mset xs) a = (if a \<in> set xs then 1 else 0)" for a
  proof (cases "a \<in> set xs")
    case True
    then have "0 < count (mset xs) a" by simp
    moreover have "count (mset ys) a \<le> 1" using \<open>distinct ys\<close> by (simp add: distinct_count_atmost_1)
    ultimately have "count (mset xs) a = 1" using mset_subset_eq_count [OF le, of a] by linarith
    then show ?thesis using True by simp
  qed (simp add: not_in_iff)
  then show ?thesis by (simp add: distinct_count_atmost_1)
qed

lemma confirmed_ids_distinct:
  assumes "fleet_inv env handler seed f" and "length (fl_issued f) \<le> 2 ^ 64"
  shows "distinct (map snd (fl_confirmed f))"
proof -
  have "distinct (fl_issued f)" using assms ids_from_distinct by (metis fleet_inv_def)
  moreover have "mset (map snd (fl_confirmed f)) \<subseteq># mset (fl_issued f)"
    using assms(1) by (auto simp: fleet_inv_def intro: subset_mset.trans [rotated])
  ultimately show ?thesis by (rule distinct_submset [rotated])
qed

end
