(* ===== verification/Gateway_Theorems.thy ===== *)
theory Gateway_Theorems
  imports Gateway_Main Csms_Laws Ingest Store_Theorems
begin

text \<open>
  What the gateway promises, alone and together with the control plane: what a charge point may rely
  on when it is answered, what the messages on the bus carry, and that the control plane accepts them.
\<close>

section \<open>The control plane reads what the gateway writes\<close>

lemma decode_gateway_session:
  assumes "unmarshal payload = Inr (csms_SessionEvent origin cp connector tx type t auth (Some register) reason)"
    and "sessionEventTypes type = Some text" and "cp \<noteq> []" and "0 < to_UnixMilli t" and "0 \<le> register"
    and "\<And>a. auth = Some a \<Longrightarrow> rejectRawToken (au_token_hash a) = None"
  obtains event where "DecodeChargingSessionEvent unmarshal payload ingestedAt = Inr event"
    "se_SessionID event = SessionID cp tx" "se_StationID event = cp" "se_ConnectorID event = Itoa connector"
    "se_Type event = text" "se_OccurredAt event = UnixMilli (to_UnixMilli t)"
    "se_EnergyRegisterWh event = Some register"
    "se_TokenHash event = (case auth of None \<Rightarrow> [] | Some a \<Rightarrow> au_token_hash a)"
  using assms
  by (cases auth) (simp_all add: DecodeChargingSessionEvent_def csms_SessionEvent_def Let_def)

lemma decode_gateway_telemetry:
  assumes "unmarshal payload = Inr (TelemetryFrom origin cp connector state reading reported observed sequence)"
    and "DecodeChargingTelemetry unmarshal payload ingestedAt = Inr telemetry"
  shows "tm_EdgeID telemetry = og_GatewayID origin" "tm_SiteID telemetry = og_SiteID origin"
    "tm_EdgeSequence telemetry = sequence" "tm_StationID telemetry = cp"
  using assms
  by (auto simp: DecodeChargingTelemetry_def TelemetryFrom_def Let_def split: if_splits option.splits)

section \<open>Answered calls\<close>

lemma OnStartTransaction_accepted:
  assumes "OnStartTransaction env handler cp request st = (Inr confirmation, st')"
    and "sc_IdTagInfo confirmation = AuthorizationStatusAccepted"
  obtains payload where
    "sc_TransactionId confirmation = wrap64 (gw_counter st + 1)"
    "ge_marshal_session env (start_event env handler cp request (sc_TransactionId confirmation)
        (timestampOr (sr_Timestamp request) (ge_clock env (gw_reads st)))) = Inr payload"
    "gw_bus st' = gw_bus st @ [(pb_sessionSubject (hd_publisher handler), payload)]"
proof -
  have "start_record env handler cp request (wrap64 (gw_counter st + 1)) (st\<lparr>gw_counter := wrap64 (gw_counter st + 1)\<rparr>) = (Inr confirmation, st')"
    using assms by (auto simp: OnStartTransaction_def Next_def Let_def split: if_splits)
  then show ?thesis by (rule start_record_Inr) (rule that, simp_all)
qed

lemma OnStopTransaction_accepted:
  assumes "OnStopTransaction env handler cp request st = (Inr u, st')"
  obtains payload rest where
    "ge_marshal_session env (stop_event env handler cp request
        (timestampOr (sp_Timestamp request) (ge_clock env (gw_reads st)))) = Inr payload"
    "gw_bus st' = gw_bus st @ (pb_sessionSubject (hd_publisher handler), payload) # rest"
proof -
  let ?t = "timestampOr (sp_Timestamp request) (ge_clock env (gw_reads st))"
  obtain st1 where p: "publish_Session env (hd_publisher handler) (stop_event env handler cp request ?t) (snd (gateway_now env st)) = (None, st1)"
    and st': "st' = fold (transaction_data_step env handler cp ?t) (sp_TransactionData request) st1"
    using assms by (auto simp: OnStopTransaction_def Let_def gateway_now_def split: prod.splits option.splits)
  obtain payload where "ge_marshal_session env (stop_event env handler cp request ?t) = Inr payload"
    "gw_bus st1 = gw_bus st @ [(pb_sessionSubject (hd_publisher handler), payload)]"
    using publish_acknowledged [OF p [unfolded publish_Session_def]] by (auto simp: gateway_now_def)
  moreover have "keeps env handler st1 st'" unfolding st' by (intro keeps_fold keeps_transaction_data)
  ultimately show ?thesis using that by (auto simp: keeps_def)
qed

text \<open>The session message a call put on the bus first.\<close>

definition first_message :: "Gateway \<Rightarrow> Gateway \<Rightarrow> string" where
  "first_message st st' = snd (gw_bus st' ! length (gw_bus st))"

section \<open>Examples\<close>

definition example_handler :: "AuthorizationMode \<Rightarrow> Handler" where
  "example_handler mode =
     NewHandler \<lparr>ho_Origin = \<lparr>og_GatewayID = ''gw-1'', og_SiteID = ''site-1''\<rparr>, ho_AuthorizationMode = mode,
                 ho_HeartbeatInterval = 0, ho_PublishTimeout = 0\<rparr>
       (publisher_New ''orvolt.telemetry.gw-1'' ''orvolt.session.gw-1'') \<lparr>ha_key = replicate 32 (CHR ''k'')\<rparr>"

definition example_start :: StartTransactionRequest where
  "example_start = \<lparr>sr_ConnectorId = 1, sr_IdTag = ''card'', sr_MeterStart = 1000, sr_Timestamp = None\<rparr>"

definition example_stop :: StopTransactionRequest where
  "example_stop = \<lparr>sp_IdTag = [], sp_MeterStop = 1500, sp_Timestamp = Some (90 * second_ns), sp_TransactionId = 31,
     sp_Reason = ReasonLocal, sp_TransactionData = []\<rparr>"

definition example_gateway_env :: GatewayEnv where
  "example_gateway_env =
     \<lparr>ge_clock = (\<lambda>n. (60 + int n) * second_ns), ge_publish = (\<lambda>n. Acknowledged),
      ge_marshal_telemetry = (\<lambda>t. Inl (PlainError ''off'')), ge_marshal_session = (\<lambda>e. Inl (PlainError ''off'')),
      ge_unicode_upper = id, ge_out_of_range = (\<lambda>x. 0)\<rparr>"

definition example_started :: ChargingSessionEvent where
  "example_started = start_event example_gateway_env (example_handler AllowAll) ''cp-1'' example_start 31 (60 * second_ns)"

definition example_stopped :: ChargingSessionEvent where
  "example_stopped = stop_event example_gateway_env (example_handler AllowAll) ''cp-1'' example_stop (90 * second_ns)"

text \<open>A codec for the two messages of the example: it encodes them and nothing else.\<close>

definition example_marshal :: "ChargingSessionEvent \<Rightarrow> string result" where
  "example_marshal e =
     (if e = example_started then Inr ''start'' else if e = example_stopped then Inr ''stop''
      else Inl (PlainError ''unencodable''))"

definition example_unmarshal :: "string \<Rightarrow> string + ChargingSessionEvent" where
  "example_unmarshal p =
     (if p = ''start'' then Inr example_started else if p = ''stop'' then Inr example_stopped else Inl ''bad'')"

definition example_session_env :: GatewayEnv where
  "example_session_env = example_gateway_env\<lparr>ge_marshal_session := example_marshal\<rparr>"

lemma example_codec: "ge_marshal_session example_session_env e = Inr p \<Longrightarrow> example_unmarshal p = Inr e"
  by (auto simp: example_session_env_def example_marshal_def example_unmarshal_def split: if_splits)

lemma example_events_differ: "example_stopped \<noteq> example_started"
  by (simp add: example_started_def example_stopped_def start_event_def stop_event_def csms_SessionEvent_def)

lemma example_start_call:
  "OnStartTransaction example_session_env (example_handler AllowAll) ''cp-1'' example_start (initial_gateway (30 * second_ns)) =
     (Inr \<lparr>sc_IdTagInfo = AuthorizationStatusAccepted, sc_TransactionId = 31\<rparr>,
      \<lparr>gw_sequence = 0, gw_counter = 31, gw_reads = 1, gw_attempts = 1, gw_bus = [(''orvolt.session.gw-1'', ''start'')]\<rparr>)"
proof -
  have "start_event example_session_env (example_handler AllowAll) ''cp-1'' example_start 31 (60 * second_ns) = example_started"
    by (simp add: example_started_def start_event_def example_session_env_def)
  then show ?thesis
    by (simp add: OnStartTransaction_def start_record_def Next_def gateway_now_def publish_Session_def publish_def
        initial_gateway_def NewMonotonicIDs_def example_handler_def NewHandler_def publisher_New_def
        example_session_env_def example_gateway_env_def example_marshal_def timestampOr_def example_start_def
        wrap64_def second_ns_def)
qed

lemma example_stop_call:
  "OnStopTransaction example_session_env (example_handler AllowAll) ''cp-1'' example_stop (initial_gateway 0) =
     (Inr (), \<lparr>gw_sequence = 0, gw_counter = 0, gw_reads = 1, gw_attempts = 1, gw_bus = [(''orvolt.session.gw-1'', ''stop'')]\<rparr>)"
proof -
  have "stop_event example_session_env (example_handler AllowAll) ''cp-1'' example_stop (90 * second_ns) = example_stopped"
    by (simp add: example_stopped_def stop_event_def example_session_env_def)
  then show ?thesis
    using example_events_differ
    by (simp add: OnStopTransaction_def gateway_now_def publish_Session_def publish_def
        initial_gateway_def NewMonotonicIDs_def example_handler_def NewHandler_def publisher_New_def
        example_session_env_def example_gateway_env_def example_marshal_def timestampOr_def example_stop_def
        wrap64_def second_ns_def zero_time_def)
qed

section \<open>Properties\<close>

text \<open>The decoded start and stop agree with what the charge point reported.\<close>

lemma decoded_start:
  assumes codec: "\<forall>e p. ge_marshal_session env e = Inr p \<longrightarrow> unmarshal p = Inr e"
    and start: "OnStartTransaction env handler cp request st = (Inr confirmation, st')"
      "sc_IdTagInfo confirmation = AuthorizationStatusAccepted"
    and usable: "cp \<noteq> []" "0 \<le> sr_MeterStart request"
      "0 < to_UnixMilli (timestampOr (sr_Timestamp request) (ge_clock env (gw_reads st)))"
    and e: "DecodeChargingSessionEvent unmarshal (first_message st st') ingestedAt = Inr e"
  shows "se_SessionID e = SessionID cp (sc_TransactionId confirmation)" "se_Type e = SessionStarted"
    "se_OccurredAt e = UnixMilli (to_UnixMilli (timestampOr (sr_Timestamp request) (ge_clock env (gw_reads st))))"
    "se_EnergyRegisterWh e = Some (sr_MeterStart request)"
proof -
  let ?t = "timestampOr (sr_Timestamp request) (ge_clock env (gw_reads st))"
  obtain payload where m: "ge_marshal_session env (start_event env handler cp request (sc_TransactionId confirmation) ?t) = Inr payload"
    and b: "gw_bus st' = gw_bus st @ [(pb_sessionSubject (hd_publisher handler), payload)]"
    by (rule OnStartTransaction_accepted [OF start])
  have u: "unmarshal payload = Inr (start_event env handler cp request (sc_TransactionId confirmation) ?t)"
    using codec m by blast
  obtain event where "DecodeChargingSessionEvent unmarshal payload ingestedAt = Inr event"
    "se_SessionID event = SessionID cp (sc_TransactionId confirmation)" "se_Type event = SessionStarted"
    "se_OccurredAt event = UnixMilli (to_UnixMilli ?t)" "se_EnergyRegisterWh event = Some (sr_MeterStart request)"
    by (rule decode_gateway_session [where unmarshal = unmarshal and payload = payload and ingestedAt = ingestedAt,
          OF u [unfolded start_event_def] _ usable(1,3,2)]) auto
  then show "se_SessionID e = SessionID cp (sc_TransactionId confirmation)" "se_Type e = SessionStarted"
    "se_OccurredAt e = UnixMilli (to_UnixMilli ?t)" "se_EnergyRegisterWh e = Some (sr_MeterStart request)"
    using e b by (auto simp: first_message_def)
qed

lemma decoded_stop:
  assumes codec: "\<forall>e p. ge_marshal_session env e = Inr p \<longrightarrow> unmarshal p = Inr e"
    and stop: "OnStopTransaction env handler cp request st = (Inr u, st')"
    and usable: "cp \<noteq> []" "0 \<le> sp_MeterStop request"
      "0 < to_UnixMilli (timestampOr (sp_Timestamp request) (ge_clock env (gw_reads st)))"
    and e: "DecodeChargingSessionEvent unmarshal (first_message st st') ingestedAt = Inr e"
  shows "se_SessionID e = SessionID cp (sp_TransactionId request)" "se_Type e = SessionStopped"
    "se_OccurredAt e = UnixMilli (to_UnixMilli (timestampOr (sp_Timestamp request) (ge_clock env (gw_reads st))))"
    "se_EnergyRegisterWh e = Some (sp_MeterStop request)" "se_ConnectorID e = Itoa connectorUnknown"
proof -
  let ?t = "timestampOr (sp_Timestamp request) (ge_clock env (gw_reads st))"
  obtain payload rest where m: "ge_marshal_session env (stop_event env handler cp request ?t) = Inr payload"
    and b: "gw_bus st' = gw_bus st @ (pb_sessionSubject (hd_publisher handler), payload) # rest"
    by (rule OnStopTransaction_accepted [OF stop])
  have u: "unmarshal payload = Inr (stop_event env handler cp request ?t)" using codec m by blast
  obtain event where "DecodeChargingSessionEvent unmarshal payload ingestedAt = Inr event"
    "se_SessionID event = SessionID cp (sp_TransactionId request)" "se_Type event = SessionStopped"
    "se_OccurredAt event = UnixMilli (to_UnixMilli ?t)" "se_EnergyRegisterWh event = Some (sp_MeterStop request)"
    "se_ConnectorID event = Itoa connectorUnknown"
    by (rule decode_gateway_session [where unmarshal = unmarshal and payload = payload and ingestedAt = ingestedAt,
          OF u [unfolded stop_event_def] _ usable(1,3,2)])
       (auto split: if_splits)
  then show "se_SessionID e = SessionID cp (sp_TransactionId request)" "se_Type e = SessionStopped"
    "se_OccurredAt e = UnixMilli (to_UnixMilli ?t)" "se_EnergyRegisterWh e = Some (sp_MeterStop request)"
    "se_ConnectorID e = Itoa connectorUnknown"
    using e b by (auto simp: first_message_def)
qed

text \<open>
  A session that was started and stopped at the gateway is billed for what its meter counted.
  Whatever order, batches, repetitions and failed attempts the two messages reach the database in,
  and whatever updates come between them, the session that both ends agree on is closed, starts and
  stops at the reported instants and has delivered the difference of the two registers.
\<close>

theorem gateway_session_is_billed:
  fixes env request stop_request st later
  defines "started \<equiv> to_UnixMilli (timestampOr (sr_Timestamp request) (ge_clock env (gw_reads st)))"
    and "stopped \<equiv> to_UnixMilli (timestampOr (sp_Timestamp stop_request) (ge_clock env (gw_reads later)))"
  assumes codec: "\<forall>e p. ge_marshal_session env e = Inr p \<longrightarrow> unmarshal p = Inr e"
    and start: "OnStartTransaction env handler cp request st = (Inr confirmation, st')"
      "sc_IdTagInfo confirmation = AuthorizationStatusAccepted"
    and stop: "OnStopTransaction env handler cp stop_request later = (Inr u, later')"
      "sp_TransactionId stop_request = sc_TransactionId confirmation"
    and usable: "cp \<noteq> []" "0 \<le> sr_MeterStart request" "0 \<le> sp_MeterStop stop_request" "0 < started" "0 < stopped"
    and sid: "sid = SessionID cp (sc_TransactionId confirmation)"
    and fresh: "map_of (db_sessions db) sid = None"
    and delivered: "\<forall>e\<in>set (events_of sid (stored h)). se_Type e = SessionUpdated \<or>
        (\<exists>ingestedAt. DecodeChargingSessionEvent unmarshal (first_message st st') ingestedAt = Inr e \<or>
           DecodeChargingSessionEvent unmarshal (first_message later later') ingestedAt = Inr e)"
    and both: "\<exists>e\<in>set (stored h). \<exists>ingestedAt. DecodeChargingSessionEvent unmarshal (first_message st st') ingestedAt = Inr e"
      "\<exists>e\<in>set (stored h). \<exists>ingestedAt. DecodeChargingSessionEvent unmarshal (first_message later later') ingestedAt = Inr e"
  shows "\<exists>s. GetSession None sid (persist_history h db) = Inr (Some s) \<and>
    ss_EnergyDeliveredWh s = Some (max (sp_MeterStop stop_request - sr_MeterStart request) 0) \<and>
    ss_StartedAt s = Some (UnixMilli started) \<and> ss_StoppedAt s = Some (UnixMilli stopped) \<and> \<not> ss_Open s"
proof -
  note start_facts = decoded_start [OF codec start usable(1,2) usable(4) [unfolded started_def]]
  note stop_facts = decoded_stop [OF codec stop(1) usable(1,3) usable(5) [unfolded stopped_def]]
  have consistent: "\<forall>e\<in>set (events_of sid (stored h)). consistent
      (UnixMilli started, Some (sr_MeterStart request)) (UnixMilli stopped, Some (sp_MeterStop stop_request)) e"
  proof
    fix e assume "e \<in> set (events_of sid (stored h))"
    then consider "se_Type e = SessionUpdated"
      | ingestedAt where "DecodeChargingSessionEvent unmarshal (first_message st st') ingestedAt = Inr e"
      | ingestedAt where "DecodeChargingSessionEvent unmarshal (first_message later later') ingestedAt = Inr e"
      using delivered by blast
    then show "consistent (UnixMilli started, Some (sr_MeterStart request))
        (UnixMilli stopped, Some (sp_MeterStop stop_request)) e"
      by cases (auto simp: consistent_def started_def stopped_def dest: start_facts stop_facts)
  qed
  have starts: "\<exists>e\<in>set (events_of sid (stored h)). se_Type e = SessionStarted"
    using both(1) start_facts(1,2) sid by (fastforce simp: events_of_def)
  have stops: "\<exists>e\<in>set (events_of sid (stored h)). se_Type e = SessionStopped"
    using both(2) stop_facts(1,2) stop(2) sid by (fastforce simp: events_of_def)
  obtain row where "map_of (db_sessions (persist_history h db)) sid = Some row"
    "sw_started_at row = Some (pg_time (UnixMilli started))" "sw_stopped_at row = Some (pg_time (UnixMilli stopped))"
    "sw_meter_start_wh row = Some (sr_MeterStart request)" "sw_meter_stop_wh row = Some (sp_MeterStop stop_request)"
    by (rule history_boundaries [OF fresh consistent starts stops])
  then show ?thesis
    by (simp add: GetSession_eq scanSession_def energy_delivered_wh_def pg_time_UnixMilli)
qed

lemma initial_bus: "gw_bus (initial_gateway t) = []"
  by (simp add: initial_gateway_def)

lemma example_decodes:
  "\<exists>e. DecodeChargingSessionEvent example_unmarshal ''start'' 0 = Inr e"
  "\<exists>e. DecodeChargingSessionEvent example_unmarshal ''stop'' 0 = Inr e"
  by (simp_all add: DecodeChargingSessionEvent_def example_unmarshal_def example_started_def example_stopped_def
      start_event_def stop_event_def csms_SessionEvent_def Let_def example_start_def example_stop_def
      to_UnixMilli_def wrap64_def second_ns_def)

theorem gateway_session_is_billed_witness:
  "\<exists>h s. GetSession None (SessionID ''cp-1'' 31) (persist_history h empty_db) = Inr (Some s) \<and>
     ss_EnergyDeliveredWh s = Some 500 \<and> \<not> ss_Open s"
proof -
  let ?st = "initial_gateway (30 * second_ns)" and ?later = "initial_gateway 0"
  obtain st' where start: "OnStartTransaction example_session_env (example_handler AllowAll) ''cp-1'' example_start ?st =
      (Inr \<lparr>sc_IdTagInfo = AuthorizationStatusAccepted, sc_TransactionId = 31\<rparr>, st')"
    and first: "first_message ?st st' = ''start''"
    by (simp add: example_start_call first_message_def initial_bus)
  obtain later' where stop: "OnStopTransaction example_session_env (example_handler AllowAll) ''cp-1'' example_stop ?later = (Inr (), later')"
    and second: "first_message ?later later' = ''stop''"
    by (simp add: example_stop_call first_message_def initial_bus)
  obtain a b where dec: "DecodeChargingSessionEvent example_unmarshal ''start'' 0 = Inr a"
    "DecodeChargingSessionEvent example_unmarshal ''stop'' 0 = Inr b"
    using example_decodes by blast
  let ?h = "[(example_server, [b, a])]"
  have stored: "set (stored ?h) = {a, b}" by (auto simp: stored_def commits_def example_server_def)
  have codec: "\<forall>e p. ge_marshal_session example_session_env e = Inr p \<longrightarrow> example_unmarshal p = Inr e"
    using example_codec by blast
  have fields: "sr_MeterStart example_start = 1000" "sp_MeterStop example_stop = 1500" "sp_TransactionId example_stop = 31"
    by (simp_all add: example_start_def example_stop_def)
  have clock: "0 < to_UnixMilli (timestampOr (sr_Timestamp example_start) (ge_clock example_session_env (gw_reads ?st)))"
    "0 < to_UnixMilli (timestampOr (sp_Timestamp example_stop) (ge_clock example_session_env (gw_reads ?later)))"
    by (simp_all add: timestampOr_def example_start_def example_stop_def example_session_env_def
        example_gateway_env_def initial_gateway_def zero_time_def second_ns_def to_UnixMilli_def wrap64_def)
  have delivered: "\<forall>e\<in>set (events_of (SessionID ''cp-1'' 31) (stored ?h)). se_Type e = SessionUpdated \<or>
      (\<exists>ingestedAt. DecodeChargingSessionEvent example_unmarshal (first_message ?st st') ingestedAt = Inr e \<or>
         DecodeChargingSessionEvent example_unmarshal (first_message ?later later') ingestedAt = Inr e)"
    and both: "\<exists>e\<in>set (stored ?h). \<exists>ingestedAt. DecodeChargingSessionEvent example_unmarshal (first_message ?st st') ingestedAt = Inr e"
      "\<exists>e\<in>set (stored ?h). \<exists>ingestedAt. DecodeChargingSessionEvent example_unmarshal (first_message ?later later') ingestedAt = Inr e"
    using dec by (auto simp: first second stored events_of_def)
  have "\<exists>s. GetSession None (SessionID ''cp-1'' 31) (persist_history ?h empty_db) = Inr (Some s) \<and>
    ss_EnergyDeliveredWh s = Some (max (sp_MeterStop example_stop - sr_MeterStart example_start) 0) \<and>
    ss_StartedAt s = Some (UnixMilli (to_UnixMilli (timestampOr (sr_Timestamp example_start) (ge_clock example_session_env (gw_reads ?st))))) \<and>
    ss_StoppedAt s = Some (UnixMilli (to_UnixMilli (timestampOr (sp_Timestamp example_stop) (ge_clock example_session_env (gw_reads ?later))))) \<and>
    \<not> ss_Open s"
    by (rule gateway_session_is_billed [OF codec start _ stop _ _ _ _ clock _ _ delivered both])
       (simp_all add: fields empty_db_def)
  then show ?thesis by (auto simp: fields)
qed

text \<open>The broker acknowledged the event, which implies that it could be encoded.\<close>

definition acknowledged :: "GatewayEnv \<Rightarrow> Gateway \<Rightarrow> ChargingSessionEvent \<Rightarrow> bool" where
  "acknowledged env st e \<longleftrightarrow> \<not> isl (ge_marshal_session env e) \<and> ge_publish env (gw_attempts st) = Acknowledged"

lemma publish_Session_acknowledged:
  "fst (publish_Session env pub e st) = None \<longleftrightarrow> acknowledged env st e"
  "acknowledged env st e \<Longrightarrow> gw_bus (snd (publish_Session env pub e st)) =
     gw_bus st @ [(pb_sessionSubject pub, projr (ge_marshal_session env e))]"
  by (auto simp: publish_Session_def publish_def acknowledged_def Let_def split: sum.splits PublishAnswer.splits)

lemma acknowledged_frame [simp]:
  "acknowledged env (st\<lparr>gw_reads := r\<rparr>) e = acknowledged env st e"
  "acknowledged env (st\<lparr>gw_counter := c\<rparr>) e = acknowledged env st e"
  by (simp_all add: acknowledged_def)

text \<open>
  C24. A charge point is never told that a transaction is recorded before it is. With the gateway
  accepting tokens, a start is answered with the next identifier exactly when the broker acknowledged
  its start event, which is then on the bus, and with an error otherwise; a refusing gateway changes
  nothing. A stop is confirmed exactly when its stop event was acknowledged, and is then on the bus.
\<close>

theorem answered_transactions_are_durable:
  fixes env handler cp request stop_request st
  defines "event \<equiv> start_event env handler cp request (wrap64 (gw_counter st + 1))
      (timestampOr (sr_Timestamp request) (ge_clock env (gw_reads st)))"
    and "stop \<equiv> stop_event env handler cp stop_request
      (timestampOr (sp_Timestamp stop_request) (ge_clock env (gw_reads st)))"
    and "record \<equiv> \<lambda>e. (pb_sessionSubject (hd_publisher handler), projr (ge_marshal_session env e))"
  shows "(case OnStartTransaction env handler cp request st of
      (Inr confirmation, st') \<Rightarrow>
        if ho_AuthorizationMode (hd_options handler) = DenyAll
        then confirmation = \<lparr>sc_IdTagInfo = AuthorizationStatusInvalid, sc_TransactionId = 0\<rparr> \<and> st' = st
        else confirmation = \<lparr>sc_IdTagInfo = AuthorizationStatusAccepted, sc_TransactionId = wrap64 (gw_counter st + 1)\<rparr> \<and>
          acknowledged env st event \<and> record event \<in> set (gw_bus st')
    | (Inl err, st') \<Rightarrow>
        ho_AuthorizationMode (hd_options handler) \<noteq> DenyAll \<and> \<not> acknowledged env st event) \<and>
    (case OnStopTransaction env handler cp stop_request st of
      (Inr u, st') \<Rightarrow> acknowledged env st stop \<and> record stop \<in> set (gw_bus st')
    | (Inl err, st') \<Rightarrow> \<not> acknowledged env st stop)"
proof -
  have start: "fst (publish_Session env (hd_publisher handler) event (st\<lparr>gw_counter := c, gw_reads := r\<rparr>)) = None \<longleftrightarrow> acknowledged env st event"
    "acknowledged env st event \<Longrightarrow> record event \<in> set (gw_bus (snd (publish_Session env (hd_publisher handler) event (st\<lparr>gw_counter := c, gw_reads := r\<rparr>))))"
    for c r
    using publish_Session_acknowledged [where env = env and pub = "hd_publisher handler" and e = event and st = "st\<lparr>gw_counter := c, gw_reads := r\<rparr>"]
    by (auto simp: record_def acknowledged_def)
  have stop: "fst (publish_Session env (hd_publisher handler) stop (st\<lparr>gw_reads := r\<rparr>)) = None \<longleftrightarrow> acknowledged env st stop"
    "acknowledged env st stop \<Longrightarrow> record stop \<in> set (gw_bus (snd (publish_Session env (hd_publisher handler) stop (st\<lparr>gw_reads := r\<rparr>))))"
    for r
    using publish_Session_acknowledged [where env = env and pub = "hd_publisher handler" and e = stop and st = "st\<lparr>gw_reads := r\<rparr>"]
    by (auto simp: record_def acknowledged_def)
  have data: "set (gw_bus st1) \<subseteq> set (gw_bus (fold (transaction_data_step env handler cp t) vs st1))" for t vs st1
    by (intro keeps_bus [of env handler] keeps_fold keeps_transaction_data)
  show ?thesis
  proof (intro conjI)
    show "case OnStartTransaction env handler cp request st of
      (Inr confirmation, st') \<Rightarrow>
        if ho_AuthorizationMode (hd_options handler) = DenyAll
        then confirmation = \<lparr>sc_IdTagInfo = AuthorizationStatusInvalid, sc_TransactionId = 0\<rparr> \<and> st' = st
        else confirmation = \<lparr>sc_IdTagInfo = AuthorizationStatusAccepted, sc_TransactionId = wrap64 (gw_counter st + 1)\<rparr> \<and>
          acknowledged env st event \<and> record event \<in> set (gw_bus st')
    | (Inl err, st') \<Rightarrow> ho_AuthorizationMode (hd_options handler) \<noteq> DenyAll \<and> \<not> acknowledged env st event"
      using start [where c = "wrap64 (gw_counter st + 1)" and r = "gw_reads st + 1"]
      by (auto simp: OnStartTransaction_def start_record_def Next_def gateway_now_def event_def [symmetric] Let_def
          split: prod.splits option.splits)
    show "case OnStopTransaction env handler cp stop_request st of
      (Inr u, st') \<Rightarrow> acknowledged env st stop \<and> record stop \<in> set (gw_bus st')
    | (Inl err, st') \<Rightarrow> \<not> acknowledged env st stop"
      using stop [where r = "gw_reads st + 1"]
      by (auto simp: OnStopTransaction_def gateway_now_def stop_def [symmetric] Let_def split: prod.splits option.splits
          intro: data [THEN subsetD])
  qed
qed

text \<open>
  C25. Under any interleaving of concurrent calls no two confirmed transactions share an identifier
  or a session, for as many as \<open>2\<^sup>6\<^sup>4\<close> allocations since the gateway started, and every confirmed
  transaction has its start event on the bus.
\<close>

theorem confirmed_transactions_unique:
  assumes "(gateway_step env handler)\<^sup>*\<^sup>* (initial_fleet started) f" and "length (fl_issued f) \<le> 2 ^ 64"
  shows "distinct (map snd (fl_confirmed f)) \<and> distinct (map (\<lambda>(cp, tx). SessionID cp tx) (fl_confirmed f)) \<and>
    list_all (recorded_start env handler (fl_state f)) (fl_confirmed f)"
proof -
  note inv = fleet_inv_reachable [OF assms(1)]
  have ids: "distinct (map snd (fl_confirmed f))" by (rule confirmed_ids_distinct [OF inv assms(2)])
  then have "distinct (fl_confirmed f)" by (simp add: distinct_map)
  then have "distinct (map (\<lambda>(cp, tx). SessionID cp tx) (fl_confirmed f))"
    by (auto simp: distinct_map inj_on_def)
  then show ?thesis using ids inv by (simp add: fleet_inv_def)
qed

text \<open>Two starts whose allocations interleave: the second id is issued before the first is confirmed.\<close>

definition example_interleaved :: Fleet where
  "example_interleaved =
     \<lparr>fl_state = \<lparr>gw_sequence = 0, gw_counter = 32, gw_reads = 2, gw_attempts = 2,
        gw_bus = [(''orvolt.session.gw-1'', ''e''), (''orvolt.session.gw-1'', ''e'')]\<rparr>,
      fl_issued = [31, 32], fl_inflight = [], fl_confirmed = [(''cp-1'', 31), (''cp-2'', 32)]\<rparr>"

definition example_open_env :: GatewayEnv where
  "example_open_env = example_gateway_env\<lparr>ge_marshal_session := (\<lambda>e. Inr ''e'')\<rparr>"

lemma example_record:
  "start_record example_open_env (example_handler AllowAll) cp request tx st =
     (Inr \<lparr>sc_IdTagInfo = AuthorizationStatusAccepted, sc_TransactionId = tx\<rparr>,
      st\<lparr>gw_reads := gw_reads st + 1, gw_attempts := gw_attempts st + 1,
         gw_bus := gw_bus st @ [(''orvolt.session.gw-1'', ''e'')]\<rparr>)"
  by (simp add: start_record_def gateway_now_def publish_Session_def publish_def example_open_env_def
      example_gateway_env_def example_handler_def NewHandler_def publisher_New_def)

lemma example_interleaved_reachable:
  "(gateway_step example_open_env (example_handler AllowAll))\<^sup>*\<^sup>* (initial_fleet (30 * second_ns)) example_interleaved"
proof -
  let ?step = "gateway_step example_open_env (example_handler AllowAll)" and ?f = "initial_fleet (30 * second_ns)"
  have open_mode: "ho_AuthorizationMode (hd_options (example_handler AllowAll)) \<noteq> DenyAll"
    by (simp add: example_handler_def NewHandler_def)
  let ?st = "initial_gateway (30 * second_ns)"
  let ?a = "?f\<lparr>fl_state := ?st\<lparr>gw_counter := 31\<rparr>, fl_issued := [31], fl_inflight := [(''cp-1'', example_start, 31)]\<rparr>"
  let ?b = "?a\<lparr>fl_state := ?st\<lparr>gw_counter := 32\<rparr>, fl_issued := [31, 32],
      fl_inflight := [(''cp-2'', example_start, 32), (''cp-1'', example_start, 31)]\<rparr>"
  let ?c = "?b\<lparr>fl_state := ?st\<lparr>gw_counter := 32, gw_reads := 1, gw_attempts := 1, gw_bus := [(''orvolt.session.gw-1'', ''e'')]\<rparr>,
      fl_inflight := [(''cp-1'', example_start, 31)], fl_confirmed := [(''cp-2'', 32)]\<rparr>"
  have counter: "gw_counter ?st = 30" by (simp add: initial_gateway_def NewMonotonicIDs_def second_ns_def wrap64_def)
  have 1: "?step ?f ?a"
    using gateway_step.allocate [OF open_mode, of ?f 31 "?st\<lparr>gw_counter := 31\<rparr>" example_open_env "''cp-1''" example_start] counter
    by (simp add: Next_def initial_fleet_def wrap64_def)
  have 2: "?step ?a ?b"
    using gateway_step.allocate [OF open_mode, of ?a 32 "?st\<lparr>gw_counter := 32\<rparr>" example_open_env "''cp-2''" example_start]
    by (simp add: Next_def initial_fleet_def wrap64_def)
  have 3: "?step ?b ?c"
    using gateway_step.confirm [of ?b "[]" "''cp-2''" example_start 32 "[(''cp-1'', example_start, 31)]"
        example_open_env "example_handler AllowAll"] example_record [of "''cp-2''" example_start 32]
    by (simp add: initial_fleet_def initial_gateway_def)
  have 4: "?step ?c example_interleaved"
    using gateway_step.confirm [of ?c "[]" "''cp-1''" example_start 31 "[]"
        example_open_env "example_handler AllowAll"] example_record [of "''cp-1''" example_start 31]
    by (simp add: initial_fleet_def initial_gateway_def example_interleaved_def numeral_2_eq_2)
  from 1 2 3 4 show ?thesis by (meson converse_rtranclp_into_rtranclp rtranclp.rtrancl_refl)
qed

theorem confirmed_transactions_unique_witness:
  "distinct (map (\<lambda>(cp, tx). SessionID cp tx) (fl_confirmed example_interleaved)) \<and>
   recorded_start example_open_env (example_handler AllowAll) (fl_state example_interleaved) (''cp-2'', 32)"
  using confirmed_transactions_unique [OF example_interleaved_reachable]
  by (simp add: example_interleaved_def)

text \<open>
  C26. Unless the environment says exactly \<open>allow-all\<close>, a gateway that has started refuses every
  token, answers every start with an invalid authorization and no transaction, changing nothing, and
  never allocates or confirms a transaction in any state it can reach.
\<close>

theorem refusing_gateway_is_inert:
  assumes "gateway_run world getenv = Some (Inr handler)" and "getenv ''AUTHORIZATION_MODE'' \<noteq> ''allow-all''"
    and "(gateway_step env handler)\<^sup>*\<^sup>* (initial_fleet started) f"
  shows "OnAuthorize handler cp token = Inr AuthorizationStatusInvalid \<and>
    OnStartTransaction env handler cp request st = (Inr \<lparr>sc_IdTagInfo = AuthorizationStatusInvalid, sc_TransactionId = 0\<rparr>, st) \<and>
    fl_issued f = [] \<and> fl_confirmed f = [] \<and> gw_counter (fl_state f) = NewMonotonicIDs started"
proof -
  have mode: "ho_AuthorizationMode (hd_options handler) = DenyAll"
    using assms(1,2)
    by (auto elim!: gateway_run_Inr simp: gateway_handler_def NewHandler_def Let_def gateway_Load_def authorizationMode_cases)
  have "fl_issued f = [] \<and> fl_inflight f = [] \<and> fl_confirmed f = []"
    using assms(3)
  proof (induction rule: rtranclp_induct)
    case (step f g)
    then show ?case using mode by (auto elim: gateway_stepE)
  qed (simp add: initial_fleet_def)
  moreover from this have "gw_counter (fl_state f) = NewMonotonicIDs started"
    using fleet_inv_reachable [OF assms(3)]
    by (simp add: fleet_inv_def NewMonotonicIDs_def wrap64_id wrap64_range)
  ultimately show ?thesis using mode by (simp add: OnAuthorize_def OnStartTransaction_def)
qed

definition example_world :: "unit GatewayWorld" where
  "example_world =
     \<lparr>gx_dial = (\<lambda>attempt url options. if attempt < 3 then Inl (PlainError ''refused'') else Inr ()),
      gx_cancelled = (\<lambda>attempt. False), gx_jetstream = (\<lambda>c. None),
      gx_lookup = \<lparr>sl_StreamNameBySubject = (\<lambda>i subject attempt. if attempt < 2 then Some (PlainError ''no stream'') else None),
                   sl_done = (\<lambda>i attempt. False), sl_cancelled = (\<lambda>i attempt. False)\<rparr>,
      gx_quote = id\<rparr>"

definition example_getenv :: environment where
  "example_getenv name = (if name = ''TOKEN_PEPPER'' then replicate 32 (CHR ''k'') else [])"

lemma example_gateway_runs: "\<exists>handler. gateway_run example_world example_getenv = Some (Inr handler)"
proof -
  have "\<not> isl (the (gateway_run example_world example_getenv)) \<and> gateway_run example_world example_getenv \<noteq> None"
    by code_simp
  then show ?thesis by (cases "gateway_run example_world example_getenv"; cases "the (gateway_run example_world example_getenv)") auto
qed

theorem refusing_gateway_is_inert_witness:
  "\<exists>handler. gateway_run example_world example_getenv = Some (Inr handler) \<and>
     OnAuthorize handler ''cp-1'' ''card'' = Inr AuthorizationStatusInvalid"
proof -
  obtain handler where run: "gateway_run example_world example_getenv = Some (Inr handler)"
    using example_gateway_runs by blast
  have "example_getenv ''AUTHORIZATION_MODE'' \<noteq> ''allow-all''" by code_simp
  then show ?thesis using refusing_gateway_is_inert [OF run _ rtranclp.rtrancl_refl] run by blast
qed

text \<open>
  C27. Every telemetry message a started gateway puts on the bus passes the control plane's origin
  check on the subject it was published to, also when device identity is required, and is credited
  to the gateway's own identity and site.
\<close>

theorem gateway_telemetry_is_authentic:
  fixes getenv
  defines "settings \<equiv> gateway_Load getenv"
  assumes run: "gateway_run world getenv = Some (Inr handler)"
    and apart: "gc_TelemetrySubject settings \<noteq> gc_SessionSubject settings"
    and codec: "\<forall>t p. ge_marshal_telemetry env t = Inr p \<longrightarrow> unmarshal p = Inr t"
    and reach: "(gateway_step env handler)\<^sup>*\<^sup>* (initial_fleet started) f"
    and on_bus: "(gc_TelemetrySubject settings @ ''.'' @ gc_GatewayID settings, payload) \<in> set (gw_bus (fl_state f))"
    and decoded: "DecodeChargingTelemetry unmarshal payload ingestedAt = Inr telemetry"
  shows "VerifyTelemetryOrigin (gc_TelemetrySubject settings) required
      (gc_TelemetrySubject settings @ ''.'' @ gc_GatewayID settings) telemetry = None \<and>
    tm_EdgeID telemetry = gc_GatewayID settings \<and> tm_SiteID telemetry = gc_SiteID settings"
proof -
  have subjects: "pb_telemetrySubject (hd_publisher handler) = gc_TelemetrySubject settings @ ''.'' @ gc_GatewayID settings"
    "pb_sessionSubject (hd_publisher handler) = gc_SessionSubject settings @ ''.'' @ gc_GatewayID settings"
    "ho_Origin (hd_options handler) = \<lparr>og_GatewayID = gc_GatewayID settings, og_SiteID = gc_SiteID settings\<rparr>"
    using run unfolding settings_def
    by (auto elim!: gateway_run_Inr simp: gateway_handler_def NewHandler_def publisher_New_def Let_def)
  have "canonical env handler (gc_TelemetrySubject settings @ ''.'' @ gc_GatewayID settings, payload)"
    using fleet_inv_reachable [OF reach] on_bus by (auto simp: fleet_inv_def list_all_iff)
  then obtain t where "gateway_telemetry handler t" "ge_marshal_telemetry env t = Inr payload"
    using subjects apart by (auto simp: canonical_def)
  then obtain cp connector state reading reported observed sequence where
    "unmarshal payload = Inr (TelemetryFrom (ho_Origin (hd_options handler)) cp connector state reading reported observed sequence)"
    using codec unfolding gateway_telemetry_def by blast
  from decode_gateway_telemetry [OF this decoded]
  show ?thesis by (simp add: subjects VerifyTelemetryOrigin_None)
qed

definition example_gateway :: Handler where
  "example_gateway =
     gateway_handler (gateway_Load example_getenv) \<lparr>ha_key = replicate 32 (CHR ''k'')\<rparr>
       ''orvolt.telemetry.evse.v1.ocpp-gateway-001'' ''orvolt.session.evse.v1.ocpp-gateway-001''"

lemma example_gateway_run: "gateway_run example_world example_getenv = Some (Inr example_gateway)"
  by code_simp

definition example_available :: ChargingTelemetry where
  "example_available =
     TelemetryFrom \<lparr>og_GatewayID = ''ocpp-gateway-001'', og_SiteID = ''site-dev-001''\<rparr> ''cp-1'' 1
       CHARGING_STATE_AVAILABLE empty_reading (60 * second_ns) (60 * second_ns) 1"

definition example_telemetry_env :: GatewayEnv where
  "example_telemetry_env = example_gateway_env\<lparr>ge_marshal_telemetry :=
     (\<lambda>t. if t = example_available then Inr ''t'' else Inl (PlainError ''unencodable''))\<rparr>"

definition example_telemetry_unmarshal :: "string \<Rightarrow> string + ChargingTelemetry" where
  "example_telemetry_unmarshal p = (if p = ''t'' then Inr example_available else Inl ''bad'')"

definition example_status :: Call where
  "example_status = StatusNotification ''cp-1''
     \<lparr>sn_ConnectorId = 1, sn_Status = ChargePointStatusAvailable, sn_Timestamp = None\<rparr>"

theorem gateway_telemetry_is_authentic_witness:
  "\<exists>(f :: Fleet) telemetry. (''orvolt.telemetry.evse.v1.ocpp-gateway-001'', ''t'') \<in> set (gw_bus (fl_state f)) \<and>
     DecodeChargingTelemetry example_telemetry_unmarshal ''t'' 0 = Inr telemetry \<and>
     VerifyTelemetryOrigin ''orvolt.telemetry.evse.v1'' True ''orvolt.telemetry.evse.v1.ocpp-gateway-001'' telemetry = None"
proof -
  let ?f = "initial_fleet 0"
  let ?g = "?f\<lparr>fl_state := serve example_telemetry_env example_gateway example_status (fl_state ?f)\<rparr>"
  have settings: "gc_TelemetrySubject (gateway_Load example_getenv) = ''orvolt.telemetry.evse.v1''"
    "gc_GatewayID (gateway_Load example_getenv) = ''ocpp-gateway-001''"
    "gc_TelemetrySubject (gateway_Load example_getenv) \<noteq> gc_SessionSubject (gateway_Load example_getenv)"
    by code_simp+
  have codec: "\<forall>t p. ge_marshal_telemetry example_telemetry_env t = Inr p \<longrightarrow> example_telemetry_unmarshal p = Inr t"
    by (auto simp: example_telemetry_env_def example_telemetry_unmarshal_def split: if_splits)
  have reach: "(gateway_step example_telemetry_env example_gateway)\<^sup>*\<^sup>* ?f ?g"
    by (intro r_into_rtranclp gateway_step.other)
  have bus: "(''orvolt.telemetry.evse.v1.ocpp-gateway-001'', ''t'') \<in> set (gw_bus (fl_state ?g))" by code_simp
  obtain telemetry where dec: "DecodeChargingTelemetry example_telemetry_unmarshal ''t'' 0 = Inr telemetry"
    by (simp add: DecodeChargingTelemetry_def example_telemetry_unmarshal_def example_available_def TelemetryFrom_def
        to_UnixMilli_def wrap64_def second_ns_def Let_def)
  have "(gc_TelemetrySubject (gateway_Load example_getenv) @ ''.'' @ gc_GatewayID (gateway_Load example_getenv), ''t'')
      \<in> set (gw_bus (fl_state ?g))" using bus unfolding settings by simp
  from gateway_telemetry_is_authentic [OF example_gateway_run settings(3) codec reach this dec, of True]
  have "VerifyTelemetryOrigin ''orvolt.telemetry.evse.v1'' True ''orvolt.telemetry.evse.v1.ocpp-gateway-001'' telemetry = None"
    unfolding settings by simp
  then show ?thesis using bus dec by blast
qed

text \<open>
  C28. No credential leaves the gateway in the clear. Every message on the session subject, in any
  state the gateway can reach, is a session event whose authorization is missing, empty or 64
  lowercase hexadecimal digits, so the control plane never rejects one for carrying a raw token.
\<close>

theorem bus_carries_no_raw_token:
  assumes apart: "pb_telemetrySubject (hd_publisher handler) \<noteq> pb_sessionSubject (hd_publisher handler)"
    and codec: "\<forall>e p. ge_marshal_session env e = Inr p \<longrightarrow> unmarshal p = Inr e"
    and reach: "(gateway_step env handler)\<^sup>*\<^sup>* (initial_fleet started) f"
    and on_bus: "(pb_sessionSubject (hd_publisher handler), payload) \<in> set (gw_bus (fl_state f))"
  shows "\<exists>e. unmarshal payload = Inr e \<and>
    (case cs_authorization e of
       None \<Rightarrow> True
     | Some a \<Rightarrow> rejectRawToken (au_token_hash a) = None \<and>
         (au_token_hash a = [] \<or> length (au_token_hash a) = 64 \<and> list_all isHex (au_token_hash a)))"
proof -
  have "canonical env handler (pb_sessionSubject (hd_publisher handler), payload)"
    using fleet_inv_reachable [OF reach] on_bus by (auto simp: fleet_inv_def list_all_iff)
  then obtain e where e: "gateway_session env handler e" "ge_marshal_session env e = Inr payload"
    using apart by (auto simp: canonical_def)
  have "cs_authorization e = None \<or> (\<exists>token a. cs_authorization e = Some a \<and>
      au_token_hash a = Hash (ge_unicode_upper env) (hd_hasher handler) token)"
    using e(1) by (auto simp: gateway_session_def csms_SessionEvent_def)
  then have "case cs_authorization e of None \<Rightarrow> True
     | Some a \<Rightarrow> rejectRawToken (au_token_hash a) = None \<and>
         (au_token_hash a = [] \<or> length (au_token_hash a) = 64 \<and> list_all isHex (au_token_hash a))"
    using Hash_shape by (auto simp: hexHashLength_def)
  then show ?thesis using e(2) codec by blast
qed

definition example_confirmed :: Fleet where
  "example_confirmed =
     \<lparr>fl_state = \<lparr>gw_sequence = 0, gw_counter = 31, gw_reads = 1, gw_attempts = 1, gw_bus = [(''orvolt.session.gw-1'', ''start'')]\<rparr>,
      fl_issued = [31], fl_inflight = [], fl_confirmed = [(''cp-1'', 31)]\<rparr>"

lemma example_confirmed_reachable:
  "(gateway_step example_session_env (example_handler AllowAll))\<^sup>*\<^sup>* (initial_fleet (30 * second_ns)) example_confirmed"
proof -
  let ?st = "initial_gateway (30 * second_ns)" and ?f = "initial_fleet (30 * second_ns)"
  have open_mode: "ho_AuthorizationMode (hd_options (example_handler AllowAll)) \<noteq> DenyAll"
    by (simp add: example_handler_def NewHandler_def)
  have next31: "Next ?st = (31, ?st\<lparr>gw_counter := 31\<rparr>)"
    by (simp add: Next_def initial_gateway_def NewMonotonicIDs_def second_ns_def wrap64_def)
  let ?a = "?f\<lparr>fl_state := ?st\<lparr>gw_counter := 31\<rparr>, fl_issued := [31], fl_inflight := [(''cp-1'', example_start, 31)]\<rparr>"
  have 1: "gateway_step example_session_env (example_handler AllowAll) ?f ?a"
    using gateway_step.allocate [OF open_mode, of ?f 31 "?st\<lparr>gw_counter := 31\<rparr>" example_session_env "''cp-1''" example_start] next31
    by (simp add: initial_fleet_def)
  have 2: "gateway_step example_session_env (example_handler AllowAll) ?a example_confirmed"
    using gateway_step.confirm [of ?a "[]" "''cp-1''" example_start 31 "[]" example_session_env "example_handler AllowAll"]
      example_start_call [unfolded undisturbed_start [OF open_mode] next31 fst_conv snd_conv]
    by (simp add: initial_fleet_def example_confirmed_def)
  from 1 2 show ?thesis by (meson converse_rtranclp_into_rtranclp rtranclp.rtrancl_refl)
qed

theorem bus_carries_no_raw_token_witness:
  "\<exists>e. example_unmarshal ''start'' = Inr e \<and>
    (case cs_authorization e of
       None \<Rightarrow> True
     | Some a \<Rightarrow> rejectRawToken (au_token_hash a) = None \<and>
         (au_token_hash a = [] \<or> length (au_token_hash a) = 64 \<and> list_all isHex (au_token_hash a)))"
proof (rule bus_carries_no_raw_token [OF _ _ example_confirmed_reachable])
  show "\<forall>e p. ge_marshal_session example_session_env e = Inr p \<longrightarrow> example_unmarshal p = Inr e"
    using example_codec by blast
qed (simp_all add: example_handler_def NewHandler_def publisher_New_def example_confirmed_def)

text \<open>
  C29. The loop that fills a reading is six independent queries: each field is the last sample of its
  measurand (a sample without one is the energy register) that parses and has a known unit,
  converted to the contract's unit, and absent when there is none. The register for the session is
  the first such sample instead.
\<close>

theorem reading_is_last_usable_sample:
  "MeterValueToReading v = reading_spec (mv_SampledValue v) \<and>
   EnergyRegisterWh oob v =
     Option.bind (find (\<lambda>s. register_of oob s \<noteq> None) (mv_SampledValue v)) (register_of oob)"
  by (simp add: MeterValueToReading_def EnergyRegisterWh_def fold_read_sample first_register_find)

text \<open>
  C30. An energy register sent as a decimal with up to three digits behind the point and a whole part of
  at most \<open>2\<^sup>3\<^sup>9\<close> arrives as follows. In watt-hours, the whole part exactly: the fraction is dropped. In
  kilowatt-hours, exactly when it is a whole number, and otherwise the watt-hours it says or one less:
  the product in binary64 can fall just below the watt-hour and is truncated. No other unit is guessed.
\<close>

theorem energy_register_is_faithful:
  assumes "measurandOf sample = MeasurandEnergyActiveImportRegister"
    and "sv_Value sample = decimal a b" "all_digits a" "list_all is_digit b" "length b \<le> 3" "digits_value a \<le> 2 ^ 39"
  shows "(sv_Unit sample \<in> {UnitUnset, UnitOfMeasureWh} \<longrightarrow> register_of oob sample = Some (int (digits_value a))) \<and>
    (sv_Unit sample = UnitOfMeasureKWh \<longrightarrow>
       register_of oob sample \<in> {Some (int (thousandths a b)), Some (int (thousandths a b) - 1)} \<and>
       (thousandths a b mod 1000 = 0 \<longrightarrow> register_of oob sample = Some (int (thousandths a b)))) \<and>
    (sv_Unit sample \<notin> {UnitUnset, UnitOfMeasureWh, UnitOfMeasureKWh} \<longrightarrow> register_of oob sample = None)"
proof -
  let ?m = "thousandths a b" let ?q = "of_nat ?m / 1000 :: rat"
  note m = thousandths_bounds [OF assms(4,5), of a]
  have le: "?m \<le> 1000 * 2 ^ 39 + 1000" using m(2) assms(6) by simp
  have "?q \<le> max_finite64"
  proof -
    have "(of_nat ?m :: rat) \<le> of_nat (1000 * 2 ^ 39 + 1000)" using le by (simp only: of_nat_le_iff)
    then show ?thesis using max_finite64_ge by simp
  qed
  then obtain x where x: "sample_number sample = Some x" "is_fin x" "fval x = round64 ?q"
    using ParseFloat_decimal [OF assms(3,4)] thousandths_value [OF assms(5), of a] assms(2) by (auto simp: sample_number_def)
  have "int64_of oob x = int (digits_value a)" by (rule int64_of_watt_hours [OF x(2,3) m assms(6)])
  moreover note int64_of_kilowatt_hours [OF x(2,3) le, of oob]
  ultimately show ?thesis using assms(1) x(1) by (auto simp: register_of_def split: UnitOfMeasure.splits)
qed

text \<open>A register of 1234.567 kWh, as the text and its two parts.\<close>

theorem energy_register_is_faithful_witness:
  "(\<exists>r. register_of (\<lambda>x. 0) \<lparr>sv_Value = ''1234.567'', sv_Measurand = MeasurandUnset, sv_Unit = UnitOfMeasureKWh\<rparr> = Some r \<and> r \<in> {1234567, 1234566}) \<and>
   register_of (\<lambda>x. 0) \<lparr>sv_Value = ''1234'', sv_Measurand = MeasurandUnset, sv_Unit = UnitOfMeasureKWh\<rparr> = Some 1234000"
proof -
  have parts: "decimal ''1234'' ''567'' = ''1234.567''" "decimal ''1234'' [] = ''1234''" "all_digits ''1234''" "list_all is_digit ''567''"
    "digits_value ''1234'' = 1234" "thousandths ''1234'' ''567'' = 1234567" "thousandths ''1234'' [] = 1234000"
    by (simp_all add: decimal_def thousandths_def digits_value_def digit_value_def all_digits_def is_digit_def less_eq_char_def)
  let ?s = "\<lparr>sv_Value = ''1234.567'', sv_Measurand = MeasurandUnset, sv_Unit = UnitOfMeasureKWh\<rparr>"
  let ?t = "\<lparr>sv_Value = ''1234'', sv_Measurand = MeasurandUnset, sv_Unit = UnitOfMeasureKWh\<rparr>"
  have "measurandOf ?s = MeasurandEnergyActiveImportRegister" "measurandOf ?t = MeasurandEnergyActiveImportRegister"
    by (simp_all add: measurandOf_def)
  note both = energy_register_is_faithful [OF this(1), of "''1234''" "''567''" "\<lambda>x. 0", unfolded parts SampledValue.select_convs]
    energy_register_is_faithful [OF this(2), of "''1234''" "[]" "\<lambda>x. 0", unfolded parts SampledValue.select_convs]
  have "register_of (\<lambda>x. 0) ?s \<in> {Some 1234567, Some 1234566}" using both(1) parts(3,4) by simp
  moreover have "register_of (\<lambda>x. 0) ?t = Some 1234000" using both(2) parts(3) by simp
  ultimately show ?thesis by blast
qed

lemma wait_from_found:
  assumes "\<forall>i subject. \<exists>k\<ge>1. sl_StreamNameBySubject lookup i subject k = None"
    and "\<forall>i k. \<not> sl_done lookup i k \<and> \<not> sl_cancelled lookup i k"
  shows "wait_from lookup i subjects = Some None"
proof (induction subjects arbitrary: i)
  case (Cons subject subjects)
  obtain k where "k \<ge> 1" "wait_attempt lookup i subject k \<noteq> None"
    using assms(1) wait_attempt_None by (metis option.distinct(1))
  then obtain r where r: "retry (wait_attempt lookup i subject) 1 = Some r"
    using retry_returns_iff [of "wait_attempt lookup i subject" 1] by blast
  then obtain j where "wait_attempt lookup i subject j = Some r" unfolding retry_Some_iff by blast
  then have "r = None" using assms(2) by (auto simp: wait_attempt_def split: option.splits)
  then show ?case using Cons r by simp
qed simp

text \<open>
  C32. A cold start ends in service. With a token pepper of at least 32 bytes and an identity that
  names a subject, a gateway whose broker answers eventually, whose streams are created eventually and
  whose context does not end reaches the point where it serves charge points.
\<close>

theorem gateway_starts:
  assumes "32 \<le> length (getenv ''TOKEN_PEPPER'')"
    and "ValidateIdentity (gx_quote world) (gc_GatewayID (gateway_Load getenv)) = None"
    and "\<exists>k\<ge>1. \<not> isl (gx_dial world k (gc_NATSURL (gateway_Load getenv)) (dialOptions (gateway_options (gateway_Load getenv))))"
    and "\<forall>k. \<not> gx_cancelled world k" and "\<forall>c. gx_jetstream world c = None"
    and "\<forall>i subject. \<exists>k\<ge>1. sl_StreamNameBySubject (gx_lookup world) i subject k = None"
    and "\<forall>i k. \<not> sl_done (gx_lookup world) i k \<and> \<not> sl_cancelled (gx_lookup world) i k"
  shows "\<exists>handler. gateway_run world getenv = Some (Inr handler)"
proof -
  have pepper: "NewHasher (gc_TokenPepper (gateway_Load getenv)) = Inr \<lparr>ha_key = getenv ''TOKEN_PEPPER''\<rparr>"
    using assms(1) by (simp add: NewHasher_def MinimumKeyBytes_def gateway_Load_def)
  obtain c where "Connect (gx_dial world) (gx_cancelled world) (gateway_options (gateway_Load getenv)) = Some (Inr c)"
    by (rule Connect_succeeds [of "gx_dial world" "gateway_options (gateway_Load getenv)"])
       (use assms(3,4) in \<open>simp_all add: gateway_options_def\<close>)
  moreover obtain a b where "gateway_subjects world (gateway_Load getenv) = Inr (a, b)"
    using assms(2) by (simp add: gateway_subjects_def DeviceSubject_def)
  ultimately show ?thesis
    using pepper assms(5) wait_from_found [OF assms(6,7)]
    by (simp add: gateway_run_def Let_def waitForSubjects_def del: wait_from.simps)
qed

theorem gateway_starts_witness: "\<exists>handler. gateway_run example_world example_getenv = Some (Inr handler)"
proof (rule gateway_starts)
  show "ValidateIdentity (gx_quote example_world) (gc_GatewayID (gateway_Load example_getenv)) = None" by code_simp
  show "\<exists>k\<ge>1. \<not> isl (gx_dial example_world k (gc_NATSURL (gateway_Load example_getenv))
      (dialOptions (gateway_options (gateway_Load example_getenv))))"
    by (intro exI [of _ 3]) (simp add: example_world_def)
  show "\<forall>i subject. \<exists>k\<ge>1. sl_StreamNameBySubject (gx_lookup example_world) i subject k = None"
    by (auto simp: example_world_def intro!: exI [of _ 2])
qed (simp_all add: example_world_def example_getenv_def)

section \<open>Two discrepancies between the code and its comments\<close>

text \<open>
  A register of 1.001 kWh is truncated to 1000 Wh: the product in binary64 is just below 1001, and the
  conversion drops the fraction instead of rounding.
\<close>

lemma kwh_register_loses_a_watt_hour:
  "register_of oob \<lparr>sv_Value = ''1.001'', sv_Measurand = MeasurandEnergyActiveImportRegister, sv_Unit = UnitOfMeasureKWh\<rparr> = Some 1000"
proof -
  have "sample_number \<lparr>sv_Value = ''1.001'', sv_Measurand = MeasurandEnergyActiveImportRegister, sv_Unit = UnitOfMeasureKWh\<rparr> =
      Some (the (ParseFloat ''1.001''))" by code_simp
  moreover have "is_fin (fmul (the (ParseFloat ''1.001'')) (Fin 1000))"
    "trunc (fval (fmul (the (ParseFloat ''1.001'')) (Fin 1000))) = 1000" by code_simp+
  ultimately show ?thesis
    by (simp add: register_of_def measurandOf_def int64_of_def in_int64_def min_int64_def max_int64_def)
qed

text \<open>
  A stop carries the connector label \<open>0\<close>, not an empty one, so the merge of the projection replaces
  the connector that the start event had recorded.
\<close>

lemma stop_replaces_the_connector:
  assumes "\<forall>e p. ge_marshal_session env e = Inr p \<longrightarrow> unmarshal p = Inr e"
    and "OnStopTransaction env handler cp request st = (Inr u, st')"
    and "cp \<noteq> []" "0 \<le> sp_MeterStop request"
      "0 < to_UnixMilli (timestampOr (sp_Timestamp request) (ge_clock env (gw_reads st)))"
    and "DecodeChargingSessionEvent unmarshal (first_message st st') ingestedAt = Inr e"
  shows "sw_connector_id (merge_session now (session_columns e) row) = ''0''"
proof -
  have "Itoa 0 = ''0''" by code_simp
  then show ?thesis using decoded_stop(5) [OF assms]
    by (simp add: merge_session_def session_columns_def non_empty_or_def connectorUnknown_def
        split: prod.splits)
qed

end
