(* ===== verification/Cloud_System.thy ===== *)
theory Cloud_System
  imports Platform Gateway_Theorems
begin

text \<open>
  The gateway and the control plane, joined by the bus: what the gateway stores under its telemetry and
  session subjects is appended to the two streams, next to what others publish, and everything of
  \<open>Platform\<close> may happen to it on the way to the database.
\<close>

record System =
  sy_fleet :: Fleet
  sy_platform :: Platform

section \<open>Publishing is a step of the platform\<close>

definition publish_session :: "string \<times> string \<Rightarrow> Platform \<Rightarrow> Platform" where
  "publish_session m p =
     p\<lparr>pf_sessions := (seated (pf_ingest p) (pf_sessions p))\<lparr>dv_stream := dv_stream (pf_sessions p) @ [m]\<rparr>\<rparr>"

definition publish_telemetry :: "string \<times> string \<Rightarrow> Platform \<Rightarrow> Platform" where
  "publish_telemetry m p =
     p\<lparr>pf_telemetry := (seated (pf_ingest p) (pf_telemetry p))\<lparr>dv_stream := dv_stream (pf_telemetry p) @ [m]\<rparr>\<rparr>"

definition carried :: "Handler \<Rightarrow> (string \<times> string) list \<Rightarrow> Platform \<Rightarrow> Platform" where
  "carried handler sent p =
     fold publish_session (filter (\<lambda>m. fst m = pb_sessionSubject (hd_publisher handler)) sent)
       (fold publish_telemetry (filter (\<lambda>m. fst m = pb_telemetrySubject (hd_publisher handler)) sent) p)"

lemma publish_steps:
  "platform_step t e s p (publish_session m p)" "platform_step t e s p (publish_telemetry m p)"
proof -
  have "delivery_step s (seated (pf_ingest p) (pf_sessions p))
      ((seated (pf_ingest p) (pf_sessions p))\<lparr>dv_stream := dv_stream (pf_sessions p) @ [m]\<rparr>)"
    using delivery_step.published [of s "seated (pf_ingest p) (pf_sessions p)" m] by simp
  from platform_step.on_sessions [OF this, of t e] show "platform_step t e s p (publish_session m p)"
    by (cases p) (simp add: publish_session_def seated_def)
  have "delivery_step t (seated (pf_ingest p) (pf_telemetry p))
      ((seated (pf_ingest p) (pf_telemetry p))\<lparr>dv_stream := dv_stream (pf_telemetry p) @ [m]\<rparr>)"
    using delivery_step.published [of t "seated (pf_ingest p) (pf_telemetry p)" m] by simp
  from platform_step.on_telemetry [OF this, of e s] show "platform_step t e s p (publish_telemetry m p)"
    by (cases p) (simp add: publish_telemetry_def seated_def)
qed

lemma fold_publish_steps:
  "(platform_step t e s)\<^sup>*\<^sup>* p (fold publish_session ms p)" "(platform_step t e s)\<^sup>*\<^sup>* p (fold publish_telemetry ms p)"
proof (induction ms arbitrary: p)
  case (Cons m ms)
  case 1
  show ?case using converse_rtranclp_into_rtranclp [OF publish_steps(1) Cons(1)] by simp
  case 2
  show ?case using converse_rtranclp_into_rtranclp [OF publish_steps(2) Cons(2)] by simp
qed simp_all

lemma carried_steps: "(platform_step t e s)\<^sup>*\<^sup>* p (carried handler sent p)"
  unfolding carried_def by (rule rtranclp_trans [OF fold_publish_steps(2) fold_publish_steps(1)])

lemma fold_publish_streams:
  "dv_stream (pf_sessions (fold publish_session ms p)) = dv_stream (pf_sessions p) @ ms"
  "dv_stream (pf_sessions (fold publish_telemetry ms p)) = dv_stream (pf_sessions p)"
  by (induction ms arbitrary: p) (simp_all add: publish_session_def publish_telemetry_def)

lemma carried_sessions:
  "dv_stream (pf_sessions (carried handler sent p)) =
     dv_stream (pf_sessions p) @ filter (\<lambda>m. fst m = pb_sessionSubject (hd_publisher handler)) sent"
  by (simp add: carried_def fold_publish_streams)

lemma platform_stream_grows: "platform_step t e s p p' \<Longrightarrow> set (dv_stream (pf_sessions p)) \<subseteq> set (dv_stream (pf_sessions p'))"
  by (induction rule: platform_step.induct) (auto dest!: delivery_stream_grows)

section \<open>The system\<close>

inductive system_step ::
  "GatewayEnv \<Rightarrow> Handler \<Rightarrow> (Server \<Rightarrow> (Telemetry, Database) Runner) \<Rightarrow> (Server \<Rightarrow> (EnergyObservation, Database) Runner) \<Rightarrow>
   (Server \<Rightarrow> (SessionEvent, Database) Runner) \<Rightarrow> System \<Rightarrow> System \<Rightarrow> bool" for env handler telemetry energy sessions where
  gateway: "gateway_step env handler (sy_fleet y) f \<Longrightarrow>
    gw_bus (fl_state f) = gw_bus (fl_state (sy_fleet y)) @ sent \<Longrightarrow>
    system_step env handler telemetry energy sessions y (y\<lparr>sy_fleet := f, sy_platform := carried handler sent (sy_platform y)\<rparr>)"
| platform: "platform_step telemetry energy sessions (sy_platform y) p \<Longrightarrow>
    system_step env handler telemetry energy sessions y (y\<lparr>sy_platform := p\<rparr>)"

definition initial_system :: "time \<Rightarrow> Database Ingest \<Rightarrow> System" where
  "initial_system started st = \<lparr>sy_fleet = initial_fleet started, sy_platform = empty_platform st\<rparr>"

text \<open>A run of the system is a run of its parts, and the session stream has every session message of the bus.\<close>

lemma system_parts:
  assumes "(system_step env handler telemetry energy sessions)\<^sup>*\<^sup>* (initial_system started st) y"
  shows "(gateway_step env handler)\<^sup>*\<^sup>* (initial_fleet started) (sy_fleet y)"
    "(platform_step telemetry energy sessions)\<^sup>*\<^sup>* (empty_platform st) (sy_platform y)"
    "\<And>m. m \<in> set (gw_bus (fl_state (sy_fleet y))) \<Longrightarrow> fst m = pb_sessionSubject (hd_publisher handler) \<Longrightarrow>
       m \<in> set (dv_stream (pf_sessions (sy_platform y)))"
  using assms
proof (induction rule: rtranclp_induct)
  case base
  show "(gateway_step env handler)\<^sup>*\<^sup>* (initial_fleet started) (sy_fleet (initial_system started st))"
    "(platform_step telemetry energy sessions)\<^sup>*\<^sup>* (empty_platform st) (sy_platform (initial_system started st))"
    "\<And>m. m \<in> set (gw_bus (fl_state (sy_fleet (initial_system started st)))) \<Longrightarrow> fst m = pb_sessionSubject (hd_publisher handler) \<Longrightarrow>
       m \<in> set (dv_stream (pf_sessions (sy_platform (initial_system started st))))"
    by (simp_all add: initial_system_def initial_fleet_def initial_bus)
next
  case (step y y')
  from step(2) show "(gateway_step env handler)\<^sup>*\<^sup>* (initial_fleet started) (sy_fleet y')"
    using step(3) by cases auto
  from step(2) show "(platform_step telemetry energy sessions)\<^sup>*\<^sup>* (empty_platform st) (sy_platform y')"
  proof cases
    case (gateway f sent)
    then show ?thesis using rtranclp_trans [OF step(4) carried_steps [of telemetry energy sessions "sy_platform y" handler sent]] by simp
  next
    case (platform p)
    then show ?thesis using step(4) by simp
  qed
  from step(2) show "\<And>m. m \<in> set (gw_bus (fl_state (sy_fleet y'))) \<Longrightarrow> fst m = pb_sessionSubject (hd_publisher handler) \<Longrightarrow>
       m \<in> set (dv_stream (pf_sessions (sy_platform y')))"
  proof cases
    case (gateway f sent)
    then show "\<And>m. m \<in> set (gw_bus (fl_state (sy_fleet y'))) \<Longrightarrow> fst m = pb_sessionSubject (hd_publisher handler) \<Longrightarrow>
       m \<in> set (dv_stream (pf_sessions (sy_platform y')))" using step(5) by (auto simp: carried_sessions)
  next
    case (platform p)
    then show "\<And>m. m \<in> set (gw_bus (fl_state (sy_fleet y'))) \<Longrightarrow> fst m = pb_sessionSubject (hd_publisher handler) \<Longrightarrow>
       m \<in> set (dv_stream (pf_sessions (sy_platform y')))" using step(5) platform_stream_grows [OF platform(2)] by auto
  qed
qed

lemma gateway_step_sends: "gateway_step env handler f f' \<Longrightarrow> \<exists>sent. gw_bus (fl_state f') = gw_bus (fl_state f) @ sent"
proof (induction rule: gateway_step.induct)
  case (allocate f tx st cp request)
  then show ?case by (auto simp: Next_def Let_def)
next
  case (confirm f before cp request tx after answer st)
  then show ?case using keeps_start_record [of env handler "fl_state f" cp request tx] by (auto simp: keeps_def)
next
  case (fail f before cp request tx after err st)
  then show ?case using keeps_start_record [of env handler "fl_state f" cp request tx] by (auto simp: keeps_def)
next
  case (other f call)
  then show ?case using keeps_serve [of env handler "fl_state f" call] by (auto simp: keeps_def)
qed

text \<open>Every call the gateway can serve, and every step of the platform, is a step of the system.\<close>

lemma system_serves:
  "gateway_step env handler (sy_fleet y) f \<Longrightarrow> \<exists>y'. system_step env handler telemetry energy sessions y y' \<and> sy_fleet y' = f"
  using gateway_step_sends [of env handler "sy_fleet y" f] by (force intro: system_step.gateway)

lemma system_runs_gateway:
  "(gateway_step env handler)\<^sup>*\<^sup>* (sy_fleet y) f \<Longrightarrow>
   \<exists>y'. (system_step env handler telemetry energy sessions)\<^sup>*\<^sup>* y y' \<and> sy_fleet y' = f"
proof (induction rule: rtranclp_induct)
  case (step f f')
  then obtain y' where y': "(system_step env handler telemetry energy sessions)\<^sup>*\<^sup>* y y'" "sy_fleet y' = f" by blast
  then obtain y'' where "system_step env handler telemetry energy sessions y' y''" "sy_fleet y'' = f'"
    using system_serves [of env handler y' f'] step(2) by blast
  then show ?case using rtranclp.rtrancl_into_rtrancl [OF y'(1)] by blast
qed blast

lemma system_runs_platform:
  "(platform_step telemetry energy sessions)\<^sup>*\<^sup>* (sy_platform y) p \<Longrightarrow>
   (system_step env handler telemetry energy sessions)\<^sup>*\<^sup>* y (y\<lparr>sy_platform := p\<rparr>)"
proof (induction rule: rtranclp_induct)
  case (step p p')
  then show ?case using system_step.platform [of telemetry energy sessions "y\<lparr>sy_platform := p\<rparr>" p' env handler]
    by (simp add: rtranclp.rtrancl_into_rtrancl)
qed simp

section \<open>What becomes of a confirmed start\<close>

definition usable_start :: "string \<Rightarrow> StartTransactionRequest \<Rightarrow> time \<Rightarrow> bool" where
  "usable_start cp request t \<longleftrightarrow> cp \<noteq> [] \<and> 0 \<le> sr_MeterStart request \<and> 0 < to_UnixMilli t"

lemma decode_start_event:
  assumes "unmarshal payload = Inr (start_event env handler cp request tx t)" and "usable_start cp request t"
  shows "\<exists>e. DecodeChargingSessionEvent unmarshal payload ingestedAt = Inr e \<and> se_SessionID e = SessionID cp tx \<and>
    se_Type e = SessionStarted \<and> se_OccurredAt e = UnixMilli (to_UnixMilli t) \<and> se_EnergyRegisterWh e = Some (sr_MeterStart request)"
proof -
  obtain e where "DecodeChargingSessionEvent unmarshal payload ingestedAt = Inr e"
    "se_SessionID e = SessionID cp tx" "se_Type e = SessionStarted"
    "se_OccurredAt e = UnixMilli (to_UnixMilli t)" "se_EnergyRegisterWh e = Some (sr_MeterStart request)"
    by (rule decode_gateway_session [where unmarshal = unmarshal and payload = payload and ingestedAt = ingestedAt,
          OF assms(1) [unfolded start_event_def]])
       (use assms(2) in \<open>auto simp: usable_start_def\<close>)
  then show ?thesis by blast
qed

lemma decode_stop_event:
  assumes "unmarshal payload = Inr (stop_event env handler cp request t)"
    and "cp \<noteq> []" "0 \<le> sp_MeterStop request" "0 < to_UnixMilli t"
  shows "\<exists>e. DecodeChargingSessionEvent unmarshal payload ingestedAt = Inr e \<and> se_SessionID e = SessionID cp (sp_TransactionId request) \<and>
    se_Type e = SessionStopped \<and> se_OccurredAt e = UnixMilli (to_UnixMilli t) \<and> se_EnergyRegisterWh e = Some (sp_MeterStop request)"
proof -
  obtain e where "DecodeChargingSessionEvent unmarshal payload ingestedAt = Inr e"
    "se_SessionID e = SessionID cp (sp_TransactionId request)" "se_Type e = SessionStopped"
    "se_OccurredAt e = UnixMilli (to_UnixMilli t)" "se_EnergyRegisterWh e = Some (sp_MeterStop request)"
    by (rule decode_gateway_session [where unmarshal = unmarshal and payload = payload and ingestedAt = ingestedAt,
          OF assms(1) [unfolded stop_event_def]])
       (use assms(2-) in \<open>auto split: if_splits\<close>)
  then show ?thesis by blast
qed

lemma judged_session: "judged dec None t m = dec (ms_Data m) t"
  by (simp add: judged_def split: sum.splits)

text \<open>
  C3. A transaction the gateway confirmed is never lost. Whatever calls interleave at the gateway and
  whatever happens between the broker and the database, the start event of every confirmed transaction
  is in the session stream, and it is still held for delivery, was dropped by the retention limits, or
  the database has its session, with a start and a register not below the one it reported. Only a start
  with an empty charge point, a negative register or no usable time can end in the dead-letter stream.
\<close>

theorem confirmed_start_is_never_lost:
  assumes codec: "\<forall>ev p. ge_marshal_session env ev = Inr p \<longrightarrow> us p = Inr ev"
    and built: "builds_platform stream dl n w ut subject required ue us telemetry energy sessions"
    and reach: "(system_step env handler telemetry energy sessions)\<^sup>*\<^sup>* (initial_system started st) y"
    and confirmed: "(cp, tx) \<in> set (fl_confirmed (sy_fleet y))"
    and view: "c = seated (pf_ingest (sy_platform y)) (pf_sessions (sy_platform y))"
  shows "\<exists>request t payload i. i < length (dv_stream c) \<and>
    dv_stream c ! i = (pb_sessionSubject (hd_publisher handler), payload) \<and>
    us payload = Inr (start_event env handler cp request tx t) \<and>
    (i \<in> deliverable c \<or> i \<in> dv_evicted c \<or>
     (\<exists>ev. session_recorded ev (ig_db (dv_ingest c)) \<and> se_SessionID ev = SessionID cp tx \<and>
        se_Type ev = SessionStarted \<and> se_EnergyRegisterWh ev = Some (sr_MeterStart request)) \<or>
     \<not> usable_start cp request t)"
proof -
  note parts = system_parts [OF reach]
  have "list_all (recorded_start env handler (fl_state (sy_fleet y))) (fl_confirmed (sy_fleet y))"
    using fleet_inv_reachable [OF parts(1)] by (simp add: fleet_inv_def)
  then obtain request t payload where m: "ge_marshal_session env (start_event env handler cp request tx t) = Inr payload"
    and bus: "(pb_sessionSubject (hd_publisher handler), payload) \<in> set (gw_bus (fl_state (sy_fleet y)))"
    using confirmed by (auto simp: list_all_iff recorded_start_def)
  then have "(pb_sessionSubject (hd_publisher handler), payload) \<in> set (dv_stream c)"
    using parts(3) by (simp add: view)
  then obtain i where i: "i < length (dv_stream c)" "dv_stream c ! i = (pb_sessionSubject (hd_publisher handler), payload)"
    by (auto simp: in_set_conv_nth)
  have u: "us payload = Inr (start_event env handler cp request tx t)" using codec m by blast
  have "kept (judged (DecodeChargingSessionEvent us) None) session_recorded c"
    using platform_kept_reachable [OF parts(2) [unfolded builds_platform_runners [OF built]]] by (simp add: platform_kept_def view)
  then have "not_lost (judged (DecodeChargingSessionEvent us) None) session_recorded c i" by (rule kept_not_lost [OF _ i(1)])
  then have "i \<in> deliverable c \<or> i \<in> dv_evicted c \<or>
      (\<exists>ts ev. DecodeChargingSessionEvent us payload ts = Inr ev \<and> session_recorded ev (ig_db (dv_ingest c))) \<or>
      (\<exists>ts err. DecodeChargingSessionEvent us payload ts = Inl err)"
    using i(2) by (auto simp: not_lost_def judged_session message_at_def)
  moreover have "\<exists>ev. DecodeChargingSessionEvent us payload ts = Inr ev \<and> se_SessionID ev = SessionID cp tx \<and>
      se_Type ev = SessionStarted \<and> se_EnergyRegisterWh ev = Some (sr_MeterStart request)" if "usable_start cp request t" for ts
    using decode_start_event [where unmarshal = us and payload = payload, OF u that] by blast
  ultimately show ?thesis using i u
    by (intro exI [of _ request] exI [of _ t] exI [of _ payload] exI [of _ i]) (metis Inr_inject sum.distinct(1))
qed

text \<open>The platform of the examples, and the system of the examples after a confirmed start.\<close>

definition example_system_step :: "GatewayEnv \<Rightarrow> System \<Rightarrow> System \<Rightarrow> bool" where
  "example_system_step env = system_step env (example_handler AllowAll)
     (telemetry_runners example_telemetry_payload ''t'' True \<lparr>dl_subject = ''dlq''\<rparr> 10 second_ns)
     (energy_runners (\<lambda>_. Inl []) \<lparr>dl_subject = ''dlq''\<rparr> 10 second_ns)
     (session_runners example_unmarshal \<lparr>dl_subject = ''dlq''\<rparr> 10 second_ns)"

lemma example_platform:
  "builds_platform example_js \<lparr>dl_subject = ''dlq''\<rparr> 10 second_ns example_telemetry_payload ''t'' True (\<lambda>_. Inl []) example_unmarshal
     (telemetry_runners example_telemetry_payload ''t'' True \<lparr>dl_subject = ''dlq''\<rparr> 10 second_ns)
     (energy_runners (\<lambda>_. Inl []) \<lparr>dl_subject = ''dlq''\<rparr> 10 second_ns)
     (session_runners example_unmarshal \<lparr>dl_subject = ''dlq''\<rparr> 10 second_ns)"
  unfolding builds_platform_def
  by (intro conjI exI [of _ 1] exI [of _ "''e''"])
     (simp_all add: NewSessionRunner_def NewTelemetryRunner_def NewEnergyRunner_def NewRunner_def example_js_def new_runner_def
        WithVerifier_def telemetry_runners_def energy_runners_def session_runners_def)

theorem confirmed_start_is_never_lost_witness:
  "\<exists>(y :: System) request t payload i. (example_system_step example_session_env)\<^sup>*\<^sup>* (initial_system (30 * second_ns) example_ingest) y \<and>
     i < length (dv_stream (pf_sessions (sy_platform y))) \<and>
     dv_stream (pf_sessions (sy_platform y)) ! i = (''orvolt.session.gw-1'', payload) \<and>
     example_unmarshal payload = Inr (start_event example_session_env (example_handler AllowAll) ''cp-1'' request 31 t)"
proof -
  have "(gateway_step example_session_env (example_handler AllowAll))\<^sup>*\<^sup>*
      (sy_fleet (initial_system (30 * second_ns) example_ingest)) example_confirmed"
    using example_confirmed_reachable by (simp add: initial_system_def)
  then obtain y where y: "(example_system_step example_session_env)\<^sup>*\<^sup>* (initial_system (30 * second_ns) example_ingest) y"
    "sy_fleet y = example_confirmed"
    using system_runs_gateway unfolding example_system_step_def by blast
  have confirmed: "(''cp-1'', 31) \<in> set (fl_confirmed (sy_fleet y))" by (simp add: y(2) example_confirmed_def)
  have codec: "\<forall>ev p. ge_marshal_session example_session_env ev = Inr p \<longrightarrow> example_unmarshal p = Inr ev" using example_codec by blast
  have subject: "pb_sessionSubject (hd_publisher (example_handler AllowAll)) = ''orvolt.session.gw-1''"
    by (simp add: example_handler_def NewHandler_def publisher_New_def)
  obtain request t payload i where "i < length (dv_stream (pf_sessions (sy_platform y)))"
    "dv_stream (pf_sessions (sy_platform y)) ! i = (''orvolt.session.gw-1'', payload)"
    "example_unmarshal payload = Inr (start_event example_session_env (example_handler AllowAll) ''cp-1'' request 31 t)"
    using confirmed_start_is_never_lost [OF codec example_platform y(1) [unfolded example_system_step_def] confirmed refl]
    unfolding subject seated_simps by blast
  then show ?thesis using y(1) by blast
qed

text \<open>The batches that took effect, as a history of calls to a healthy repository.\<close>

definition answered :: "Server \<Rightarrow> Server" where
  "answered server = server\<lparr>sv_begin := None, sv_refuse := (\<lambda>_. None), sv_close := None, sv_commit := None\<rparr>"

lemma answered_commits [simp]: "commits (answered server) batch"
  by (simp add: commits_def answered_def)

lemma replay_history:
  "replay (store_batch session_batch) h db = persist_history (map (map_prod answered id) h) db"
proof (induction h arbitrary: db)
  case Nil
  then show ?case by (simp add: persist_history_def)
next
  case (Cons a h)
  obtain server es where a: "a = (server, es)" by (cases a) simp
  have "snd (PersistSessionEventBatch (answered server) es db) = store_batch session_batch server es db"
    by (simp add: persist_effect) (simp add: store_batch_def answered_def)
  then show ?case using Cons [of "store_batch session_batch server es db"]
    by (simp add: a replay_def persist_history_def)
qed

lemma stored_held: "set (stored (map (map_prod answered id) h)) = held h"
  by (auto simp: stored_def held_def)

section \<open>The bill of a finished session\<close>

text \<open>The message at a position of the stream opens or closes the session.\<close>

definition bounds_session :: "(string \<Rightarrow> string + ChargingSessionEvent) \<Rightarrow> string \<Rightarrow> string \<Rightarrow> bool" where
  "bounds_session unmarshal sid payload \<longleftrightarrow>
     (\<exists>t e. DecodeChargingSessionEvent unmarshal payload t = Inr e \<and> se_SessionID e = sid \<and> se_Type e \<noteq> SessionUpdated)"

text \<open>A history whose events for a session are the given boundaries, both present, and updates gives this bill.\<close>

lemma bounded_history_bill:
  assumes "map_of (db_sessions db) sid = None"
    and "\<forall>e\<in>set (events_of sid (stored h)). consistent (UnixMilli t, Some a) (UnixMilli t', Some b) e"
    and "v \<in> set (stored h)" "se_SessionID v = sid" "se_Type v = SessionStarted"
    and "w \<in> set (stored h)" "se_SessionID w = sid" "se_Type w = SessionStopped"
  shows "\<exists>session. GetSession None sid (persist_history h db) = Inr (Some session) \<and>
    ss_EnergyDeliveredWh session = Some (max (b - a) 0) \<and>
    ss_StartedAt session = Some (UnixMilli t) \<and> ss_StoppedAt session = Some (UnixMilli t') \<and> \<not> ss_Open session"
proof -
  have starts: "\<exists>e\<in>set (events_of sid (stored h)). se_Type e = SessionStarted"
    and stops: "\<exists>e\<in>set (events_of sid (stored h)). se_Type e = SessionStopped"
    using assms(3-) by (auto simp: events_of_def)
  obtain row where "map_of (db_sessions (persist_history h db)) sid = Some row"
    "sw_started_at row = Some (pg_time (UnixMilli t))" "sw_stopped_at row = Some (pg_time (UnixMilli t'))"
    "sw_meter_start_wh row = Some a" "sw_meter_stop_wh row = Some b"
    by (rule history_boundaries [OF assms(1,2) starts stops])
  then show ?thesis by (simp add: GetSession_eq scanSession_def energy_delivered_wh_def pg_time_UnixMilli)
qed

text \<open>
  The session table is what the session batches alone made of it: what was stored was sent, and what was
  settled is accounted for.
\<close>

definition session_history ::
  "(time \<Rightarrow> Message \<Rightarrow> SessionEvent result) \<Rightarrow> Database \<Rightarrow> (Server \<times> SessionEvent list) list \<Rightarrow> Database Consumer \<Rightarrow> bool" where
  "session_history judge db0 h c \<longleftrightarrow>
     (\<forall>sid. map_of (db_sessions (ig_db (dv_ingest c))) sid = map_of (db_sessions (replay (store_batch session_batch) h db0)) sid) \<and>
     (\<forall>v\<in>held h. \<exists>i<length (dv_stream c). \<exists>t. judge t (message_at (dv_stream c) i) = Inr v) \<and>
     (\<forall>i\<in>dv_settled c. i < length (dv_stream c) \<and> accounted judge h (ig_dlq (dv_ingest c)) (message_at (dv_stream c) i))"

lemma session_store_project:
  "map_of (db_sessions (store_batch session_batch server es db)) sid =
     fold (project (sv_now server)) (events_of sid es) (map_of (db_sessions db) sid)"
proof -
  obtain db' where db': "apply_all (sv_now server) (session_batch es) db = Inr db'" using session_batch_ok by blast
  then show ?thesis using session_batch_projection [OF db'] by (simp add: store_batch_def)
qed

lemma session_replay_cong:
  "(\<forall>sid. map_of (db_sessions a) sid = map_of (db_sessions b) sid) \<Longrightarrow>
   map_of (db_sessions (replay (store_batch session_batch) h a)) sid = map_of (db_sessions (replay (store_batch session_batch) h b)) sid"
proof (induction h arbitrary: a b)
  case (Cons x h)
  obtain server es where x: "x = (server, es)" by (cases x) simp
  have "\<forall>sid. map_of (db_sessions (store_batch session_batch server es a)) sid = map_of (db_sessions (store_batch session_batch server es b)) sid"
    using Cons.prems by (simp add: session_store_project)
  from Cons.IH [OF this] show ?case by (simp add: x replay_def)
qed simp

lemma replay_append: "replay store (h @ h') db = replay store h' (replay store h db)"
  by (simp add: replay_def)

lemma held_append: "held (h @ h') = held h \<union> held h'"
  by (auto simp: held_def)

lemma session_history_own:
  assumes step: "delivery_step (session_runners us dl n w) c c'"
    and history: "session_history (judged (DecodeChargingSessionEvent us) None) db0 h c"
  shows "\<exists>h'. session_history (judged (DecodeChargingSessionEvent us) None) db0 h' c'"
proof -
  let ?judge = "judged (DecodeChargingSessionEvent us) None" and ?store = "store_batch session_batch"
  obtain k new where new: "dv_settled c' = dv_settled c \<union> new"
    and inv: "delivery_inv ?judge ?store (ig_db (dv_ingest c)) k (c'\<lparr>dv_settled := new\<rparr>)"
    by (rule stream_consumer.step_effect [OF session_consumer step])
  obtain ms where ms: "dv_stream c' = dv_stream c @ ms" using delivery_stream_grows [OF step] by blast
  note dlq = stream_consumer.step_dlq [OF session_consumer step]
  have "ig_db (dv_ingest c') = replay ?store k (ig_db (dv_ingest c))" using inv by (simp add: delivery_inv_def)
  moreover have "\<forall>sid. map_of (db_sessions (ig_db (dv_ingest c))) sid = map_of (db_sessions (replay ?store h db0)) sid"
    using history by (simp add: session_history_def)
  ultimately have "map_of (db_sessions (ig_db (dv_ingest c'))) sid = map_of (db_sessions (replay ?store (h @ k) db0)) sid" for sid
    unfolding replay_append using session_replay_cong [of "ig_db (dv_ingest c)" "replay ?store h db0" k sid] by simp
  moreover have "\<exists>i<length (dv_stream c'). \<exists>t. ?judge t (message_at (dv_stream c') i) = Inr v" if "v \<in> held (h @ k)" for v
  proof -
    from that consider "v \<in> held h" | "v \<in> held k" by (auto simp: held_append)
    then show ?thesis
    proof cases
      case 1
      then obtain i t where "i < length (dv_stream c)" "?judge t (message_at (dv_stream c) i) = Inr v"
        using history unfolding session_history_def by blast
      then show ?thesis using ms by (intro exI [of _ i]) auto
    next
      case 2
      then show ?thesis using inv by (simp add: delivery_inv_def)
    qed
  qed
  moreover have "i < length (dv_stream c') \<and> accounted ?judge (h @ k) (ig_dlq (dv_ingest c')) (message_at (dv_stream c') i)"
    if "i \<in> dv_settled c'" for i
  proof (cases "i \<in> new")
    case True
    then have "i < length (dv_stream c')" "accounted ?judge k (ig_dlq (dv_ingest c')) (message_at (dv_stream c') i)"
      using inv by (simp_all add: delivery_inv_def)
    then show ?thesis using accounted_mono held_append by (metis Un_upper2 order_refl)
  next
    case False
    then have "i < length (dv_stream c)" "accounted ?judge h (ig_dlq (dv_ingest c)) (message_at (dv_stream c) i)"
      using history that new by (simp_all add: session_history_def)
    then show ?thesis using accounted_mono [of ?judge h "ig_dlq (dv_ingest c)" _ "h @ k" "ig_dlq (dv_ingest c')"] dlq ms
      by (simp add: held_append)
  qed
  ultimately have "session_history ?judge db0 (h @ k) c'" unfolding session_history_def by blast
  then show ?thesis ..
qed

text \<open>A step of another consumer leaves the session table and what was parked.\<close>

lemma session_history_foreign:
  assumes consumer: "stream_consumer dec valid stamp verify runner (store_batch batch) I"
    and leaves: "\<And>server xs db. db_sessions (store_batch batch server xs db) = db_sessions db"
    and step: "delivery_step runner (seated st c) c'" and history: "session_history judge db0 h (seated st d)"
  shows "session_history judge db0 h (seated (dv_ingest c') d)"
proof -
  obtain k new where
    "delivery_inv (judged dec verify) (store_batch batch) (ig_db st) k (c'\<lparr>dv_settled := new\<rparr>)"
    by (rule stream_consumer.step_effect [OF consumer step]) simp
  then have db: "ig_db (dv_ingest c') = replay (store_batch batch) k (ig_db st)" by (simp add: delivery_inv_def)
  have "db_sessions (replay (store_batch batch) k db) = db_sessions db" for db
    by (induction k arbitrary: db) (auto simp: replay_def leaves)
  then have sessions: "db_sessions (ig_db (dv_ingest c')) = db_sessions (ig_db st)" by (simp add: db)
  have "set (ig_dlq st) \<subseteq> set (ig_dlq (dv_ingest c'))" using stream_consumer.step_dlq [OF consumer step] by simp
  then have "accounted judge h (ig_dlq st) m \<Longrightarrow> accounted judge h (ig_dlq (dv_ingest c')) m" for m
    using accounted_mono by blast
  then show ?thesis using history by (simp add: session_history_def sessions)
qed

lemma session_history_reachable:
  assumes "(platform_step (telemetry_runners ut subject required dl n w) (energy_runners ue dl n w) (session_runners us dl n w))\<^sup>*\<^sup>*
      (empty_platform st) p"
  shows "\<exists>h. session_history (judged (DecodeChargingSessionEvent us) None) (ig_db st) h (seated (pf_ingest p) (pf_sessions p))"
  using assms
proof (induction rule: rtranclp_induct)
  case base
  show ?case by (rule exI [of _ "[]"])
    (simp add: session_history_def empty_platform_def empty_consumer_def replay_def held_def)
next
  case (step p p')
  then obtain h where h: "session_history (judged (DecodeChargingSessionEvent us) None) (ig_db st) h (seated (pf_ingest p) (pf_sessions p))"
    by blast
  from step(2) show ?case
  proof cases
    case (on_telemetry c)
    then show ?thesis using session_history_foreign [OF telemetry_consumer foreign_parts(1) on_telemetry(2) h] by auto
  next
    case (on_energy c)
    then show ?thesis using session_history_foreign [OF energy_consumer foreign_parts(4) on_energy(2) h] by auto
  next
    case (on_sessions c)
    then show ?thesis using session_history_own [OF on_sessions(2) h] by simp
  qed
qed

text \<open>What is stored was sent, and what was settled although every decoding accepts it is stored.\<close>

lemma held_was_sent:
  assumes "session_history (judged dec None) db0 h c" "e \<in> held h"
  shows "\<exists>m\<in>set (dv_stream c). \<exists>ts. dec (snd m) ts = Inr e"
proof -
  obtain i ts where "i < length (dv_stream c)" "judged dec None ts (message_at (dv_stream c) i) = Inr e"
    using assms unfolding session_history_def by blast
  then show ?thesis by (metis judged_session message_at_def nth_mem Message.select_convs(3))
qed

lemma settled_is_held:
  assumes "session_history (judged dec None) db0 h c" "m \<in> set (dv_stream c)"
    and "\<forall>i<length (dv_stream c). snd (dv_stream c ! i) = snd m \<longrightarrow> i \<notin> deliverable c \<and> i \<notin> dv_evicted c"
    and "\<And>ts. \<exists>e. dec (snd m) ts = Inr e"
  shows "\<exists>v\<in>held h. \<exists>ts. dec (snd m) ts = Inr v"
proof -
  obtain i where i: "i < length (dv_stream c)" "dv_stream c ! i = m" using assms(2) by (auto simp: in_set_conv_nth)
  then have "i \<in> dv_settled c" using assms(3) by (auto simp: deliverable_def)
  then have "accounted (judged dec None) h (ig_dlq (dv_ingest c)) (message_at (dv_stream c) i)"
    using assms(1) by (simp add: session_history_def)
  then show ?thesis unfolding accounted_def judged_session using i(2) assms(4)
    by (simp add: message_at_def) (metis sum.distinct(1))
qed

text \<open>
  C4. A session that was started and stopped at the gateway is billed for what its meter counted. Let the
  session stream hold the start and the stop event of one transaction, and no other message that opens or
  closes its session. Whatever interleavings, repetitions, losses of settlements and crashes the system
  has been through, and whatever the consumers of the other streams wrote meanwhile, as soon as neither
  event is waiting for delivery (and neither was dropped by the retention limits), the session is closed,
  starts and stops at the reported instants and has delivered the difference of the two registers.
\<close>

theorem settled_session_is_billed:
  assumes built: "builds_platform stream dl n w ut subject required ue us telemetry energy sessions"
    and reach: "(system_step env handler telemetry energy sessions)\<^sup>*\<^sup>* (initial_system started st) y"
    and view: "c = seated (pf_ingest (sy_platform y)) (pf_sessions (sy_platform y))"
    and start: "(from, first) \<in> set (dv_stream c)" "us first = Inr (start_event env handler cp request tx t)"
      "usable_start cp request t"
    and stop: "(to, final) \<in> set (dv_stream c)" "us final = Inr (stop_event env handler cp stop_request t')"
      "sp_TransactionId stop_request = tx" "0 \<le> sp_MeterStop stop_request" "0 < to_UnixMilli t'"
    and only: "\<forall>m\<in>set (dv_stream c). bounds_session us (SessionID cp tx) (snd m) \<longrightarrow> snd m \<in> {first, final}"
    and quiet: "\<forall>i<length (dv_stream c). snd (dv_stream c ! i) \<in> {first, final} \<longrightarrow> i \<notin> deliverable c \<and> i \<notin> dv_evicted c"
    and fresh: "map_of (db_sessions (ig_db st)) (SessionID cp tx) = None"
  shows "\<exists>session. GetSession None (SessionID cp tx) (ig_db (dv_ingest c)) = Inr (Some session) \<and>
    ss_EnergyDeliveredWh session = Some (max (sp_MeterStop stop_request - sr_MeterStart request) 0) \<and>
    ss_StartedAt session = Some (UnixMilli (to_UnixMilli t)) \<and> ss_StoppedAt session = Some (UnixMilli (to_UnixMilli t')) \<and>
    \<not> ss_Open session"
proof -
  let ?dec = "DecodeChargingSessionEvent us" and ?sid = "SessionID cp tx"
  obtain h where history: "session_history (judged ?dec None) (ig_db st) h c"
    using session_history_reachable [OF system_parts(2) [OF reach, unfolded builds_platform_runners [OF built]]] view by blast
  let ?h = "map (map_prod answered id) h"
  have "map_of (db_sessions (ig_db (dv_ingest c))) ?sid = map_of (db_sessions (persist_history ?h (ig_db st))) ?sid"
    using history by (simp add: session_history_def replay_history)
  then have db: "GetSession None ?sid (ig_db (dv_ingest c)) = GetSession None ?sid (persist_history ?h (ig_db st))"
    by (simp add: GetSession_eq)
  have opens: "\<exists>e. ?dec first ts = Inr e \<and> se_SessionID e = ?sid \<and> se_Type e = SessionStarted \<and>
      se_OccurredAt e = UnixMilli (to_UnixMilli t) \<and> se_EnergyRegisterWh e = Some (sr_MeterStart request)" for ts
    by (rule decode_start_event [where unmarshal = us and payload = first, OF start(2,3)])
  have ends: "\<exists>e. ?dec final ts = Inr e \<and> se_SessionID e = ?sid \<and> se_Type e = SessionStopped \<and>
      se_OccurredAt e = UnixMilli (to_UnixMilli t') \<and> se_EnergyRegisterWh e = Some (sp_MeterStop stop_request)" for ts
    using decode_stop_event [where unmarshal = us and payload = final and ingestedAt = ts, OF stop(2)] start(3) stop(3-)
    by (auto simp: usable_start_def)
  have decodes: "\<exists>e. ?dec first ts = Inr e" "\<exists>e. ?dec final ts = Inr e" for ts using opens [of ts] ends [of ts] by blast+
  obtain v ts where v: "v \<in> set (stored ?h)" "?dec first ts = Inr v"
    using settled_is_held [OF history start(1)] quiet decodes(1) by (auto simp: stored_held)
  obtain w ts' where w: "w \<in> set (stored ?h)" "?dec final ts' = Inr w"
    using settled_is_held [OF history stop(1)] quiet decodes(2) by (auto simp: stored_held)
  have "consistent (UnixMilli (to_UnixMilli t), Some (sr_MeterStart request))
      (UnixMilli (to_UnixMilli t'), Some (sp_MeterStop stop_request)) e" if "e \<in> set (events_of ?sid (stored ?h))" for e
  proof -
    have sid: "se_SessionID e = ?sid" "e \<in> held h" using that by (simp_all add: events_of_def stored_held)
    then obtain m ts where m: "m \<in> set (dv_stream c)" "?dec (snd m) ts = Inr e" using held_was_sent [OF history] by blast
    then have "se_Type e = SessionUpdated \<or> snd m \<in> {first, final}" using only sid by (auto simp: bounds_session_def)
    then show ?thesis using m(2) opens [of ts] ends [of ts] by (auto simp: consistent_def)
  qed
  then show ?thesis unfolding db using fresh v w opens [of ts] ends [of ts'] by (intro bounded_history_bill [of _ _ _ _ _ _ _ v w]) auto
qed

text \<open>Two messages, then one healthy delivery: the state the platform of the example comes to rest in.\<close>

lemma example_quiet_platform:
  "\<exists>y. (example_system_step example_gateway_env)\<^sup>*\<^sup>* (initial_system 0 example_ingest) y \<and>
     dv_stream (pf_sessions (sy_platform y)) = [(''x'', ''start''), (''x'', ''stop'')] \<and>
     deliverable (pf_sessions (sy_platform y)) = {} \<and> dv_evicted (pf_sessions (sy_platform y)) = {}"
proof -
  let ?t = "telemetry_runners example_telemetry_payload ''t'' True \<lparr>dl_subject = ''dlq''\<rparr> 10 second_ns"
  let ?e = "energy_runners (\<lambda>_. Inl []) \<lparr>dl_subject = ''dlq''\<rparr> 10 second_ns"
  let ?s = "session_runners example_unmarshal \<lparr>dl_subject = ''dlq''\<rparr> 10 second_ns"
  define p where "p = fold publish_session [(''x'', ''start''), (''x'', ''stop'')] (empty_platform example_ingest)"
  have 1: "(platform_step ?t ?e ?s)\<^sup>*\<^sup>* (empty_platform example_ingest) p" unfolding p_def by (rule fold_publish_steps)
  have p: "dv_stream (pf_sessions p) = [(''x'', ''start''), (''x'', ''stop'')]" "dv_evicted (pf_sessions p) = {}"
    by (simp_all add: p_def publish_session_def empty_platform_def empty_consumer_def)
  have held: "deliverable (seated (pf_ingest p) (pf_sessions p)) = {0, 1}"
    by (auto simp: p_def publish_session_def empty_platform_def empty_consumer_def deliverable_def)
  have "\<exists>c. healthy_step ?s (seated (pf_ingest p) (pf_sessions p)) c \<and> deliverable c = {}"
    by (rule healthy_batch_empties [OF session_consumer]) (simp_all only: held, simp_all add: session_runners_def healthy_persists new_runner_def)
  then obtain c where c: "healthy_step ?s (seated (pf_ingest p) (pf_sessions p)) c" "deliverable c = {}" by blast
  then have same: "dv_stream c = dv_stream (pf_sessions p)" "dv_evicted c = dv_evicted (pf_sessions p)"
    using healthy_step_shrinks(2,3) [OF session_consumer c(1)] by (simp_all add: session_runners_def healthy_persists)
  define q where "q = p\<lparr>pf_sessions := c, pf_ingest := dv_ingest c\<rparr>"
  have 2: "platform_step ?t ?e ?s p q" unfolding q_def by (rule platform_step.on_sessions [OF healthy_step_delivery [OF c(1)]])
  from 1 2 have "(platform_step ?t ?e ?s)\<^sup>*\<^sup>* (sy_platform (initial_system 0 example_ingest)) q"
    by (simp add: initial_system_def)
  then have "(example_system_step example_gateway_env)\<^sup>*\<^sup>* (initial_system 0 example_ingest)
      ((initial_system 0 example_ingest)\<lparr>sy_platform := q\<rparr>)"
    unfolding example_system_step_def by (rule system_runs_platform)
  then show ?thesis using c(2) same p by (intro exI [of _ "(initial_system 0 example_ingest)\<lparr>sy_platform := q\<rparr>"]) (simp add: q_def)
qed

theorem settled_session_is_billed_witness:
  "\<exists>(y :: System) session. dv_stream (pf_sessions (sy_platform y)) = [(''x'', ''start''), (''x'', ''stop'')] \<and>
     GetSession None (SessionID ''cp-1'' 31) (ig_db (pf_ingest (sy_platform y))) = Inr (Some session) \<and>
     ss_EnergyDeliveredWh session = Some 500 \<and> \<not> ss_Open session"
proof -
  obtain y where y: "(example_system_step example_gateway_env)\<^sup>*\<^sup>* (initial_system 0 example_ingest) y"
    "dv_stream (pf_sessions (sy_platform y)) = [(''x'', ''start''), (''x'', ''stop'')]"
    "deliverable (pf_sessions (sy_platform y)) = {}" "dv_evicted (pf_sessions (sy_platform y)) = {}"
    using example_quiet_platform by blast
  let ?c = "seated (pf_ingest (sy_platform y)) (pf_sessions (sy_platform y))"
  have instants: "0 < to_UnixMilli (60 * second_ns)" "0 < to_UnixMilli (90 * second_ns)" by (simp_all add: to_UnixMilli_def second_ns_def wrap64_def)
  have "\<exists>session. GetSession None (SessionID ''cp-1'' 31) (ig_db (dv_ingest ?c)) = Inr (Some session) \<and>
    ss_EnergyDeliveredWh session = Some (max (sp_MeterStop example_stop - sr_MeterStart example_start) 0) \<and>
    ss_StartedAt session = Some (UnixMilli (to_UnixMilli (60 * second_ns))) \<and> ss_StoppedAt session = Some (UnixMilli (to_UnixMilli (90 * second_ns))) \<and>
    \<not> ss_Open session"
  proof (rule settled_session_is_billed [OF example_platform y(1) [unfolded example_system_step_def] refl])
    show "(''x'', ''start'') \<in> set (dv_stream ?c)" "(''x'', ''stop'') \<in> set (dv_stream ?c)" by (simp_all add: y(2))
    show "example_unmarshal ''start'' = Inr (start_event example_gateway_env (example_handler AllowAll) ''cp-1'' example_start 31 (60 * second_ns))"
      "example_unmarshal ''stop'' = Inr (stop_event example_gateway_env (example_handler AllowAll) ''cp-1'' example_stop (90 * second_ns))"
      by (simp_all add: example_unmarshal_def example_started_def example_stopped_def)
  qed (auto simp: y usable_start_def instants example_start_def example_stop_def example_ingest_def empty_db_def)
  then show ?thesis using y(2) by (intro exI [of _ y]) (auto simp: example_start_def example_stop_def)
qed

end
