(* ===== verification/Field_System.thy ===== *)
theory Field_System
  imports Edge_Readings Cloud_System
begin

text \<open>
  A fleet of chargers and the control plane, joined by the bus: what the agents publish is appended to
  the telemetry stream, next to what others publish, and everything of \<open>Edge_Agent\<close> may happen at every
  charger and everything of \<open>Platform\<close> on the way to the database.
\<close>

section \<open>Where accepted payloads come from\<close>






section \<open>The system\<close>
















end
