(* ===== verification/Migrations.thy ===== *)
theory Migrations
  imports GoLib
begin

text \<open>
  File \<open>migrations.go\<close> of package \<open>store\<close>: applying the SQL scripts of a directory, each in a
  transaction of its own that also records its name. The directory, the scripts' effect on the schema
  and the server's answers are parameters; \<open>%q\<close> is the parameter \<open>mw_quote\<close>.
\<close>

record 's Schema =
  sm_tables :: 's
  sm_tracking :: bool
  sm_applied :: "string list"

text \<open>
  A failed commit may have taken effect on the server all the same, which its flag says.
\<close>

record 's MigrationWorld =
  mw_create :: "go_error option"
  mw_ReadDir :: "(string \<times> bool) list result"
  mw_exists :: "string \<Rightarrow> go_error option"
  mw_ReadFile :: "string \<Rightarrow> string result"
  mw_begin :: "string \<Rightarrow> go_error option"
  mw_apply :: "string \<Rightarrow> 's \<Rightarrow> 's result"
  mw_record :: "string \<Rightarrow> go_error option"
  mw_commit :: "string \<Rightarrow> (go_error \<times> bool) option"
  mw_quote :: "string \<Rightarrow> string"

definition HasSuffix :: "string \<Rightarrow> string \<Rightarrow> bool" where
  "HasSuffix s suffix \<longleftrightarrow> length suffix \<le> length s \<and> drop (length s - length suffix) s = suffix"

definition migration_names :: "(string \<times> bool) list \<Rightarrow> string list" where
  "migration_names entries = map fst (filter (\<lambda>(name, isDir). \<not> isDir \<and> HasSuffix name ''.sql'') entries)"

definition migrate_one :: "'s MigrationWorld \<Rightarrow> string \<Rightarrow> 's Schema \<Rightarrow> go_error option \<times> 's Schema" where
  "migrate_one w name st =
     (case mw_exists w name of
        Some err \<Rightarrow> (Some (Wrapped (''check migration '' @ mw_quote w name) err), st)
      | None \<Rightarrow>
          if name \<in> set (sm_applied st) then (None, st)
          else case mw_ReadFile w name of
            Inl err \<Rightarrow> (Some (Wrapped (''read migration '' @ mw_quote w name) err), st)
          | Inr sql \<Rightarrow>
            (case mw_begin w name of
               Some err \<Rightarrow> (Some (Wrapped (''begin migration '' @ mw_quote w name) err), st)
             | None \<Rightarrow>
               (case mw_apply w sql (sm_tables st) of
                  Inl err \<Rightarrow> (Some (Wrapped (''apply migration '' @ mw_quote w name) err), st)
                | Inr tables \<Rightarrow>
                  (case mw_record w name of
                     Some err \<Rightarrow> (Some (Wrapped (''record migration '' @ mw_quote w name) err), st)
                   | None \<Rightarrow>
                     (let migrated = st\<lparr>sm_tables := tables, sm_applied := sm_applied st @ [name]\<rparr>
                      in case mw_commit w name of
                           Some (err, kept) \<Rightarrow>
                             (Some (Wrapped (''commit migration '' @ mw_quote w name) err), if kept then migrated else st)
                         | None \<Rightarrow> (None, migrated))))))"

fun migrate_from :: "'s MigrationWorld \<Rightarrow> string list \<Rightarrow> 's Schema \<Rightarrow> go_error option \<times> 's Schema" where
  "migrate_from w [] st = (None, st)"
| "migrate_from w (name # names) st =
     (case migrate_one w name st of
        (Some err, st) \<Rightarrow> (Some err, st)
      | (None, st) \<Rightarrow> migrate_from w names st)"

definition Migrate :: "'s MigrationWorld \<Rightarrow> string \<Rightarrow> 's Schema \<Rightarrow> go_error option \<times> 's Schema" where
  "Migrate w directory st =
     (case mw_create w of
        Some err \<Rightarrow> (Some (Wrapped ''create migration tracking table'' err), st)
      | None \<Rightarrow>
          (let st = st\<lparr>sm_tracking := True\<rparr>
           in case mw_ReadDir w of
                Inl err \<Rightarrow> (Some (Wrapped (''read migrations directory '' @ mw_quote w directory) err), st)
              | Inr entries \<Rightarrow> migrate_from w (sort (migration_names entries)) st))"

section \<open>Scripts run once, in order\<close>

text \<open>The schema after running the scripts of some names in order.\<close>

fun run_scripts :: "'s MigrationWorld \<Rightarrow> string list \<Rightarrow> 's \<Rightarrow> 's result" where
  "run_scripts w [] tables = Inr tables"
| "run_scripts w (name # names) tables =
     (case mw_ReadFile w name of
        Inl err \<Rightarrow> Inl err
      | Inr sql \<Rightarrow> (case mw_apply w sql tables of Inl err \<Rightarrow> Inl err | Inr tables \<Rightarrow> run_scripts w names tables))"

definition pending :: "string list \<Rightarrow> string list \<Rightarrow> string list" where
  "pending applied names = filter (\<lambda>name. name \<notin> set applied) names"

definition advances :: "'s MigrationWorld \<Rightarrow> 's Schema \<Rightarrow> 's Schema \<Rightarrow> string list \<Rightarrow> bool" where
  "advances w st st' executed \<longleftrightarrow>
     sm_applied st' = sm_applied st @ executed \<and> run_scripts w executed (sm_tables st) = Inr (sm_tables st') \<and>
     sm_tracking st' = sm_tracking st"

lemma migrate_one_result:
  "migrate_one w name st = (r, st') \<Longrightarrow>
     name \<in> set (sm_applied st) \<and> r = None \<and> st' = st \<or>
     name \<notin> set (sm_applied st) \<and> advances w st st' [name] \<or>
     (\<exists>err. r = Some err) \<and> st' = st"
  by (auto simp: migrate_one_def advances_def Let_def
      split: option.splits sum.splits if_splits prod.splits)

lemma advances_refl [simp]: "advances w st st []"
  by (simp add: advances_def)

lemma run_scripts_append:
  "run_scripts w (xs @ ys) tables =
     (case run_scripts w xs tables of Inl err \<Rightarrow> Inl err | Inr tables \<Rightarrow> run_scripts w ys tables)"
  by (induction xs arbitrary: tables) (simp_all split: sum.splits)

lemma advances_trans:
  "advances w st st' xs \<Longrightarrow> advances w st' st'' ys \<Longrightarrow> advances w st st'' (xs @ ys)"
  by (simp add: advances_def run_scripts_append)

lemma advances_applied: "advances w st st' xs \<Longrightarrow> sm_applied st' = sm_applied st @ xs"
  by (simp add: advances_def)

lemma pending_Cons:
  "pending applied (name # names) = (if name \<in> set applied then pending applied names else name # pending applied names)"
  by (simp add: pending_def)

lemma pending_snoc: "name \<notin> set names \<Longrightarrow> pending (applied @ [name]) names = pending applied names"
  by (auto simp: pending_def intro!: filter_cong)

lemma migrate_from_advances:
  "distinct names \<Longrightarrow> migrate_from w names st = (r, st') \<Longrightarrow>
     \<exists>executed rest. pending (sm_applied st) names = executed @ rest \<and> advances w st st' executed \<and>
       (r = None \<longrightarrow> rest = [])"
proof (induction names arbitrary: st)
  case Nil
  then show ?case by (auto simp: pending_def intro!: exI [of _ "[]"])
next
  case (Cons name names)
  obtain r1 st1 where one: "migrate_one w name st = (r1, st1)" by fastforce
  consider (skipped) "name \<in> set (sm_applied st)" "r1 = None" "st1 = st"
    | (applied) "name \<notin> set (sm_applied st)" "advances w st st1 [name]"
    | (stopped) err where "r1 = Some err" "st1 = st"
    using migrate_one_result [OF one] by blast
  then show ?case
  proof cases
    case skipped
    then show ?thesis using Cons one by (simp add: pending_Cons)
  next
    case stopped
    then show ?thesis using Cons.prems one
      by (intro exI [of _ "[]"] exI [of _ "pending (sm_applied st) (name # names)"]) auto
  next
    case applied
    have after: "sm_applied st1 = sm_applied st @ [name]" using applied(2) by (rule advances_applied)
    show ?thesis
    proof (cases r1)
      case None
      then obtain executed rest where "pending (sm_applied st1) names = executed @ rest" "advances w st1 st' executed"
          "r = None \<longrightarrow> rest = []"
        using Cons.IH [of st1] Cons.prems one by auto
      then show ?thesis using applied after Cons.prems(1) advances_trans [OF applied(2)]
        by (intro exI [of _ "name # executed"] exI [of _ rest]) (fastforce simp: pending_Cons pending_snoc)
    next
      case (Some err)
      then show ?thesis using Cons.prems one applied
        by (intro exI [of _ "[name]"] exI [of _ "pending (sm_applied st) names"]) (auto simp: pending_Cons)
    qed
  qed
qed

lemma migration_names_distinct: "distinct (map fst entries) \<Longrightarrow> distinct (sort (migration_names entries))"
  by (auto simp: migration_names_def distinct_map intro: inj_on_subset)

lemma Migrate_advances:
  assumes "distinct (map fst entries)" and "\<And>es. mw_ReadDir w = Inr es \<Longrightarrow> es = entries"
    and "Migrate w directory st = (r, st')"
  shows "\<exists>executed rest. pending (sm_applied st) (sort (migration_names entries)) = executed @ rest \<and>
           sm_applied st' = sm_applied st @ executed \<and> run_scripts w executed (sm_tables st) = Inr (sm_tables st') \<and>
           (r = None \<longrightarrow> rest = [])"
proof (cases "mw_create w = None \<and> \<not> isl (mw_ReadDir w)")
  case True
  then have "migrate_from w (sort (migration_names entries)) (st\<lparr>sm_tracking := True\<rparr>) = (r, st')"
    using assms(2,3) by (auto simp: Migrate_def Let_def split: sum.splits)
  from migrate_from_advances [OF migration_names_distinct [OF assms(1)] this] show ?thesis
    by (auto simp: advances_def)
next
  case False
  then have "r \<noteq> None" "sm_applied st' = sm_applied st" "sm_tables st' = sm_tables st"
    using assms(3) by (auto simp: Migrate_def Let_def split: option.splits sum.splits)
  then show ?thesis
    by (intro exI [of _ "[]"] exI [of _ "pending (sm_applied st) (sort (migration_names entries))"]) auto
qed

lemma migrate_from_tracking: "migrate_from w names st = (r, st') \<Longrightarrow> sm_tracking st' = sm_tracking st"
proof (induction names arbitrary: st)
  case (Cons name names)
  obtain r1 st1 where one: "migrate_one w name st = (r1, st1)" by fastforce
  have "sm_tracking st1 = sm_tracking st" using migrate_one_result [OF one] by (auto simp: advances_def)
  then show ?case using Cons one by (auto split: option.splits)
qed simp

lemma Migrate_tracks: "Migrate w directory st = (None, st') \<Longrightarrow> sm_tracking st'"
  by (auto simp: Migrate_def Let_def dest: migrate_from_tracking split: option.splits sum.splits)

lemma migrate_from_settled:
  "set names \<subseteq> set (sm_applied st) \<Longrightarrow> (\<And>name. mw_exists w name = None) \<Longrightarrow> migrate_from w names st = (None, st)"
  by (induction names) (simp_all add: migrate_one_def)

lemma Migrate_settled:
  fixes st :: "'s Schema"
  assumes "mw_create w = None" "mw_ReadDir w = Inr entries" "\<And>name. mw_exists w name = None"
    and "pending (sm_applied st) (sort (migration_names entries)) = []" "sm_tracking st"
  shows "Migrate w directory st = (None, st)"
proof -
  have "set (sort (migration_names entries)) \<subseteq> set (sm_applied st)"
    using assms(4) by (auto simp: pending_def filter_empty_conv)
  moreover have "st\<lparr>sm_tracking := True\<rparr> = st" using assms(5) by simp
  ultimately show ?thesis using assms(1-3) by (simp add: Migrate_def migrate_from_settled)
qed

section \<open>Interrupted start-ups\<close>

text \<open>
  A world that lists the directory's entries, when it lists any, and whose scripts, when they run, have
  a fixed effect on the schema; every fault is allowed.
\<close>

definition serves_directory :: "(string \<Rightarrow> 's \<Rightarrow> 's) \<Rightarrow> (string \<times> bool) list \<Rightarrow> 's MigrationWorld \<Rightarrow> bool" where
  "serves_directory effect entries w \<longleftrightarrow>
     (\<forall>es. mw_ReadDir w = Inr es \<longrightarrow> es = entries) \<and>
     (\<forall>name sql tables tables'. mw_ReadFile w name = Inr sql \<longrightarrow> mw_apply w sql tables = Inr tables' \<longrightarrow>
        tables' = effect name tables)"

definition start_ups :: "'s MigrationWorld list \<Rightarrow> string \<Rightarrow> 's Schema \<Rightarrow> 's Schema" where
  "start_ups ws directory st = fold (\<lambda>w st. snd (Migrate w directory st)) ws st"

lemma run_scripts_effect:
  assumes "serves_directory effect entries w"
  shows "run_scripts w names tables = Inr tables' \<Longrightarrow> tables' = fold effect names tables"
proof (induction names arbitrary: tables)
  case (Cons name names)
  then obtain sql t where "mw_ReadFile w name = Inr sql" "mw_apply w sql tables = Inr t" "run_scripts w names t = Inr tables'"
    by (auto split: sum.splits)
  then show ?case using Cons.IH [of t] assms by (auto simp: serves_directory_def)
qed simp

lemma Migrate_executes:
  assumes "distinct (map fst entries)" and "serves_directory effect entries w"
    and "Migrate w directory st = (r, st')"
  shows "\<exists>executed rest. pending (sm_applied st) (sort (migration_names entries)) = executed @ rest \<and>
           sm_applied st' = sm_applied st @ executed \<and> sm_tables st' = fold effect executed (sm_tables st) \<and>
           (r = None \<longrightarrow> rest = [])"
proof -
  have "\<And>es. mw_ReadDir w = Inr es \<Longrightarrow> es = entries" using assms(2) by (simp add: serves_directory_def)
  from Migrate_advances [OF assms(1) this assms(3)] show ?thesis
    using run_scripts_effect [OF assms(2)] by blast
qed

lemma pending_later:
  assumes "distinct names" and "pending applied names = executed @ rest"
  shows "pending (applied @ executed) names = rest"
proof -
  have "pending (applied @ executed) names = filter (\<lambda>name. name \<notin> set executed) (pending applied names)"
    by (simp add: pending_def conj_commute)
  moreover have "distinct (executed @ rest)" using assms by (metis pending_def distinct_filter)
  ultimately show ?thesis using assms(2) by (auto simp: filter_id_conv)
qed

lemma start_ups_execute:
  assumes "distinct (map fst entries)" and "list_all (serves_directory effect entries) ws"
  shows "\<exists>executed rest. pending (sm_applied st) (sort (migration_names entries)) = executed @ rest \<and>
           sm_applied (start_ups ws directory st) = sm_applied st @ executed \<and>
           sm_tables (start_ups ws directory st) = fold effect executed (sm_tables st)"
  using assms(2)
proof (induction ws arbitrary: st)
  case Nil
  then show ?case by (auto simp: start_ups_def intro: exI [of _ "[]"])
next
  case (Cons w ws)
  obtain r st1 where w: "Migrate w directory st = (r, st1)" by fastforce
  then obtain xs rest where xs: "pending (sm_applied st) (sort (migration_names entries)) = xs @ rest"
      "sm_applied st1 = sm_applied st @ xs" "sm_tables st1 = fold effect xs (sm_tables st)"
    using Migrate_executes [OF assms(1) _ w, of effect] Cons.prems by auto
  obtain ys rest' where ys: "pending (sm_applied st1) (sort (migration_names entries)) = ys @ rest'"
      "sm_applied (start_ups ws directory st1) = sm_applied st1 @ ys"
      "sm_tables (start_ups ws directory st1) = fold effect ys (sm_tables st1)"
    using Cons.IH [of st1] Cons.prems by auto
  have "rest = ys @ rest'"
    using pending_later [OF migration_names_distinct [OF assms(1)] xs(1)] xs(2) ys(1) by simp
  then show ?case using w xs ys
    by (intro exI [of _ "xs @ ys"] exI [of _ rest']) (simp add: start_ups_def)
qed

text \<open>
  C36. Each migration script runs at most once and in name order, however often the control plane was
  interrupted while migrating: after any sequence of start-ups with any faults (the tracking table, the
  directory, a script, a transaction, a commit whose outcome is lost), the names recorded are the old
  ones followed by a prefix of the pending scripts in sorted order, and the schema is the effect of
  exactly those; a start-up that reports success leaves no script pending, and one more start-up without
  faults changes nothing.
\<close>

theorem migrations_run_once_in_order:
  assumes "distinct (map fst entries)" and "list_all (serves_directory effect entries) (ws @ [w])"
    and "Migrate w directory (start_ups ws directory st) = (r, st')"
  shows "\<exists>executed rest.
      pending (sm_applied st) (sort (migration_names entries)) = executed @ rest \<and>
      sm_applied st' = sm_applied st @ executed \<and>
      sm_tables st' = fold effect executed (sm_tables st) \<and>
      (r = None \<longrightarrow> rest = [] \<and>
         (mw_create again = None \<and> mw_ReadDir again = Inr entries \<and> (\<forall>name. mw_exists again name = None) \<longrightarrow>
            Migrate again directory st' = (None, st')))"
proof -
  let ?names = "sort (migration_names entries)"
  have w: "serves_directory effect entries w" and ws: "list_all (serves_directory effect entries) ws"
    using assms(2) by simp_all
  obtain executed rest where run: "pending (sm_applied st) ?names = executed @ rest"
      "sm_applied st' = sm_applied st @ executed" "sm_tables st' = fold effect executed (sm_tables st)"
    using start_ups_execute [OF assms(1,2), of st directory] assms(3) by (auto simp: start_ups_def)
  have pend: "pending (sm_applied st') ?names = rest"
    using pending_later [OF migration_names_distinct [OF assms(1)] run(1)] run(2) by simp
  have settled: "rest = [] \<and> sm_tracking st'" if "r = None"
  proof -
    note ok = that
    obtain xs where "pending (sm_applied (start_ups ws directory st)) ?names = xs"
        "sm_applied st' = sm_applied (start_ups ws directory st) @ xs"
      using Migrate_executes [OF assms(1) w assms(3)] ok by auto
    then have "pending (sm_applied st') ?names = []"
      using pending_later [OF migration_names_distinct [OF assms(1)], of _ xs "[]"] by simp
    moreover have "sm_tracking st'" using Migrate_tracks assms(3) that by blast
    ultimately show ?thesis using pend by simp
  qed
  show ?thesis using run settled pend Migrate_settled
    by (intro exI [of _ executed] exI [of _ rest]) blast
qed

text \<open>
  Three start-ups over two scripts: the second script first fails, then its commit is lost although it
  took effect, and the last start-up finds nothing to do.
\<close>

definition sample_entries :: "(string \<times> bool) list" where
  "sample_entries = [(''0002_b.sql'', False), (''0001_a.sql'', False), (''old.sql'', True), (''README'', False)]"

definition sample_world :: "(string \<Rightarrow> go_error option) \<Rightarrow> (string \<Rightarrow> (go_error \<times> bool) option) \<Rightarrow> string list MigrationWorld" where
  "sample_world record_answer commit =
     \<lparr>mw_create = None, mw_ReadDir = Inr sample_entries, mw_exists = (\<lambda>_. None), mw_ReadFile = Inr, mw_begin = (\<lambda>_. None),
      mw_apply = (\<lambda>sql tables. Inr (tables @ [sql])), mw_record = record_answer, mw_commit = commit, mw_quote = id\<rparr>"

definition sample_start_ups :: "string list MigrationWorld list" where
  "sample_start_ups =
     [sample_world (\<lambda>name. if name = ''0002_b.sql'' then Some (PlainError ''refused'') else None) (\<lambda>_. None),
      sample_world (\<lambda>_. None) (\<lambda>name. Some (PlainError ''connection lost'', True))]"

lemma sample_serves: "serves_directory (\<lambda>name tables. tables @ [name]) sample_entries (sample_world a b)"
  by (simp add: serves_directory_def sample_world_def)

lemma sample_runs:
  "start_ups sample_start_ups d \<lparr>sm_tables = [], sm_tracking = False, sm_applied = []\<rparr> =
     \<lparr>sm_tables = [''0001_a.sql'', ''0002_b.sql''], sm_tracking = True, sm_applied = [''0001_a.sql'', ''0002_b.sql'']\<rparr>"
  "Migrate (sample_world (\<lambda>_. None) (\<lambda>_. None)) d
     \<lparr>sm_tables = [''0001_a.sql'', ''0002_b.sql''], sm_tracking = True, sm_applied = [''0001_a.sql'', ''0002_b.sql'']\<rparr> =
     (None, \<lparr>sm_tables = [''0001_a.sql'', ''0002_b.sql''], sm_tracking = True, sm_applied = [''0001_a.sql'', ''0002_b.sql'']\<rparr>)"
  by code_simp+

theorem migrations_run_once_in_order_witness:
  "\<exists>st'. Migrate (sample_world (\<lambda>_. None) (\<lambda>_. None)) []
       (start_ups sample_start_ups [] \<lparr>sm_tables = [], sm_tracking = False, sm_applied = []\<rparr>) = (None, st') \<and>
     sm_applied st' = [''0001_a.sql'', ''0002_b.sql''] \<and> sm_tables st' = [''0001_a.sql'', ''0002_b.sql''] \<and>
     pending [] (sort (migration_names sample_entries)) = sm_applied st'"
proof -
  have "list_all (serves_directory (\<lambda>name tables. tables @ [name]) sample_entries)
          (sample_start_ups @ [sample_world (\<lambda>_. None) (\<lambda>_. None)])"
    by (simp add: sample_start_ups_def sample_serves)
  moreover have "distinct (map fst sample_entries)" by code_simp
  ultimately show ?thesis
    using migrations_run_once_in_order [of sample_entries "\<lambda>name tables. tables @ [name]" sample_start_ups
        "sample_world (\<lambda>_. None) (\<lambda>_. None)" "[]" "\<lparr>sm_tables = [], sm_tracking = False, sm_applied = []\<rparr>" None
        "\<lparr>sm_tables = [''0001_a.sql'', ''0002_b.sql''], sm_tracking = True, sm_applied = [''0001_a.sql'', ''0002_b.sql'']\<rparr>"]
      sample_runs [of "[]"] by auto
qed

end
