(* ===== verification/Control_Plane.thy ===== *)
theory Control_Plane
  imports Advice_Publisher HttpApi Config Bus Migrations
begin

text \<open>
  Command \<open>control-plane\<close>: the start-up sequence of \<open>run\<close>, the readiness probe, the services it
  supervises and the scan for silent stations. What the operating system, the database server and
  the bus answer is a record of functions. The goroutines and the shutdown are in \<open>Lifecycle\<close>.
\<close>

definition deadLetterRetention :: duration where
  "deadLetterRetention = 7 * 24 * hour_ns"

section \<open>The database handle\<close>

text \<open>\<open>Open\<close> of package \<open>store\<close>: the pool is created and pinged; a pool that does not answer is closed again.\<close>

definition Open :: "(string \<Rightarrow> go_error option) \<Rightarrow> (string \<Rightarrow> go_error option) \<Rightarrow> string \<Rightarrow> go_error option" where
  "Open newPool ping dsn =
     (case newPool dsn of
        Some err \<Rightarrow> Some (Wrapped ''create PostgreSQL pool'' err)
      | None \<Rightarrow> (case ping dsn of Some err \<Rightarrow> Some (Wrapped ''ping PostgreSQL'' err) | None \<Rightarrow> None))"

definition readiness :: "go_error option \<Rightarrow> bool \<Rightarrow> go_error option" where
  "readiness ping isConnected =
     (if ping \<noteq> None then Some (PlainError ''PostgreSQL is unreachable'')
      else if \<not> isConnected then Some (PlainError ''NATS is not connected'')
      else None)"

section \<open>Start-up\<close>

record ('conn, 'b, 's) World =
  cx_newPool :: "string \<Rightarrow> go_error option"
  cx_ping :: "string \<Rightarrow> go_error option"
  cx_migration :: "'s MigrationWorld"
  cx_dial :: "nat \<Rightarrow> string \<Rightarrow> DialOption list \<Rightarrow> 'conn result"
  cx_cancelled :: "nat \<Rightarrow> bool"
  cx_jetstream :: "'conn \<Rightarrow> 'b JetStream result"
  cx_telemetry :: "string \<Rightarrow> string + ChargingTelemetry"
  cx_energy :: "string \<Rightarrow> string + EnergySiteObservation"
  cx_session :: "string \<Rightarrow> string + ChargingSessionEvent"
  cx_server :: Server
  cx_repository :: Repository
  cx_ready :: "go_error option \<times> bool"

record ControlPlane =
  cp_settings :: Config
  cp_deadLetter :: DeadLetter
  cp_telemetry :: "(Telemetry, Database) Runner"
  cp_energy :: "(EnergyObservation, Database) Runner"
  cp_sessions :: "(SessionEvent, Database) Runner"
  cp_advisor :: AdvicePublisher
  cp_api :: API

definition bus_options :: "Config \<Rightarrow> Options" where
  "bus_options settings =
     \<lparr>op_URL = cf_NATSURL settings, op_CredentialsFile = cf_NATSCredentials settings,
      op_CAFile = cf_NATSCAFile settings, op_Name = ''orvolt-control-plane''\<rparr>"

definition advicePolicy :: "Config \<Rightarrow> Policy" where
  "advicePolicy settings =
     \<lparr>po_CapacityKW = cf_SiteCapacityKW settings, po_SafetyMarginKW = cf_SiteSafetyMarginKW settings,
      po_FallbackKW = cf_SiteFallbackKW settings, po_ObservationFreshness = cf_ObservationFreshness settings,
      po_MaxConnectorKW = cf_MaxConnectorKW settings\<rparr>"

text \<open>
  The streams and services, in the order in which they are set up. \<open>then_with\<close> runs the next step with the
  broker's new state unless the step before it failed.
\<close>

definition then_with :: "'a result \<times> 'b \<Rightarrow> ('a \<Rightarrow> 'b \<Rightarrow> 'c result \<times> 'b) \<Rightarrow> 'c result \<times> 'b" where
  "then_with step next = (case step of (Inl err, broker) \<Rightarrow> (Inl err, broker) | (Inr x, broker) \<Rightarrow> next x broker)"

definition services ::
  "('conn, 'b, 's) World \<Rightarrow> Config \<Rightarrow> 'b JetStream \<Rightarrow> 'b \<Rightarrow> ControlPlane result \<times> 'b" where
  "services world settings stream broker =
     then_with (NewDeadLetter stream (cf_DLQSubject settings) deadLetterRetention broker) (\<lambda>deadLetter.
     \<lambda>broker. then_with (NewTelemetryRunner (cx_telemetry world) stream (PersistTelemetryBatch (cx_server world))
         (cf_TelemetrySubject settings) (Some deadLetter) (cf_StreamMaxAge settings) (cf_StreamMaxBytes settings)
         (cf_BatchSize settings) (cf_BatchInterval settings) (cf_RequireDeviceIdentity settings) broker) (\<lambda>telemetry.
     \<lambda>broker. then_with (NewEnergyRunner (cx_energy world) stream (PersistEnergyObservationBatch (cx_server world))
         (cf_EnergySubject settings) (Some deadLetter) (cf_StreamMaxAge settings) (cf_StreamMaxBytes settings)
         (cf_BatchSize settings) (cf_BatchInterval settings) broker) (\<lambda>energy.
     \<lambda>broker. then_with (NewSessionRunner (cx_session world) stream (PersistSessionEventBatch (cx_server world))
         (cf_SessionSubject settings) (Some deadLetter) (cf_SessionRetention settings) (cf_StreamMaxBytes settings)
         (cf_BatchSize settings) (cf_BatchInterval settings) broker) (\<lambda>sessions.
     \<lambda>broker. then_with (NewPublisher stream (cf_AdviceSubject settings) (cx_repository world)
         (advicePolicy settings) (cf_AdviceInterval settings) (cf_StreamMaxAge settings) broker) (\<lambda>advisor.
     \<lambda>broker. (Inr \<lparr>cp_settings = settings, cp_deadLetter = deadLetter, cp_telemetry = telemetry, cp_energy = energy,
        cp_sessions = sessions, cp_advisor = advisor,
        cp_api = api_New (cx_repository world) (readiness (fst (cx_ready world)) (snd (cx_ready world)))
                   (cf_StationSilenceAfter settings) (advicePolicy settings)\<rparr>, broker))))))"

text \<open>
  \<open>run\<close> up to the moment the services start. The broker's state is the one the connection finds; it is
  untouched where the run ends before it is reached. A run whose connection loop never ends is \<open>None\<close>.
\<close>

definition control_plane_run ::
  "('conn, 'b, 's) World \<Rightarrow> environment \<Rightarrow> 's Schema \<Rightarrow> 'b \<Rightarrow> (ControlPlane result \<times> 's Schema \<times> 'b) option" where
  "control_plane_run world getenv schema broker =
     (let settings = Load getenv
      in case Open (cx_newPool world) (cx_ping world) (cf_PostgresDSN settings) of
           Some err \<Rightarrow> Some (Inl err, schema, broker)
         | None \<Rightarrow>
             (case Migrate (cx_migration world) (cf_MigrationsDir settings) schema of
                (Some err, schema) \<Rightarrow> Some (Inl err, schema, broker)
              | (None, schema) \<Rightarrow>
                  (case Connect (cx_dial world) (cx_cancelled world) (bus_options settings) of
                     None \<Rightarrow> None
                   | Some (Inl err) \<Rightarrow> Some (Inl err, schema, broker)
                   | Some (Inr connection) \<Rightarrow>
                       (case cx_jetstream world connection of
                          Inl err \<Rightarrow> Some (Inl err, schema, broker)
                        | Inr stream \<Rightarrow>
                            (case services world settings stream broker of (r, broker) \<Rightarrow> Some (r, schema, broker))))))"

section \<open>Supervision\<close>

text \<open>\<open>errors.Is\<close> follows the chain of wrapped errors.\<close>

fun errors_Is :: "go_error \<Rightarrow> go_error \<Rightarrow> bool" where
  "errors_Is (Wrapped context err) target \<longleftrightarrow> Wrapped context err = target \<or> errors_Is err target"
| "errors_Is err target \<longleftrightarrow> err = target"

text \<open>A service that returns for another reason than the end of the context stops the whole process.\<close>

definition stops_process :: "go_error option \<Rightarrow> bool" where
  "stops_process result = (case result of None \<Rightarrow> False | Some err \<Rightarrow> \<not> errors_Is err context_canceled)"

text \<open>The exit code of \<open>main\<close> after \<open>run\<close> returned.\<close>

definition exit_code :: "go_error option \<Rightarrow> int" where
  "exit_code result = (case result of Some err \<Rightarrow> if \<not> errors_Is err context_canceled then 1 else 0 | None \<Rightarrow> 0)"

text \<open>\<open>watchSilentStations\<close>: the repository's state at each tick until the context ends.\<close>

definition silent_tick :: "duration \<Rightarrow> Repository \<Rightarrow> Metrics \<Rightarrow> Metrics" where
  "silent_tick threshold repository metrics =
     (case rp_ListSilentStations repository threshold of
        Inl err \<Rightarrow> metrics
      | Inr silent \<Rightarrow> SilentStations_Set (length silent) metrics)"

definition watchSilentStations :: "duration \<Rightarrow> Repository list \<Rightarrow> Metrics \<Rightarrow> Metrics" where
  "watchSilentStations threshold ticks metrics = fold (silent_tick threshold) ticks metrics"

text \<open>A start-up interrupted while it waits for the bus ends without an error.\<close>

lemma interrupted_connect_exits_cleanly:
  assumes "Connect dial cancelled options = Some (Inl err)"
  shows "exit_code (Some err) = 0" "\<not> stops_process (Some err)"
proof -
  obtain k where "connect_attempt dial cancelled options k = Some (Inl err)"
    using assms unfolding Connect_def retry_Some_iff by blast
  then have "errors_Is err context_canceled"
    by (auto simp: connect_attempt_def context_canceled_def split: sum.splits if_splits)
  then show "exit_code (Some err) = 0" "\<not> stops_process (Some err)"
    by (simp_all add: exit_code_def stops_process_def)
qed

text \<open>The gauge shows the last scan that succeeded; a failed scan leaves it alone.\<close>

lemma watchSilentStations_gauge:
  "me_SilentStations (watchSilentStations threshold ticks metrics) =
     (case filter (\<lambda>r. \<not> isl (rp_ListSilentStations r threshold)) ticks of
        [] \<Rightarrow> me_SilentStations metrics
      | rs \<Rightarrow> length (projr (rp_ListSilentStations (last rs) threshold)))"
proof (induction ticks rule: rev_induct)
  case (snoc r ticks)
  have "watchSilentStations threshold (ticks @ [r]) metrics =
      silent_tick threshold r (watchSilentStations threshold ticks metrics)"
    by (simp add: watchSilentStations_def)
  with snoc show ?case
    by (cases "rp_ListSilentStations r threshold")
       (auto simp: silent_tick_def SilentStations_Set_def split: list.splits)
qed (simp add: watchSilentStations_def)

lemma ready_iff: "readiness ping isConnected = None \<longleftrightarrow> ping = None \<and> isConnected"
  by (simp add: readiness_def)

lemma readiness_endpoint:
  "rs_Status (api_readiness (api_New repository (readiness ping isConnected) silence policy)) =
     (if ping = None \<and> isConnected then 200 else 503)"
  by (auto simp: api_readiness_def api_New_def readiness_def writeJSON_def write_error_def split: option.splits)

section \<open>Every stream is bounded\<close>

definition stream_bounded :: "StreamConfig \<Rightarrow> bool" where
  "stream_bounded config \<longleftrightarrow> 0 < sc_MaxAge config \<and> 0 < sc_MaxBytes config \<and> sc_Discard config = DiscardOld"

text \<open>
  A broker that keeps a property under every request for a bounded stream or for a consumer; and one, like
  that of the examples, that grants every such request. A real broker may refuse one: nothing below
  assumes that it does not.
\<close>

definition keeps_bounded :: "('b \<Rightarrow> bool) \<Rightarrow> 'b JetStream \<Rightarrow> bool" where
  "keeps_bounded I stream \<longleftrightarrow>
     (\<forall>config broker. stream_bounded config \<longrightarrow> I broker \<longrightarrow> I (snd (js_CreateOrUpdateStream stream config broker))) \<and>
     (\<forall>name config broker. cc_AckPolicy config = AckExplicitPolicy \<longrightarrow> I broker \<longrightarrow>
        I (snd (js_CreateOrUpdateConsumer stream name config broker)))"

definition grants_all :: "'b JetStream \<Rightarrow> bool" where
  "grants_all stream \<longleftrightarrow>
     (\<forall>config broker. stream_bounded config \<longrightarrow> fst (js_CreateOrUpdateStream stream config broker) = None) \<and>
     (\<forall>name config broker. fst (js_CreateOrUpdateConsumer stream name config broker) = None)"

text \<open>A step keeps the broker's property and, where the broker grants what is asked, succeeds.\<close>

definition sound_step :: "('b \<Rightarrow> bool) \<Rightarrow> 'b JetStream \<Rightarrow> 'a result \<times> 'b \<Rightarrow> bool" where
  "sound_step I stream step \<longleftrightarrow> I (snd step) \<and> (grants_all stream \<longrightarrow> (\<exists>x. fst step = Inr x))"

lemma sound_then_with:
  assumes "sound_step I stream step" and "\<And>x broker. I broker \<Longrightarrow> sound_step I stream (next x broker)"
  shows "sound_step I stream (then_with step next)"
  using assms by (cases step; cases "fst step") (auto simp: sound_step_def then_with_def)

lemma sound_stream_step:
  assumes "keeps_bounded I stream" "stream_bounded config" "I broker"
  shows "I (snd (js_CreateOrUpdateStream stream config broker))"
    "grants_all stream \<Longrightarrow> fst (js_CreateOrUpdateStream stream config broker) = None"
  using assms by (simp_all add: keeps_bounded_def grants_all_def)

lemma sound_consumer_step:
  assumes "keeps_bounded I stream" "I broker"
  shows "I (snd (js_CreateOrUpdateConsumer stream name (consumer_config spec n) broker))"
    "grants_all stream \<Longrightarrow> fst (js_CreateOrUpdateConsumer stream name (consumer_config spec n) broker) = None"
  using assms by (simp_all add: keeps_bounded_def grants_all_def consumer_config_def)

lemma NewRunner_sound:
  assumes "keeps_bounded I stream" "I broker" "0 < sp_MaxAge spec" "0 < sp_MaxBytes spec"
  shows "sound_step I stream (NewRunner stream spec decode persist deadLetter batchSize batchWait broker)"
proof -
  obtain e b where one: "js_CreateOrUpdateStream stream (stream_config spec) broker = (e, b)" by fastforce
  have "stream_bounded (stream_config spec)" using assms(3,4) by (simp add: stream_bounded_def stream_config_def)
  then have b: "I b" "grants_all stream \<Longrightarrow> e = None"
    using sound_stream_step [OF assms(1) _ assms(2), of "stream_config spec"] one by auto
  obtain e' b' where two: "js_CreateOrUpdateConsumer stream (sp_Stream spec) (consumer_config spec batchSize) b = (e', b')"
    by fastforce
  have "I b'" "grants_all stream \<Longrightarrow> e' = None"
    using sound_consumer_step [OF assms(1) b(1), of "sp_Stream spec" spec batchSize] two by auto
  then show ?thesis using b one two assms(3,4)
    by (auto simp: sound_step_def NewRunner_def split: option.splits)
qed

lemma NewTelemetryRunner_sound:
  assumes "keeps_bounded I stream" "I broker" "0 < maxAge" "0 < maxBytes"
  shows "sound_step I stream (NewTelemetryRunner unmarshal stream persist subject deadLetter maxAge maxBytes
           batchSize batchWait required broker)"
proof -
  let ?spec = "\<lparr>sp_Stream = TelemetryStreamName,
      sp_Description = ''Canonical EVSE charging telemetry produced by site edge agents.'',
      sp_Subject = subject, sp_Durable = ''orvolt-control-plane'', sp_MaxAge = maxAge, sp_MaxBytes = maxBytes\<rparr>"
  obtain r b where r: "NewRunner stream ?spec (telemetry_decode unmarshal) persist deadLetter batchSize batchWait broker = (r, b)"
    by fastforce
  have "sound_step I stream (r, b)"
    using NewRunner_sound [OF assms(1,2), of ?spec "telemetry_decode unmarshal" persist deadLetter batchSize batchWait]
      assms(3,4) r by simp
  then show ?thesis using r by (cases r) (auto simp: NewTelemetryRunner_def sound_step_def)
qed

lemma NewEnergyRunner_sound:
  assumes "keeps_bounded I stream" "I broker" "0 < maxAge" "0 < maxBytes"
  shows "sound_step I stream (NewEnergyRunner unmarshal stream persist subject deadLetter maxAge maxBytes batchSize batchWait broker)"
  unfolding NewEnergyRunner_def by (rule NewRunner_sound) (simp_all add: assms)

lemma NewSessionRunner_sound:
  assumes "keeps_bounded I stream" "I broker" "0 < maxAge" "0 < maxBytes"
  shows "sound_step I stream (NewSessionRunner unmarshal stream persist subject deadLetter maxAge maxBytes batchSize batchWait broker)"
  unfolding NewSessionRunner_def by (rule NewRunner_sound) (simp_all add: assms)

lemma NewDeadLetter_sound:
  assumes "keeps_bounded I stream" "I broker" "0 < maxAge" "prefix \<noteq> []"
  shows "sound_step I stream (NewDeadLetter stream prefix maxAge broker)"
proof -
  have "stream_bounded (dead_letter_config prefix maxAge)" using assms(3) by (simp add: stream_bounded_def dead_letter_config_def)
  from sound_stream_step [OF assms(1) this assms(2)] show ?thesis using assms(4)
    by (auto simp: sound_step_def NewDeadLetter_def split: prod.splits option.splits)
qed

lemma NewPublisher_sound:
  assumes "keeps_bounded I stream" "I broker" "0 < retention"
  shows "sound_step I stream (NewPublisher stream subject repository policy interval retention broker)"
proof -
  have "stream_bounded (advice_stream_config subject retention)"
    using assms(3) by (simp add: stream_bounded_def advice_stream_config_def)
  from sound_stream_step [OF assms(1) this assms(2)] show ?thesis
    by (auto simp: sound_step_def NewPublisher_def split: prod.splits option.splits)
qed

lemma Load_positive:
  "0 < cf_StreamMaxAge (Load getenv)" "0 < cf_StreamMaxBytes (Load getenv)" "0 < cf_SessionRetention (Load getenv)"
  "0 < cf_BatchSize (Load getenv)" "0 < cf_BatchInterval (Load getenv)" "0 < cf_StationSilenceAfter (Load getenv)"
  "0 < cf_AdviceInterval (Load getenv)" "cf_DLQSubject (Load getenv) \<noteq> []"
  by (simp_all add: Load_def envDuration_positive envBytes_positive envInt_positive config_env_nonempty
      hour_ns_def minute_ns_def millisecond_ns_def second_ns_def max_int64_def)

lemma services_sound:
  assumes "keeps_bounded I stream" "I broker"
  shows "sound_step I stream (services world (Load getenv) stream broker)"
  unfolding services_def
  by (intro sound_then_with NewDeadLetter_sound NewTelemetryRunner_sound NewEnergyRunner_sound NewSessionRunner_sound
      NewPublisher_sound assms Load_positive)
     (simp_all add: sound_step_def deadLetterRetention_def hour_ns_def second_ns_def)

text \<open>
  How a started control plane is wired: every runner parks rejected payloads in the dead-letter
  stream and fetches in batches of a positive size, telemetry is checked against its subject, the
  publisher's ticker has a positive period (\<open>time.NewTicker\<close> panics otherwise), and the endpoint and the
  publisher advise from the same repository, policy and window. The figures of the policy are not part of
  it: they are floats of the environment, among which NaN and infinities pass.
\<close>

definition wired :: "ControlPlane \<Rightarrow> bool" where
  "wired cp \<longleftrightarrow>
     ru_deadLetter (cp_telemetry cp) = Some (cp_deadLetter cp) \<and> ru_deadLetter (cp_energy cp) = Some (cp_deadLetter cp) \<and>
     ru_deadLetter (cp_sessions cp) = Some (cp_deadLetter cp) \<and>
     0 < ru_batchSize (cp_telemetry cp) \<and> 0 < ru_batchSize (cp_energy cp) \<and> 0 < ru_batchSize (cp_sessions cp) \<and>
     ru_verify (cp_telemetry cp) =
       Some (VerifyTelemetryOrigin (cf_TelemetrySubject (cp_settings cp)) (cf_RequireDeviceIdentity (cp_settings cp))) \<and>
     0 < ap_interval (cp_advisor cp) \<and> 0 < api_silenceAfter (cp_api cp) \<and>
     ap_repository (cp_advisor cp) = api_repository (cp_api cp) \<and>
     ap_policy (cp_advisor cp) = api_advicePolicy (cp_api cp) \<and>
     ap_activeWithin (cp_advisor cp) = api_demandFreshness (cp_api cp)"

lemma then_with_Inr:
  "then_with step next = (Inr y, broker') \<longleftrightarrow> (\<exists>x broker. step = (Inr x, broker) \<and> next x broker = (Inr y, broker'))"
  by (auto simp: then_with_def split: prod.splits sum.splits)

lemma NewPublisher_Inr:
  "NewPublisher stream subject repository policy interval retention broker = (Inr p, broker') \<Longrightarrow>
     ap_repository p = repository \<and> ap_policy p = policy \<and> ap_interval p = interval \<and> ap_activeWithin p = 2 * 60 * second_ns"
  by (auto simp: NewPublisher_def split: prod.splits option.splits)

lemma new_runner_batchSize [simp]: "ru_batchSize (new_runner name decode persist verify deadLetter batchSize batchWait) = batchSize"
  by (simp add: new_runner_def)

lemma services_configured:
  assumes "services world (Load getenv) stream broker = (Inr cp, broker')"
  shows "wired cp"
  using assms unfolding services_def then_with_Inr
  by (auto dest!: NewTelemetryRunner_Inr NewEnergyRunner_Inr NewSessionRunner_Inr NewPublisher_Inr
      simp: wired_def api_New_def Load_positive)

lemma control_plane_run_cases:
  assumes "control_plane_run world getenv schema broker = Some (r, schema', broker')"
  obtains (stopped) err where "r = Inl err" "broker' = broker"
      "\<And>connection stream. \<not> (Open (cx_newPool world) (cx_ping world) (cf_PostgresDSN (Load getenv)) = None \<and>
       fst (Migrate (cx_migration world) (cf_MigrationsDir (Load getenv)) schema) = None \<and>
       Connect (cx_dial world) (cx_cancelled world) (bus_options (Load getenv)) = Some (Inr connection) \<and>
       cx_jetstream world connection = Inr stream)"
  | (served) connection stream where
      "Connect (cx_dial world) (cx_cancelled world) (bus_options (Load getenv)) = Some (Inr connection)"
      "cx_jetstream world connection = Inr stream" "services world (Load getenv) stream broker = (r, broker')"
proof (cases "\<exists>connection stream. Connect (cx_dial world) (cx_cancelled world) (bus_options (Load getenv)) = Some (Inr connection) \<and>
    cx_jetstream world connection = Inr stream \<and> services world (Load getenv) stream broker = (r, broker')")
  case True
  then show ?thesis using served by blast
next
  case False
  with assms have "(\<exists>err. r = Inl err) \<and> broker' = broker \<and>
     (\<forall>connection stream. \<not> (Open (cx_newPool world) (cx_ping world) (cf_PostgresDSN (Load getenv)) = None \<and>
       fst (Migrate (cx_migration world) (cf_MigrationsDir (Load getenv)) schema) = None \<and>
       Connect (cx_dial world) (cx_cancelled world) (bus_options (Load getenv)) = Some (Inr connection) \<and>
       cx_jetstream world connection = Inr stream))"
    by (auto simp: control_plane_run_def Let_def split: option.splits prod.splits sum.splits)
  then show ?thesis using stopped by blast
qed

text \<open>
  C37. No environment makes the control plane ask for an unbounded stream. Whatever the variables hold,
  and whatever the broker answers, every request it makes is for a stream with a positive age and size
  limit that drops its oldest messages, or for a consumer with explicit acknowledgement: any property of
  the broker that such requests keep holds after the start-up, successful or not. And a control plane that
  starts is wired as above: rejected payloads are parked, batches and tickers have a positive size and
  period, the origin of telemetry is checked, and the endpoint and the publisher advise alike.
\<close>

theorem control_plane_streams_bounded:
  assumes "\<And>connection stream. cx_jetstream world connection = Inr stream \<Longrightarrow> keeps_bounded I stream" and "I broker"
    and "control_plane_run world getenv schema broker = Some (r, schema', broker')"
  shows "I broker' \<and> (\<forall>cp. r = Inr cp \<longrightarrow> wired cp)"
  using assms(3)
proof (cases rule: control_plane_run_cases)
  case stopped
  then show ?thesis using assms(2) by auto
next
  case (served connection stream)
  have "sound_step I stream (r, broker')"
    using services_sound [OF assms(1) [OF served(2)] assms(2), of world getenv] served(3) by simp
  then show ?thesis using served services_configured [of world getenv stream broker]
    by (auto simp: sound_step_def)
qed

text \<open>An environment in which no variable can be read, and a broker that lists the streams it was asked for.\<close>

definition garbled :: environment where
  "garbled name = ''-1''"

definition sample_js :: "(StreamConfig list) JetStream" where
  "sample_js = \<lparr>js_CreateOrUpdateStream = (\<lambda>c b. (None, c # b)), js_CreateOrUpdateConsumer = (\<lambda>n c b. (None, b))\<rparr>"

definition sample_repository :: Repository where
  "sample_repository = postgres_repository (\<lambda>a b. a < b) no_store_faults 0 empty_db"

definition sample_control_world :: "(unit, StreamConfig list, string list) World" where
  "sample_control_world =
     \<lparr>cx_newPool = (\<lambda>_. None), cx_ping = (\<lambda>_. None), cx_migration = sample_world (\<lambda>_. None) (\<lambda>_. None),
      cx_dial = (\<lambda>_ _ _. Inr ()), cx_cancelled = (\<lambda>_. False), cx_jetstream = (\<lambda>_. Inr sample_js),
      cx_telemetry = (\<lambda>_. Inl []), cx_energy = (\<lambda>_. Inl []), cx_session = (\<lambda>_. Inl []),
      cx_server = \<lparr>sv_begin = None, sv_refuse = (\<lambda>_. None), sv_close = None, sv_commit = None, sv_now = 0\<rparr>,
      cx_repository = sample_repository, cx_ready = (None, True)\<rparr>"

lemma sample_js_sound: "keeps_bounded (list_all stream_bounded) sample_js" "grants_all sample_js"
  by (simp_all add: keeps_bounded_def grants_all_def sample_js_def)

theorem control_plane_streams_bounded_witness:
  "\<exists>cp schema broker. control_plane_run sample_control_world garbled
       \<lparr>sm_tables = [], sm_tracking = False, sm_applied = []\<rparr> [] = Some (Inr cp, schema, broker) \<and>
     wired cp \<and> list_all stream_bounded broker"
proof -
  let ?st = "\<lparr>sm_tables = [], sm_tracking = False, sm_applied = []\<rparr>"
  let ?settings = "Load garbled"
  obtain r broker where sv: "services sample_control_world ?settings sample_js [] = (r, broker)" by fastforce
  have "sound_step (list_all stream_bounded) sample_js (r, broker)"
    using services_sound [of "list_all stream_bounded" sample_js "[]" sample_control_world garbled] sample_js_sound sv by simp
  then obtain cp where cp: "r = Inr cp" using sample_js_sound by (auto simp: sound_step_def)
  have "Open (cx_newPool sample_control_world) (cx_ping sample_control_world) (cf_PostgresDSN ?settings) = None"
    by (simp add: Open_def sample_control_world_def)
  moreover have "fst (Migrate (cx_migration sample_control_world) d ?st) = None" for d
    by code_simp
  moreover have "Connect (cx_dial sample_control_world) (cx_cancelled sample_control_world) (bus_options ?settings) = Some (Inr ())"
    by (simp add: sample_control_world_def Connect_def connect_attempt_def retry.simps)
  moreover have "cx_jetstream sample_control_world c = Inr sample_js" for c
    by (simp add: sample_control_world_def)
  moreover obtain st' where "Migrate (cx_migration sample_control_world) (cf_MigrationsDir ?settings) ?st = (None, st')"
    using calculation(2) by (metis prod.collapse)
  ultimately show ?thesis
    using control_plane_streams_bounded [of sample_control_world "list_all stream_bounded" "[]" garbled ?st r st' broker]
      sample_js_sound sv cp by (auto simp: control_plane_run_def)
qed

end
