(* ===== verification/Lifecycle.thy ===== *)
theory Lifecycle
  imports Control_Plane Gateway_Main
begin

text \<open>
  The two processes from start to exit: what \<open>run\<close> acquires and defers, the goroutines it starts, the
  signal that cancels the context, the shutdown and the exit code of \<open>main\<close>. The scheduler, the signals
  and the moment a library call returns are the nondeterminism of a step relation.
\<close>

section \<open>The service loops return\<close>

text \<open>
  One iteration of \<open>Runner.Run\<close>: whether the context has ended at the top, what the fetch answers,
  whether the context has ended after a failed fetch and whether it ends during the wait. \<open>None\<close> says
  that the loop still runs.
\<close>

record Iteration =
  it_done :: bool
  it_env :: Env
  it_fetch :: Fetch
  it_done_after :: bool
  it_done_waiting :: bool

fun Run_loop :: "('a, 'db) Runner \<Rightarrow> Iteration list \<Rightarrow> 'db Ingest \<Rightarrow> go_error option \<times> 'db Ingest" where
  "Run_loop runner [] st = (None, st)"
| "Run_loop runner (it # its) st =
     (if it_done it then (Some context_canceled, st)
      else case it_fetch it of
        FetchFailed err \<Rightarrow>
          if it_done_after it then (Some context_canceled, st)
          else if it_done_waiting it then (Some context_canceled, st)
          else Run_loop runner its st
      | Fetched messages \<Rightarrow>
          Run_loop runner its (if messages = [] then st else ProcessBatch runner (it_env it) messages st))"

text \<open>The publisher's loop: per turn of the \<open>select\<close>, the end of the context or a tick.\<close>

fun advice_Run_loop ::
  "AdvicePublisher \<Rightarrow> (AdviceEnv \<times> Repository) option list \<Rightarrow> AdviceState \<Rightarrow> go_error option \<times> AdviceState" where
  "advice_Run_loop publisher [] st = (None, st)"
| "advice_Run_loop publisher (None # turns) st = (Some context_canceled, st)"
| "advice_Run_loop publisher (Some (env, repository) # turns) st =
     advice_Run_loop publisher turns (snd (publishRound env (publisher\<lparr>ap_repository := repository\<rparr>) st))"

text \<open>
  The contract of \<open>ingest.Service\<close>: a service runs until the end of the context, which is the only
  error it returns, and what it did is what its completed iterations did.
\<close>

locale service =
  fixes loop :: "'i list \<Rightarrow> 's \<Rightarrow> go_error option \<times> 's"
    and ends :: "'i \<Rightarrow> bool"
    and work :: "'i list \<Rightarrow> 's \<Rightarrow> 's"
  assumes loop_eq: "loop its st =
    (if list_ex ends its then Some context_canceled else None, work (takeWhile (\<lambda>it. \<not> ends it) its) st)"
begin

lemma returns_iff: "fst (loop its st) = Some err \<longleftrightarrow> list_ex ends its \<and> err = context_canceled"
  by (auto simp: loop_eq)

lemma never_stops_process: "\<not> stops_process (fst (loop its st))"
  by (simp add: loop_eq stops_process_def context_canceled_def)

lemma work_done: "snd (loop its st) = work (takeWhile (\<lambda>it. \<not> ends it) its) st"
  by (simp add: loop_eq)

end

definition iteration_ends :: "Iteration \<Rightarrow> bool" where
  "iteration_ends it \<longleftrightarrow> it_done it \<or> (case it_fetch it of FetchFailed err \<Rightarrow> it_done_after it \<or> it_done_waiting it | Fetched ms \<Rightarrow> False)"

interpretation runner_service: service "Run_loop runner" iteration_ends
  "\<lambda>its. Run runner (map (\<lambda>it. (it_env it, it_fetch it)) its)" for runner
proof
  show "Run_loop runner its st =
    (if list_ex iteration_ends its then Some context_canceled else None,
     Run runner (map (\<lambda>it. (it_env it, it_fetch it)) (takeWhile (\<lambda>it. \<not> iteration_ends it) its)) st)" for its st
    by (induction runner its st rule: Run_loop.induct) (auto simp: Run_def iteration_ends_def split: Fetch.splits)
qed

interpretation advice_service: service "advice_Run_loop publisher" "\<lambda>turn. turn = None"
  "\<lambda>turns. advice_Run publisher (map the turns)" for publisher
proof
  show "advice_Run_loop publisher turns st =
    (if list_ex (\<lambda>turn. turn = None) turns then Some context_canceled else None,
     advice_Run publisher (map the (takeWhile (\<lambda>turn. turn \<noteq> None) turns)) st)" for turns st
    by (induction publisher turns st rule: advice_Run_loop.induct) (auto simp: advice_Run_def)
qed

section \<open>A process\<close>

text \<open>What \<open>run\<close> acquires and releases with \<open>defer\<close>, and the goroutines of both commands.\<close>

datatype resource = Signals | Database_pool | Bus_connection | Shutdown_timer

datatype goroutine =
  Telemetry_service | Energy_service | Session_service | Advice_service | Silence_watch | HTTP_server
| Health_server | Shutdown_watch | Central_system

datatype effect = Acquired resource | Released resource | Spawned goroutine | Finished goroutine

datatype phase = Serving | Draining | Waiting | Returning "go_error option" | Exited int

record Process =
  pr_cancelled :: bool
  pr_shutdown :: bool
  pr_live :: "goroutine list"
  pr_phase :: phase
  pr_defers :: "resource list"
  pr_trace :: "effect list"

definition fresh_process :: Process where
  "fresh_process = \<lparr>pr_cancelled = False, pr_shutdown = False, pr_live = [], pr_phase = Serving, pr_defers = [], pr_trace = []\<rparr>"

definition acquire :: "resource \<Rightarrow> Process \<Rightarrow> Process" where
  "acquire r p = p\<lparr>pr_defers := r # pr_defers p, pr_trace := pr_trace p @ [Acquired r]\<rparr>"

definition return :: "go_error option \<Rightarrow> Process \<Rightarrow> Process" where
  "return result p = p\<lparr>pr_phase := Returning result\<rparr>"

definition spawn :: "goroutine list \<Rightarrow> Process \<Rightarrow> Process" where
  "spawn gs p = p\<lparr>pr_live := pr_live p @ gs, pr_trace := pr_trace p @ map Spawned gs\<rparr>"

definition finish :: "goroutine \<Rightarrow> Process \<Rightarrow> Process" where
  "finish g p = p\<lparr>pr_live := remove1 g (pr_live p), pr_trace := pr_trace p @ [Finished g]\<rparr>"

text \<open>The function \<open>stop\<close> that \<open>signal.NotifyContext\<close> returns: it ends the context.\<close>

definition stop :: "Process \<Rightarrow> Process" where
  "stop p = p\<lparr>pr_cancelled := True\<rparr>"

text \<open>A deferred call: the topmost resource is released; releasing the signals ends the context.\<close>

definition run_deferred :: "resource \<Rightarrow> resource list \<Rightarrow> Process \<Rightarrow> Process" where
  "run_deferred r rs p =
     (let p = (if r = Signals then stop p else p)
      in p\<lparr>pr_defers := rs, pr_trace := pr_trace p @ [Released r]\<rparr>)"

definition exited :: "Process \<Rightarrow> bool" where
  "exited p \<longleftrightarrow> (case pr_phase p of Exited code \<Rightarrow> True | _ \<Rightarrow> False)"

text \<open>What both processes do: a signal arrives, deferred calls run in reverse order, \<open>main\<close> exits.\<close>

inductive common_step :: "Process \<Rightarrow> Process \<Rightarrow> bool" where
  signal: "\<not> pr_cancelled p \<Longrightarrow> \<not> exited p \<Longrightarrow> common_step p (stop p)"
| deferred: "pr_phase p = Returning result \<Longrightarrow> pr_defers p = r # rs \<Longrightarrow> common_step p (run_deferred r rs p)"
| exit: "pr_phase p = Returning result \<Longrightarrow> pr_defers p = [] \<Longrightarrow> common_step p (p\<lparr>pr_phase := Exited (exit_code result)\<rparr>)"

section \<open>The control plane\<close>

text \<open>
  \<open>run\<close> of \<open>control-plane\<close> up to the wait for the end of the context, with what it has acquired on each
  way out. \<open>Open\<close> closes a pool that does not answer itself.
\<close>

definition control_plane_goroutines :: "goroutine list" where
  "control_plane_goroutines =
     [Telemetry_service, Energy_service, Session_service, Advice_service, Silence_watch, HTTP_server]"

definition opened_pool :: "('conn, 'b, 's) World \<Rightarrow> string \<Rightarrow> Process \<Rightarrow> Process" where
  "opened_pool world dsn p =
     (if cx_newPool world dsn \<noteq> None then p
      else if cx_ping world dsn \<noteq> None then p\<lparr>pr_trace := pr_trace p @ [Acquired Database_pool, Released Database_pool]\<rparr>
      else acquire Database_pool p)"

definition control_plane_start ::
  "('conn, 'b, 's) World \<Rightarrow> environment \<Rightarrow> 's Schema \<Rightarrow> 'b \<Rightarrow> Process option" where
  "control_plane_start world getenv schema broker =
     (let settings = Load getenv;
          p = acquire Signals fresh_process;
          p = opened_pool world (cf_PostgresDSN settings) p
      in case Open (cx_newPool world) (cx_ping world) (cf_PostgresDSN settings) of
           Some err \<Rightarrow> Some (return (Some err) p)
         | None \<Rightarrow>
             (case Migrate (cx_migration world) (cf_MigrationsDir settings) schema of
                (Some err, schema) \<Rightarrow> Some (return (Some err) p)
              | (None, schema) \<Rightarrow>
                  (case Connect (cx_dial world) (cx_cancelled world) (bus_options settings) of
                     None \<Rightarrow> None
                   | Some (Inl err) \<Rightarrow> Some (return (Some err) p)
                   | Some (Inr connection) \<Rightarrow>
                       (let p = acquire Bus_connection p
                        in case cx_jetstream world connection of
                             Inl err \<Rightarrow> Some (return (Some err) p)
                           | Inr stream \<Rightarrow>
                               (case services world settings stream broker of
                                  (Inl err, broker) \<Rightarrow> Some (return (Some err) p)
                                | (Inr cp, broker) \<Rightarrow> Some (spawn control_plane_goroutines p))))))"

text \<open>\<open>http.ErrServerClosed\<close>, which \<open>ListenAndServe\<close> returns once \<open>Shutdown\<close> was called, and only then.\<close>

definition ErrServerClosed :: go_error where
  "ErrServerClosed = PlainError ''http: Server closed''"

definition listen_returns :: "bool \<Rightarrow> go_error \<Rightarrow> bool" where
  "listen_returns shut err \<longleftrightarrow> (shut \<longleftrightarrow> errors_Is err ErrServerClosed)"

definition is_service :: "goroutine \<Rightarrow> bool" where
  "is_service g \<longleftrightarrow> g \<in> {Telemetry_service, Energy_service, Session_service, Advice_service}"

text \<open>
  The goroutines that \<open>run\<close> waits for and the main goroutine after the services are started.
  \<open>may_return g c r\<close> says that the \<open>Run\<close> of service \<open>g\<close> may return \<open>r\<close> while the context is ended (\<open>c\<close>)
  or not. \<open>ListenAndServe\<close> returns as soon as \<open>Shutdown\<close> is called, or fails before.
\<close>

inductive goroutine_step ::
  "(goroutine \<Rightarrow> bool \<Rightarrow> go_error option \<Rightarrow> bool) \<Rightarrow> Process \<Rightarrow> Process \<Rightarrow> bool" for may_return where
  common: "common_step p p' \<Longrightarrow> goroutine_step may_return p p'"
| service: "g \<in> set (pr_live p) \<Longrightarrow> is_service g \<Longrightarrow> may_return g (pr_cancelled p) result \<Longrightarrow>
    goroutine_step may_return p (finish g (if stops_process result then stop p else p))"
| watch: "Silence_watch \<in> set (pr_live p) \<Longrightarrow> pr_cancelled p \<Longrightarrow> goroutine_step may_return p (finish Silence_watch p)"
| listener: "HTTP_server \<in> set (pr_live p) \<Longrightarrow> listen_returns (pr_shutdown p) err \<Longrightarrow>
    goroutine_step may_return p (finish HTTP_server (if \<not> errors_Is err ErrServerClosed then stop p else p))"
| notice: "pr_phase p = Serving \<Longrightarrow> pr_cancelled p \<Longrightarrow>
    goroutine_step may_return p ((acquire Shutdown_timer p)\<lparr>pr_shutdown := True, pr_phase := Draining\<rparr>)"
| wait: "pr_phase p = Waiting \<Longrightarrow> pr_live p = [] \<Longrightarrow> goroutine_step may_return p (return None p)"

text \<open>
  The whole process, with the request handlers that \<open>net/http\<close> runs in goroutines of its own. A request
  is taken while the listener listens; a handler ends when it likes. \<open>Shutdown\<close> closes the listener, then
  returns once no handler runs any more or, with an error that is only logged, when its deadline passes.
\<close>

record ServerProcess =
  cp_process :: Process
  cp_requests :: nat
  cp_expired :: bool

definition with_phase :: "phase \<Rightarrow> ServerProcess \<Rightarrow> ServerProcess" where
  "with_phase phase s = s\<lparr>cp_process := (cp_process s)\<lparr>pr_phase := phase\<rparr>\<rparr>"

inductive control_plane_step ::
  "(goroutine \<Rightarrow> bool \<Rightarrow> go_error option \<Rightarrow> bool) \<Rightarrow> ServerProcess \<Rightarrow> ServerProcess \<Rightarrow> bool" for may_return where
  goroutines: "goroutine_step may_return (cp_process s) p \<Longrightarrow> control_plane_step may_return s (s\<lparr>cp_process := p\<rparr>)"
| accepts: "HTTP_server \<in> set (pr_live (cp_process s)) \<Longrightarrow> \<not> pr_shutdown (cp_process s) \<Longrightarrow>
    control_plane_step may_return s (s\<lparr>cp_requests := cp_requests s + 1\<rparr>)"
| responds: "cp_requests s = Suc n \<Longrightarrow> \<not> exited (cp_process s) \<Longrightarrow> control_plane_step may_return s (s\<lparr>cp_requests := n\<rparr>)"
| shut_down: "pr_phase (cp_process s) = Draining \<Longrightarrow> cp_requests s = 0 \<Longrightarrow> control_plane_step may_return s (with_phase Waiting s)"
| deadline: "pr_phase (cp_process s) = Draining \<Longrightarrow> control_plane_step may_return s (with_phase Waiting (s\<lparr>cp_expired := True\<rparr>))"

definition serving_process :: "Process \<Rightarrow> ServerProcess" where
  "serving_process p = \<lparr>cp_process = p, cp_requests = 0, cp_expired = False\<rparr>"

section \<open>The gateway\<close>

definition gateway_goroutines :: "goroutine list" where
  "gateway_goroutines = [Health_server, Shutdown_watch, Central_system]"

definition gateway_start :: "'conn GatewayWorld \<Rightarrow> environment \<Rightarrow> Process option" where
  "gateway_start world getenv =
     (let settings = gateway_Load getenv
      in case NewHasher (gc_TokenPepper settings) of
           Inl err \<Rightarrow> Some (return (Some (Wrapped ''TOKEN_PEPPER'' err)) fresh_process)
         | Inr hasher \<Rightarrow>
             (let p = acquire Signals fresh_process
              in case Connect (gx_dial world) (gx_cancelled world) (gateway_options settings) of
                   None \<Rightarrow> None
                 | Some (Inl err) \<Rightarrow> Some (return (Some err) p)
                 | Some (Inr connection) \<Rightarrow>
                     (let p = acquire Bus_connection p
                      in case gx_jetstream world connection of
                           Some err \<Rightarrow> Some (return (Some err) p)
                         | None \<Rightarrow>
                             (case gateway_subjects world settings of
                                Inl err \<Rightarrow> Some (return (Some err) p)
                              | Inr (telemetrySubject, sessionSubject) \<Rightarrow>
                                  (case waitForSubjects (gx_lookup world) [telemetrySubject, sessionSubject] of
                                     None \<Rightarrow> None
                                   | Some (Some err) \<Rightarrow> Some (return (Some err) p)
                                   | Some None \<Rightarrow> Some (spawn gateway_goroutines p))))))"

text \<open>
  Nothing waits for the goroutines. \<open>Shutdown_watch\<close> stops the central system when the context ends, then
  shuts the health server down; \<open>centralSystem.Start\<close> is taken to block until \<open>Stop\<close>, as the comment in \<open>run\<close>
  says, and \<open>run\<close> returns with it (a listener of the library that cannot bind is not a case). A failing
  health server is only logged. A process that has exited takes its goroutines with it.
\<close>

inductive gateway_process_step :: "Process \<Rightarrow> Process \<Rightarrow> bool" where
  common: "common_step p p' \<Longrightarrow> gateway_process_step p p'"
| health: "Health_server \<in> set (pr_live p) \<Longrightarrow> \<not> exited p \<Longrightarrow> listen_returns (pr_shutdown p) err \<Longrightarrow>
    gateway_process_step p (finish Health_server p)"
| stop_central: "Shutdown_watch \<in> set (pr_live p) \<Longrightarrow> Central_system \<in> set (pr_live p) \<Longrightarrow> pr_cancelled p \<Longrightarrow> \<not> exited p \<Longrightarrow>
    gateway_process_step p (finish Central_system p)"
| shut_health: "Shutdown_watch \<in> set (pr_live p) \<Longrightarrow> Central_system \<notin> set (pr_live p) \<Longrightarrow> \<not> exited p \<Longrightarrow>
    gateway_process_step p ((finish Shutdown_watch p)\<lparr>pr_shutdown := True\<rparr>)"
| start_returns: "pr_phase p = Serving \<Longrightarrow> Central_system \<notin> set (pr_live p) \<Longrightarrow> gateway_process_step p (return None p)"

section \<open>Both starts are the starts of the commands\<close>

lemma control_plane_start_run:
  "map_option (\<lambda>p. case pr_phase p of Returning r \<Rightarrow> r | _ \<Rightarrow> None) (control_plane_start world getenv schema broker) =
   map_option (\<lambda>(r, schema', broker'). case r of Inl err \<Rightarrow> Some err | Inr cp \<Rightarrow> None) (control_plane_run world getenv schema broker)"
  by (simp add: control_plane_start_def control_plane_run_def Let_def return_def spawn_def acquire_def opened_pool_def fresh_process_def
      split: option.splits sum.splits prod.splits)

lemma gateway_start_run:
  "map_option (\<lambda>p. case pr_phase p of Returning r \<Rightarrow> r | _ \<Rightarrow> None) (gateway_start world getenv) =
   map_option (\<lambda>r. case r of Inl err \<Rightarrow> Some err | Inr handler \<Rightarrow> None) (gateway_run world getenv)"
  by (simp add: gateway_start_def gateway_run_def Let_def return_def spawn_def acquire_def fresh_process_def
      split: option.splits sum.splits prod.splits)

section \<open>Processes that end\<close>

text \<open>A process whose every step brings it closer to its end, and that is never stuck before it.\<close>

locale ending_process =
  fixes step :: "'s \<Rightarrow> 's \<Rightarrow> bool" and I :: "'s \<Rightarrow> bool" and rank :: "'s \<Rightarrow> nat" and final :: "'s \<Rightarrow> bool"
  assumes keeps: "step s s' \<Longrightarrow> I s \<Longrightarrow> I s'"
    and decreases: "step s s' \<Longrightarrow> I s \<Longrightarrow> rank s' < rank s"
    and proceeds: "I s \<Longrightarrow> \<not> final s \<Longrightarrow> \<exists>s'. step s s'"
begin

lemma bounded: "(step ^^ n) s s' \<Longrightarrow> I s \<Longrightarrow> I s' \<and> n + rank s' \<le> rank s"
proof (induction n arbitrary: s')
  case (Suc n)
  then obtain t where "(step ^^ n) s t" "step t s'" by auto
  then show ?case using Suc keeps [of t s'] decreases [of t s'] by fastforce
qed auto

lemma reaches_end: "I s \<Longrightarrow> \<exists>s'. step\<^sup>*\<^sup>* s s' \<and> final s'"
proof (induction "rank s" arbitrary: s rule: less_induct)
  case less
  show ?case
  proof (cases "final s")
    case False
    then obtain t where "step s t" using proceeds less.prems by blast
    then show ?thesis using less.hyps [of t] less.prems keeps decreases by (meson converse_rtranclp_into_rtranclp)
  qed blast
qed

end

fun phase_rank :: "phase \<Rightarrow> nat" where
  "phase_rank Serving = 6"
| "phase_rank Draining = 4"
| "phase_rank Waiting = 3"
| "phase_rank (Returning result) = 2"
| "phase_rank (Exited code) = 0"

definition rank :: "Process \<Rightarrow> nat" where
  "rank p = (if pr_cancelled p then 0 else 1) + length (pr_live p) + length (pr_defers p) + phase_rank (pr_phase p)"

text \<open>
  The books of a trace: the resources held, latest first, and the goroutines running. A resource is
  released only while it is the latest one held and no goroutine that uses it is running.
\<close>

definition uses :: "goroutine \<Rightarrow> resource \<Rightarrow> bool" where
  "uses g r \<longleftrightarrow>
     (r = Database_pool \<and> g \<in> set control_plane_goroutines) \<or>
     (r = Bus_connection \<and> (is_service g \<or> g = HTTP_server \<or> g = Central_system))"

fun book :: "effect \<Rightarrow> resource list \<times> goroutine list \<Rightarrow> (resource list \<times> goroutine list) option" where
  "book (Acquired r) (rs, gs) = Some (r # rs, gs)"
| "book (Released r) (rs, gs) =
     (if rs \<noteq> [] \<and> hd rs = r \<and> list_all (\<lambda>g. \<not> uses g r) gs then Some (tl rs, gs) else None)"
| "book (Spawned g) (rs, gs) = Some (rs, gs @ [g])"
| "book (Finished g) (rs, gs) = (if g \<in> set gs then Some (rs, remove1 g gs) else None)"

definition audit :: "effect list \<Rightarrow> (resource list \<times> goroutine list) option" where
  "audit trace = fold (\<lambda>e books. Option.bind books (book e)) trace (Some ([], []))"

definition audited :: "Process \<Rightarrow> bool" where
  "audited p \<longleftrightarrow> audit (pr_trace p) = Some (pr_defers p, pr_live p)"

lemma audit_snoc: "audit (t @ [e]) = Option.bind (audit t) (book e)"
  by (simp add: audit_def)

lemma audited_acquire: "audited p \<Longrightarrow> audited (acquire r p)"
  by (simp add: audited_def acquire_def audit_snoc)

lemma audited_spawn: "audited p \<Longrightarrow> audited (spawn gs p)"
proof (induction gs rule: rev_induct)
  case (snoc g gs)
  then show ?case by (simp add: audited_def spawn_def audit_snoc flip: append_assoc)
qed (simp add: spawn_def)

lemma audited_finish: "audited p \<Longrightarrow> g \<in> set (pr_live p) \<Longrightarrow> audited (finish g p)"
  by (simp add: audited_def finish_def audit_snoc)

lemma audited_deferred:
  "audited p \<Longrightarrow> pr_defers p = r # rs \<Longrightarrow> list_all (\<lambda>g. \<not> uses g r) (pr_live p) \<Longrightarrow> audited (run_deferred r rs p)"
  by (cases "r = Signals") (simp_all add: audited_def run_deferred_def stop_def audit_snoc Let_def)

lemma audited_stop [simp]: "audited (stop p) \<longleftrightarrow> audited p"
  by (simp add: audited_def stop_def)

lemma stop_live [simp]: "pr_live (stop p) = pr_live p"
  by (simp add: stop_def)

lemma audited_fresh: "audited fresh_process"
  by (simp add: audited_def fresh_process_def audit_def)

text \<open>The result \<open>run\<close> returns or has returned is the given one.\<close>

definition result_is :: "go_error option \<Rightarrow> Process \<Rightarrow> bool" where
  "result_is r p \<longleftrightarrow>
     (case pr_phase p of Returning r' \<Rightarrow> r' = r | Exited code \<Rightarrow> code = exit_code r \<and> pr_defers p = [] | _ \<Rightarrow> r = None)"

lemmas process_ops = acquire_def return_def finish_def stop_def run_deferred_def Let_def exited_def result_is_def rank_def

lemma length_remove1_less: "x \<in> set xs \<Longrightarrow> length (remove1 x xs) < length xs"
  using length_pos_if_in_set [of x xs] by (simp add: length_remove1)

text \<open>A resource may be released whenever \<open>run\<close> returns.\<close>

definition releasable :: "Process \<Rightarrow> bool" where
  "releasable p \<longleftrightarrow> list_all (\<lambda>g. \<forall>r\<in>set (pr_defers p). \<not> uses g r) (pr_live p)"

lemma common_step_audited:
  assumes "common_step p p'" "audited p" "\<And>result. pr_phase p = Returning result \<Longrightarrow> releasable p"
  shows "audited p'"
  using assms(1)
proof cases
  case (deferred result r rs)
  then have "releasable p" using assms(3) by blast
  then have "list_all (\<lambda>g. \<not> uses g r) (pr_live p)" using deferred by (simp add: releasable_def list_all_iff)
  then show ?thesis using deferred audited_deferred [OF assms(2)] by simp
qed (use assms(2) in \<open>simp_all add: audited_def stop_def\<close>)

lemma common_step_result: "common_step p p' \<Longrightarrow> result_is r p \<Longrightarrow> result_is r p'"
  by (erule common_step.cases) (auto simp: process_ops split: phase.splits)

lemma common_step_rank: "common_step p p' \<Longrightarrow> rank p' < rank p"
  by (erule common_step.cases) (auto simp: process_ops)

lemma returning_proceeds: "pr_phase p = Returning result \<Longrightarrow> \<exists>p'. common_step p p'"
  by (cases "pr_defers p") (blast intro: common_step.intros)+

section \<open>The control plane serves with all its goroutines, stops when one fails, and ends\<close>

text \<open>
  What the process relies on of its services: they return once the context has ended, and one that
  returns before returns an error. (By \<open>runner_service.returns_iff\<close> and \<open>advice_service.returns_iff\<close> the
  loops return the end of the context and nothing else.)
\<close>

definition lawful_services :: "(goroutine \<Rightarrow> bool \<Rightarrow> go_error option \<Rightarrow> bool) \<Rightarrow> bool" where
  "lawful_services may_return \<longleftrightarrow>
     (\<forall>g. is_service g \<longrightarrow> (\<exists>r. may_return g True r) \<and> (\<forall>r. may_return g False r \<longrightarrow> stops_process r))"

text \<open>The pool and the connection are held.\<close>

definition holds_both :: "Process \<Rightarrow> bool" where
  "holds_both p \<longleftrightarrow> {Database_pool, Bus_connection} \<subseteq> set (pr_defers p)"

lemma holds_both_ops [simp]:
  "holds_both (finish g p) = holds_both p" "holds_both (stop p) = holds_both p" "holds_both p \<Longrightarrow> holds_both (acquire r p)"
  "holds_both (p\<lparr>pr_phase := phase\<rparr>) = holds_both p" "holds_both (p\<lparr>pr_shutdown := b\<rparr>) = holds_both p"
  by (auto simp: holds_both_def finish_def stop_def acquire_def)

definition control_plane_inv ::
  "(goroutine \<Rightarrow> bool \<Rightarrow> go_error option \<Rightarrow> bool) \<Rightarrow> go_error option \<Rightarrow> Process \<Rightarrow> bool" where
  "control_plane_inv may_return r p \<longleftrightarrow>
     lawful_services may_return \<and> audited p \<and> result_is r p \<and> set (pr_live p) \<subseteq> set control_plane_goroutines \<and>
     (pr_cancelled p \<or> Signals \<in> set (pr_defers p)) \<and>
     (case pr_phase p of
        Serving \<Rightarrow> \<not> pr_shutdown p \<and> (pr_cancelled p \<or> pr_live p = control_plane_goroutines) \<and> holds_both p
      | Draining \<Rightarrow> pr_shutdown p \<and> pr_cancelled p \<and> holds_both p
      | Waiting \<Rightarrow> pr_shutdown p \<and> pr_cancelled p \<and> holds_both p
      | _ \<Rightarrow> pr_live p = [])"

lemma goroutine_inv_step:
  assumes "goroutine_step may_return p p'" "control_plane_inv may_return r p"
  shows "control_plane_inv may_return r p'"
  using assms(1)
proof cases
  case common
  have "audited p'"
    by (rule common_step_audited [OF common]) (use assms(2) in \<open>simp_all add: control_plane_inv_def releasable_def\<close>)
  moreover have "result_is r p'" using common_step_result [OF common] assms(2) by (simp add: control_plane_inv_def)
  moreover have "pr_live p' = pr_live p" "pr_shutdown p' = pr_shutdown p"
    using common by (cases, simp_all add: process_ops)+
  moreover have "pr_cancelled p' \<or> Signals \<in> set (pr_defers p')" "pr_cancelled p \<Longrightarrow> pr_cancelled p'"
    using common assms(2) by (cases, auto simp: control_plane_inv_def process_ops)+
  moreover have "pr_phase p' = pr_phase p \<or> (\<exists>result code. pr_phase p = Returning result \<and> pr_phase p' = Exited code)"
    using common by cases (auto simp: process_ops)
  moreover have "holds_both p' = holds_both p" if "\<And>result. pr_phase p \<noteq> Returning result"
    using common that by cases auto
  ultimately show ?thesis using assms(2) unfolding control_plane_inv_def by (cases "pr_phase p") auto
next
  case (service g result)
  have "audited p'" using service audited_finish [of "if stops_process result then stop p else p" g] assms(2)
    by (simp add: control_plane_inv_def split: if_splits)
  moreover have "pr_cancelled p \<or> stops_process result"
    using service assms(2) by (cases "pr_cancelled p") (auto simp: control_plane_inv_def lawful_services_def)
  ultimately show ?thesis using service assms(2) set_remove1_subset [of g "pr_live p"]
    by (auto simp: control_plane_inv_def holds_both_def process_ops split: phase.splits)
next
  case watch
  then show ?thesis using assms(2) audited_finish [of p Silence_watch] set_remove1_subset [of Silence_watch "pr_live p"]
    by (auto simp: control_plane_inv_def holds_both_def process_ops split: phase.splits)
next
  case (listener err)
  have "audited p'" using listener audited_finish [of "if \<not> errors_Is err ErrServerClosed then stop p else p" HTTP_server] assms(2)
    by (simp add: control_plane_inv_def split: if_splits)
  then show ?thesis using listener assms(2) set_remove1_subset [of HTTP_server "pr_live p"]
    by (auto simp: control_plane_inv_def holds_both_def process_ops listen_returns_def split: phase.splits)
next
  case notice
  then show ?thesis using assms(2) audited_acquire [of p Shutdown_timer]
    by (auto simp: control_plane_inv_def holds_both_def process_ops audited_def)
qed (use assms(2) in \<open>auto simp: control_plane_inv_def holds_both_def process_ops audited_def\<close>)

lemma goroutine_step_rank:
  assumes "goroutine_step may_return p p'"
  shows "rank p' < rank p"
  using assms
proof cases
  case common
  then show ?thesis by (rule common_step_rank)
next
  case (service g result)
  then show ?thesis using length_remove1_less [of g "pr_live p"] by (simp add: process_ops)
next
  case watch
  then show ?thesis using length_remove1_less [of Silence_watch "pr_live p"] by (simp add: process_ops)
next
  case (listener err)
  then show ?thesis using length_remove1_less [of HTTP_server "pr_live p"] by (simp add: process_ops)
qed (simp_all add: process_ops)

lemma live_proceeds:
  assumes "lawful_services may_return" "g \<in> set (pr_live p)" "g \<in> set control_plane_goroutines" "pr_cancelled p" "pr_shutdown p"
  shows "\<exists>p'. goroutine_step may_return p p'"
proof -
  consider "is_service g" | "g = Silence_watch" | "g = HTTP_server"
    using assms(3) by (auto simp: control_plane_goroutines_def is_service_def)
  then show ?thesis
  proof cases
    case 1
    then obtain r where "may_return g True r" using assms(1) by (auto simp: lawful_services_def)
    then show ?thesis using goroutine_step.service [OF assms(2) 1] assms(4) by auto
  next
    case 2
    then show ?thesis using assms goroutine_step.watch by blast
  next
    case 3
    have "listen_returns True ErrServerClosed" by (simp add: listen_returns_def ErrServerClosed_def)
    then show ?thesis using 3 assms goroutine_step.listener [of p ErrServerClosed may_return] by auto
  qed
qed

text \<open>
  The invariant of the whole process: a handler runs only while \<open>run\<close> has not come past \<open>Shutdown\<close>, unless
  the deadline passed.
\<close>

definition server_inv ::
  "(goroutine \<Rightarrow> bool \<Rightarrow> go_error option \<Rightarrow> bool) \<Rightarrow> go_error option \<Rightarrow> ServerProcess \<Rightarrow> bool" where
  "server_inv may_return r s \<longleftrightarrow>
     control_plane_inv may_return r (cp_process s) \<and> rank (cp_process s) \<le> 16 \<and>
     (pr_phase (cp_process s) \<notin> {Serving, Draining} \<longrightarrow> \<not> cp_expired s \<longrightarrow> cp_requests s = 0)"

lemma goroutine_step_phase:
  "goroutine_step may_return p p' \<Longrightarrow> pr_phase p' \<in> {Serving, Draining} \<or> pr_phase p \<notin> {Serving, Draining}"
  by (erule goroutine_step.cases) (auto simp: process_ops elim!: common_step.cases)

lemma waiting_inv: "control_plane_inv may_return r p \<Longrightarrow> pr_phase p = Draining \<Longrightarrow> control_plane_inv may_return r (p\<lparr>pr_phase := Waiting\<rparr>)"
  by (auto simp: control_plane_inv_def process_ops audited_def)

lemma server_inv_step:
  assumes "control_plane_step may_return s s'" "server_inv may_return r s"
  shows "server_inv may_return r s'"
  using assms(1)
proof cases
  case (goroutines p)
  then show ?thesis using assms(2) goroutine_inv_step [OF goroutines(2)] goroutine_step_rank [OF goroutines(2)]
      goroutine_step_phase [OF goroutines(2)] by (auto simp: server_inv_def)
next
  case accepts
  then show ?thesis using assms(2) by (auto simp: server_inv_def control_plane_inv_def split: phase.splits)
next
  case (responds n)
  then show ?thesis using assms(2) by (auto simp: server_inv_def)
next
  case shut_down
  then show ?thesis using assms(2) waiting_inv by (auto simp: server_inv_def with_phase_def rank_def)
next
  case deadline
  then show ?thesis using assms(2) waiting_inv by (auto simp: server_inv_def with_phase_def rank_def)
qed

text \<open>A process that takes no further request.\<close>

definition closed_to_requests :: "ServerProcess \<Rightarrow> bool" where
  "closed_to_requests s \<longleftrightarrow> pr_shutdown (cp_process s) \<or> HTTP_server \<notin> set (pr_live (cp_process s))"

definition server_rank :: "ServerProcess \<Rightarrow> nat" where
  "server_rank s = rank (cp_process s) + cp_requests s"

lemma goroutine_step_closes:
  "goroutine_step may_return p p' \<Longrightarrow> pr_shutdown p \<or> HTTP_server \<notin> set (pr_live p) \<Longrightarrow> pr_shutdown p' \<or> HTTP_server \<notin> set (pr_live p')"
  by (erule goroutine_step.cases) (auto simp: process_ops elim!: common_step.cases dest: notin_set_remove1 split: if_splits)

lemma server_proceeds:
  assumes inv: "server_inv may_return r s" "\<not> exited (cp_process s)"
  shows "\<exists>s'. control_plane_step may_return s s'"
proof (cases "pr_phase (cp_process s)")
  case Serving
  then have "\<exists>p. goroutine_step may_return (cp_process s) p"
    using inv(2) by (cases "pr_cancelled (cp_process s)") (blast intro: goroutine_step.intros common_step.intros)+
  then show ?thesis using control_plane_step.goroutines by blast
next
  case Draining
  then show ?thesis using control_plane_step.deadline by blast
next
  case Waiting
  then have "\<exists>p. goroutine_step may_return (cp_process s) p"
    using inv live_proceeds [of may_return "hd (pr_live (cp_process s))" "cp_process s"] goroutine_step.wait [of "cp_process s" may_return]
    by (cases "pr_live (cp_process s)") (auto simp: server_inv_def control_plane_inv_def)
  then show ?thesis using control_plane_step.goroutines by blast
next
  case (Returning result)
  then show ?thesis using returning_proceeds goroutine_step.common control_plane_step.goroutines by metis
qed (use inv in \<open>auto simp: exited_def\<close>)

interpretation control_plane_process: ending_process "control_plane_step may_return" "\<lambda>s. server_inv may_return r s \<and> closed_to_requests s"
    server_rank "\<lambda>s. exited (cp_process s)"
  for may_return r
proof
  show "server_inv may_return r s' \<and> closed_to_requests s'"
    if "control_plane_step may_return s s'" "server_inv may_return r s \<and> closed_to_requests s" for s s'
    using that server_inv_step [of may_return s s' r] goroutine_step_closes [of may_return "cp_process s"]
    by (auto simp: closed_to_requests_def with_phase_def elim!: control_plane_step.cases) blast+
  show "server_rank s' < server_rank s"
    if "control_plane_step may_return s s'" "server_inv may_return r s \<and> closed_to_requests s" for s s'
    using that by (auto simp: closed_to_requests_def server_rank_def with_phase_def rank_def [of "_\<lparr>pr_phase := _\<rparr>"] rank_def
        elim!: control_plane_step.cases dest: goroutine_step_rank)
  show "\<exists>s'. control_plane_step may_return s s'"
    if "server_inv may_return r s \<and> closed_to_requests s" "\<not> exited (cp_process s)" for s
    using server_proceeds that by blast
qed

text \<open>Asked to stop, the process closes its listener; from there it ends.\<close>

lemma server_reaches_end:
  assumes "server_inv may_return r s"
  shows "\<exists>s'. (control_plane_step may_return)\<^sup>*\<^sup>* s s' \<and> exited (cp_process s')"
proof (cases "closed_to_requests s")
  case True
  then show ?thesis using control_plane_process.reaches_end assms by blast
next
  case False
  have serving: "pr_phase (cp_process s) = Serving"
    using False assms by (auto simp: closed_to_requests_def server_inv_def control_plane_inv_def split: phase.splits)
  let ?t = "s\<lparr>cp_process := stop (cp_process s)\<rparr>"
  have "(control_plane_step may_return)\<^sup>*\<^sup>* s ?t"
  proof (cases "pr_cancelled (cp_process s)")
    case True
    then have "?t = s" by (cases s) (simp add: stop_def)
    then show ?thesis by simp
  next
    case False
    then have "goroutine_step may_return (cp_process s) (stop (cp_process s))"
      using serving by (intro goroutine_step.common common_step.signal) (simp_all add: exited_def)
    then show ?thesis using control_plane_step.goroutines by blast
  qed
  moreover define u where "u = ?t\<lparr>cp_process := (acquire Shutdown_timer (cp_process ?t))\<lparr>pr_shutdown := True, pr_phase := Draining\<rparr>\<rparr>"
  have "control_plane_step may_return ?t u"
    unfolding u_def by (intro control_plane_step.goroutines goroutine_step.notice) (simp_all add: stop_def serving)
  ultimately have su: "(control_plane_step may_return)\<^sup>*\<^sup>* s u" by simp
  then have "server_inv may_return r u" using assms server_inv_step by (induction rule: rtranclp_induct) blast+
  moreover have "closed_to_requests u" by (simp add: u_def closed_to_requests_def)
  ultimately show ?thesis using control_plane_process.reaches_end [of may_return r u] su by (meson rtranclp_trans)
qed

text \<open>The error with which a start-up ended, if it did not reach the services.\<close>

definition control_plane_error :: "('conn, 'b, 's) World \<Rightarrow> environment \<Rightarrow> 's Schema \<Rightarrow> 'b \<Rightarrow> go_error option" where
  "control_plane_error world getenv schema broker =
     (case control_plane_run world getenv schema broker of Some (Inl err, _) \<Rightarrow> Some err | _ \<Rightarrow> None)"

text \<open>A process that is still starting and holds at most \<open>n\<close> resources.\<close>

definition starting :: "nat \<Rightarrow> Process \<Rightarrow> bool" where
  "starting n p \<longleftrightarrow>
     audited p \<and> pr_live p = [] \<and> pr_phase p = Serving \<and> \<not> pr_shutdown p \<and> \<not> pr_cancelled p \<and> length (pr_defers p) \<le> n"

lemma starting_fresh: "starting n fresh_process"
  using audited_fresh by (simp add: starting_def fresh_process_def)

lemma starting_acquire: "starting n p \<Longrightarrow> starting (Suc n) (acquire r p)"
  using audited_acquire [of p r] by (simp add: starting_def acquire_def)

lemma starting_opened_pool: "starting n p \<Longrightarrow> starting (Suc n) (opened_pool world dsn p)"
  using starting_acquire [of n p Database_pool] by (auto simp: starting_def opened_pool_def audited_def audit_def)

lemma opened_pool_signals: "Signals \<in> set (pr_defers p) \<Longrightarrow> Signals \<in> set (pr_defers (opened_pool world dsn p))"
  by (simp add: opened_pool_def acquire_def)

lemma control_plane_returns:
  "starting n p \<Longrightarrow> Signals \<in> set (pr_defers p) \<Longrightarrow> lawful_services may_return \<Longrightarrow>
   control_plane_inv may_return (Some err) (return (Some err) p) \<and> rank (return (Some err) p) \<le> n + 3"
  by (simp add: starting_def control_plane_inv_def return_def audited_def result_is_def rank_def)

lemma control_plane_spawns:
  "starting n p \<Longrightarrow> Signals \<in> set (pr_defers p) \<Longrightarrow> holds_both p \<Longrightarrow> lawful_services may_return \<Longrightarrow>
   control_plane_inv may_return None (spawn control_plane_goroutines p) \<and> rank (spawn control_plane_goroutines p) \<le> n + 13"
  using audited_spawn [of p control_plane_goroutines]
  by (simp add: starting_def control_plane_inv_def spawn_def result_is_def rank_def holds_both_def) (simp add: control_plane_goroutines_def)

lemma control_plane_started:
  assumes "control_plane_start world getenv schema broker = Some p" "lawful_services may_return"
  shows "control_plane_inv may_return (control_plane_error world getenv schema broker) p \<and> rank p \<le> 16"
proof -
  let ?s = "acquire Signals fresh_process"
  let ?q = "opened_pool world (cf_PostgresDSN (Load getenv)) ?s"
  let ?b = "acquire Bus_connection ?q"
  have q: "starting 2 ?q" using starting_opened_pool [OF starting_acquire [OF starting_fresh, of 0]] by (simp add: numeral_2_eq_2)
  have b: "starting 3 ?b" using starting_acquire [OF q] by (simp add: numeral_3_eq_3 numeral_2_eq_2)
  have signals: "Signals \<in> set (pr_defers ?q)" "Signals \<in> set (pr_defers ?b)"
    using opened_pool_signals [of ?s] by (simp_all add: acquire_def)
  note outcomes = control_plane_returns [OF q signals(1) assms(2)] control_plane_returns [OF b signals(2) assms(2)]
    control_plane_spawns [OF b signals(2) _ assms(2)]
  have bounds: "rank (return (Some err) ?q) \<le> 16" "rank (return (Some err) ?b) \<le> 16" "holds_both ?b \<Longrightarrow> rank (spawn control_plane_goroutines ?b) \<le> 16" for err
    using outcomes(1,2) [of err] outcomes(3) by simp_all
  have held: "holds_both ?b" if "Open (cx_newPool world) (cx_ping world) (cf_PostgresDSN (Load getenv)) = None"
    using that by (simp add: Open_def holds_both_def opened_pool_def acquire_def split: option.splits)
  show ?thesis using assms(1) outcomes bounds held
    by (auto simp: control_plane_start_def control_plane_error_def control_plane_run_def Let_def
        split: option.splits sum.splits prod.splits)
qed

text \<open>
  C38. The control plane serves with all its goroutines or stops, releases what it holds in order, and
  ends. Take any run of the process after a start-up, successful or not. At every moment the
  trace is in order: the signal handler, the database pool, the bus connection and the shutdown timer
  are released in the reverse order of their acquisition, each once, and the pool and the connection only
  after all six goroutines have ended. While a request handler runs, the pool and the connection are
  still held, unless \<open>Shutdown\<close> gave up waiting for it at its deadline. While the process serves and nobody
  has asked it to stop, all six goroutines run. It is never stuck before the exit and can always reach it;
  from the moment the listener is closed every run has at most 16 steps besides the handlers that end.
  On exit no goroutine of the six is left and nothing is held. The exit code depends on the start-up
  alone: after serving it is 0, also when the listener failed.
\<close>

theorem control_plane_lifecycle:
  assumes start: "control_plane_start world getenv schema broker = Some p0"
    and lawful: "lawful_services may_return"
    and run: "(control_plane_step may_return)\<^sup>*\<^sup>* (serving_process p0) s" and view: "p = cp_process s"
  shows "audit (pr_trace p) = Some (pr_defers p, pr_live p) \<and>
    (0 < cp_requests s \<and> \<not> cp_expired s \<longrightarrow> {Database_pool, Bus_connection} \<subseteq> set (pr_defers p)) \<and>
    (pr_phase p = Serving \<and> \<not> pr_cancelled p \<longrightarrow> pr_live p = control_plane_goroutines) \<and>
    (exited p \<or> (\<exists>s'. control_plane_step may_return s s')) \<and>
    (\<exists>s'. (control_plane_step may_return)\<^sup>*\<^sup>* s s' \<and> exited (cp_process s')) \<and>
    (\<forall>n s'. pr_shutdown p \<and> (control_plane_step may_return ^^ n) s s' \<longrightarrow> n \<le> 16 + cp_requests s) \<and>
    (\<forall>code. pr_phase p = Exited code \<longrightarrow>
       pr_live p = [] \<and> pr_defers p = [] \<and> pr_cancelled p \<and>
       code = exit_code (control_plane_error world getenv schema broker))"
proof -
  let ?r = "control_plane_error world getenv schema broker"
  have "server_inv may_return ?r (serving_process p0)"
    using control_plane_started [OF start lawful] by (simp add: server_inv_def serving_process_def)
  with run have s: "server_inv may_return ?r s" using server_inv_step by (induction rule: rtranclp_induct) blast+
  then have p: "control_plane_inv may_return ?r p" "rank p \<le> 16" by (simp_all add: server_inv_def view)
  have "audit (pr_trace p) = Some (pr_defers p, pr_live p)" using p(1) by (simp add: control_plane_inv_def audited_def)
  moreover have "0 < cp_requests s \<and> \<not> cp_expired s \<longrightarrow> {Database_pool, Bus_connection} \<subseteq> set (pr_defers p)"
    using s p(1) view by (auto simp: server_inv_def control_plane_inv_def holds_both_def)
  moreover have "pr_phase p = Serving \<and> \<not> pr_cancelled p \<longrightarrow> pr_live p = control_plane_goroutines"
    using p(1) by (auto simp: control_plane_inv_def)
  moreover have "exited p \<or> (\<exists>s'. control_plane_step may_return s s')" using server_proceeds [OF s] view by blast
  moreover have "n \<le> 16 + cp_requests s" if "pr_shutdown p" "(control_plane_step may_return ^^ n) s s'" for n s'
    using control_plane_process.bounded [OF that(2), of ?r] s that(1) view p(2) by (auto simp: closed_to_requests_def server_rank_def)
  moreover have "\<forall>code. pr_phase p = Exited code \<longrightarrow> pr_live p = [] \<and> pr_defers p = [] \<and> pr_cancelled p \<and> code = exit_code ?r"
    using p(1) by (auto simp: control_plane_inv_def result_is_def)
  ultimately show ?thesis using server_reaches_end [OF s] by blast
qed

text \<open>The results the loops of the services have, and a control plane whose listener fails at once.\<close>

definition loop_results :: "goroutine \<Rightarrow> bool \<Rightarrow> go_error option \<Rightarrow> bool" where
  "loop_results g ended result \<longleftrightarrow> ended \<and> result = Some context_canceled"

lemma loop_results_lawful: "lawful_services loop_results"
  by (simp add: lawful_services_def loop_results_def)

lemma services_return:
  "fst (Run_loop runner its st) = Some err \<Longrightarrow> loop_results g (list_ex iteration_ends its) (Some err)"
  "fst (advice_Run_loop publisher turns ast) = Some err \<Longrightarrow> loop_results g (list_ex (\<lambda>turn. turn = None) turns) (Some err)"
  by (simp_all add: loop_results_def runner_service.returns_iff advice_service.returns_iff)

definition example_schema :: "string list Schema" where
  "example_schema = \<lparr>sm_tables = [], sm_tracking = False, sm_applied = []\<rparr>"

lemma example_control_plane_run:
  "\<exists>cp schema broker. control_plane_run sample_control_world garbled example_schema [] = Some (Inr cp, schema, broker)"
proof -
  obtain r broker where sv: "services sample_control_world (Load garbled) sample_js [] = (r, broker)" by fastforce
  have "sound_step (list_all stream_bounded) sample_js (r, broker)"
    using services_sound [of "list_all stream_bounded" sample_js "[]" sample_control_world garbled] sample_js_sound sv by simp
  then obtain cp where "r = Inr cp" using sample_js_sound by (auto simp: sound_step_def)
  moreover have "fst (Migrate (cx_migration sample_control_world) d example_schema) = None" for d by code_simp
  moreover obtain st' where "Migrate (cx_migration sample_control_world) (cf_MigrationsDir (Load garbled)) example_schema = (None, st')"
    using calculation(2) by (metis prod.collapse)
  moreover have "Open (cx_newPool sample_control_world) (cx_ping sample_control_world) (cf_PostgresDSN (Load garbled)) = None"
    by (simp add: Open_def sample_control_world_def)
  moreover have "Connect (cx_dial sample_control_world) (cx_cancelled sample_control_world) (bus_options (Load garbled)) = Some (Inr ())"
    by (simp add: sample_control_world_def Connect_def connect_attempt_def retry.simps)
  moreover have "cx_jetstream sample_control_world c = Inr sample_js" for c by (simp add: sample_control_world_def)
  ultimately show ?thesis using sv by (simp add: control_plane_run_def)
qed

lemma example_control_plane_start:
  "\<exists>p. control_plane_start sample_control_world garbled example_schema [] = Some p \<and>
     pr_phase p = Serving \<and> pr_live p = control_plane_goroutines \<and> \<not> pr_shutdown p"
  using example_control_plane_run
  by (auto simp: control_plane_start_def control_plane_run_def Let_def spawn_def acquire_def opened_pool_def fresh_process_def
      split: option.splits sum.splits prod.splits)

text \<open>A request is taken, then the listener fails.\<close>

theorem control_plane_lifecycle_witness:
  "\<exists>p0 s s'. control_plane_start sample_control_world garbled example_schema [] = Some p0 \<and>
     (control_plane_step loop_results)\<^sup>*\<^sup>* (serving_process p0) s \<and> pr_live (cp_process s) = butlast control_plane_goroutines \<and>
     cp_requests s = 1 \<and> Database_pool \<in> set (pr_defers (cp_process s)) \<and>
     (control_plane_step loop_results)\<^sup>*\<^sup>* s s' \<and> pr_phase (cp_process s') = Exited 0 \<and> pr_defers (cp_process s') = []"
proof -
  obtain p0 where p0: "control_plane_start sample_control_world garbled example_schema [] = Some p0"
    "pr_phase p0 = Serving" "pr_live p0 = control_plane_goroutines" "\<not> pr_shutdown p0"
    using example_control_plane_start by blast
  note life = control_plane_lifecycle [OF p0(1) loop_results_lawful _ refl]
  let ?t = "(serving_process p0)\<lparr>cp_requests := 1\<rparr>"
  let ?s = "?t\<lparr>cp_process := finish HTTP_server (stop p0)\<rparr>"
  have taken: "control_plane_step loop_results (serving_process p0) ?t"
    using control_plane_step.accepts [of "serving_process p0" loop_results] p0(3,4)
    by (simp add: serving_process_def control_plane_goroutines_def)
  have "goroutine_step loop_results p0 (finish HTTP_server (stop p0))"
    using goroutine_step.listener [of p0 "PlainError ''bind: address already in use''" loop_results] p0
    by (simp add: control_plane_goroutines_def listen_returns_def ErrServerClosed_def)
  then have failed: "control_plane_step loop_results ?t ?s"
    using control_plane_step.goroutines [of loop_results ?t] by (simp add: serving_process_def)
  from taken failed have s: "(control_plane_step loop_results)\<^sup>*\<^sup>* (serving_process p0) ?s"
    by (rule rtranclp_trans [OF r_into_rtranclp r_into_rtranclp])
  then obtain s' where s': "(control_plane_step loop_results)\<^sup>*\<^sup>* ?s s'" "exited (cp_process s')" using life by blast
  from life [OF rtranclp_trans [OF s s'(1)]] s'(2) have "pr_phase (cp_process s') = Exited 0 \<and> pr_defers (cp_process s') = []"
    using example_control_plane_run by (auto simp: exited_def control_plane_error_def exit_code_def split: phase.splits)
  moreover have "Database_pool \<in> set (pr_defers (cp_process ?s))" using life [OF s] by (simp add: serving_process_def)
  ultimately show ?thesis using p0 s s'(1)
    by (intro exI [of _ p0] exI [of _ ?s] exI [of _ s']) (simp add: finish_def control_plane_goroutines_def serving_process_def)
qed

section \<open>The gateway stops serving before it lets go of the bus, and ends\<close>

definition gateway_error :: "'conn GatewayWorld \<Rightarrow> environment \<Rightarrow> go_error option" where
  "gateway_error world getenv = (case gateway_run world getenv of Some (Inl err) \<Rightarrow> Some err | _ \<Rightarrow> None)"

definition gateway_process_inv :: "go_error option \<Rightarrow> Process \<Rightarrow> bool" where
  "gateway_process_inv r p \<longleftrightarrow>
     audited p \<and> result_is r p \<and> set (pr_live p) \<subseteq> set gateway_goroutines \<and> set (pr_defers p) \<subseteq> {Signals, Bus_connection} \<and>
     (Central_system \<in> set (pr_live p) \<longrightarrow> Shutdown_watch \<in> set (pr_live p)) \<and>
     (r = None \<longrightarrow> pr_cancelled p \<or> Central_system \<in> set (pr_live p)) \<and>
     (case pr_phase p of Serving \<Rightarrow> True | Draining \<Rightarrow> False | Waiting \<Rightarrow> False | _ \<Rightarrow> Central_system \<notin> set (pr_live p))"

lemma gateway_releasable: "gateway_process_inv r p \<Longrightarrow> pr_phase p = Returning result \<Longrightarrow> releasable p"
  by (fastforce simp: gateway_process_inv_def releasable_def list_all_iff gateway_goroutines_def uses_def
      control_plane_goroutines_def is_service_def)

lemma in_remove1: "x \<in> set (remove1 y xs) \<Longrightarrow> x \<in> set xs"
  using set_remove1_subset [of y xs] by auto

lemma gateway_finish_inv:
  assumes "gateway_process_inv r p" "g \<in> set (pr_live p)" "\<not> exited p"
    and "g = Central_system \<Longrightarrow> pr_cancelled p" "g = Shutdown_watch \<Longrightarrow> Central_system \<notin> set (pr_live p)"
  shows "gateway_process_inv r (finish g p)"
proof -
  have "audited (finish g p)" using assms(1,2) by (simp add: gateway_process_inv_def audited_finish)
  moreover have "result_is r (finish g p)" using assms(1) by (simp add: gateway_process_inv_def finish_def result_is_def split: phase.splits)
  moreover have "set (pr_live (finish g p)) \<subseteq> set (pr_live p)" by (simp add: finish_def set_remove1_subset)
  moreover have "Central_system \<in> set (pr_live (finish g p)) \<longrightarrow> Shutdown_watch \<in> set (pr_live (finish g p))"
  proof
    assume "Central_system \<in> set (pr_live (finish g p))"
    then have "Central_system \<in> set (pr_live p)" by (auto simp: finish_def dest: in_remove1)
    then have "Shutdown_watch \<in> set (pr_live p)" "Shutdown_watch \<noteq> g"
      using assms(1,5) by (auto simp: gateway_process_inv_def)
    then show "Shutdown_watch \<in> set (pr_live (finish g p))" by (simp add: finish_def in_set_remove1)
  qed
  moreover have "pr_cancelled (finish g p) \<or> Central_system \<in> set (pr_live (finish g p))" if "r = None"
    using that assms(1,4) by (cases "g = Central_system") (auto simp: gateway_process_inv_def finish_def in_set_remove1)
  moreover have "pr_phase (finish g p) = pr_phase p" "pr_defers (finish g p) = pr_defers p" by (simp_all add: finish_def)
  ultimately show ?thesis using assms(1) unfolding gateway_process_inv_def
    by (elim conjE) (simp split: phase.splits; blast)
qed

lemma gateway_inv_step:
  assumes "gateway_process_step p p'" "gateway_process_inv r p"
  shows "gateway_process_inv r p'"
  using assms(1)
proof cases
  case common
  have "audited p'" using common_step_audited [OF common] assms(2) gateway_releasable [OF assms(2)]
    by (simp add: gateway_process_inv_def)
  moreover have "result_is r p'" using common_step_result [OF common] assms(2) by (simp add: gateway_process_inv_def)
  moreover have "pr_live p' = pr_live p" "set (pr_defers p') \<subseteq> set (pr_defers p)" "pr_cancelled p \<Longrightarrow> pr_cancelled p'"
    using common by (cases, auto simp: process_ops)+
  moreover have "pr_phase p' = pr_phase p \<or> (\<exists>result code. pr_phase p = Returning result \<and> pr_phase p' = Exited code)"
    using common by cases (auto simp: process_ops)
  ultimately show ?thesis using assms(2) unfolding gateway_process_inv_def
    by (elim disjE exE conjE) (simp_all split: phase.splits, blast+)
next
  case (health err)
  then show ?thesis using gateway_finish_inv [OF assms(2), of Health_server] by simp
next
  case stop_central
  then show ?thesis using gateway_finish_inv [OF assms(2), of Central_system] by simp
next
  case shut_health
  then have "gateway_process_inv r (finish Shutdown_watch p)" using gateway_finish_inv [OF assms(2), of Shutdown_watch] by simp
  then show ?thesis by (simp add: shut_health(1) gateway_process_inv_def audited_def result_is_def split: phase.splits)
next
  case start_returns
  then show ?thesis using assms(2) by (auto simp: gateway_process_inv_def return_def audited_def result_is_def)
qed

lemma gateway_step_rank:
  assumes "gateway_process_step p p'"
  shows "rank p' < rank p"
  using assms
proof cases
  case common
  then show ?thesis by (rule common_step_rank)
next
  case (health err)
  then show ?thesis using length_remove1_less [of Health_server "pr_live p"] by (simp add: process_ops)
next
  case stop_central
  then show ?thesis using length_remove1_less [of Central_system "pr_live p"] by (simp add: process_ops)
next
  case shut_health
  then show ?thesis using length_remove1_less [of Shutdown_watch "pr_live p"] by (simp add: process_ops)
qed (simp add: process_ops)

interpretation gateway_process: ending_process gateway_process_step "gateway_process_inv r" rank exited for r
proof
  show "gateway_process_inv r s'" if "gateway_process_step s s'" "gateway_process_inv r s" for s s'
    using gateway_inv_step that by blast
  show "rank s' < rank s" if "gateway_process_step s s'" for s s'
    using gateway_step_rank that by blast
  show "\<exists>s'. gateway_process_step s s'" if inv: "gateway_process_inv r s" "\<not> exited s" for s
  proof (cases "pr_phase s")
    case Serving
    show ?thesis
    proof (cases "Central_system \<in> set (pr_live s)")
      case True
      then have "Shutdown_watch \<in> set (pr_live s)" using inv(1) by (simp add: gateway_process_inv_def)
      then show ?thesis using True inv(2)
        by (cases "pr_cancelled s") (blast intro: gateway_process_step.intros common_step.intros)+
    next
      case False
      then show ?thesis using Serving gateway_process_step.start_returns by blast
    qed
  next
    case (Returning result)
    then show ?thesis using returning_proceeds gateway_process_step.common by blast
  qed (use that in \<open>auto simp: exited_def gateway_process_inv_def\<close>)
qed

lemma gateway_returns:
  "starting n p \<Longrightarrow> set (pr_defers p) \<subseteq> {Signals, Bus_connection} \<Longrightarrow>
   gateway_process_inv (Some err) (return (Some err) p) \<and> rank (return (Some err) p) \<le> n + 3"
  by (simp add: starting_def gateway_process_inv_def return_def audited_def result_is_def rank_def)

lemma gateway_spawns:
  "starting n p \<Longrightarrow> set (pr_defers p) \<subseteq> {Signals, Bus_connection} \<Longrightarrow>
   gateway_process_inv None (spawn gateway_goroutines p) \<and> rank (spawn gateway_goroutines p) \<le> n + 10"
  using audited_spawn [of p gateway_goroutines]
  by (simp add: starting_def gateway_process_inv_def spawn_def result_is_def rank_def) (simp add: gateway_goroutines_def)

lemma gateway_started:
  assumes "gateway_start world getenv = Some p"
  shows "gateway_process_inv (gateway_error world getenv) p \<and> rank p \<le> 12"
proof -
  let ?s = "acquire Signals fresh_process"
  let ?b = "acquire Bus_connection ?s"
  have s: "starting 1 ?s" using starting_acquire [OF starting_fresh, of 0] by simp
  have b: "starting 2 ?b" using starting_acquire [OF s] by (simp add: numeral_2_eq_2)
  have held: "set (pr_defers fresh_process) \<subseteq> {Signals, Bus_connection}" "set (pr_defers ?s) \<subseteq> {Signals, Bus_connection}"
    "set (pr_defers ?b) \<subseteq> {Signals, Bus_connection}" by (simp_all add: acquire_def fresh_process_def)
  note outcomes = gateway_returns [OF starting_fresh [of 0] held(1)] gateway_returns [OF s held(2)] gateway_returns [OF b held(3)]
    gateway_spawns [OF b held(3)]
  have bounds: "rank (return (Some err) fresh_process) \<le> 12" "rank (return (Some err) ?s) \<le> 12" "rank (return (Some err) ?b) \<le> 12"
    "rank (spawn gateway_goroutines ?b) \<le> 12" for err
    using outcomes(1-3) [of err] outcomes(4) by simp_all
  show ?thesis using assms outcomes bounds
    by (auto simp: gateway_start_def gateway_error_def gateway_run_def Let_def split: option.splits sum.splits prod.splits)
qed

text \<open>
  C39. The gateway stops serving charge points before it lets go of the bus, and ends. In any run of the
  process after a start-up, successful or not, the trace is in order: the bus connection is drained only
  after the central system was stopped, and the signal handler is released last. It goes on serving until
  it is asked to stop, even when its health endpoint has failed. A run has at most 12 steps and is never
  stuck before the exit; on exit nothing is held, and the code is that of the start-up alone.
\<close>

theorem gateway_lifecycle:
  assumes start: "gateway_start world getenv = Some p0" and run: "(gateway_process_step ^^ n) p0 p"
  shows "audit (pr_trace p) = Some (pr_defers p, pr_live p) \<and>
    (pr_phase p = Serving \<and> \<not> pr_cancelled p \<longrightarrow> Central_system \<in> set (pr_live p)) \<and>
    n \<le> 12 \<and> (exited p \<or> (\<exists>p'. gateway_process_step p p')) \<and>
    (\<exists>p'. gateway_process_step\<^sup>*\<^sup>* p p' \<and> exited p') \<and>
    (\<forall>code. pr_phase p = Exited code \<longrightarrow>
       Central_system \<notin> set (pr_live p) \<and> pr_defers p = [] \<and> code = exit_code (gateway_error world getenv))"
proof -
  let ?r = "gateway_error world getenv"
  have p: "gateway_process_inv ?r p" "n + rank p \<le> rank p0" and p0: "rank p0 \<le> 12"
    using gateway_started [OF start] gateway_process.bounded [OF run] by auto
  have "audit (pr_trace p) = Some (pr_defers p, pr_live p)" using p(1) by (simp add: gateway_process_inv_def audited_def)
  moreover have "pr_phase p = Serving \<and> \<not> pr_cancelled p \<longrightarrow> Central_system \<in> set (pr_live p)"
    using p(1) by (auto simp: gateway_process_inv_def result_is_def)
  moreover have "\<forall>code. pr_phase p = Exited code \<longrightarrow> Central_system \<notin> set (pr_live p) \<and> pr_defers p = [] \<and> code = exit_code ?r"
    using p(1) by (auto simp: gateway_process_inv_def result_is_def)
  ultimately show ?thesis
    using p p0 gateway_process.proceeds [OF p(1)] gateway_process.reaches_end [OF p(1)] by auto
qed

text \<open>A gateway whose health endpoint cannot bind its address, and that is then asked to stop.\<close>

definition example_gateway_world :: "unit GatewayWorld" where
  "example_gateway_world =
     \<lparr>gx_dial = (\<lambda>n url options. Inr ()), gx_cancelled = (\<lambda>n. False), gx_jetstream = (\<lambda>connection. None),
      gx_lookup = \<lparr>sl_StreamNameBySubject = (\<lambda>i subject k. None), sl_done = (\<lambda>i k. False), sl_cancelled = (\<lambda>i k. False)\<rparr>,
      gx_quote = id\<rparr>"

definition peppered :: environment where
  "peppered name = (if name = ''TOKEN_PEPPER'' then replicate 32 (CHR ''k'') else [])"

definition example_gateway_process :: Process where
  "example_gateway_process = spawn gateway_goroutines (acquire Bus_connection (acquire Signals fresh_process))"

lemma example_gateway_start: "gateway_start example_gateway_world peppered = Some example_gateway_process"
proof -
  have "isl (NewHasher (gc_TokenPepper (gateway_Load peppered))) = False" by code_simp
  then obtain hasher where hasher: "NewHasher (gc_TokenPepper (gateway_Load peppered)) = Inr hasher"
    by (cases "NewHasher (gc_TokenPepper (gateway_Load peppered))") auto
  have "isl (gateway_subjects example_gateway_world (gateway_Load peppered)) = False" by code_simp
  then obtain a b where "gateway_subjects example_gateway_world (gateway_Load peppered) = Inr (a, b)"
    by (cases "gateway_subjects example_gateway_world (gateway_Load peppered)") auto
  moreover have "Connect (gx_dial example_gateway_world) (gx_cancelled example_gateway_world) options = Some (Inr ())" for options
    by (simp add: example_gateway_world_def Connect_def connect_attempt_def retry.simps)
  moreover have "waitForSubjects (gx_lookup example_gateway_world) [a, b] = Some None"
    by (simp add: example_gateway_world_def waitForSubjects_def wait_attempt_def retry.simps)
  moreover have "gx_jetstream example_gateway_world c = None" for c by (simp add: example_gateway_world_def)
  ultimately show ?thesis using hasher
    by (simp add: gateway_start_def Let_def example_gateway_process_def)
qed

lemma example_gateway_ran: "\<exists>handler. gateway_run example_gateway_world peppered = Some (Inr handler)"
  using gateway_start_run [of example_gateway_world peppered] unfolding example_gateway_start
  by (cases "gateway_run example_gateway_world peppered")
     (auto simp: example_gateway_process_def spawn_def acquire_def fresh_process_def split: sum.splits)

theorem gateway_lifecycle_witness:
  "\<exists>p p'. gateway_start example_gateway_world peppered = Some example_gateway_process \<and>
     gateway_process_step example_gateway_process p \<and> pr_live p = [Shutdown_watch, Central_system] \<and>
     gateway_process_step\<^sup>*\<^sup>* p p' \<and> pr_phase p' = Exited 0 \<and> Central_system \<notin> set (pr_live p')"
proof -
  note life = gateway_lifecycle [OF example_gateway_start]
  let ?p = "finish Health_server example_gateway_process"
  have live: "pr_live example_gateway_process = gateway_goroutines" "\<not> exited example_gateway_process" "\<not> pr_shutdown example_gateway_process"
    by (simp_all add: example_gateway_process_def spawn_def acquire_def fresh_process_def exited_def)
  have failed: "gateway_process_step example_gateway_process ?p"
    using gateway_process_step.health [of example_gateway_process "PlainError ''bind: address already in use''"] live
    by (simp add: gateway_goroutines_def listen_returns_def ErrServerClosed_def)
  then have "(gateway_process_step ^^ 1) example_gateway_process ?p" by (simp add: OO_eq relcompp_apply)
  then obtain p' where p': "gateway_process_step\<^sup>*\<^sup>* ?p p'" "exited p'" using life by blast
  then obtain n where "(gateway_process_step ^^ n) example_gateway_process p'"
    using failed by (meson converse_rtranclp_into_rtranclp rtranclp_imp_relpowp)
  from life [OF this] p'(2) have "pr_phase p' = Exited 0 \<and> Central_system \<notin> set (pr_live p')"
    using example_gateway_ran by (auto simp: exited_def gateway_error_def exit_code_def split: phase.splits)
  then show ?thesis using example_gateway_start failed p'(1) live(1)
    by (intro exI [of _ ?p] exI [of _ p']) (simp add: finish_def gateway_goroutines_def)
qed

end
