(* ===== verification/Spec2Isabelle.thy ===== *)
theory Spec2Isabelle
  imports Advice_Theorems Api_Theorems Field_System Lifecycle
begin

text \<open>
  A verification development of ORVOLT, the backend of a network of charging stations: the Go services
  under \<open>src/cloud\<close> (the control plane, the OCPP gateway and the package they share) and the edge agent
  under \<open>src/edge/orvolt-edge-agent\<close> that feeds them telemetry.

  \<^bold>\<open>The system.\<close> Charge points speak OCPP 1.6 to the gateway, which translates their calls into
  canonical Protobuf messages and publishes them on a NATS JetStream bus below its own device subject.
  Edge agents at the sites do the same with the readings of a local broker, through a spool on flash.
  The control plane consumes the bus in batches, decodes and validates each message, parks what it
  rejects in a dead-letter stream and stores the rest in PostgreSQL. From the tables it answers an
  HTTP API and, on a timer, publishes for every active site a proposal of how its power may be shared.

  \<^bold>\<open>Foundations.\<close>
  \<^item> \<open>Prelude\<close>: Go errors, instants, durations, 64-bit integers; generic lemmas.
  \<^item> \<open>Float64\<close>: binary64 with rounding to nearest even, signed zeros, infinities and NaN, and the error
    bounds of its operations (locale \<open>budget_rounding\<close>, interpreted on \<open>round64\<close>).
  \<^item> \<open>GoLib\<close>, \<open>GoParse\<close>, \<open>GoSort\<close>, \<open>Sha256\<close>: what the code uses of \<open>strings\<close>, \<open>strconv\<close>, \<open>time\<close>, \<open>sort\<close>
    and \<open>crypto\<close>. A sorting function is one definition with the laws of \<open>strict_weak_order\<close>.

  \<^bold>\<open>Control plane\<close> (\<open>src/cloud/control-plane/internal\<close>, one theory per package or file).
  \<^item> \<open>Domain\<close>: \<open>domain/domain.go\<close>, \<open>domain/session.go\<close>; locale \<open>persister\<close> is the contract of a batch write.
  \<^item> \<open>Contract\<close>: \<open>contract/*.go\<close>, the three decoders (locale \<open>decoder\<close>, interpreted on each).
  \<^item> \<open>Store\<close>: the writing half of \<open>store/postgres.go\<close> and \<open>store/sessions.go\<close>: tables, SQL statements as
    functions on tables, batches, transactions. \<open>Store_Queries\<close>: the reading half, with \<open>store/demand.go\<close>.
    \<open>Store_Laws\<close>, \<open>Store_Sessions\<close>, \<open>Query_Laws\<close> hold their laws, \<open>Store_Theorems\<close> the properties: batches are
    atomic and keep the tables consistent, a bill depends neither on the order nor on the repetition of
    deliveries, and the queries return what they say.
  \<^item> \<open>Migrations\<close>: \<open>store/migrations.go\<close>; scripts run once and in order across interrupted start-ups.
  \<^item> \<open>Metrics\<close>, \<open>Ingest\<close>, \<open>Ingest_Theorems\<close>: \<open>metrics/metrics.go\<close> and \<open>ingest/*.go\<close>: the batch runner with its
    dead letters and settlements, the origin check and the construction of the runners. Locale
    \<open>repository_runner\<close> joins \<open>decoder\<close> and \<open>persister\<close> and is interpreted on the three runners.
  \<^item> \<open>Advice\<close>, \<open>Advice_Budget\<close>, \<open>Advice_Fairness\<close>, \<open>Advice_Theorems\<close>: \<open>advice/allocate.go\<close>, operation by operation
    in binary64. Up to rounding, the proposal stays within the power available, uses all of it when
    somebody has to be limited, and gives nobody more than a limited station while that one goes short.
  \<^item> \<open>Repository\<close>, \<open>Advice_Publisher\<close>, \<open>HttpApi\<close>, \<open>Api_Theorems\<close>: the reading interface of the store, its two
    clients \<open>advice/publisher.go\<close> and \<open>httpapi/api.go\<close>, and that they agree.
  \<^item> \<open>Config\<close>, \<open>Control_Plane\<close>: \<open>config/config.go\<close> and \<open>cmd/control-plane/main.go\<close>: the settings, the start-up
    sequence, readiness, when a service stops the process, and the scan for silent stations.

  \<^bold>\<open>Gateway\<close> (\<open>src/cloud/ocpp-gateway\<close>) and \<^bold>\<open>shared bus\<close> (\<open>src/cloud/shared/bus\<close>).
  \<^item> \<open>Bus\<close>: device subjects and the connection loop, which returns exactly when it can.
  \<^item> \<open>Identity\<close>: the keyed hash of tokens (\<open>internal/identity/token.go\<close>).
  \<^item> \<open>Csms_Mapping\<close>, \<open>Gateway_Publisher\<close>, \<open>Csms_Handler\<close>: \<open>internal/csms/mapping.go\<close>,
    \<open>internal/publisher/publisher.go\<close> and \<open>internal/csms/handler.go\<close>, every handler as a function on the gateway's
    state (its counters, its clock reads and the bus). \<open>Csms_Laws\<close>: concurrent handlers as a step relation,
    with the invariant of its reachable states.
  \<^item> \<open>Gateway_Config\<close>, \<open>Gateway_Main\<close>: \<open>internal/config/config.go\<close> and the start-up of \<open>cmd/ocpp-gateway/main.go\<close>.
  \<^item> \<open>Gateway_Theorems\<close>: a transaction is confirmed only when its event is on the bus, identifiers are unique
    under any interleaving, telemetry passes the control plane's origin check, raw tokens never leave, and
    a session started and stopped at the gateway is billed for the difference of its registers.

  \<^bold>\<open>The system as a whole.\<close>
  \<^item> \<open>Delivery\<close>: the three runners of \<open>ingest/*.go\<close> behind a broker that delivers in any order and as often
    as it likes, forgets settlements and drops what exceeds its limits, and in a process that may die at any
    point of a batch; a delivery takes at most a batch. Locale \<open>stream_consumer\<close> (the step relation, its
    invariant and that healthy deliveries drain the stream) rests on \<open>repository_runner\<close>; locale
    \<open>evidence_store\<close> says that a stored value keeps a row under its key, its extension \<open>table_store\<close> that every
    row is the row of a value. All are interpreted on the three streams.
  \<^item> \<open>Platform\<close>: the three consumers together, on one database and one dead-letter stream. The batches of
    one stream leave the records of the others alone, so no message of any stream is lost: what is settled
    is parked, or its row is stored, or a row of the same key came first.
  \<^item> \<open>Cloud_System\<close>: the gateway's steps and the platform joined in one step relation, with the gateway's
    messages appended to the telemetry and session streams: the start of a confirmed transaction is never
    lost, and a session whose two ends are settled is billed for the difference of its registers.
  \<^item> \<open>Lifecycle\<close>: both commands from start to exit, with the resources \<open>run\<close> acquires and defers, the
    goroutines, the signal, the shutdown and the exit code of \<open>main\<close>. Locale \<open>service\<close> is \<open>ingest.Service\<close>
    (interpreted on the loops of the runners and of the advice publisher), locale \<open>ending_process\<close> a process
    whose every step brings it closer to its end (interpreted on both commands). A resource is released
    once and in reverse order, after the goroutines that use it; the control plane's request handlers are
    counted, and have the pool and the bus as long as they run unless \<open>Shutdown\<close> gave up at its deadline.
    Both processes always reach the exit: the gateway in at most 12 steps, the control plane, once its
    listener is closed, in at most 16 besides the handlers that end.

  \<^bold>\<open>Edge agent\<close> (\<open>src/edge/orvolt-edge-agent/src\<close>, in Rust).
  \<^item> \<open>Edge_Io\<close>: a machine with files, a bus and a schedule of faults; every system call works, fails after
    writing a part, or is the last thing the process does. A fallible function is a state transformer with a
    reply, composed as \<open>?\<close> composes.
  \<^item> \<open>Edge_Spool\<close>: \<open>spool.rs\<close>, every method. \<open>Edge_Log\<close>: the record format read back, also when torn.
    \<open>Edge_Queue\<close>, \<open>Edge_Spool_Laws\<close>, \<open>Edge_Spool_Ops\<close>, \<open>Edge_Spool_Safety\<close>, \<open>Edge_Spool_Restart\<close>,
    \<open>Edge_Spool_Frame\<close>: the queue a directory stands for, the invariant and what each method does to both under
    every fault.
  \<^item> \<open>Edge_Telemetry\<close>: \<open>clock.rs\<close>, \<open>subject.rs\<close>, \<open>telemetry.rs\<close>, \<open>observability.rs\<close>, \<open>watchdog.rs\<close>. \<open>Edge_Agent\<close>:
    \<open>pipeline.rs\<close> and \<open>main.rs\<close>, with the process as a step relation. \<open>Edge_Agent_Laws\<close>: locale \<open>telemetry_sink\<close> is the
    trait \<open>TelemetrySink\<close>, with the forwarder verified against it and interpreted on the sink of \<open>main.rs\<close>.
  \<^item> \<open>Edge_Safety\<close>, \<open>Edge_Delivery\<close>, \<open>Edge_Theorems\<close>, \<open>Edge_Readings\<close>: what was accepted is on flash, on the bus or
    discarded by the ceiling; a healthy drain delivers everything; the spool refines a queue; the edge and the
    cloud agree on what a reading is; and where the agent's code falls short.
  \<^item> \<open>Field_System\<close>: any number of agents in front of the platform: an accepted reading reaches the database.

  \<^bold>\<open>How it is modelled.\<close> A struct is a record, an error a value, \<open>fmt.Errorf\<close> with \<open>%w\<close> the constructor
  \<open>Wrapped\<close>; state is passed explicitly; machine integers wrap where the code lets them. A Go string is a
  list of bytes. Code that is not in the repository is a parameter: the Protobuf codec, NATS and
  JetStream, the database server (which may refuse any statement, fail a commit or commit and lose the answer),
  the collation of the database, the clock, the environment and the Unicode case tables.

  \<^bold>\<open>Loops and bounds.\<close> Structural recursion wherever the code ranges over a slice. The two loops of
  \<open>allocate\<close> are functions with a termination measure. The retry loops of the bus and the gateway are
  \<open>partial_function (option)\<close>, where \<open>None\<close> means that the loop never returns, with theorems on exactly when
  it does. A service's \<open>Run\<close> is a fold over the batches or ticks it meets, however many. The cursor of the
  API is followed with as many requests as there are rows and one more, which is shown to be enough. The
  loops of the spool have termination measures, the drain is a \<open>partial_function (option)\<close> that is shown to
  return. Segment numbers are 64-bit in the code: runs of the agent are bounded by \<open>2\<^sup>6\<^sup>4\<close> steps, before
  which they do not wrap. A reading is taken only while the writer's buffer of the spool has room for it,
  which failed flushes may use up; what happens then is shown separately. Decimal registers are covered up
  to three digits behind the point and a whole part of \<open>2\<^sup>3\<^sup>9\<close>.

  \<^bold>\<open>Not modelled.\<close> Logging, the registration of metrics, sockets and the timeouts of single calls, which are
  the libraries' and change no state of the program. Handlers of different charge points interleave at the
  broker's answer to a start, the other calls are one step each, and goroutines interleave at their return,
  not instruction by instruction; the OCPP library's server is taken to run until it is stopped, and whether
  it then waits for a handler in flight is its own. A power cut that loses data the kernel had accepted is not a
  step of the edge agent. Generated Protobuf code, the SQL text of the migration scripts, deployment files and
  the simulator.
\<close>

end
